(* ===== verification/MDesk_Prelude.thy ===== *)
theory MDesk_Prelude
  imports Main "HOL-Library.Word" "HOL-Library.Sublist"
begin

unbundle bit_operations_syntax

text \<open>
  Shared vocabulary of the MDesk development.

  \<^item> Machine integers are words of their Rust width; \<open>usize\<close> is 64 bits wide, as on every target
    the desktop engine is shipped for.  The release profile of \<open>src/Cargo.toml\<close> leaves overflow
    checks off, so word arithmetic wraps exactly as HOL-Library.Word does.
  \<^item> Byte vectors are lists of bytes; their lengths are natural numbers (a Rust vector is never
    longer than \<open>isize::MAX\<close>).
  \<^item> Strings are the UTF-8 bytes of the Rust string, as \<open>char list\<close>.
  \<^item> A \<open>HashMap\<close> is an association list with distinct keys; the list order is one of the
    iteration orders the hash map may have.  Its laws are the locale \<open>hash_store\<close>, so that
    clients reason about lookups, insertions, removals and sizes only.
\<close>

section \<open>Machine integers\<close>

type_synonym u8 = "8 word"
type_synonym u16 = "16 word"
type_synonym u32 = "32 word"
type_synonym u64 = "64 word"
type_synonym u128 = "128 word"
type_synonym i32 = "32 word"
type_synonym i64 = "64 word"
type_synonym bytes = "8 word list"

definition sat_sub :: "'a::len word \<Rightarrow> 'a word \<Rightarrow> 'a word" where
  "sat_sub a b = (if a < b then 0 else a - b)"

definition checked_sub :: "'a::len word \<Rightarrow> 'a word \<Rightarrow> 'a word option" where
  "checked_sub a b = (if a < b then None else Some (a - b))"

definition checked_add :: "'a::len word \<Rightarrow> 'a word \<Rightarrow> 'a word option" where
  "checked_add a b = (if unat a + unat b < 2 ^ LENGTH('a) then Some (a + b) else None)"

definition sat_add :: "'a::len word \<Rightarrow> 'a word \<Rightarrow> 'a word" where
  "sat_add a b = (case checked_add a b of Some c \<Rightarrow> c | None \<Rightarrow> - 1)"

lemma checked_sub_Some: "checked_sub a b = Some c \<longleftrightarrow> b \<le> a \<and> c = a - b"
  by (auto simp: checked_sub_def not_less)

lemma unat_diff_le: "b \<le> a \<Longrightarrow> unat (a - b) = unat a - unat b" for a b :: "'a::len word"
  by (simp add: unat_sub)

lemma checked_add_Some: "checked_add a b = Some c \<longleftrightarrow> unat c = unat a + unat b"
  for a b c :: "'a::len word"
proof (cases "unat a + unat b < 2 ^ LENGTH('a)")
  case True
  then have "unat (a + b) = unat a + unat b" by (simp add: unat_word_ariths)
  with True show ?thesis by (auto simp: checked_add_def word_unat_eq_iff)
next
  case False
  have "unat c < 2 ^ LENGTH('a)" by (rule unsigned_less)
  with False have "unat c \<noteq> unat a + unat b" by linarith
  with False show ?thesis by (simp add: checked_add_def)
qed

lemma bit_lt_exp:
  fixes x :: "'a::len word"
  assumes "unat x < 2 ^ k" and "bit x i"
  shows "i < k"
proof (rule ccontr)
  assume "\<not> i < k"
  note assms(1)
  also have "(2::nat) ^ k \<le> 2 ^ i" using \<open>\<not> i < k\<close> by simp
  finally have "\<not> bit (unat x) i" by (simp add: bit_iff_odd)
  with assms(2) show False by (simp add: bit_unsigned_iff)
qed

lemma unat_lt_expI:
  fixes x :: "'a::len word"
  assumes "\<And>i. bit x i \<Longrightarrow> i < k"
  shows "unat x < 2 ^ k"
proof -
  have "take_bit k x = x"
    by (rule bit_word_eqI) (auto simp: bit_simps dest: assms)
  then have "unat x = take_bit k (unat x)"
    by (metis unsigned_take_bit_eq)
  then show ?thesis by (metis take_bit_nat_less_exp)
qed

section \<open>Hash maps\<close>

type_synonym ('k, 'v) hmap = "('k \<times> 'v) list"

definition hm_get :: "('k, 'v) hmap \<Rightarrow> 'k \<Rightarrow> 'v option" where
  "hm_get m k = map_of m k"

definition hm_del :: "'k \<Rightarrow> ('k, 'v) hmap \<Rightarrow> ('k, 'v) hmap" where
  "hm_del k m = filter (\<lambda>(k', v). k' \<noteq> k) m"

definition hm_put :: "'k \<Rightarrow> 'v \<Rightarrow> ('k, 'v) hmap \<Rightarrow> ('k, 'v) hmap" where
  "hm_put k v m = (k, v) # hm_del k m"

definition hm_retain :: "('k \<Rightarrow> 'v \<Rightarrow> bool) \<Rightarrow> ('k, 'v) hmap \<Rightarrow> ('k, 'v) hmap" where
  "hm_retain P m = filter (\<lambda>(k, v). P k v) m"

definition hm_ok :: "('k, 'v) hmap \<Rightarrow> bool" where
  "hm_ok m \<longleftrightarrow> distinct (map fst m)"

text \<open>The interface every registry of the program uses.\<close>

locale hash_store =
  fixes empty :: "'m"
    and get :: "'m \<Rightarrow> 'k \<Rightarrow> 'v option"
    and put :: "'k \<Rightarrow> 'v \<Rightarrow> 'm \<Rightarrow> 'm"
    and del :: "'k \<Rightarrow> 'm \<Rightarrow> 'm"
    and retain :: "('k \<Rightarrow> 'v \<Rightarrow> bool) \<Rightarrow> 'm \<Rightarrow> 'm"
    and len :: "'m \<Rightarrow> nat"
    and ok :: "'m \<Rightarrow> bool"
  assumes get_empty: "get empty k = None"
    and ok_empty: "ok empty"
    and len_empty: "len empty = 0"
    and get_put: "get (put k v m) k' = (if k' = k then Some v else get m k')"
    and get_del: "get (del k m) k' = (if k' = k then None else get m k')"
    and get_retain: "ok m \<Longrightarrow> get (retain P m) k =
      (case get m k of None \<Rightarrow> None | Some v \<Rightarrow> if P k v then Some v else None)"
    and ok_put: "ok m \<Longrightarrow> ok (put k v m)"
    and ok_del: "ok m \<Longrightarrow> ok (del k m)"
    and ok_retain: "ok m \<Longrightarrow> ok (retain P m)"
    and len_put: "ok m \<Longrightarrow> len (put k v m) = (if get m k = None then Suc (len m) else len m)"
    and len_del: "len (del k m) \<le> len m"
    and len_retain: "len (retain P m) \<le> len m"
begin

lemma len_put_le: "ok m \<Longrightarrow> len (put k v m) \<le> Suc (len m)"
  by (simp add: len_put)

text \<open>A registry that refuses an insertion at its limit never exceeds the limit.\<close>

lemma capped_put: "ok m \<Longrightarrow> len m < n \<Longrightarrow> len (put k v m) \<le> n"
  by (simp add: len_put)

lemma capped_overwrite: "ok m \<Longrightarrow> get m k \<noteq> None \<Longrightarrow> len m \<le> n \<Longrightarrow> len (put k v m) \<le> n"
  by (auto simp: len_put)

lemma capped_del: "len m \<le> n \<Longrightarrow> len (del k m) \<le> n"
  using len_del [of k m] by simp

lemma capped_retain: "len m \<le> n \<Longrightarrow> len (retain P m) \<le> n"
  using len_retain [of P m] by simp

lemma get_put_same [simp]: "get (put k v m) k = Some v"
  by (simp add: get_put)

lemma get_del_same [simp]: "get (del k m) k = None"
  by (simp add: get_del)

lemma get_retain_Some:
  "ok m \<Longrightarrow> get (retain P m) k = Some v \<longleftrightarrow> get m k = Some v \<and> P k v"
  by (auto simp: get_retain split: option.splits)

end

lemma map_of_filter_key: "map_of (filter (\<lambda>(k', v). k' \<noteq> k) m) k' = (if k' = k then None else map_of m k')"
  by (induction m) auto

lemma map_of_filter_distinct:
  "distinct (map fst m) \<Longrightarrow> map_of (filter (\<lambda>(k, v). P k v) m) k =
    (case map_of m k of None \<Rightarrow> None | Some v \<Rightarrow> if P k v then Some v else None)"
proof (induction m)
  case Nil
  then show ?case by simp
next
  case (Cons p m)
  then have "k = fst p \<Longrightarrow> map_of m k = None"
    by (metis distinct.simps(2) list.simps(9) map_of_eq_None_iff list.set_map)
  with Cons show ?case
    by (cases p) (auto split: option.splits if_splits)
qed

lemma length_hm_del_absent: "map_of m k = None \<Longrightarrow> filter (\<lambda>(k', v). k' \<noteq> k) m = m"
  by (induction m) (auto split: if_splits)

lemma length_hm_del_present:
  "distinct (map fst m) \<Longrightarrow> map_of m k \<noteq> None \<Longrightarrow>
    Suc (length (filter (\<lambda>(k', v). k' \<noteq> k) m)) = length m"
proof (induction m)
  case Nil
  then show ?case by simp
next
  case (Cons p m)
  show ?case
  proof (cases "fst p = k")
    case True
    with Cons.prems have "map_of m k = None"
      by (auto simp: map_of_eq_None_iff image_iff)
    with True show ?thesis
      by (cases p) (simp add: length_hm_del_absent)
  next
    case False
    with Cons show ?thesis by (cases p) auto
  qed
qed

lemma hm_ok_filter: "hm_ok m \<Longrightarrow> hm_ok (filter Q m)"
  unfolding hm_ok_def by (induction m) auto

lemma hm_ok_put: "hm_ok m \<Longrightarrow> hm_ok (hm_put k v m)"
  using hm_ok_filter [of m "\<lambda>(k', v). k' \<noteq> k"]
  by (auto simp: hm_ok_def hm_put_def hm_del_def)

lemma hm_get_key: "hm_get m k = Some v \<Longrightarrow> k \<in> fst ` set m"
  by (force simp: hm_get_def dest: map_of_SomeD)

lemma hm_ok_card: "hm_ok m \<Longrightarrow> card (fst ` set m) = length m"
  using distinct_card [of "map fst m"] by (simp add: hm_ok_def)

interpretation hm: hash_store "[] :: ('k, 'v) hmap" hm_get hm_put hm_del hm_retain length hm_ok
proof unfold_locales
  fix k k' :: 'k and v :: 'v and m :: "('k, 'v) hmap" and P :: "'k \<Rightarrow> 'v \<Rightarrow> bool"
  show "hm_get [] k = (None :: 'v option)" by (simp add: hm_get_def)
  show "hm_ok ([] :: ('k, 'v) hmap)" by (simp add: hm_ok_def)
  show "length ([] :: ('k, 'v) hmap) = 0" by simp
  show "hm_get (hm_put k v m) k' = (if k' = k then Some v else hm_get m k')"
    by (simp add: hm_get_def hm_put_def hm_del_def map_of_filter_key)
  show "hm_get (hm_del k m) k' = (if k' = k then None else hm_get m k')"
    by (simp add: hm_get_def hm_del_def map_of_filter_key)
  show "hm_ok m \<Longrightarrow> hm_get (hm_retain P m) k =
      (case hm_get m k of None \<Rightarrow> None | Some v \<Rightarrow> if P k v then Some v else None)"
    by (simp add: hm_get_def hm_retain_def hm_ok_def map_of_filter_distinct)
  show "hm_ok m \<Longrightarrow> hm_ok (hm_put k v m)" by (rule hm_ok_put)
  show "hm_ok m \<Longrightarrow> hm_ok (hm_del k m)" by (simp add: hm_del_def hm_ok_filter)
  show "hm_ok m \<Longrightarrow> hm_ok (hm_retain P m)" by (simp add: hm_retain_def hm_ok_filter)
  show "hm_ok m \<Longrightarrow> length (hm_put k v m) = (if hm_get m k = None then Suc (length m) else length m)"
    using length_hm_del_present [of m k]
    by (simp add: hm_get_def hm_ok_def hm_put_def hm_del_def length_hm_del_absent
        del: not_None_eq)
  show "length (hm_del k m) \<le> length m" by (simp add: hm_del_def)
  show "length (hm_retain P m) \<le> length m" by (simp add: hm_retain_def)
qed

section \<open>Strings\<close>

definition strip_prefix :: "string \<Rightarrow> string \<Rightarrow> string option" where
  "strip_prefix p s = (if prefix p s then Some (drop (length p) s) else None)"

definition char_code :: "char \<Rightarrow> nat" where
  "char_code c = of_char c"

definition digit_value :: "nat \<Rightarrow> char \<Rightarrow> nat option" where
  "digit_value radix c =
     (let n = char_code c;
          d = (if 48 \<le> n \<and> n \<le> 57 then n - 48
               else if 97 \<le> n \<and> n \<le> 122 then n - 87
               else if 65 \<le> n \<and> n \<le> 90 then n - 55 else 36)
      in if d < radix then Some d else None)"

fun parse_digits :: "nat \<Rightarrow> nat \<Rightarrow> string \<Rightarrow> nat option" where
  "parse_digits radix acc [] = Some acc"
| "parse_digits radix acc (c # cs) =
     (case digit_value radix c of None \<Rightarrow> None | Some d \<Rightarrow> parse_digits radix (acc * radix + d) cs)"

text \<open>\<open>from_str_radix\<close> of an unsigned type of the given width: an optional plus sign, at least one
  digit, no overflow.  (The error an overflowing text gives does not depend on where it overflows,
  so it is tested at the end.)\<close>

definition parse_unsigned :: "nat \<Rightarrow> nat \<Rightarrow> string \<Rightarrow> nat option" where
  "parse_unsigned width radix s =
     (let digits = (case s of c # cs \<Rightarrow> if c = CHR ''+'' then cs else s | [] \<Rightarrow> [])
      in if digits = [] then None
         else case parse_digits radix 0 digits of
           None \<Rightarrow> None
         | Some n \<Rightarrow> if n < 2 ^ width then Some n else None)"

text \<open>The bytes of a string and the string of UTF-8 bytes.\<close>

definition to_bytes :: "string \<Rightarrow> bytes" where
  "to_bytes s = map (\<lambda>c. of_nat (char_code c)) s"

definition of_bytes :: "bytes \<Rightarrow> string" where
  "of_bytes b = map (\<lambda>x. char_of (unat x)) b"

lemma char_code_less: "char_code c < 256"
  by (simp add: char_code_def)

lemma bytes_inverse [simp]: "to_bytes (of_bytes b) = b" "of_bytes (to_bytes s) = s"
proof -
  have "of_nat (char_code (char_of (unat x))) = (x :: u8)" for x
  proof -
    have "unat x mod 256 = unat x" using unsigned_less [of x, where 'a = nat] by simp
    then show ?thesis by (simp add: char_code_def)
  qed
  then show "to_bytes (of_bytes b) = b" by (induction b) (simp_all add: to_bytes_def of_bytes_def)
  have "char_of (unat (of_nat (char_code c) :: u8)) = c" for c
    using char_code_less [of c]
    by (simp add: unat_of_nat take_bit_nat_eq_self char_code_def)
  then show "of_bytes (to_bytes s) = s" by (induction s) (simp_all add: to_bytes_def of_bytes_def)
qed

lemma to_bytes_Nil [simp]: "to_bytes s = [] \<longleftrightarrow> s = []" "of_bytes b = [] \<longleftrightarrow> b = []"
  by (simp_all add: to_bytes_def of_bytes_def)

lemma length_to_bytes [simp]: "length (to_bytes s) = length s" "length (of_bytes b) = length b"
  by (simp_all add: to_bytes_def of_bytes_def)

text \<open>\<open>from_str\<close> of a signed type.\<close>

definition parse_signed :: "nat \<Rightarrow> string \<Rightarrow> int option" where
  "parse_signed width s =
     (let neg = (case s of c # _ \<Rightarrow> c = CHR ''-'' | [] \<Rightarrow> False);
          digits = (case s of c # cs \<Rightarrow> if c = CHR ''+'' \<or> c = CHR ''-'' then cs else s | [] \<Rightarrow> [])
      in if digits = [] then None
         else case parse_digits 10 0 digits of
           None \<Rightarrow> None
         | Some n \<Rightarrow>
             let v = (if neg then - int n else int n)
             in if - (2 ^ (width - 1)) \<le> v \<and> v < 2 ^ (width - 1) then Some v else None)"

text \<open>\<open>str::split\<close> by a predicate on ASCII characters: always at least one piece.\<close>

fun str_split :: "(char \<Rightarrow> bool) \<Rightarrow> string \<Rightarrow> string list" where
  "str_split P [] = [[]]"
| "str_split P (c # cs) =
     (if P c then [] # str_split P cs
      else (case str_split P cs of l # ls \<Rightarrow> (c # l) # ls | [] \<Rightarrow> [[c]]))"

lemma str_split_not_Nil [simp]: "str_split P s \<noteq> []"
  by (induction s) (auto split: list.splits)

lemma str_split_none: "\<forall>c \<in> set s. \<not> P c \<Longrightarrow> str_split P s = [s]"
  by (induction s) auto

lemma str_split_at:
  "\<forall>c \<in> set s. \<not> P c \<Longrightarrow> P d \<Longrightarrow> str_split P (s @ d # t) = s # str_split P t"
  by (induction s) auto

lemma str_split_pieces: "l \<in> set (str_split P s) \<Longrightarrow> \<forall>c \<in> set l. \<not> P c"
proof (induction s arbitrary: l)
  case (Cons a s)
  then show ?case by (fastforce split: if_splits list.splits)
qed simp

text \<open>Decimal digits of a natural number.\<close>

fun nat_text :: "nat \<Rightarrow> string" where
  "nat_text n = (if n < 10 then [char_of (48 + n)] else nat_text (n div 10) @ [char_of (48 + n mod 10)])"

declare nat_text.simps [simp del]

definition int_text :: "int \<Rightarrow> string" where
  "int_text i = (if i < 0 then CHR ''-'' # nat_text (nat (- i)) else nat_text (nat i))"

lemma digit_value_of: "d < 10 \<Longrightarrow> digit_value 10 (char_of (48 + d)) = Some d"
  by (simp add: digit_value_def char_code_def Let_def)

lemma parse_digits_append:
  "parse_digits r a (s @ t) = (case parse_digits r a s of None \<Rightarrow> None | Some b \<Rightarrow> parse_digits r b t)"
  by (induction s arbitrary: a) (auto split: option.splits)

lemma parse_nat_text: "\<exists>k. \<forall>a. parse_digits 10 a (nat_text n) = Some (a * 10 ^ k + n)"
proof (induction n rule: nat_text.induct)
  case (1 n)
  show ?case
  proof (cases "n < 10")
    case True
    then have "nat_text n = [char_of (48 + n)]" by (subst nat_text.simps) simp
    then show ?thesis by (intro exI [of _ 1]) (simp add: digit_value_of [OF True])
  next
    case False
    then obtain k where k: "\<And>a. parse_digits 10 a (nat_text (n div 10)) = Some (a * 10 ^ k + n div 10)"
      using 1 by blast
    have d: "n mod 10 < 10" by simp
    from False have "nat_text n = nat_text (n div 10) @ [char_of (48 + n mod 10)]"
      by (subst nat_text.simps) simp
    then have "parse_digits 10 a (nat_text n) = Some ((a * 10 ^ k + n div 10) * 10 + n mod 10)" for a
      by (simp add: parse_digits_append k digit_value_of [OF d])
    moreover have "(a * 10 ^ k + n div 10) * 10 + n mod 10 = a * 10 ^ Suc k + n" for a
      by (simp add: algebra_simps)
    ultimately show ?thesis by (intro exI [of _ "Suc k"]) simp
  qed
qed

lemma parse_nat_text_0: "parse_digits 10 0 (nat_text n) = Some n"
  using parse_nat_text [of n] by auto

lemma nat_text_digits: "c \<in> set (nat_text n) \<Longrightarrow> \<exists>d<10. c = char_of (48 + d :: nat)"
proof (induction n rule: nat_text.induct)
  case (1 n)
  show ?case
  proof (cases "n < 10")
    case True
    with 1(2) show ?thesis by (subst (asm) nat_text.simps) auto
  next
    case False
    then have "nat_text n = nat_text (n div 10) @ [char_of (48 + n mod 10)]"
      by (subst nat_text.simps) simp
    with 1(2) consider "c \<in> set (nat_text (n div 10))" | "c = char_of (48 + n mod 10)" by auto
    then show ?thesis
    proof cases
      case 2
      then show ?thesis by (intro exI [of _ "n mod 10"]) simp
    qed (use 1(1) False in blast)
  qed
qed

lemma nat_text_not_Nil [simp]: "nat_text n \<noteq> []"
  by (subst nat_text.simps) simp

lemma nat_text_not_sign: "c \<in> set (nat_text n) \<Longrightarrow> 48 \<le> char_code c \<and> char_code c < 58"
  using nat_text_digits [of c n] by (auto simp: char_code_def)

lemma parse_signed_text:
  assumes "int n < 2 ^ (w - 1)"
  shows "parse_signed w (nat_text n) = Some (int n)"
proof -
  obtain c cs where c: "nat_text n = c # cs" using nat_text_not_Nil [of n] by (cases "nat_text n") blast+
  then have "c \<noteq> CHR ''-''" "c \<noteq> CHR ''+''" using nat_text_not_sign [of c n] by (auto simp: char_code_def)
  have "- (2 ^ (w - 1)) \<le> int n" by (rule order_trans [of _ 0]) simp_all
  with assms c \<open>c \<noteq> CHR ''-''\<close> \<open>c \<noteq> CHR ''+''\<close> parse_nat_text_0 [of n] show ?thesis
    by (simp add: parse_signed_def Let_def)
qed

text \<open>\<open>str::trim\<close>: the UTF-8 encodings of the characters with the property \<open>White_Space\<close>.\<close>

definition ws_chars :: "string list" where
  "ws_chars = map (map char_of)
     ([[9], [10], [11], [12], [13], [32], [0xC2, 0x85], [0xC2, 0xA0], [0xE1, 0x9A, 0x80]] @
      map (\<lambda>i. [0xE2, 0x80, 0x80 + i]) [0..<11] @
      [[0xE2, 0x80, 0xA8], [0xE2, 0x80, 0xA9], [0xE2, 0x80, 0xAF], [0xE2, 0x81, 0x9F], [0xE3, 0x80, 0x80 :: nat]])"

definition strip_one :: "string list \<Rightarrow> string \<Rightarrow> string option" where
  "strip_one ws s = map_option (\<lambda>w. drop (length w) s) (find (\<lambda>w. w \<noteq> [] \<and> prefix w s) ws)"

lemma strip_one_shorter: "strip_one ws s = Some t \<Longrightarrow> length t < length s"
  by (auto simp: strip_one_def find_Some_iff prefix_def)

function strip_all :: "string list \<Rightarrow> string \<Rightarrow> string" where
  "strip_all ws s = (case strip_one ws s of Some t \<Rightarrow> strip_all ws t | None \<Rightarrow> s)"
  by auto
termination by (relation "measure (\<lambda>(ws, s). length s)") (auto dest: strip_one_shorter)

declare strip_all.simps [simp del]

definition str_trim :: "string \<Rightarrow> string" where
  "str_trim s = rev (strip_all (map rev ws_chars) (rev (strip_all ws_chars s)))"

definition eq_ignore_ascii_case :: "string \<Rightarrow> string \<Rightarrow> bool" where
  "eq_ignore_ascii_case a b =
     (let low = (\<lambda>c. if 65 \<le> char_code c \<and> char_code c \<le> 90 then char_code c + 32 else char_code c)
      in map low a = map low b)"

text \<open>\<open>str::find\<close>: the position of the first match.\<close>

fun find_index :: "(char \<Rightarrow> bool) \<Rightarrow> string \<Rightarrow> nat option" where
  "find_index P [] = None"
| "find_index P (c # cs) = (if P c then Some 0 else map_option Suc (find_index P cs))"

fun find_str :: "string \<Rightarrow> string \<Rightarrow> nat option" where
  "find_str p s =
     (if prefix p s then Some 0 else case s of [] \<Rightarrow> None | c # cs \<Rightarrow> map_option Suc (find_str p cs))"

declare find_str.simps [simp del]

text \<open>\<open>str::split\<close> by a string of at least one character.\<close>

function split_on :: "string \<Rightarrow> string \<Rightarrow> string list" where
  "split_on p s =
     (case find_str p s of
        None \<Rightarrow> [s]
      | Some i \<Rightarrow> if p = [] then [s] else take i s # split_on p (drop (i + length p) s))"
  by auto

lemma find_str_bound: "find_str p s = Some i \<Longrightarrow> i + length p \<le> length s"
proof (induction s arbitrary: i)
  case Nil
  then show ?case by (simp add: find_str.simps [of p] split: if_splits)
next
  case (Cons c s)
  then show ?case
    by (subst (asm) (2) find_str.simps) (fastforce split: if_splits dest: prefix_length_le)
qed

termination split_on
proof (relation "measure (\<lambda>(p, s). length s)")
  fix p s i assume "find_str p s = Some i" and "p \<noteq> []"
  then show "((p, drop (i + length p) s), p, s) \<in> measure (\<lambda>(p, s). length s)"
    using find_str_bound [of p s i] by (cases p) auto
qed simp

declare split_on.simps [simp del]

definition join :: "string \<Rightarrow> string list \<Rightarrow> string" where
  "join sep ls = (case ls of [] \<Rightarrow> [] | l # ls \<Rightarrow> concat (l # map (\<lambda>x. sep @ x) ls))"

end
