(* ===== verification/Bytes_Codec.thy ===== *)
theory Bytes_Codec
  imports MDesk_Prelude
begin

text \<open>
  The length-prefixed framing of \<open>libs/hbb_common/src/bytes_codec.rs\<close>: every control connection of
  the engine is a stream of packets framed by this codec.  The definitions follow the source:
  the codec state, \<open>decode_head\<close>, \<open>decode_data\<close>, \<open>decode\<close> and \<open>encode\<close>.  The only effect besides
  the value is the buffer the decoder consumes, which is passed explicitly, and the capacity that
  \<open>decode_head\<close> reserves ahead of the payload, which is returned so that it can be bounded.

  The tokio reader that drives a decoder calls it again after every packet and after every read
  from the socket.  That client is the locale \<open>stream_decoder\<close>: its laws say that appending bytes
  to the buffer never changes a decision already taken, and its lemma is that the packets found
  do not depend on how the bytes were cut into reads.
\<close>

section \<open>The codec\<close>

datatype decode_state = Head | Data u64

record bytes_codec =
  state :: decode_state
  raw :: bool
  max_packet_length :: u64

datatype codec_error = TooBigPacket | PacketOverflow

definition MAX_PREALLOCATED_PAYLOAD_LEN :: nat where
  "MAX_PREALLOCATED_PAYLOAD_LEN = 256 * 1024"

definition codec_new :: bytes_codec where
  "codec_new = \<lparr>state = Head, raw = False, max_packet_length = - 1\<rparr>"

definition set_raw :: "bytes_codec \<Rightarrow> bytes_codec" where
  "set_raw c = c\<lparr>raw := True\<rparr>"

definition set_max_packet_length :: "u64 \<Rightarrow> bytes_codec \<Rightarrow> bytes_codec" where
  "set_max_packet_length n c = c\<lparr>max_packet_length := n\<rparr>"

definition head_len_of :: "u8 \<Rightarrow> nat" where
  "head_len_of b = unat ((b AND 3) + 1)"

definition head_value :: "bytes \<Rightarrow> nat \<Rightarrow> u64" where
  "head_value src head_len =
     (let n = (ucast :: 8 word \<Rightarrow> 64 word) (src ! 0);
          n = (if head_len > 1 then n OR push_bit 8 ((ucast :: 8 word \<Rightarrow> 64 word) (src ! 1)) else n);
          n = (if head_len > 2 then n OR push_bit 16 ((ucast :: 8 word \<Rightarrow> 64 word) (src ! 2)) else n);
          n = (if head_len > 3 then n OR push_bit 24 ((ucast :: 8 word \<Rightarrow> 64 word) (src ! 3)) else n)
      in drop_bit 2 n)"

text \<open>\<open>Inr None\<close>: more bytes are needed.  \<open>Inr (Some (n, r, src'))\<close>: a header of value \<open>n\<close> was
  consumed, capacity \<open>r\<close> was reserved, and \<open>src'\<close> is the rest of the buffer.\<close>

definition decode_head :: "bytes_codec \<Rightarrow> bytes \<Rightarrow> codec_error + (u64 \<times> nat \<times> bytes) option" where
  "decode_head c src =
     (if src = [] then Inr None
      else let head_len = head_len_of (src ! 0) in
        if length src < head_len then Inr None
        else let n = head_value src head_len in
          if n > max_packet_length c then Inl TooBigPacket
          else let src' = drop head_len src in
            Inr (Some (n, min (unat n - length src') MAX_PREALLOCATED_PAYLOAD_LEN, src')))"

definition decode_data :: "u64 \<Rightarrow> bytes \<Rightarrow> (bytes \<times> bytes) option" where
  "decode_data n src =
     (if length src < unat n then None else Some (take (unat n) src, drop (unat n) src))"

definition decode_body :: "bytes_codec \<Rightarrow> u64 \<Rightarrow> bytes \<Rightarrow> bytes option \<times> bytes_codec \<times> bytes" where
  "decode_body c n src =
     (case decode_data n src of
        Some (data, src') \<Rightarrow> (Some data, c\<lparr>state := Head\<rparr>, src')
      | None \<Rightarrow> (None, c, src))"

definition decode :: "bytes_codec \<Rightarrow> bytes \<Rightarrow> codec_error + (bytes option \<times> bytes_codec \<times> bytes)" where
  "decode c src =
     (if raw c then
        (if src \<noteq> [] then Inr (Some src, c, []) else Inr (None, c, src))
      else case state c of
        Head \<Rightarrow>
          (case decode_head c src of
             Inl e \<Rightarrow> Inl e
           | Inr None \<Rightarrow> Inr (None, c, src)
           | Inr (Some (n, _, src')) \<Rightarrow> Inr (decode_body (c\<lparr>state := Data n\<rparr>) n src'))
      | Data n \<Rightarrow> Inr (decode_body c n src))"

definition put_u16_le :: "u16 \<Rightarrow> bytes" where
  "put_u16_le w = [(ucast :: 16 word \<Rightarrow> 8 word) w, (ucast :: 16 word \<Rightarrow> 8 word) (drop_bit 8 w)]"

definition put_u32_le :: "u32 \<Rightarrow> bytes" where
  "put_u32_le w = [(ucast :: 32 word \<Rightarrow> 8 word) w, (ucast :: 32 word \<Rightarrow> 8 word) (drop_bit 8 w),
                   (ucast :: 32 word \<Rightarrow> 8 word) (drop_bit 16 w), (ucast :: 32 word \<Rightarrow> 8 word) (drop_bit 24 w)]"

definition encode_head :: "u64 \<Rightarrow> codec_error + bytes" where
  "encode_head len =
     (if len \<le> 0x3F then Inr [(ucast :: 64 word \<Rightarrow> 8 word) (push_bit 2 len)]
      else if len \<le> 0x3FFF then Inr (put_u16_le ((ucast :: 64 word \<Rightarrow> 16 word) (push_bit 2 len) OR 1))
      else if len \<le> 0x3FFFFF then
        (let h = (ucast :: 64 word \<Rightarrow> 32 word) (push_bit 2 len) OR 2
         in Inr (put_u16_le ((ucast :: 32 word \<Rightarrow> 16 word) (h AND 0xFFFF)) @ [(ucast :: 32 word \<Rightarrow> 8 word) (drop_bit 16 h)]))
      else if len \<le> 0x3FFFFFFF then Inr (put_u32_le ((ucast :: 64 word \<Rightarrow> 32 word) (push_bit 2 len) OR 3))
      else Inl PacketOverflow)"

definition encode :: "bytes_codec \<Rightarrow> bytes \<Rightarrow> bytes \<Rightarrow> codec_error + bytes" where
  "encode c data buf =
     (if raw c then Inr (buf @ data)
      else case encode_head (of_nat (length data)) of
        Inl e \<Rightarrow> Inl e
      | Inr h \<Rightarrow> Inr (buf @ h @ data))"

section \<open>Headers\<close>

lemma bit_three: "bit (3 :: int) i \<longleftrightarrow> i < 2"
proof -
  have "bit (3 :: int) i = bit (mask 2 :: int) i" by (simp add: mask_eq_exp_minus_1)
  then show ?thesis by (simp only: bit_mask_iff) auto
qed

lemma bit_ffff: "bit (0xFFFF :: int) i \<longleftrightarrow> i < 16"
proof -
  have "bit (0xFFFF :: int) i = bit (mask 16 :: int) i" by (simp add: mask_eq_exp_minus_1)
  then show ?thesis by (simp only: bit_mask_iff) auto
qed

lemmas header_bits = bit_simps bit_three bit_ffff bit_1_iff bit_2_iff

lemma head_len_cases:
  "b AND 3 = 0 \<Longrightarrow> head_len_of b = 1" "b AND 3 = 1 \<Longrightarrow> head_len_of b = 2"
  "b AND 3 = 2 \<Longrightarrow> head_len_of b = 3" "b AND 3 = 3 \<Longrightarrow> head_len_of b = 4"
  by (simp_all add: head_len_of_def)

lemma head_value_unfold:
  "head_value (a # xs) 1 = drop_bit 2 (ucast a)"
  "head_value (a # b # xs) 2 = drop_bit 2 (ucast a OR push_bit 8 (ucast b))"
  "head_value (a # b # c # xs) 3 = drop_bit 2 (ucast a OR push_bit 8 (ucast b) OR push_bit 16 (ucast c))"
  "head_value (a # b # c # d # xs) 4 =
    drop_bit 2 (ucast a OR push_bit 8 (ucast b) OR push_bit 16 (ucast c) OR push_bit 24 (ucast d))"
  by (simp_all add: head_value_def numeral_2_eq_2 numeral_3_eq_3 or.assoc)

lemma header_1_byte:
  fixes len :: u64
  assumes "unat len < 2 ^ 6"
  shows "head_len_of (ucast (push_bit 2 len)) = 1"
    and "head_value (ucast (push_bit 2 len) # xs) 1 = len"
proof -
  have "(ucast (push_bit 2 len) :: u8) AND 3 = 0"
    by (rule bit_word_eqI) (auto simp: header_bits)
  then show "head_len_of (ucast (push_bit 2 len)) = 1" by (rule head_len_cases)
  note lt = bit_lt_exp [OF assms]
  show "head_value (ucast (push_bit 2 len) # xs) 1 = len"
    unfolding head_value_unfold
    by (rule bit_word_eqI) (auto simp: header_bits dest: lt)
qed

lemma bit_u16_lt: "bit w i \<Longrightarrow> i < 16" for w :: u16
  using bit_imp_le_length [of w i] by simp

lemma bit_u32_lt: "bit w i \<Longrightarrow> i < 32" for w :: u32
  using bit_imp_le_length [of w i] by simp

lemma join_u16:
  fixes w :: u16
  shows "ucast (ucast w :: u8) OR push_bit 8 (ucast (ucast (drop_bit 8 w) :: u8)) = (ucast w :: u64)"
proof (rule bit_word_eqI)
  fix n assume n: "n < LENGTH(64)"
  then consider "n < 8" | "8 \<le> n" "n < 16" | "16 \<le> n" by linarith
  then show "bit (ucast (ucast w :: u8) OR push_bit 8 (ucast (ucast (drop_bit 8 w) :: u8)) :: u64) n =
      bit (ucast w :: u64) n"
    using n by cases (auto simp: bit_simps dest: bit_u16_lt)
qed

lemma join_u24:
  fixes h :: u32
  assumes "\<And>i. bit h i \<Longrightarrow> i < 24"
  defines "w \<equiv> ucast (h AND 0xFFFF) :: u16"
  shows "ucast (ucast w :: u8) OR push_bit 8 (ucast (ucast (drop_bit 8 w) :: u8)) OR
      push_bit 16 (ucast (ucast (drop_bit 16 h) :: u8)) = (ucast h :: u64)"
proof (rule bit_word_eqI)
  have w: "bit w i \<longleftrightarrow> i < 16 \<and> bit h i" for i
    by (auto simp: w_def header_bits)
  fix n assume n: "n < LENGTH(64)"
  then consider "n < 8" | "8 \<le> n" "n < 16" | "16 \<le> n" "n < 24" | "24 \<le> n" by linarith
  then show "bit (ucast (ucast w :: u8) OR push_bit 8 (ucast (ucast (drop_bit 8 w) :: u8)) OR
      push_bit 16 (ucast (ucast (drop_bit 16 h) :: u8)) :: u64) n = bit (ucast h :: u64) n"
    using n by cases (auto simp: bit_simps w dest: assms(1))
qed

lemma join_u32:
  fixes w :: u32
  shows "ucast (ucast w :: u8) OR push_bit 8 (ucast (ucast (drop_bit 8 w) :: u8)) OR
      push_bit 16 (ucast (ucast (drop_bit 16 w) :: u8)) OR
      push_bit 24 (ucast (ucast (drop_bit 24 w) :: u8)) = (ucast w :: u64)"
proof (rule bit_word_eqI)
  fix n assume n: "n < LENGTH(64)"
  then consider "n < 8" | "8 \<le> n" "n < 16" | "16 \<le> n" "n < 24" | "24 \<le> n" "n < 32" | "32 \<le> n"
    by linarith
  then show "bit (ucast (ucast w :: u8) OR push_bit 8 (ucast (ucast (drop_bit 8 w) :: u8)) OR
      push_bit 16 (ucast (ucast (drop_bit 16 w) :: u8)) OR
      push_bit 24 (ucast (ucast (drop_bit 24 w) :: u8)) :: u64) n = bit (ucast w :: u64) n"
    using n by cases (auto simp: bit_simps dest: bit_u32_lt)
qed

lemma shift_tag_16:
  fixes len :: u64
  assumes "unat len < 2 ^ 14"
  shows "drop_bit 2 (ucast (ucast (push_bit 2 len) OR (1 :: u16)) :: u64) = len"
  by (rule bit_word_eqI) (auto simp: header_bits dest: bit_lt_exp [OF assms])

lemma shift_tag_24:
  fixes len :: u64
  assumes "unat len < 2 ^ 22"
  shows "drop_bit 2 (ucast (ucast (push_bit 2 len) OR (2 :: u32)) :: u64) = len"
  by (rule bit_word_eqI) (auto simp: header_bits dest: bit_lt_exp [OF assms])

lemma shift_tag_32:
  fixes len :: u64
  assumes "unat len < 2 ^ 30"
  shows "drop_bit 2 (ucast (ucast (push_bit 2 len) OR (3 :: u32)) :: u64) = len"
  by (rule bit_word_eqI) (auto simp: header_bits dest: bit_lt_exp [OF assms])

text \<open>Reading back a header that \<open>encode_head\<close> wrote, whatever follows it in the buffer.\<close>

definition header_reads :: "bytes \<Rightarrow> u64 \<Rightarrow> bool" where
  "header_reads h len \<longleftrightarrow> h \<noteq> [] \<and> head_len_of (h ! 0) = length h \<and>
     (\<forall>xs. head_value (h @ xs) (length h) = len)"

lemma header_readsI:
  "head_len_of a = k \<Longrightarrow> k = Suc (length t) \<Longrightarrow> (\<And>xs. head_value (a # t @ xs) k = len) \<Longrightarrow>
    header_reads (a # t) len"
  by (simp add: header_reads_def)

lemma header_reads_1: "unat len < 2 ^ 6 \<Longrightarrow> header_reads [ucast (push_bit 2 len)] len"
  by (rule header_readsI [where k = 1]) (auto simp only: header_1_byte append_Nil list.size)

lemma header_reads_2:
  assumes "unat len < 2 ^ 14"
  shows "header_reads (put_u16_le ((ucast :: 64 word \<Rightarrow> 16 word) (push_bit 2 len) OR 1)) len"
proof -
  define w where "w = (ucast :: 64 word \<Rightarrow> 16 word) (push_bit 2 len) OR 1"
  have "(ucast w :: u8) AND 3 = 1"
    unfolding w_def by (rule bit_word_eqI) (auto simp: header_bits)
  then have "header_reads (put_u16_le w) len"
    unfolding put_u16_le_def
  proof (intro header_readsI [where k = 2] head_len_cases)
    fix xs
    show "head_value (ucast w # [ucast (drop_bit 8 w)] @ xs) 2 = len"
      using shift_tag_16 [OF assms] by (simp only: append_Cons append_Nil head_value_unfold join_u16 w_def)
  qed simp_all
  then show ?thesis unfolding w_def .
qed

lemma header_reads_3:
  assumes "unat len < 2 ^ 22"
  defines "h \<equiv> (ucast :: 64 word \<Rightarrow> 32 word) (push_bit 2 len) OR 2"
  shows "header_reads (put_u16_le ((ucast :: 32 word \<Rightarrow> 16 word) (h AND 0xFFFF)) @
    [(ucast :: 32 word \<Rightarrow> 8 word) (drop_bit 16 h)]) len"
proof -
  define w where "w = (ucast :: 32 word \<Rightarrow> 16 word) (h AND 0xFFFF)"
  have "(ucast w :: u8) AND 3 = 2"
    unfolding w_def h_def by (rule bit_word_eqI) (auto simp: header_bits)
  then have "header_reads (ucast w # [ucast (drop_bit 8 w), ucast (drop_bit 16 h)]) len"
  proof (intro header_readsI [where k = 3] head_len_cases)
    have h: "bit h i \<Longrightarrow> i < 24" for i
      unfolding h_def by (auto simp: header_bits dest: bit_lt_exp [OF assms(1)])
    fix xs
    show "head_value (ucast w # [ucast (drop_bit 8 w), ucast (drop_bit 16 h)] @ xs) 3 = len"
      using shift_tag_24 [OF assms(1)] join_u24 [OF h]
      by (simp only: append_Cons append_Nil head_value_unfold w_def h_def)
  qed simp_all
  then show ?thesis unfolding w_def [symmetric] put_u16_le_def by simp
qed

lemma header_reads_4:
  assumes "unat len < 2 ^ 30"
  shows "header_reads (put_u32_le ((ucast :: 64 word \<Rightarrow> 32 word) (push_bit 2 len) OR 3)) len"
proof -
  define w where "w = (ucast :: 64 word \<Rightarrow> 32 word) (push_bit 2 len) OR 3"
  have "(ucast w :: u8) AND 3 = 3"
    unfolding w_def by (rule bit_word_eqI) (auto simp: header_bits)
  then have "header_reads (put_u32_le w) len"
    unfolding put_u32_le_def
  proof (intro header_readsI [where k = 4] head_len_cases)
    fix xs
    show "head_value (ucast w # [ucast (drop_bit 8 w), ucast (drop_bit 16 w), ucast (drop_bit 24 w)] @ xs) 4
        = len"
      using shift_tag_32 [OF assms] by (simp only: append_Cons append_Nil head_value_unfold join_u32 w_def)
  qed simp_all
  then show ?thesis unfolding w_def .
qed

lemma encode_head_reads: "encode_head len = Inr h \<Longrightarrow> header_reads h len"
  using header_reads_3 [of len] unfolding encode_head_def Let_def
  by (auto split: if_splits simp: word_le_nat_alt
      intro!: header_reads_1 header_reads_2 header_reads_4)

lemma encode_head_length: "encode_head len = Inr h \<Longrightarrow> 1 \<le> length h \<and> length h \<le> 4"
  unfolding encode_head_def Let_def
  by (auto split: if_splits simp: put_u16_le_def put_u32_le_def)

lemma head_len_bounds: "1 \<le> head_len_of b" "head_len_of b \<le> 4"
proof -
  have "b AND 3 = take_bit 2 b" by (simp add: take_bit_eq_mask mask_eq_exp_minus_1)
  then have "unat (b AND 3) < 4"
    by (simp add: unsigned_take_bit_eq take_bit_nat_def)
  then have "head_len_of b = Suc (unat (b AND 3))"
    by (simp add: head_len_of_def unat_word_ariths)
  with \<open>unat (b AND 3) < 4\<close> show "1 \<le> head_len_of b" "head_len_of b \<le> 4" by auto
qed

lemma head_value_append:
  "k \<le> length b \<Longrightarrow> 1 \<le> k \<Longrightarrow> k \<le> 4 \<Longrightarrow> head_value (b @ c) k = head_value b k"
  by (auto simp: head_value_def nth_append Let_def)

section \<open>Decoding a stream\<close>

text \<open>
  What the framed transport does with a decoder: it decodes until no packet is complete, reads
  the next chunk from the socket, and goes on; an error ends the connection.
\<close>

type_synonym ('a, 'e, 's) pumped = "'a list \<times> ('e + 's \<times> bytes)"

locale stream_decoder =
  fixes step :: "'s \<Rightarrow> bytes \<Rightarrow> 'e + ('a option \<times> 's \<times> bytes)"
    and weight :: "'s \<Rightarrow> nat"
    and good :: "'s \<Rightarrow> bool"
    and pump :: "'s \<Rightarrow> bytes \<Rightarrow> ('a, 'e, 's) pumped"
    and feed :: "'s \<Rightarrow> bytes \<Rightarrow> bytes list \<Rightarrow> ('a, 'e, 's) pumped"
  assumes step_good: "good s \<Longrightarrow> step s b = Inr (r, s', b') \<Longrightarrow> good s'"
    and step_error: "good s \<Longrightarrow> step s b = Inl e \<Longrightarrow> step s (b @ c) = Inl e"
    and step_item: "good s \<Longrightarrow> step s b = Inr (Some x, s', b') \<Longrightarrow>
      step s (b @ c) = Inr (Some x, s', b' @ c)"
    and step_wait: "good s \<Longrightarrow> step s b = Inr (None, s', b') \<Longrightarrow> step s (b @ c) = step s' (b' @ c)"
    and step_progress: "good s \<Longrightarrow> step s b = Inr (Some x, s', b') \<Longrightarrow>
      length b' + weight s' < length b + weight s"
    and pump_unfold: "pump s b = (case step s b of
        Inl e \<Rightarrow> ([], Inl e)
      | Inr (None, s', b') \<Rightarrow> ([], Inr (s', b'))
      | Inr (Some x, s', b') \<Rightarrow> (case pump s' b' of (xs, r) \<Rightarrow> (x # xs, r)))"
    and feed_Nil: "feed s b [] = ([], Inr (s, b))"
    and feed_Cons: "feed s b (c # cs) = (case pump s (b @ c) of
        (xs, Inl e) \<Rightarrow> (xs, Inl e)
      | (xs, Inr (s', b')) \<Rightarrow> (case feed s' b' cs of (ys, r) \<Rightarrow> (xs @ ys, r)))"
begin

lemma pump_step_cong: "step s b = step t d \<Longrightarrow> pump s b = pump t d"
  by (simp add: pump_unfold [of s b] pump_unfold [of t d])

lemma pump_append:
  "good s \<Longrightarrow> pump s (b @ c) = (case pump s b of
     (xs, Inl e) \<Rightarrow> (xs, Inl e)
   | (xs, Inr (s', b')) \<Rightarrow> (case pump s' (b' @ c) of (ys, r) \<Rightarrow> (xs @ ys, r)))"
proof (induction "length b + weight s" arbitrary: s b rule: less_induct)
  case less
  show ?case
  proof (cases "step s b")
    case (Inl e)
    then show ?thesis
      by (simp add: pump_unfold [of s] step_error [OF less.prems])
  next
    case (Inr r)
    obtain x s' b' where r: "r = (x, s', b')" by (cases r)
    show ?thesis
    proof (cases x)
      case None
      with Inr r have "step s (b @ c) = step s' (b' @ c)" by (simp add: step_wait [OF less.prems])
      then have "pump s (b @ c) = pump s' (b' @ c)" by (rule pump_step_cong)
      then show ?thesis
        using Inr r None by (simp add: pump_unfold [of s b])
    next
      case (Some y)
      have s: "step s b = Inr (Some y, s', b')" using Inr r Some by simp
      have IH: "pump s' (b' @ c) = (case pump s' b' of
           (xs, Inl e) \<Rightarrow> (xs, Inl e)
         | (xs, Inr (s'', b'')) \<Rightarrow> (case pump s'' (b'' @ c) of (ys, r) \<Rightarrow> (xs @ ys, r)))"
        by (rule less.hyps [OF step_progress [OF less.prems s] step_good [OF less.prems s]])
      show ?thesis
        unfolding pump_unfold [of s] s step_item [OF less.prems s] using IH
        by (simp split: prod.splits sum.splits)
    qed
  qed
qed

lemma pump_good: "good s \<Longrightarrow> pump s b = (xs, Inr (s', b')) \<Longrightarrow> good s'"
proof (induction "length b + weight s" arbitrary: s b xs rule: less_induct)
  case less
  from less.prems(2) show ?case
    using step_good [OF less.prems(1)] step_progress [OF less.prems(1)] less.hyps less.prems(1)
    by (subst (asm) pump_unfold)
      (fastforce split: sum.splits prod.splits option.splits)
qed

text \<open>After draining, nothing more comes out until bytes arrive.\<close>

lemma pump_drained: "good s \<Longrightarrow> pump s b = (xs, Inr (s', b')) \<Longrightarrow> pump s' b' = ([], Inr (s', b'))"
proof (induction "length b + weight s" arbitrary: s b xs rule: less_induct)
  case less
  note pump = less.prems(2) [unfolded pump_unfold [of s b]]
  show ?case
  proof (cases "step s b")
    case (Inr r)
    obtain x t d where r: "r = (x, t, d)" by (cases r)
    show ?thesis
    proof (cases x)
      case None
      then have "step s' b' = Inr (None, s', b')"
        using pump Inr r step_wait [OF less.prems(1), of b s' b' "[]"] by auto
      then show ?thesis by (simp add: pump_unfold [of s' b'])
    next
      case (Some y)
      then have s: "step s b = Inr (Some y, t, d)" using Inr r by simp
      then obtain ys where "pump t d = (ys, Inr (s', b'))" using pump by (auto split: prod.splits)
      then show ?thesis
        by (rule less.hyps [OF step_progress [OF less.prems(1) s] step_good [OF less.prems(1) s]])
    qed
  qed (use pump in simp)
qed

theorem feed_pump:
  "good s \<Longrightarrow> pump s b = ([], Inr (s, b)) \<Longrightarrow> feed s b cs = pump s (b @ concat cs)"
proof (induction cs arbitrary: s b)
  case Nil
  then show ?case by (simp add: feed_Nil)
next
  case (Cons c cs)
  have split: "pump s (b @ concat (c # cs)) = (case pump s (b @ c) of
     (xs, Inl e) \<Rightarrow> (xs, Inl e)
   | (xs, Inr (s', b')) \<Rightarrow> (case pump s' (b' @ concat cs) of (ys, r) \<Rightarrow> (xs @ ys, r)))"
    using pump_append [OF Cons.prems(1), of "b @ c" "concat cs"] by simp
  show ?case
  proof (cases "pump s (b @ c)")
    case (Pair xs r)
    then show ?thesis
      using split Cons.IH [OF pump_good [OF Cons.prems(1)] pump_drained [OF Cons.prems(1)]]
      by (cases r) (auto simp: feed_Cons)
  qed
qed

end

function pump :: "bytes_codec \<Rightarrow> bytes \<Rightarrow> (bytes, codec_error, bytes_codec) pumped" where
  "pump s b = (case decode s b of
     Inl e \<Rightarrow> ([], Inl e)
   | Inr (None, s', b') \<Rightarrow> ([], Inr (s', b'))
   | Inr (Some x, s', b') \<Rightarrow> (case pump s' b' of (xs, r) \<Rightarrow> (x # xs, r)))"
  by pat_completeness auto

fun codec_weight :: "bytes_codec \<Rightarrow> nat" where
  "codec_weight c = (case state c of Head \<Rightarrow> 0 | Data _ \<Rightarrow> 1)"

lemma decode_head_Some:
  "decode_head c src = Inr (Some (n, r, src')) \<longleftrightarrow>
    src \<noteq> [] \<and> head_len_of (src ! 0) \<le> length src \<and> n = head_value src (head_len_of (src ! 0)) \<and>
    n \<le> max_packet_length c \<and> src' = drop (head_len_of (src ! 0)) src \<and>
    r = min (unat n - length src') MAX_PREALLOCATED_PAYLOAD_LEN"
  by (auto simp: decode_head_def Let_def not_less)

lemma decode_body_Some:
  "decode_body c n src = (Some x, c', src') \<longleftrightarrow>
    unat n \<le> length src \<and> x = take (unat n) src \<and> c' = c\<lparr>state := Head\<rparr> \<and> src' = drop (unat n) src"
  by (auto simp: decode_body_def decode_data_def)

lemma decode_body_None:
  "decode_body c n src = (None, c', src') \<longleftrightarrow> length src < unat n \<and> c' = c \<and> src' = src"
  by (auto simp: decode_body_def decode_data_def)

lemma decode_progress:
  "decode c b = Inr (Some x, c', b') \<Longrightarrow> length b' + codec_weight c' < length b + codec_weight c"
  using head_len_bounds(1) [of "b ! 0"]
  by (fastforce simp: decode_def decode_head_Some decode_body_Some
      split: if_splits decode_state.splits sum.splits option.splits prod.splits)

termination pump
  by (relation "measure (\<lambda>(c, b). length b + codec_weight c)")
    (auto dest: decode_progress)

declare pump.simps [simp del]

fun feed :: "bytes_codec \<Rightarrow> bytes \<Rightarrow> bytes list \<Rightarrow> (bytes, codec_error, bytes_codec) pumped" where
  "feed s b [] = ([], Inr (s, b))"
| "feed s b (c # cs) = (case pump s (b @ c) of
     (xs, Inl e) \<Rightarrow> (xs, Inl e)
   | (xs, Inr (s', b')) \<Rightarrow> (case feed s' b' cs of (ys, r) \<Rightarrow> (xs @ ys, r)))"

lemma decode_cooked:
  "\<not> raw c \<Longrightarrow> state c = Data n \<Longrightarrow> decode c b = Inr (decode_body c n b)"
  "\<not> raw c \<Longrightarrow> state c = Head \<Longrightarrow> decode_head c b = Inl e \<Longrightarrow> decode c b = Inl e"
  "\<not> raw c \<Longrightarrow> state c = Head \<Longrightarrow> decode_head c b = Inr None \<Longrightarrow> decode c b = Inr (None, c, b)"
  "\<not> raw c \<Longrightarrow> state c = Head \<Longrightarrow> decode_head c b = Inr (Some (n, r, b')) \<Longrightarrow>
    decode c b = Inr (decode_body (c\<lparr>state := Data n\<rparr>) n b')"
  by (simp_all add: decode_def)

lemma decode_head_append:
  "decode_head c src = Inl e \<Longrightarrow> decode_head c (src @ d) = Inl e"
  "decode_head c src = Inr (Some (n, r, src')) \<Longrightarrow> \<exists>r'. decode_head c (src @ d) = Inr (Some (n, r', src' @ d))"
  using head_len_bounds [of "src ! 0"]
  by (auto simp: decode_head_def Let_def nth_append head_value_append split: if_splits)

lemma decode_body_append:
  "decode_body c n b = (Some x, c', b') \<Longrightarrow> decode_body c n (b @ d) = (Some x, c', b' @ d)"
  by (auto simp: decode_body_Some)

text \<open>Every call of \<open>decode\<close> outside raw mode, by the state and the header it finds.\<close>

lemma decode_elim:
  assumes "\<not> raw c"
  obtains (pending) n where "state c = Data n" "\<And>b'. decode c b' = Inr (decode_body c n b')"
  | (error) e where "state c = Head" "decode c b = Inl e" "\<And>d. decode c (b @ d) = Inl e"
  | (wait) "state c = Head" "decode c b = Inr (None, c, b)"
  | (header) n r b' where "state c = Head" "decode c b = Inr (decode_body (c\<lparr>state := Data n\<rparr>) n b')"
      "\<And>d. decode c (b @ d) = Inr (decode_body (c\<lparr>state := Data n\<rparr>) n (b' @ d))"
proof (cases "state c")
  case (Data n)
  then show ?thesis using pending decode_cooked(1) [OF assms Data] by blast
next
  case Head
  show ?thesis
  proof (cases "decode_head c b")
    case (Inl e)
    then show ?thesis
      using error [OF Head decode_cooked(2) [OF assms Head Inl]
          decode_cooked(2) [OF assms Head decode_head_append(1) [OF Inl]]] by blast
  next
    case (Inr r)
    show ?thesis
    proof (cases r)
      case None
      then show ?thesis using wait [OF Head decode_cooked(3) [OF assms Head]] Inr by simp
    next
      case (Some t)
      obtain n k b' where t: "t = (n, k, b')" by (cases t)
      then have h: "decode_head c b = Inr (Some (n, k, b'))" using Inr Some by simp
      have "decode c (b @ d) = Inr (decode_body (c\<lparr>state := Data n\<rparr>) n (b' @ d))" for d
        using decode_head_append(2) [OF h, of d] decode_cooked(4) [OF assms Head] by blast
      with header [OF Head decode_cooked(4) [OF assms Head h]] show ?thesis by blast
    qed
  qed
qed

interpretation codec: stream_decoder decode codec_weight "\<lambda>c. \<not> raw c" pump feed
proof unfold_locales
  fix c c' :: bytes_codec and b b' d x e
  assume cooked: "\<not> raw c"
  show "\<not> raw c'" if "decode c b = Inr (x, c', b')"
    using that cooked
    by (cases rule: decode_elim [OF cooked, where b = b]) (auto simp: decode_body_def split: option.splits)
  show "decode c (b @ d) = Inl e" if "decode c b = Inl e"
    using that cooked by (cases rule: decode_elim [OF cooked, where b = b]) auto
  show "decode c (b @ d) = decode c' (b' @ d)" if "decode c b = Inr (None, c', b')"
    using that cooked
    by (cases rule: decode_elim [OF cooked, where b = b]) (auto simp: decode_body_None decode_cooked(1))
next
  fix c c' :: bytes_codec and b b' d x
  assume cooked: "\<not> raw c" and item: "decode c b = Inr (Some x, c', b')"
  show "decode c (b @ d) = Inr (Some x, c', b' @ d)"
    using item cooked by (cases rule: decode_elim [OF cooked, where b = b]) (auto dest: decode_body_append)
  show "length b' + codec_weight c' < length b + codec_weight c"
    by (rule decode_progress [OF item])
qed (simp_all add: pump.simps)

section \<open>Properties\<close>

definition framed :: "bytes \<Rightarrow> bytes" where
  "framed p = (case encode codec_new p [] of Inr b \<Rightarrow> b | Inl _ \<Rightarrow> [])"

definition sendable :: "bytes_codec \<Rightarrow> bytes \<Rightarrow> bool" where
  "sendable c p \<longleftrightarrow> length p \<le> 0x3FFFFFFF \<and> length p \<le> unat (max_packet_length c)"

lemma encode_head_Inr: "len \<le> 0x3FFFFFFF \<Longrightarrow> \<exists>h. encode_head len = Inr h"
  by (auto simp: encode_head_def Let_def)

lemma unat_length: "n \<le> 0x3FFFFFFF \<Longrightarrow> unat (of_nat n :: u64) = n"
  by (simp add: unat_of_nat take_bit_nat_eq_self)

lemma of_nat_le_word: "n \<le> 0x3FFFFFFF \<Longrightarrow> of_nat n \<le> w \<longleftrightarrow> n \<le> unat w" for w :: u64
  by (simp add: word_le_nat_alt unat_length)

lemma framed_sendable:
  assumes "sendable c p"
  obtains h where "framed p = h @ p" "encode_head (of_nat (length p)) = Inr h"
proof -
  have "length p \<le> 0x3FFFFFFF" using assms by (simp add: sendable_def)
  then have "(of_nat (length p) :: u64) \<le> 0x3FFFFFFF"
    by (simp add: word_le_nat_alt unat_length)
  from encode_head_Inr [OF this] obtain h where "encode_head (of_nat (length p)) = Inr h" by blast
  with that show ?thesis by (simp add: framed_def encode_def codec_new_def)
qed

lemma decode_framed:
  assumes "\<not> raw c" "state c = Head" "sendable c p"
  shows "decode c (framed p @ rest) = Inr (Some p, c, rest)"
proof -
  from assms(3) have len: "unat (of_nat (length p) :: u64) = length p"
    and max: "of_nat (length p) \<le> max_packet_length c"
    by (simp_all add: sendable_def unat_length of_nat_le_word)
  obtain h where h: "framed p = h @ p" "encode_head (of_nat (length p)) = Inr h"
    using framed_sendable [OF assms(3)] .
  from encode_head_reads [OF h(2)]
  have reads: "h \<noteq> []" "head_len_of (h ! 0) = length h"
      "head_value (h @ p @ rest) (length h) = of_nat (length p)"
    by (auto simp: header_reads_def)
  have "h @ p @ rest \<noteq> [] \<and> head_len_of ((h @ p @ rest) ! 0) = length h"
    using reads by (simp add: nth_append)
  then obtain r where "decode_head c (framed p @ rest) = Inr (Some (of_nat (length p), r, p @ rest))"
    using reads max h(1) by (fastforce simp: decode_head_Some)
  from decode_cooked(4) [OF assms(1,2) this] show ?thesis
    using assms(2) by (simp add: decode_body_def decode_data_def len)
qed

lemma pump_framed:
  assumes "\<not> raw c" "state c = Head"
  shows "list_all (sendable c) ps \<Longrightarrow> pump c (concat (List.map framed ps) @ rest) =
    (case pump c rest of (xs, r) \<Rightarrow> (ps @ xs, r))"
proof (induction ps)
  case Nil
  then show ?case by (simp split: prod.splits)
next
  case (Cons p ps)
  from Cons.prems have p: "sendable c p" and IH: "pump c (concat (List.map framed ps) @ rest) =
    (case pump c rest of (xs, r) \<Rightarrow> (ps @ xs, r))" using Cons.IH by simp_all
  show ?case
    using decode_framed [OF assms p] IH
    by (subst pump.simps) (simp split: prod.splits)
qed

lemma pump_Nil: "\<not> raw c \<Longrightarrow> state c = Head \<Longrightarrow> pump c [] = ([], Inr (c, []))"
  by (simp add: pump.simps decode_def decode_head_def)

lemma bit_u8_lt: "bit w i \<Longrightarrow> i < 8" for w :: u8
  using bit_imp_le_length [of w i] by simp

lemma head_value_lt: "unat (head_value src k) < 2 ^ 30"
  by (rule unat_lt_expI) (auto simp: head_value_def bit_simps Let_def dest!: bit_u8_lt split: if_splits)

lemma sendable_new: "sendable codec_new p \<longleftrightarrow> length p \<le> 0x3FFFFFFF"
proof -
  have "unat (- 1 :: u64) = 2 ^ 64 - 1" by (simp add: unsigned_minus_1_eq_mask mask_eq_exp_minus_1)
  then show ?thesis by (auto simp: sendable_def codec_new_def)
qed

lemmas codec_new_simps = codec_new_def [THEN arg_cong [where f = raw], simplified]
  codec_new_def [THEN arg_cong [where f = state], simplified]

lemma framed_examples: "framed [] = [0]" "framed [a] = [4, a]" "framed [a, b] = [8, a, b]"
  by (simp_all add: framed_def encode_def encode_head_def codec_new_def)

text \<open>C1 Delivery.  However the network cuts the encodings of a sequence of packets into reads, an
  idle decoder yields exactly those packets, in order, and is idle again with an empty buffer.\<close>

theorem codec_delivers:
  assumes "\<not> raw c" and "state c = Head" and "list_all (sendable c) ps"
    and "concat chunks = concat (List.map framed ps)"
  shows "feed c [] chunks = (ps, Inr (c, []))"
  using codec.feed_pump [OF assms(1) pump_Nil [OF assms(1,2)], of chunks]
    pump_framed [OF assms(1-3), of "[]"] assms(4)
  by (simp add: pump_Nil assms(1,2))

lemma codec_delivers_witness:
  "feed codec_new [] [[4], [7, 8], [1, 2, 0], [4, 5]] = ([[7], [1, 2], [], [5]], Inr (codec_new, []))"
  by (rule codec_delivers) (simp_all add: codec_new_simps sendable_new framed_examples)

text \<open>Truncation.  Of a stream that breaks off anywhere the decoder yields a prefix of the packets
  and no error: it never yields a packet that was not sent, or a part of one.\<close>

theorem codec_prefix_safe:
  assumes "\<not> raw c" and "state c = Head" and "list_all (sendable c) ps"
    and "prefix (concat chunks) (concat (List.map framed ps))"
  shows "\<exists>k c' rest. feed c [] chunks = (take k ps, Inr (c', rest))"
proof -
  obtain missing where "concat (List.map framed ps) = concat chunks @ missing"
    using assms(4) by (auto simp: prefix_def)
  then have "pump c (concat chunks @ missing) = (ps, Inr (c, []))"
    using pump_framed [OF assms(1-3), of "[]"] by (simp add: pump_Nil assms(1,2))
  then obtain xs ys c' rest where "pump c (concat chunks) = (xs, Inr (c', rest))" "xs @ ys = ps"
    using codec.pump_append [OF assms(1), of "concat chunks" missing]
    by (auto split: prod.splits sum.splits)
  then have "feed c [] chunks = (take (length xs) ps, Inr (c', rest))"
    using codec.feed_pump [OF assms(1) pump_Nil [OF assms(1,2)], of chunks] by auto
  then show ?thesis by blast
qed

lemma codec_prefix_safe_witness:
  "\<exists>k c' rest. feed codec_new [] [[4, 7], [8, 1]] = (take k [[7], [1, 2]], Inr (c', rest))"
  by (rule codec_prefix_safe) (simp_all add: codec_new_simps sendable_new framed_examples)

text \<open>Bounds of a header.  A header is accepted only below the configured maximum, announces less
  than a gigabyte, is one to four bytes long, and reserves at most 256 KiB ahead of its payload.\<close>

theorem decode_head_bounded:
  assumes "decode_head c src = Inr (Some (n, reserved, src'))"
  shows "n \<le> max_packet_length c \<and> unat n < 2 ^ 30 \<and> reserved \<le> 256 * 1024 \<and>
    1 \<le> length src - length src' \<and> length src - length src' \<le> 4 \<and> suffix src' src"
  using assms head_value_lt [of src "head_len_of (src ! 0)"] head_len_bounds [of "src ! 0"]
  by (auto simp: decode_head_Some MAX_PREALLOCATED_PAYLOAD_LEN_def suffix_drop)

lemma decode_head_bounded_witness:
  "(3 :: u64) \<le> max_packet_length codec_new \<and> unat (3 :: u64) < 2 ^ 30 \<and> (2 :: nat) \<le> 256 * 1024 \<and>
    1 \<le> length [12, 1 :: u8] - length [1 :: u8] \<and> length [12, 1 :: u8] - length [1 :: u8] \<le> 4 \<and>
    suffix [1] [12, 1 :: u8]"
  by (rule decode_head_bounded)
    (simp add: decode_head_def head_len_of_def head_value_def codec_new_def MAX_PREALLOCATED_PAYLOAD_LEN_def)

text \<open>Rejection.  Encoding fails exactly outside raw mode for packets above 0x3FFFFFFF bytes;
  otherwise the packet is appended to the buffer behind a header of at most four bytes.\<close>

theorem encode_total:
  assumes "length p < 2 ^ 64"
  shows "case encode c p buf of
      Inl e \<Rightarrow> e = PacketOverflow \<and> \<not> raw c \<and> 0x3FFFFFFF < length p
    | Inr b \<Rightarrow> (raw c \<or> length p \<le> 0x3FFFFFFF) \<and>
        (\<exists>h. length h = (if raw c then 0 else if length p \<le> 0x3F then 1 else if length p \<le> 0x3FFF then 2
          else if length p \<le> 0x3FFFFF then 3 else 4) \<and> b = buf @ h @ p)"
proof -
  have "unat (of_nat (length p) :: u64) = length p"
    using assms by (simp add: unat_of_nat take_bit_nat_eq_self)
  then show ?thesis
    by (simp add: encode_def encode_head_def Let_def word_le_nat_alt put_u16_le_def put_u32_le_def)
qed

lemma encode_total_witness:
  "case encode codec_new [1, 2] [9] of
      Inl e \<Rightarrow> e = PacketOverflow \<and> \<not> raw codec_new \<and> 0x3FFFFFFF < length [1 :: u8, 2]
    | Inr b \<Rightarrow> (raw codec_new \<or> length [1 :: u8, 2] \<le> 0x3FFFFFFF) \<and>
        (\<exists>h. length h = (if raw codec_new then 0 else if length [1 :: u8, 2] \<le> 0x3F then 1
          else if length [1 :: u8, 2] \<le> 0x3FFF then 2
          else if length [1 :: u8, 2] \<le> 0x3FFFFF then 3 else 4) \<and> b = [9] @ h @ [1, 2])"
  by (rule encode_total) simp

text \<open>Admission.  A packet above the receiver's maximum is refused as soon as its header is there,
  and nothing after the header can make it acceptable.\<close>

theorem oversize_refused:
  assumes "\<not> raw c" and "state c = Head" and "length p \<le> 0x3FFFFFFF"
    and "unat (max_packet_length c) < length p"
  shows "\<exists>h. framed p = h @ p \<and> (\<forall>rest. decode c (h @ rest) = Inl TooBigPacket)"
proof -
  obtain h where h: "framed p = h @ p" "encode_head (of_nat (length p)) = Inr h"
    using framed_sendable [of codec_new p] assms(3) by (auto simp: sendable_new)
  have "max_packet_length c < of_nat (length p)"
    using assms(3,4) by (simp add: of_nat_le_word not_le [symmetric])
  with encode_head_reads [OF h(2)] have "decode_head c (h @ rest) = Inl TooBigPacket" for rest
    by (auto simp: header_reads_def decode_head_def nth_append Let_def)
  then show ?thesis using h(1) decode_cooked(2) [OF assms(1,2)] by blast
qed

lemma oversize_refused_witness:
  "\<exists>h. framed [1, 2] = h @ [1, 2] \<and>
    (\<forall>rest. decode (set_max_packet_length 1 codec_new) (h @ rest) = Inl TooBigPacket)"
  by (rule oversize_refused) (simp_all add: codec_new_def set_max_packet_length_def)

end
