(* ===== verification/File_Stream.thy ===== *)
theory File_Stream
  imports MDesk_Prelude
begin

text \<open>
  The constants of the clipboard transport (\<open>libs/clipboard/src/file_stream.rs\<close>) and the copy generation
  that a list of formats advertises.
\<close>

abbreviation REQUEST :: u32 where "REQUEST \<equiv> 1"
abbreviation BLOCK :: u32 where "BLOCK \<equiv> 2"
abbreviation END :: u32 where "END \<equiv> 3"
abbreviation CREDIT :: u32 where "CREDIT \<equiv> 4"
abbreviation CANCEL :: u32 where "CANCEL \<equiv> 5"
abbreviation ERROR :: u32 where "ERROR \<equiv> 6"
abbreviation DESCRIPTORS_REQUEST :: u32 where "DESCRIPTORS_REQUEST \<equiv> 7"
abbreviation DESCRIPTORS_RESPONSE :: u32 where "DESCRIPTORS_RESPONSE \<equiv> 8"

definition FORMAT_PREFIX :: string where
  "FORMAT_PREFIX = ''MDesk.FileStream.v1:''"

definition BLOCK_BYTES :: nat where
  "BLOCK_BYTES = 128 * 1024"

definition WINDOW_BYTES :: nat where
  "WINDOW_BYTES = 8 * BLOCK_BYTES"

definition format_generation :: "string \<Rightarrow> u64 option" where
  "format_generation name =
     (case strip_prefix FORMAT_PREFIX name of
        None \<Rightarrow> None
      | Some v \<Rightarrow>
          if length v \<noteq> 16 then None
          else case parse_unsigned 64 16 v of
            None \<Rightarrow> None
          | Some n \<Rightarrow> if n = 0 then None else Some (of_nat n))"

fun generation_of :: "(i32 \<times> string) list \<Rightarrow> u64" where
  "generation_of [] = 0"
| "generation_of ((_, name) # formats) =
     (case format_generation name of Some g \<Rightarrow> g | None \<Rightarrow> generation_of formats)"

end
