(* ===== verification/Clip_Route.thy ===== *)
theory Clip_Route
  imports File_Stream
begin

text \<open>
  Controller-side routing of clipboard traffic: \<open>libs/clipboard/src/route.rs\<close>, with the message
  type of \<open>libs/clipboard/src/lib.rs\<close> and the frame type of \<open>libs/clipboard/src/file_stream.rs\<close>.

  The routing state \<open>file_route\<close> is the struct \<open>FileRoute\<close>; \<open>outgoing\<close>, \<open>incoming\<close> and
  \<open>disconnect\<close> are its three public operations, with every table they keep.  A message that an
  operation rewrites in place is returned with the new state.
\<close>

section \<open>Messages\<close>

record frame =
  kind :: u32
  generation :: u64
  request_id :: u64
  index :: u32
  offset :: u64
  frame_size :: u64
  data :: bytes
  compressed :: bool

datatype clipboard_file =
    FileStream frame
  | NotifyCallback (notify_type: string) (notify_title: string) (notify_text: string)
  | MonitorReady
  | FormatList (format_list: "(i32 \<times> string) list")
  | FormatListResponse (msg_flags: i32)
  | FormatDataRequest (requested_format_id: i32)
  | FormatDataResponse (msg_flags: i32) (format_data: bytes)
  | FileContentsRequest (stream_id: i32) (list_index: i32) (dw_flags: i32) (n_position_low: i32)
      (n_position_high: i32) (cb_requested: i32) (have_clip_data_id: bool) (clip_data_id: i32)
  | FileContentsResponse (msg_flags: i32) (stream_id: i32) (requested_data: bytes)
  | TryEmpty
  | Files (files: "(string \<times> u64) list") (source_application: i32)

fun is_stopping_allowed :: "clipboard_file \<Rightarrow> bool" where
  "is_stopping_allowed (FileStream f) = (kind f = REQUEST \<or> kind f = DESCRIPTORS_REQUEST)"
| "is_stopping_allowed MonitorReady = True"
| "is_stopping_allowed (FormatList _) = True"
| "is_stopping_allowed (FormatDataRequest _) = True"
| "is_stopping_allowed _ = False"

fun is_beginning_message :: "clipboard_file \<Rightarrow> bool" where
  "is_beginning_message (FileStream f) = (kind f = REQUEST \<or> kind f = DESCRIPTORS_REQUEST)"
| "is_beginning_message MonitorReady = True"
| "is_beginning_message (FormatList _) = True"
| "is_beginning_message _ = False"

section \<open>Routing state\<close>

datatype destination = Local | Peer string

type_synonym forward = "string \<times> clipboard_file"

record file_route =
  owner :: "string option"
  generations :: "(u64, string) hmap"
  next_id :: u64
  requests :: "(string \<times> u64, destination \<times> u64 \<times> u64) hmap"
  reverse :: "(destination \<times> u64 \<times> u64, string \<times> u64) hmap"
  metadata :: "(string, (destination \<times> clipboard_file) list) hmap"
  legacy :: "(string \<times> i32, destination \<times> i32) hmap"

definition route_default :: file_route where
  "route_default = \<lparr>owner = None, generations = [], next_id = 0, requests = [], reverse = [],
     metadata = [], legacy = []\<rparr>"

definition route_id :: "file_route \<Rightarrow> u64 \<times> file_route" where
  "route_id r = (let n = max (next_id r + 1) 1 in (n, r\<lparr>next_id := n\<rparr>))"

definition route_request :: "string \<Rightarrow> destination \<Rightarrow> frame \<Rightarrow> file_route \<Rightarrow> bool \<times> frame \<times> file_route" where
  "route_request own dest f r =
     (if 1024 \<le> length (requests r) then (False, f, r)
      else case route_id r of (i, r) \<Rightarrow>
        (True, f\<lparr>request_id := i\<rparr>,
         r\<lparr>requests := hm_put (own, i) (dest, request_id f, generation f) (requests r),
           reverse := hm_put (dest, generation f, request_id f) (own, i) (reverse r)\<rparr>))"

definition route_control :: "destination \<Rightarrow> frame \<Rightarrow> file_route \<Rightarrow> string option \<times> frame \<times> file_route" where
  "route_control dest f r =
     (let key = (dest, generation f, request_id f) in
      case hm_get (reverse r) key of
        None \<Rightarrow> (None, f, r)
      | Some (own, i) \<Rightarrow>
          (Some own, f\<lparr>request_id := i\<rparr>,
           if kind f = CANCEL
           then r\<lparr>reverse := hm_del key (reverse r), requests := hm_del (own, i) (requests r)\<rparr>
           else r))"

definition route_queue :: "string \<Rightarrow> file_route \<Rightarrow> (destination \<times> clipboard_file) list" where
  "route_queue own r = (case hm_get (metadata r) own of Some q \<Rightarrow> q | None \<Rightarrow> [])"

definition enqueue_metadata ::
  "string \<Rightarrow> destination \<Rightarrow> clipboard_file \<Rightarrow> file_route \<Rightarrow> clipboard_file option \<times> file_route" where
  "enqueue_metadata own dest msg r =
     (let q = route_queue own r in
      if 32 \<le> length q then (None, r\<lparr>metadata := hm_put own q (metadata r)\<rparr>)
      else let q' = q @ [(dest, msg)] in
        (if length q' = 1 then Some msg else None, r\<lparr>metadata := hm_put own q' (metadata r)\<rparr>))"

section \<open>Operations\<close>

fun outgoing :: "string \<Rightarrow> clipboard_file \<Rightarrow> file_route \<Rightarrow> clipboard_file option \<times> file_route" where
  "outgoing peer (FormatList l) r = (Some (FormatList l), r\<lparr>owner := None\<rparr>)"
| "outgoing peer (FileStream f) r =
     (if kind f = REQUEST \<or> kind f = DESCRIPTORS_REQUEST then
        (case route_request peer Local f r of
           (ok, f', r') \<Rightarrow> (if ok then Some (FileStream f') else None, r'))
      else if kind f = CREDIT \<or> kind f = CANCEL then
        (case route_control Local f r of
           (None, f', r') \<Rightarrow> (None, r')
         | (Some _, f', r') \<Rightarrow> (Some (FileStream f'), r'))
      else (Some (FileStream f), r))"
| "outgoing peer (FormatDataRequest i) r = enqueue_metadata peer Local (FormatDataRequest i) r"
| "outgoing peer (FileContentsRequest sid li fl lo hi cb have cid) r =
     (if 1024 \<le> length (legacy r) then (None, r)
      else case route_id r of (i, r') \<Rightarrow>
        let i32 = (ucast :: 64 word \<Rightarrow> 32 word) i in
        (Some (FileContentsRequest i32 li fl lo hi cb have cid),
         r'\<lparr>legacy := hm_put (peer, i32) (Local, sid) (legacy r')\<rparr>))"
| "outgoing peer msg r = (Some msg, r)"

definition others :: "string \<Rightarrow> string list \<Rightarrow> clipboard_file \<Rightarrow> forward list" where
  "others source targets msg = map (\<lambda>t. (t, msg)) (filter (\<lambda>p. p \<noteq> source) targets)"

definition foreign_owner :: "string option \<Rightarrow> string \<Rightarrow> string option" where
  "foreign_owner own source = (case own of Some p \<Rightarrow> if p \<noteq> source then Some p else None | None \<Rightarrow> None)"

definition incoming_formats ::
  "string \<Rightarrow> (i32 \<times> string) list \<Rightarrow> string list \<Rightarrow> file_route \<Rightarrow> bool \<times> forward list \<times> file_route" where
  "incoming_formats source l targets r =
     (let g = generation_of l;
          stale = g \<noteq> 0 \<and> (case hm_get (generations r) g of Some p \<Rightarrow> p \<noteq> source | None \<Rightarrow> False)
      in if stale then (True, [], r)
         else let gens = (if 64 \<le> length (generations r) then [] else generations r);
                  r' = (if g \<noteq> 0 then r\<lparr>generations := hm_put g source gens\<rparr> else r)
              in (False, others source targets (FormatList l), r'\<lparr>owner := Some source\<rparr>))"

text \<open>The answer of \<open>incoming\<close> is whether the message is consumed, the message as rewritten, the
  messages to forward and the new state.\<close>

definition incoming_stream ::
  "string \<Rightarrow> frame \<Rightarrow> file_route \<Rightarrow> bool \<times> frame \<times> forward list \<times> file_route" where
  "incoming_stream source f r =
     (if kind f = REQUEST \<or> kind f = DESCRIPTORS_REQUEST then
        (case foreign_owner (hm_get (generations r) (generation f)) source of
           Some own \<Rightarrow>
             (case route_request own (Peer source) f r of
                (True, f', r') \<Rightarrow> (True, f', [(own, FileStream f')], r')
              | (False, f', r') \<Rightarrow>
                  let f'' = f'\<lparr>kind := ERROR\<rparr> in (True, f'', [(source, FileStream f'')], r'))
         | None \<Rightarrow> (False, f, [], r))
      else if kind f = CREDIT \<or> kind f = CANCEL then
        (case route_control (Peer source) f r of
           (Some own, f', r') \<Rightarrow> (True, f', [(own, FileStream f')], r')
         | (None, f', r') \<Rightarrow> (False, f', [], r'))
      else if kind f = BLOCK \<or> kind f = END \<or> kind f = ERROR \<or> kind f = DESCRIPTORS_RESPONSE then
        (let key = (source, request_id f) in
         case hm_get (requests r) key of
           Some (dest, original, gen) \<Rightarrow>
             if gen \<noteq> generation f then (True, f, [], r)
             else
               let r' = (if kind f \<noteq> BLOCK
                         then r\<lparr>requests := hm_del key (requests r),
                                reverse := hm_del (dest, gen, original) (reverse r)\<rparr>
                         else r);
                   f' = f\<lparr>request_id := original\<rparr>
               in (case dest of
                     Peer peer \<Rightarrow> (True, f', [(peer, FileStream f')], r')
                   | Local \<Rightarrow> (False, f', [], r'))
         | None \<Rightarrow> (False, f, [], r))
      else (False, f, [], r))"

fun incoming ::
  "string \<Rightarrow> clipboard_file \<Rightarrow> string list \<Rightarrow> file_route \<Rightarrow> bool \<times> clipboard_file \<times> forward list \<times> file_route"
where
  "incoming source (FormatList l) targets r =
     (case incoming_formats source l targets r of (h, fw, r') \<Rightarrow> (h, FormatList l, fw, r'))"
| "incoming source TryEmpty targets r =
     (if owner r = Some source
      then (False, TryEmpty, others source targets TryEmpty, r\<lparr>owner := None\<rparr>)
      else (False, TryEmpty, [], r))"
| "incoming source (FileStream f) targets r =
     (case incoming_stream source f r of (h, f', fw, r') \<Rightarrow> (h, FileStream f', fw, r'))"
| "incoming source (FormatDataRequest i) targets r =
     (case foreign_owner (owner r) source of
        Some own \<Rightarrow>
          (case enqueue_metadata own (Peer source) (FormatDataRequest i) r of
             (sent, r') \<Rightarrow>
               (True, FormatDataRequest i, (case sent of Some m \<Rightarrow> [(own, m)] | None \<Rightarrow> []), r'))
      | None \<Rightarrow> (False, FormatDataRequest i, [], r))"
| "incoming source (FormatDataResponse flags d) targets r =
     (let msg = FormatDataResponse flags d in
      case route_queue source r of
        [] \<Rightarrow> (False, msg, [], r\<lparr>metadata := hm_put source [] (metadata r)\<rparr>)
      | (dest, _) # q \<Rightarrow>
          let r' = r\<lparr>metadata := hm_put source q (metadata r)\<rparr>;
              next_request = (case q of [] \<Rightarrow> [] | (_, n) # _ \<Rightarrow> [(source, n)])
          in (case dest of
                Peer peer \<Rightarrow> (True, msg, next_request @ [(peer, msg)], r')
              | Local \<Rightarrow> (False, msg, next_request, r')))"
| "incoming source (FileContentsRequest sid li fl lo hi cb have cid) targets r =
     (case foreign_owner (owner r) source of
        Some own \<Rightarrow>
          if 1024 \<le> length (legacy r) then (True, FileContentsRequest sid li fl lo hi cb have cid, [], r)
          else (case route_id r of (i, r') \<Rightarrow>
            let i32 = (ucast :: 64 word \<Rightarrow> 32 word) i;
                msg = FileContentsRequest i32 li fl lo hi cb have cid
            in (True, msg, [(own, msg)],
                r'\<lparr>legacy := hm_put (own, i32) (Peer source, sid) (legacy r')\<rparr>))
      | None \<Rightarrow> (False, FileContentsRequest sid li fl lo hi cb have cid, [], r))"
| "incoming source (FileContentsResponse flags sid d) targets r =
     (case hm_get (legacy r) (source, sid) of
        Some (dest, original) \<Rightarrow>
          let r' = r\<lparr>legacy := hm_del (source, sid) (legacy r)\<rparr>;
              msg = FileContentsResponse flags original d
          in (case dest of
                Peer peer \<Rightarrow> (True, msg, [(peer, msg)], r')
              | Local \<Rightarrow> (False, msg, [], r'))
      | None \<Rightarrow> (False, FileContentsResponse flags sid d, [], r))"
| "incoming source msg targets r = (False, msg, [], r)"

fun keep_head :: "string \<Rightarrow> (destination \<times> clipboard_file) list \<Rightarrow> (destination \<times> clipboard_file) list" where
  "keep_head peer [] = []"
| "keep_head peer (h # q) = h # filter (\<lambda>(dest, _). dest \<noteq> Peer peer) q"

definition disconnect :: "string \<Rightarrow> file_route \<Rightarrow> file_route" where
  "disconnect peer r = r\<lparr>
     owner := (if owner r = Some peer then None else owner r),
     generations := hm_retain (\<lambda>_ p. p \<noteq> peer) (generations r),
     requests := hm_retain (\<lambda>(p, _) (d, _, _). p \<noteq> peer \<and> d \<noteq> Peer peer) (requests r),
     reverse := hm_retain (\<lambda>(d, _, _) (p, _). p \<noteq> peer \<and> d \<noteq> Peer peer) (reverse r),
     legacy := hm_retain (\<lambda>(p, _) (d, _). p \<noteq> peer \<and> d \<noteq> Peer peer) (legacy r),
     metadata := map (\<lambda>(k, q). (k, keep_head peer q)) (hm_del peer (metadata r))\<rparr>"

section \<open>The invariant of the tables\<close>

definition ids_issued :: "file_route \<Rightarrow> bool" where
  "ids_issued r \<longleftrightarrow> (\<forall>p i v. hm_get (requests r) (p, i) = Some v \<longrightarrow> 1 \<le> unat i \<and> unat i \<le> unat (next_id r))"

text \<open>Each way back leads to a pending request, and that request leads forward to the same place.\<close>

definition linked :: "file_route \<Rightarrow> bool" where
  "linked r \<longleftrightarrow> (\<forall>d g orig p i. hm_get (reverse r) (d, g, orig) = Some (p, i) \<longrightarrow>
     hm_get (requests r) (p, i) = Some (d, orig, g))"

definition queues_short :: "file_route \<Rightarrow> bool" where
  "queues_short r \<longleftrightarrow> (\<forall>p q. hm_get (metadata r) p = Some q \<longrightarrow> length q \<le> 32)"

definition tables_ok :: "file_route \<Rightarrow> bool" where
  "tables_ok r \<longleftrightarrow> hm_ok (generations r) \<and> hm_ok (requests r) \<and> hm_ok (reverse r) \<and>
     hm_ok (metadata r) \<and> hm_ok (legacy r) \<and> length (generations r) \<le> 64 \<and>
     length (requests r) \<le> 1024 \<and> length (legacy r) \<le> 1024"

definition route_inv :: "file_route \<Rightarrow> bool" where
  "route_inv r \<longleftrightarrow> tables_ok r \<and> queues_short r \<and> ids_issued r \<and> linked r"

lemmas hm_gets = hm.get_put hm.get_del hm.get_empty hm.get_retain_Some
lemmas hm_caps = hm.capped_put hm.capped_del hm.capped_retain hm.ok_put hm.ok_del hm.ok_retain hm.ok_empty

lemma route_id_eq: "unat (next_id r) < 2 ^ 64 - 1 \<Longrightarrow>
  route_id r = (next_id r + 1, r\<lparr>next_id := next_id r + 1\<rparr>) \<and> unat (next_id r + 1) = Suc (unat (next_id r))"
proof -
  assume less: "unat (next_id r) < 2 ^ 64 - 1"
  then have "unat (next_id r + 1) = Suc (unat (next_id r))"
    by (simp add: unat_word_ariths)
  moreover from this have "max (next_id r + 1) 1 = next_id r + 1"
    by (auto simp: max_def word_le_nat_alt unat_eq_0)
  ultimately show ?thesis by (simp add: route_id_def Let_def)
qed

lemma linkedD: "linked r \<Longrightarrow> hm_get (reverse r) (d, g, orig) = Some (p, i) \<Longrightarrow>
    hm_get (requests r) (p, i) = Some (d, orig, g)"
  by (simp add: linked_def)

lemma route_invI:
  "tables_ok r \<Longrightarrow> queues_short r \<Longrightarrow> ids_issued r \<Longrightarrow> linked r \<Longrightarrow> route_inv r"
  by (simp add: route_inv_def)

lemma route_request_inv:
  assumes "route_inv r" and "unat (next_id r) < 2 ^ 64 - 1" and "route_request own dest f r = (ok, f', r')"
  shows "route_inv r'" and "unat (next_id r') \<le> Suc (unat (next_id r))"
proof -
  from assms(1) have r: "tables_ok r" "queues_short r" "ids_issued r" "linked r"
    by (simp_all add: route_inv_def)
  let ?i = "next_id r + 1"
  from route_id_eq [OF assms(2)] have i: "route_id r = (?i, r\<lparr>next_id := ?i\<rparr>)" "unat ?i = Suc (unat (next_id r))"
    by auto
  have fresh: "hm_get (requests r) (p, ?i) = None" for p
    using r(3) i(2) by (cases "hm_get (requests r) (p, ?i)") (fastforce simp: ids_issued_def)+
  show "route_inv r'"
  proof (cases "1024 \<le> length (requests r)")
    case False
    with assms(3) i have r': "r' = r\<lparr>next_id := ?i, requests := hm_put (own, ?i) (dest, request_id f, generation f) (requests r),
           reverse := hm_put (dest, generation f, request_id f) (own, ?i) (reverse r)\<rparr>"
      by (simp add: route_request_def)
    show ?thesis
    proof (rule route_invI)
      show "tables_ok r'" using r(1) False by (simp add: tables_ok_def r' hm_caps)
      show "queues_short r'" using r(2) by (simp add: queues_short_def r')
      show "ids_issued r'" using r(3) i(2) by (auto simp: ids_issued_def r' hm_gets le_SucI)
      have "hm_get (reverse r) k \<noteq> Some (p, ?i)" for k p
        using fresh by (cases k) (auto dest: linkedD [OF r(4)])
      then show "linked r'" by (auto simp: linked_def r' hm_gets intro: linkedD [OF r(4)])
    qed
  qed (use assms in \<open>simp add: route_request_def\<close>)
  show "unat (next_id r') \<le> Suc (unat (next_id r))"
    using assms(3) i by (auto simp: route_request_def split: if_splits)
qed

text \<open>Taking out a pending request together with its way back.\<close>

definition forget :: "string \<Rightarrow> u64 \<Rightarrow> destination \<times> u64 \<times> u64 \<Rightarrow> file_route \<Rightarrow> file_route" where
  "forget p i v r = (case v of (d, orig, g) \<Rightarrow>
     r\<lparr>requests := hm_del (p, i) (requests r), reverse := hm_del (d, g, orig) (reverse r)\<rparr>)"

lemma forget_inv:
  assumes "route_inv r" and "hm_get (requests r) (p, i) = Some v"
  shows "route_inv (forget p i v r)"
proof -
  from assms(1) have r: "tables_ok r" "queues_short r" "ids_issued r" "linked r"
    by (simp_all add: route_inv_def)
  obtain d orig g where v: "v = (d, orig, g)" by (cases v)
  show ?thesis
  proof (rule route_invI)
    show "tables_ok (forget p i v r)" using r(1) by (simp add: tables_ok_def forget_def v hm_caps)
    show "queues_short (forget p i v r)" using r(2) by (simp add: queues_short_def forget_def v)
    show "ids_issued (forget p i v r)" using r(3) by (auto simp: ids_issued_def forget_def v hm_gets split: if_splits)
    show "linked (forget p i v r)"
      using assms(2) by (auto simp: linked_def forget_def v hm_gets split: if_splits dest: linkedD [OF r(4)])
  qed
qed

lemma route_control_eq:
  assumes "linked r"
  shows "route_control dest f r =
    (case hm_get (reverse r) (dest, generation f, request_id f) of
       None \<Rightarrow> (None, f, r)
     | Some (own, i) \<Rightarrow> (Some own, f\<lparr>request_id := i\<rparr>,
         if kind f = CANCEL then forget own i (dest, request_id f, generation f) r else r))"
  using assms by (auto simp: route_control_def forget_def Let_def split: option.splits)

lemma route_control_inv:
  assumes "route_inv r" and "route_control dest f r = (out, f', r')"
  shows "route_inv r'" and "next_id r' = next_id r"
proof -
  from assms(1) have l: "linked r" by (simp add: route_inv_def)
  show "next_id r' = next_id r"
    using assms(2) by (auto simp: route_control_def Let_def split: option.splits if_splits)
  show "route_inv r'"
    using assms forget_inv [OF assms(1)] linkedD [OF l]
    by (auto simp: route_control_eq [OF l] split: option.splits if_splits)
qed

lemma queue_length: "queues_short r \<Longrightarrow> length (route_queue own r) \<le> 32"
  by (auto simp: queues_short_def route_queue_def split: option.splits)

lemma metadata_put_inv:
  "route_inv r \<Longrightarrow> length q \<le> 32 \<Longrightarrow> route_inv (r\<lparr>metadata := hm_put own q (metadata r)\<rparr>)"
  by (simp add: route_inv_def tables_ok_def queues_short_def ids_issued_def linked_def hm_gets hm_caps)

lemma enqueue_metadata_inv:
  assumes "route_inv r" and "enqueue_metadata own dest msg r = (out, r')"
  shows "route_inv r'" and "next_id r' = next_id r"
  using assms queue_length [of r own] metadata_put_inv [OF assms(1)]
  by (auto simp: enqueue_metadata_def route_inv_def Let_def split: if_splits)

lemma legacy_inv:
  "route_inv r \<Longrightarrow> length m \<le> 1024 \<Longrightarrow> hm_ok m \<Longrightarrow> route_inv (r\<lparr>legacy := m\<rparr>)"
  by (simp add: route_inv_def tables_ok_def queues_short_def ids_issued_def linked_def)

lemma next_id_inv:
  "route_inv r \<Longrightarrow> unat (next_id r) \<le> unat n \<Longrightarrow> route_inv (r\<lparr>next_id := n\<rparr>)"
  by (fastforce simp: route_inv_def tables_ok_def queues_short_def ids_issued_def linked_def)

lemma owner_inv: "route_inv (r\<lparr>owner := x\<rparr>) = route_inv r"
  by (simp add: route_inv_def tables_ok_def queues_short_def ids_issued_def linked_def)

lemma generations_inv:
  "route_inv r \<Longrightarrow> length m \<le> 64 \<Longrightarrow> hm_ok m \<Longrightarrow> route_inv (r\<lparr>generations := m\<rparr>)"
  by (simp add: route_inv_def tables_ok_def queues_short_def ids_issued_def linked_def)

lemma route_inv_ok:
  assumes "route_inv r"
  shows "hm_ok (generations r)" "hm_ok (requests r)" "hm_ok (reverse r)" "hm_ok (metadata r)"
    "hm_ok (legacy r)" "length (generations r) \<le> 64" "length (requests r) \<le> 1024" "length (legacy r) \<le> 1024"
  using assms by (simp_all add: route_inv_def tables_ok_def)

lemma incoming_stream_inv:
  assumes "route_inv r" and "unat (next_id r) < 2 ^ 64 - 1" and "incoming_stream source f r = (h, f', fw, r')"
  shows "route_inv r' \<and> unat (next_id r') \<le> Suc (unat (next_id r))"
proof -
  have forget: "r\<lparr>requests := hm_del (p, i) (requests r), reverse := hm_del (d, g, orig) (reverse r)\<rparr> =
      forget p i (d, orig, g) r" for p i d g orig
    by (simp add: forget_def)
  have forget_id: "next_id (forget p i v r) = next_id r" for p i v
    by (simp add: forget_def split: prod.splits)
  show ?thesis
    using assms(1,3) unfolding incoming_stream_def Let_def forget
    by (auto split: if_splits option.splits prod.splits bool.splits destination.splits
        simp: forget_id
        intro: route_request_inv [OF assms(1,2)] route_control_inv(1) [OF assms(1)] forget_inv [OF assms(1)]
        dest: route_control_inv(2) [OF assms(1)])
qed

lemma incoming_formats_inv:
  assumes "route_inv r" and "incoming_formats source l targets r = (h, fw, r')"
  shows "route_inv r'" and "next_id r' = next_id r"
proof -
  note ok = route_inv_ok [OF assms(1)]
  have "route_inv (r\<lparr>generations := hm_put g source (if 64 \<le> length (generations r) then [] else generations r)\<rparr>)" for g
    by (rule generations_inv [OF assms(1)]) (auto intro!: hm.capped_put simp: ok hm_caps not_le)
  with assms show "route_inv r'" and "next_id r' = next_id r"
    by (auto simp: incoming_formats_def Let_def owner_inv split: if_splits option.splits)
qed

lemma metadata_update_inv:
  assumes "route_inv r" and "hm_ok m" and "\<And>p q. hm_get m p = Some q \<Longrightarrow> length q \<le> 32"
  shows "route_inv (r\<lparr>metadata := m\<rparr>)"
  using assms by (simp add: route_inv_def tables_ok_def queues_short_def ids_issued_def linked_def)

lemma legacy_put_inv:
  assumes "route_inv r" and "\<not> 1024 \<le> length (legacy r)" and "unat (next_id r) \<le> unat n"
  shows "route_inv (r\<lparr>next_id := n, legacy := hm_put k v (legacy r)\<rparr>)"
proof -
  have "route_inv (r\<lparr>next_id := n\<rparr>\<lparr>legacy := hm_put k v (legacy r)\<rparr>)"
    using assms route_inv_ok [OF assms(1)] by (intro legacy_inv next_id_inv) (auto simp: hm_caps)
  then show ?thesis by simp
qed

lemma incoming_inv:
  assumes r: "route_inv r" and n: "unat (next_id r) < 2 ^ 64 - 1"
    and run: "incoming source msg targets r = (h, msg', fw, r')"
  shows "route_inv r' \<and> unat (next_id r') \<le> Suc (unat (next_id r))"
proof (cases msg)
  case (FileStream f)
  with run incoming_stream_inv [OF r n] show ?thesis by (auto split: prod.splits)
next
  case (FormatList l)
  with run incoming_formats_inv [OF r] show ?thesis by (force split: prod.splits)
next
  case (FormatDataRequest i)
  with run r enqueue_metadata_inv [OF r] show ?thesis
    by (auto split: prod.splits option.splits)
next
  case (FormatDataResponse fl d)
  have "length (route_queue source r) \<le> 32"
    using r queue_length by (simp add: route_inv_def)
  with FormatDataResponse run metadata_put_inv [OF r] show ?thesis
    by (auto simp: Let_def split: list.splits destination.splits)
next
  case (FileContentsRequest x1 x2 x3 x4 x5 x6 x7 x8)
  with run r route_id_eq [OF n] legacy_put_inv [OF r] show ?thesis
    by (auto simp: Let_def split: option.splits if_splits)
next
  case (FileContentsResponse x1 x2 x3)
  have "route_inv (r\<lparr>legacy := hm_del k (legacy r)\<rparr>)" for k
    using route_inv_ok [OF r] by (intro legacy_inv [OF r]) (auto simp: hm_caps)
  with FileContentsResponse run r show ?thesis
    by (auto simp: Let_def split: option.splits destination.splits)
qed (use r run in \<open>auto simp: owner_inv split: if_splits\<close>)

lemma outgoing_inv:
  assumes r: "route_inv r" and n: "unat (next_id r) < 2 ^ 64 - 1" and run: "outgoing peer msg r = (out, r')"
  shows "route_inv r' \<and> unat (next_id r') \<le> Suc (unat (next_id r))"
proof (cases msg)
  case (FileStream f)
  have "route_inv r''" "unat (next_id r'') \<le> Suc (unat (next_id r))"
    if "route_control Local f r = (x, f', r'')" for x f' r''
    using route_control_inv [OF r that] by auto
  with FileStream run r route_request_inv [OF r n] show ?thesis
    by (auto split: prod.splits option.splits if_splits)
next
  case (FormatDataRequest i)
  with run enqueue_metadata_inv [OF r] show ?thesis by force
next
  case (FileContentsRequest x1 x2 x3 x4 x5 x6 x7 x8)
  with run r route_id_eq [OF n] legacy_put_inv [OF r] show ?thesis
    by (auto simp: Let_def split: option.splits if_splits)
qed (use r run in \<open>auto simp: owner_inv\<close>)

lemma hm_get_map: "hm_get (map (\<lambda>(k, q). (k, f q)) m) k = map_option f (hm_get m k)"
  by (simp add: hm_get_def map_of_map)

lemma hm_ok_map: "hm_ok (map (\<lambda>(k, q). (k, f q)) m) = hm_ok m"
  by (simp add: hm_ok_def comp_def case_prod_unfold)

lemma keep_head_length: "length (keep_head p q) \<le> length q"
  by (cases q) (auto intro: le_trans)

lemma disconnect_inv:
  assumes r: "route_inv r"
  shows "route_inv (disconnect peer r) \<and> next_id (disconnect peer r) = next_id r"
proof -
  note ok = route_inv_ok [OF r]
  let ?r = "disconnect peer r"
  have "tables_ok ?r"
    by (simp add: tables_ok_def disconnect_def hm_caps ok hm_ok_map)
  moreover have "queues_short ?r"
    using r keep_head_length [of peer]
    by (auto simp: queues_short_def route_inv_def disconnect_def hm_get_map hm_gets split: if_splits
        intro: le_trans)
  moreover have "ids_issued ?r"
    using r by (fastforce simp: ids_issued_def route_inv_def disconnect_def hm_gets ok)
  moreover have "linked ?r"
    using r by (fastforce simp: linked_def route_inv_def disconnect_def hm_gets ok)
  ultimately show ?thesis by (simp add: route_inv_def disconnect_def)
qed

section \<open>Runs of the router\<close>

datatype route_event =
    Out string clipboard_file
  | In string clipboard_file "string list"
  | Gone string

fun route_apply :: "route_event \<Rightarrow> file_route \<Rightarrow> file_route" where
  "route_apply (Out peer msg) r = snd (outgoing peer msg r)"
| "route_apply (In source msg targets) r = (case incoming source msg targets r of (_, _, _, r') \<Rightarrow> r')"
| "route_apply (Gone peer) r = disconnect peer r"

lemma route_apply_inv:
  assumes "route_inv r" and "unat (next_id r) < 2 ^ 64 - 1"
  shows "route_inv (route_apply e r) \<and> unat (next_id (route_apply e r)) \<le> Suc (unat (next_id r))"
proof (cases e)
  case (Out p m)
  then show ?thesis using outgoing_inv [OF assms, of p m] by (cases "outgoing p m r") auto
next
  case (In s m ts)
  then show ?thesis using incoming_inv [OF assms, of s m ts] by (cases "incoming s m ts r") auto
next
  case (Gone p)
  then show ?thesis using disconnect_inv [OF assms(1), of p] by simp
qed

lemma route_run_inv:
  "route_inv r \<Longrightarrow> unat (next_id r) + length es < 2 ^ 64 \<Longrightarrow>
    route_inv (fold route_apply es r) \<and> unat (next_id (fold route_apply es r)) \<le> unat (next_id r) + length es"
proof (induction es arbitrary: r)
  case Nil
  then show ?case by simp
next
  case (Cons e es)
  from Cons.prems have "unat (next_id r) < 2 ^ 64 - 1" by simp
  from route_apply_inv [OF Cons.prems(1) this, of e] Cons.prems(2) Cons.IH [of "route_apply e r"]
  show ?case by simp
qed

lemma reverse_capped:
  assumes "route_inv r"
  shows "length (reverse r) \<le> length (requests r)"
proof -
  let ?way = "\<lambda>k. the (hm_get (reverse r) k)"
  have get: "hm_get (reverse r) (fst e) = Some (snd e)" if "e \<in> set (reverse r)" for e
    using that route_inv_ok(3) [OF assms] by (simp add: hm_get_def hm_ok_def map_of_is_SomeI)
  have request: "hm_get (requests r) (?way k) = Some (case k of (d, g, orig) \<Rightarrow> (d, orig, g))"
    if "k \<in> fst ` set (reverse r)" for k
  proof -
    obtain e where e: "e \<in> set (reverse r)" "k = fst e" using \<open>k \<in> _\<close> by blast
    have l: "linked r" using assms by (simp add: route_inv_def)
    show ?thesis using get [OF e(1)] e(2) linkedD [OF l] by (cases e) auto
  qed
  have "inj_on ?way (fst ` set (reverse r))"
  proof (rule inj_onI)
    fix k l assume kl: "k \<in> fst ` set (reverse r)" "l \<in> fst ` set (reverse r)" "?way k = ?way l"
    have "(case k of (d, g, orig) \<Rightarrow> (d, orig, g)) = (case l of (d, g, orig) \<Rightarrow> (d, orig, g))"
      using request [OF kl(1)] request [OF kl(2)] unfolding kl(3) by simp
    then show "k = l" by (cases k; cases l) simp
  qed
  moreover have "?way ` fst ` set (reverse r) \<subseteq> fst ` set (requests r)"
    by (intro image_subsetI hm_get_key) (rule request)
  ultimately have "card (fst ` set (reverse r)) \<le> card (fst ` set (requests r))"
    by (intro card_inj_on_le) auto
  then show ?thesis
    by (simp add: hm_ok_card route_inv_ok(2,3) [OF assms])
qed

lemma route_default_inv: "route_inv route_default"
  by (simp add: route_inv_def route_default_def tables_ok_def queues_short_def ids_issued_def linked_def
      hm_gets hm_caps)

text \<open>C25 The router's tables.  After any run of fewer than \<open>2^64 - 1\<close> events the tables respect their
  caps, every way back leads to the pending request it was made for, and ids are never reused.\<close>

theorem routing_tables_bounded:
  assumes "length es < 2 ^ 64 - 1"
  defines "r \<equiv> fold route_apply es route_default"
  shows "route_inv r \<and> length (requests r) \<le> 1024 \<and> length (reverse r) \<le> 1024 \<and>
    length (legacy r) \<le> 1024 \<and> length (generations r) \<le> 64"
proof -
  have "unat (next_id route_default) + length es < 2 ^ 64"
    using assms(1) by (simp add: route_default_def)
  with route_run_inv [OF route_default_inv] have "route_inv r"
    by (simp add: r_def)
  with route_inv_ok [OF this] reverse_capped [OF this] show ?thesis by simp
qed

definition sample_request :: clipboard_file where
  "sample_request = FileStream \<lparr>kind = REQUEST, generation = 7, request_id = 1, index = 0, offset = 0,
     frame_size = 9, data = [], compressed = False\<rparr>"

lemma routing_tables_bounded_witness:
  "route_inv (fold route_apply [In ''B'' sample_request [], Out ''A'' sample_request] route_default) \<and>
    length (requests (fold route_apply [In ''B'' sample_request [], Out ''A'' sample_request] route_default)) \<le> 1024 \<and>
    length (reverse (fold route_apply [In ''B'' sample_request [], Out ''A'' sample_request] route_default)) \<le> 1024 \<and>
    length (legacy (fold route_apply [In ''B'' sample_request [], Out ''A'' sample_request] route_default)) \<le> 1024 \<and>
    length (generations (fold route_apply [In ''B'' sample_request [], Out ''A'' sample_request] route_default)) \<le> 64"
  by (rule routing_tables_bounded) simp

text \<open>An event closes the pending request \<open>(p, i)\<close> with entry \<open>(d, orig, g)\<close> when the owner answers it
  finally, the requester cancels it, or one of the two disconnects.\<close>

fun closes :: "string \<Rightarrow> u64 \<Rightarrow> destination \<times> u64 \<times> u64 \<Rightarrow> route_event \<Rightarrow> bool" where
  "closes p i (d, orig, g) (In s (FileStream f) ts) =
     (s = p \<and> request_id f = i \<and> kind f \<in> {END, ERROR, DESCRIPTORS_RESPONSE} \<or>
      d = Peer s \<and> kind f = CANCEL \<and> request_id f = orig \<and> generation f = g)"
| "closes p i (d, orig, g) (Out q (FileStream f)) =
     (d = Local \<and> kind f = CANCEL \<and> request_id f = orig \<and> generation f = g)"
| "closes p i (d, orig, g) (Gone q) = (q = p \<or> d = Peer q)"
| "closes _ _ _ _ = False"

lemma forget_requests:
  "hm_get (requests (forget q j w r)) (p, i) = (if (p, i) = (q, j) then None else hm_get (requests r) (p, i))"
  by (simp add: forget_def hm_gets split: prod.splits)

lemma request_persists:
  assumes "route_inv r" and "unat (next_id r) < 2 ^ 64 - 1" and "hm_get (requests r) (p, i) = Some v"
    and "route_request own dest f r = (ok, f', r')"
  shows "hm_get (requests r') (p, i) = Some v"
proof -
  have "(p, i) \<noteq> (own, next_id r + 1)"
    using assms(1,3) route_id_eq [OF assms(2)] by (cases v) (fastforce simp: route_inv_def ids_issued_def)
  then show ?thesis
    using assms(3,4) route_id_eq [OF assms(2)]
    by (auto simp: route_request_def hm_gets split: if_splits)
qed

lemma control_persists:
  assumes "route_inv r" and "hm_get (requests r) (p, i) = Some (d, orig, g)"
    and "route_control dest f r = (x, f', r')"
    and "\<not> (dest = d \<and> kind f = CANCEL \<and> request_id f = orig \<and> generation f = g)"
  shows "hm_get (requests r') (p, i) = Some (d, orig, g)"
proof -
  from assms(1) have l: "linked r" by (simp add: route_inv_def)
  have other: "(own, j) \<noteq> (p, i)"
    if "hm_get (reverse r) (dest, generation f, request_id f) = Some (own, j)" "kind f = CANCEL" for own j
    using linkedD [OF l that(1)] assms(2,4) that(2) by auto
  from assms(2,3) show ?thesis
    by (auto simp: route_control_eq [OF l] forget_requests split: option.splits if_splits dest: other)
qed

lemma enqueue_requests:
  "enqueue_metadata own dest msg r = (x, r') \<Longrightarrow> requests r' = requests r"
  "requests (snd (enqueue_metadata own dest msg r)) = requests r"
  by (auto simp: enqueue_metadata_def Let_def split: if_splits)

lemma route_id_requests: "route_id r = (i, r') \<Longrightarrow> requests r' = requests r"
  by (auto simp: route_id_def Let_def)

lemma apply_persists:
  assumes r: "route_inv r" and n: "unat (next_id r) < 2 ^ 64 - 1"
    and v: "hm_get (requests r) (p, i) = Some (d, orig, g)" and open_: "\<not> closes p i (d, orig, g) e"
  shows "hm_get (requests (route_apply e r)) (p, i) = Some (d, orig, g)"
proof (cases e)
  case (Gone q)
  with v open_ show ?thesis
    by (auto simp: disconnect_def hm.get_retain_Some [OF route_inv_ok(2) [OF r]])
next
  case (Out q m)
  show ?thesis
  proof (cases m)
    case (FileStream f)
    with Out v open_ request_persists [OF r n v] control_persists [OF r v] show ?thesis
      by (fastforce split: prod.splits option.splits if_splits)
  qed (use Out v in \<open>auto simp: Let_def enqueue_requests(2) split: prod.splits dest: route_id_requests\<close>)
next
  case (In s m ts)
  show ?thesis
  proof (cases m)
    case (FileStream f)
    have "hm_get (requests r') (p, i) = Some (d, orig, g)"
      if "incoming_stream s f r = (h, f', fw, r')" for h f' fw r'
      using that v open_ In FileStream request_persists [OF r n v] control_persists [OF r v]
      unfolding incoming_stream_def
      by (auto simp: Let_def hm_gets split: if_splits option.splits bool.splits prod.splits destination.splits)
    then show ?thesis using In FileStream by (simp split: prod.splits)
  qed (use In v in \<open>auto simp: Let_def incoming_formats_def split: prod.splits option.splits list.splits destination.splits
     dest: enqueue_requests(1) route_id_requests\<close>)
qed

lemma run_persists:
  "route_inv r \<Longrightarrow> unat (next_id r) + length es < 2 ^ 64 \<Longrightarrow>
    hm_get (requests r) (p, i) = Some (d, orig, g) \<Longrightarrow> list_all (\<lambda>e. \<not> closes p i (d, orig, g) e) es \<Longrightarrow>
    hm_get (requests (fold route_apply es r)) (p, i) = Some (d, orig, g)"
proof (induction es arbitrary: r)
  case Nil
  then show ?case by simp
next
  case (Cons e es)
  then have n: "unat (next_id r) < 2 ^ 64 - 1" and e: "\<not> closes p i (d, orig, g) e" by simp_all
  from route_apply_inv [OF Cons.prems(1) n, of e] apply_persists [OF Cons.prems(1) n Cons.prems(3) e]
    Cons.prems(2,4) Cons.IH [of "route_apply e r"]
  show ?case by simp
qed

lemma accepted_request:
  assumes r: "unat (next_id r) < 2 ^ 64 - 1" and kind: "kind f = REQUEST \<or> kind f = DESCRIPTORS_REQUEST"
    and run: "incoming B (FileStream f) ts r = (True, FileStream f', [(A, FileStream f')], r1)"
    and ok: "kind f' \<noteq> ERROR"
  shows "hm_get (requests r1) (A, request_id f') = Some (Peer B, request_id f, generation f)"
    and "f' = f\<lparr>request_id := next_id r + 1\<rparr>"
  using run kind ok route_id_eq [OF r]
  by (auto simp: incoming_stream_def route_request_def hm_gets Let_def
      split: option.splits if_splits prod.splits bool.splits)

text \<open>C4 Relaying.  When a peer's request was relayed to the owner of its generation, then after any
  events that do not close it (final answer, cancellation, disconnection of either side) an answer of
  the owner under the relayed id reaches exactly that peer, under the id it had chosen itself.\<close>

theorem reply_reaches_requester:
  assumes "route_inv r" and "unat (next_id r) + length es < 2 ^ 64 - 1"
    and "kind f = REQUEST \<or> kind f = DESCRIPTORS_REQUEST"
    and "incoming B (FileStream f) ts r = (True, FileStream f', [(A, FileStream f')], r1)" and "kind f' \<noteq> ERROR"
    and "list_all (\<lambda>e. \<not> closes A (request_id f') (Peer B, request_id f, generation f) e) es"
    and "kind reply \<in> {BLOCK, END, ERROR, DESCRIPTORS_RESPONSE}"
    and "request_id reply = request_id f'" and "generation reply = generation f"
  shows "\<exists>r2. incoming A (FileStream reply) ts' (fold route_apply es r1) =
      (True, FileStream (reply\<lparr>request_id := request_id f\<rparr>),
       [(B, FileStream (reply\<lparr>request_id := request_id f\<rparr>))], r2) \<and>
    (hm_get (requests r2) (A, request_id f') = None) = (kind reply \<noteq> BLOCK)"
proof -
  have n: "unat (next_id r) < 2 ^ 64 - 1" using assms(2) by simp
  note acc = accepted_request [OF n assms(3,4,5)]
  have "route_inv r1" "unat (next_id r1) \<le> Suc (unat (next_id r))"
    using incoming_inv [OF assms(1) n assms(4)] by auto
  then have "hm_get (requests (fold route_apply es r1)) (A, request_id f') =
      Some (Peer B, request_id f, generation f)"
    using assms(2,6) by (intro run_persists acc) auto
  then show ?thesis using assms(7-9)
    by (auto simp: incoming_stream_def Let_def hm_gets)
qed

definition sample_frame :: "u32 \<Rightarrow> u64 \<Rightarrow> frame" where
  "sample_frame k i = \<lparr>kind = k, generation = 7, request_id = i, index = 0, offset = 0, frame_size = 9,
     data = [], compressed = False\<rparr>"

definition sample_route :: file_route where
  "sample_route = route_default\<lparr>generations := [(7, ''A'')]\<rparr>"

lemma sample_route_inv: "route_inv sample_route"
  using generations_inv [OF route_default_inv, of "[(7, ''A'')]"]
  by (simp add: sample_route_def hm_ok_def)

definition sample_route1 :: file_route where
  "sample_route1 = sample_route\<lparr>next_id := 1, requests := [((''A'', 1), (Peer ''B'', 5, 7))],
     reverse := [((Peer ''B'', 7, 5), (''A'', 1))]\<rparr>"

lemma reply_reaches_requester_witness:
  "\<exists>r2. incoming ''A'' (FileStream (sample_frame END 1)) [] (fold route_apply [Gone ''C''] sample_route1) =
      (True, FileStream ((sample_frame END 1)\<lparr>request_id := request_id (sample_frame REQUEST 5)\<rparr>),
       [(''B'', FileStream ((sample_frame END 1)\<lparr>request_id := request_id (sample_frame REQUEST 5)\<rparr>))], r2) \<and>
    (hm_get (requests r2) (''A'', request_id (sample_frame REQUEST 1)) = None) = (kind (sample_frame END 1) \<noteq> BLOCK)"
proof (rule reply_reaches_requester)
  show "incoming ''B'' (FileStream (sample_frame REQUEST 5)) [] sample_route =
    (True, FileStream (sample_frame REQUEST 1), [(''A'', FileStream (sample_frame REQUEST 1))], sample_route1)"
    by (simp add: incoming_stream_def sample_route_def sample_frame_def sample_route1_def route_default_def
        hm_get_def hm_put_def hm_del_def foreign_owner_def route_request_def route_id_def max_def)
qed (simp_all add: sample_route_inv, simp_all add: sample_frame_def sample_route_def route_default_def)

definition mentions :: "string \<Rightarrow> string \<times> 'a \<Rightarrow> destination \<Rightarrow> bool" where
  "mentions peer k d \<longleftrightarrow> fst k = peer \<or> d = Peer peer"

text \<open>Disconnection.  After a peer is gone no table mentions it, except for the request in flight at
  the head of another peer's queue; every entry that does not mention it is kept.\<close>

theorem disconnect_forgets:
  fixes peer :: string
  assumes "route_inv r"
  defines "r' \<equiv> disconnect peer r"
  shows "(owner r' = (if owner r = Some peer then None else owner r)) \<and>
    (\<forall>g. hm_get (generations r') g = (if hm_get (generations r) g = Some peer then None else hm_get (generations r) g)) \<and>
    (\<forall>k d w. (hm_get (requests r') k = Some (d, w)) = (hm_get (requests r) k = Some (d, w) \<and> \<not> mentions peer k d)) \<and>
    (\<forall>d w k. (hm_get (reverse r') (d, w) = Some k) = (hm_get (reverse r) (d, w) = Some k \<and> \<not> mentions peer k d)) \<and>
    (\<forall>k d w. (hm_get (legacy r') k = Some (d, w)) = (hm_get (legacy r) k = Some (d, w) \<and> \<not> mentions peer k d)) \<and>
    route_queue peer r' = [] \<and>
    (\<forall>p. p \<noteq> peer \<longrightarrow> (\<forall>(d, m) \<in> set (tl (route_queue p r')). d \<noteq> Peer peer) \<and>
      take 1 (route_queue p r') = take 1 (route_queue p r))"
proof -
  note ok = route_inv_ok [OF assms(1)]
  have "hm_get (generations r') g = (if hm_get (generations r) g = Some peer then None else hm_get (generations r) g)" for g
    by (auto simp: r'_def disconnect_def hm.get_retain [OF ok(1)] split: option.splits)
  moreover have "(hm_get (requests r') k = Some (d, w)) = (hm_get (requests r) k = Some (d, w) \<and> \<not> mentions peer k d)" for k d w
    by (cases k; cases w) (auto simp: r'_def disconnect_def hm.get_retain_Some [OF ok(2)] mentions_def)
  moreover have "(hm_get (reverse r') (d, w) = Some k) = (hm_get (reverse r) (d, w) = Some k \<and> \<not> mentions peer k d)" for k d w
    by (cases k; cases w) (auto simp: r'_def disconnect_def hm.get_retain_Some [OF ok(3)] mentions_def)
  moreover have "(hm_get (legacy r') k = Some (d, w)) = (hm_get (legacy r) k = Some (d, w) \<and> \<not> mentions peer k d)" for k d w
    by (cases k) (auto simp: r'_def disconnect_def hm.get_retain_Some [OF ok(5)] mentions_def)
  moreover have q: "route_queue p r' = (if p = peer then [] else keep_head peer (route_queue p r))" for p
    by (auto simp: r'_def disconnect_def route_queue_def hm_get_map hm_gets split: option.splits)
  moreover have "(\<forall>(d, m) \<in> set (tl (keep_head peer q)). d \<noteq> Peer peer) \<and> take 1 (keep_head peer q) = take 1 q" for q
    by (cases q) auto
  ultimately show ?thesis by (simp add: r'_def disconnect_def)
qed

lemma disconnect_forgets_witness:
  "hm_get (requests (disconnect ''A'' sample_route)) (''A'', 1) \<noteq> Some (Local, 1, 7)"
  using disconnect_forgets [OF sample_route_inv, where peer = "''A''"] by (simp add: mentions_def)

text \<open>The owner answers its queued metadata requests one after the other.\<close>

fun answer_all :: "string \<Rightarrow> (i32 \<times> bytes) list \<Rightarrow> file_route \<Rightarrow> (bool \<times> forward list) list \<times> file_route" where
  "answer_all own [] r = ([], r)"
| "answer_all own ((fl, d) # answers) r =
     (case incoming own (FormatDataResponse fl d) [] r of
        (h, _, fw, r') \<Rightarrow> (case answer_all own answers r' of (out, r'') \<Rightarrow> ((h, fw) # out, r'')))"

definition answer_effect ::
  "string \<Rightarrow> (destination \<times> clipboard_file) list \<Rightarrow> nat \<Rightarrow> i32 \<times> bytes \<Rightarrow> bool \<times> forward list" where
  "answer_effect own q i a =
     (let dest = fst (q ! i);
          following = (if Suc i < length q then [(own, snd (q ! Suc i))] else []);
          reply = FormatDataResponse (fst a) (snd a)
      in case dest of Peer p \<Rightarrow> (True, following @ [(p, reply)]) | Local \<Rightarrow> (False, following))"

lemma answer_one:
  assumes "route_queue own r = x # q" and "incoming own (FormatDataResponse fl d) [] r = (h, m, fw, r')"
  shows "(h, fw) = answer_effect own (x # q) 0 (fl, d)" and "route_queue own r' = q"
  using assms
  by (auto simp: answer_effect_def Let_def route_queue_def hm_gets split: destination.splits list.splits prod.splits)

lemma answer_effect_Suc: "answer_effect own (x # q) (Suc i) a = answer_effect own q i a"
  by (simp add: answer_effect_def)

lemma enqueue_queue:
  "enqueue_metadata own dest msg r = (out, r') \<Longrightarrow>
    route_queue own r' = (if length (route_queue own r) < 32 then route_queue own r @ [(dest, msg)]
      else route_queue own r) \<and>
    out = (if route_queue own r = [] then Some msg else None)"
  by (auto simp: enqueue_metadata_def Let_def route_queue_def hm_gets split: if_splits option.splits)

text \<open>Serialisation.  Metadata requests carry no id: a request is sent at once only to an idle owner,
  and the answers go to the queued requesters in the order of their requests, each answer releasing
  exactly the next request.\<close>

theorem metadata_answers_in_order:
  assumes "length answers \<le> length (route_queue own r)"
  shows "fst (answer_all own answers r) =
      map (\<lambda>i. answer_effect own (route_queue own r) i (answers ! i)) [0..<length answers] \<and>
    route_queue own (snd (answer_all own answers r)) = drop (length answers) (route_queue own r) \<and>
    (fst (enqueue_metadata own dest msg r) \<noteq> None) = (route_queue own r = [])"
proof -
  have "(fst (enqueue_metadata own dest msg r) \<noteq> None) = (route_queue own r = [])"
    using enqueue_queue [of own dest msg r] by (cases "enqueue_metadata own dest msg r") auto
  moreover have "fst (answer_all own answers r) =
      map (\<lambda>i. answer_effect own (route_queue own r) i (answers ! i)) [0..<length answers] \<and>
    route_queue own (snd (answer_all own answers r)) = drop (length answers) (route_queue own r)"
    using assms
  proof (induction answers arbitrary: r)
    case Nil
    then show ?case by simp
  next
    case (Cons a answers)
    obtain fl d where a: "a = (fl, d)" by (cases a)
    obtain x q where q: "route_queue own r = x # q" using Cons.prems by (cases "route_queue own r") auto
    obtain h m fw r' where run: "incoming own (FormatDataResponse fl d) [] r = (h, m, fw, r')"
      by (cases "incoming own (FormatDataResponse fl d) [] r")
    have "length answers \<le> length (route_queue own r')"
      using Cons.prems answer_one(2) [OF q run] q by simp
    from Cons.IH [OF this] show ?case
      using answer_one [OF q run] q
      by (cases "answer_all own answers r'") (simp add: a run answer_effect_Suc map_upt_Suc del: upt_Suc incoming.simps split: prod.splits)
  qed
  ultimately show ?thesis by blast
qed

definition waiting_route :: file_route where
  "waiting_route = route_default\<lparr>metadata := [(''A'', [(Peer ''B'', FormatDataRequest 1), (Local, FormatDataRequest 2)])]\<rparr>"

lemma metadata_answers_in_order_witness:
  "fst (answer_all ''A'' [(1, [3]), (1, [4])] waiting_route) =
     [(True, [(''A'', FormatDataRequest 2), (''B'', FormatDataResponse 1 [3])]), (False, [])]"
proof -
  have q: "route_queue ''A'' waiting_route = [(Peer ''B'', FormatDataRequest 1), (Local, FormatDataRequest 2)]"
    by (simp add: route_queue_def waiting_route_def hm_get_def)
  show ?thesis
    using metadata_answers_in_order [of "[(1, [3]), (1, [4])]" "''A''" waiting_route]
    by (simp add: q answer_effect_def upt_rec)
qed

end
