(* ===== verification/Term_Service.thy ===== *)
theory Term_Service
  imports MDesk_Prelude
begin

text \<open>
  Remote terminals: \<open>src/server/terminal_service.rs\<close>.  The first part is the scrollback buffer of a
  terminal (\<open>OutputBuffer\<close>), whose trimming loop is a partial function, since it need not end; the
  second part is the registry of persistent terminal services and the operations that a client's
  actions, the 30 ms output loop, the idle cleanup and a disconnection perform on it.

  Pseudo terminals, child processes and compression are not under \<open>src\<close>: their answers are arguments
  of the operations that ask for them.  Sessions are reached through \<open>Arc<Mutex<..>>\<close> only within one
  operation, so they are stored by value; the reader and writer threads appear as the queue of
  output they have delivered, the queue of input they were sent, and a flag that the reader ended.
\<close>

section \<open>The scrollback buffer\<close>

definition MAX_OUTPUT_BUFFER_SIZE :: u64 where "MAX_OUTPUT_BUFFER_SIZE = 1024 * 1024"
definition MAX_BUFFER_LINES :: nat where "MAX_BUFFER_LINES = 10000"
definition MAX_SERVICES :: nat where "MAX_SERVICES = 100"
definition SERVICE_IDLE_TIMEOUT :: nat where "SERVICE_IDLE_TIMEOUT = 3600 * 1000000000"
definition COMPRESS_THRESHOLD :: nat where "COMPRESS_THRESHOLD = 512"

abbreviation newline :: u8 where "newline \<equiv> 10"

record output_buffer =
  buf_lines :: "bytes list"
  total_size :: u64
  last_line_incomplete :: bool

definition buffer_new :: output_buffer where
  "buffer_new = \<lparr>buf_lines = [], total_size = 0, last_line_incomplete = False\<rparr>"

text \<open>\<open>slice::split\<close> at newlines: always at least one piece.\<close>

fun split_lines :: "bytes \<Rightarrow> bytes list" where
  "split_lines [] = [[]]"
| "split_lines (b # bs) =
     (if b = newline then [] # split_lines bs
      else (case split_lines bs of l # ls \<Rightarrow> (b # l) # ls | [] \<Rightarrow> [[b]]))"

definition push_line :: "bytes \<Rightarrow> output_buffer \<Rightarrow> output_buffer" where
  "push_line l b = b\<lparr>buf_lines := buf_lines b @ [l], total_size := total_size b + of_nat (length l)\<rparr>"

fun push_lines :: "bool \<Rightarrow> bytes list \<Rightarrow> output_buffer \<Rightarrow> output_buffer" where
  "push_lines ends [] b = b"
| "push_lines ends [line] b =
     (let b' = (if \<not> ends \<and> line \<noteq> [] then b\<lparr>last_line_incomplete := True\<rparr> else b)
      in if line \<noteq> [] then push_line (line @ (if ends then [newline] else [])) b' else b')"
| "push_lines ends (line # l # ls) b = push_lines ends (l # ls) (push_line (line @ [newline]) b)"

definition too_big :: "output_buffer \<Rightarrow> bool" where
  "too_big b \<longleftrightarrow> total_size b > MAX_OUTPUT_BUFFER_SIZE \<or> length (buf_lines b) > MAX_BUFFER_LINES"

definition pop_line :: "output_buffer \<Rightarrow> output_buffer" where
  "pop_line b = (case buf_lines b of
     [] \<Rightarrow> b
   | l # ls \<Rightarrow> b\<lparr>buf_lines := ls, total_size := total_size b - of_nat (length l)\<rparr>)"

text \<open>The trimming loop; \<open>None\<close> means that it never ends.\<close>

partial_function (option) trim :: "output_buffer \<Rightarrow> output_buffer option" where
  "trim b = (if too_big b then trim (pop_line b) else Some b)"

definition append_rest :: "bytes \<Rightarrow> output_buffer \<Rightarrow> output_buffer option" where
  "append_rest remaining b =
     trim (push_lines (remaining \<noteq> [] \<and> last remaining = newline) (split_lines remaining) b)"

definition append :: "bytes \<Rightarrow> output_buffer \<Rightarrow> output_buffer option" where
  "append data b =
     (if data = [] then Some b
      else if last_line_incomplete b \<and> buf_lines b \<noteq> [] then
        (if newline \<in> set data then
           let completed = takeWhile (\<lambda>x. x \<noteq> newline) data @ [newline];
               start = length completed
           in append_rest (drop start data)
                (b\<lparr>buf_lines := butlast (buf_lines b) @ [last (buf_lines b) @ completed],
                   last_line_incomplete := False\<rparr>)
         else Some (b\<lparr>buf_lines := butlast (buf_lines b) @ [last (buf_lines b) @ data],
                      total_size := total_size b + of_nat (length data)\<rparr>))
      else append_rest data b)"

fun recent :: "nat \<Rightarrow> nat \<Rightarrow> bytes list \<Rightarrow> bytes \<Rightarrow> bytes" where
  "recent max_bytes n [] result = result"
| "recent max_bytes n (line # older) result =
     (if n + length line > max_bytes then result
      else recent max_bytes (n + length line) older (line @ result))"

definition get_recent :: "output_buffer \<Rightarrow> nat \<Rightarrow> bytes" where
  "get_recent b max_bytes = recent max_bytes 0 (rev (buf_lines b)) []"

fun append_all :: "bytes list \<Rightarrow> output_buffer \<Rightarrow> output_buffer option" where
  "append_all [] b = Some b"
| "append_all (d # ds) b = (case append d b of Some b' \<Rightarrow> append_all ds b' | None \<Rightarrow> None)"

subsection \<open>What the buffer holds\<close>

lemma split_lines_not_Nil: "split_lines bs \<noteq> []"
  by (induction bs) (auto split: list.splits)

lemma concat_push_lines:
  "ls \<noteq> [] \<Longrightarrow> (ends \<Longrightarrow> last ls = []) \<Longrightarrow> concat (buf_lines (push_lines ends ls b)) =
    concat (buf_lines b) @ concat (map (\<lambda>l. l @ [newline]) (butlast ls)) @ last ls"
  by (induction ends ls b rule: push_lines.induct) (auto simp: push_line_def Let_def)

lemma join_split_lines:
  "concat (map (\<lambda>l. l @ [newline]) (butlast (split_lines bs))) @ last (split_lines bs) = bs"
proof (induction bs)
  case (Cons b bs)
  then show ?case
    using split_lines_not_Nil [of bs] by (cases "split_lines bs") auto
qed simp

lemma split_lines_snoc: "split_lines (bs @ [newline]) = split_lines bs @ [[]]"
proof (induction bs)
  case (Cons b bs)
  then show ?case using split_lines_not_Nil [of bs] by (cases "split_lines bs") auto
qed simp

lemma last_split_lines: "bs \<noteq> [] \<Longrightarrow> last bs = newline \<Longrightarrow> last (split_lines bs) = []"
  by (cases bs rule: rev_cases) (simp_all add: split_lines_snoc)

lemma push_split_lines:
  "concat (buf_lines (push_lines (r \<noteq> [] \<and> last r = newline) (split_lines r) b)) = concat (buf_lines b) @ r"
  using concat_push_lines [OF split_lines_not_Nil, of "r \<noteq> [] \<and> last r = newline" r b]
    join_split_lines [of r] last_split_lines [of r] by auto

lemma pop_line_suffix: "suffix (concat (buf_lines (pop_line b))) (concat (buf_lines b))"
  by (auto simp: pop_line_def suffix_def split: list.splits)

lemma trim_suffix:
  assumes "trim b = Some b'"
  shows "suffix (concat (buf_lines b')) (concat (buf_lines b)) \<and> \<not> too_big b'"
proof (rule trim.raw_induct [OF _ assms])
  fix rec b b'
  assume IH: "\<And>b b'. rec b = Some b' \<Longrightarrow> suffix (concat (buf_lines b')) (concat (buf_lines b)) \<and> \<not> too_big b'"
    and run: "(if too_big b then rec (pop_line b) else Some b) = Some b'"
  show "suffix (concat (buf_lines b')) (concat (buf_lines b)) \<and> \<not> too_big b'"
    using run IH [of "pop_line b" b'] pop_line_suffix [of b]
    by (auto split: if_splits intro: suffix_order.trans)
qed

lemma takeWhile_newline:
  "newline \<in> set data \<Longrightarrow>
    (takeWhile (\<lambda>x. x \<noteq> newline) data @ [newline]) @ drop (Suc (length (takeWhile (\<lambda>x. x \<noteq> newline) data))) data = data"
  by (induction data) auto

lemma append_rest_suffix:
  "append_rest r b = Some b' \<Longrightarrow> suffix (concat (buf_lines b')) (concat (buf_lines b) @ r)"
  unfolding append_rest_def by (drule trim_suffix) (simp only: push_split_lines)

lemma concat_extend_last:
  "ls \<noteq> [] \<Longrightarrow> concat (butlast ls @ [last ls @ x]) = concat ls @ x"
  by (induction ls) (auto split: if_splits)

lemma append_suffix:
  assumes "append d b = Some b'"
  shows "suffix (concat (buf_lines b')) (concat (buf_lines b) @ d)"
proof -
  consider "d = []" | "d \<noteq> []" "last_line_incomplete b \<and> buf_lines b \<noteq> []" "newline \<in> set d"
    | "d \<noteq> []" "last_line_incomplete b \<and> buf_lines b \<noteq> []" "newline \<notin> set d"
    | "d \<noteq> []" "\<not> (last_line_incomplete b \<and> buf_lines b \<noteq> [])" by blast
  then show ?thesis
  proof cases
    case 2
    let ?c = "takeWhile (\<lambda>x. x \<noteq> newline) d @ [newline]"
    have d: "?c @ drop (length ?c) d = d" using takeWhile_newline [OF 2(3)] by simp
    from 2 assms have "append_rest (drop (length ?c) d)
        (b\<lparr>buf_lines := butlast (buf_lines b) @ [last (buf_lines b) @ ?c], last_line_incomplete := False\<rparr>) = Some b'"
      by (simp add: append_def Let_def)
    have "append_rest r (b\<lparr>buf_lines := L, last_line_incomplete := False\<rparr>) = Some b' \<Longrightarrow>
        suffix (concat (buf_lines b')) (concat L @ r)" for r L
      using append_rest_suffix [of r _ b'] by fastforce
    from this [OF \<open>append_rest _ _ = _\<close>]
    have "suffix (concat (buf_lines b')) ((concat (buf_lines b) @ ?c) @ drop (length ?c) d)"
      unfolding concat_extend_last [OF conjunct2 [OF 2(2)]] .
    then show ?thesis unfolding append_assoc [of "concat (buf_lines b)"] d .
  next
    case 3
    then show ?thesis
      using assms concat_extend_last [of "buf_lines b" d] by (auto simp: append_def simp del: concat_append)
  next
    case 4
    with assms have "append_rest d b = Some b'" by (auto simp: append_def)
    then show ?thesis by (rule append_rest_suffix)
  qed (use assms in \<open>simp add: append_def\<close>)
qed

lemma append_all_suffix:
  "append_all ds b = Some b' \<Longrightarrow> suffix (concat (buf_lines b')) (concat (buf_lines b) @ concat ds)"
proof (induction ds arbitrary: b)
  case (Cons d ds)
  then obtain m where m: "append d b = Some m" "append_all ds m = Some b'" by (auto split: option.splits)
  from Cons.IH [OF m(2)] append_suffix [OF m(1)]
  have "suffix (concat (buf_lines b')) ((concat (buf_lines b) @ d) @ concat ds)"
    by (auto simp: suffix_def) (metis append_assoc)
  then show ?case by simp
qed simp

lemma recent_suffix: "\<exists>k. recent m n ls r = concat (rev (take k ls)) @ r"
proof (induction m n ls r rule: recent.induct)
  case (2 m n line older r)
  show ?case
  proof (cases "m < n + length line")
    case True
    then show ?thesis by (intro exI [of _ 0]) simp
  next
    case False
    with 2 obtain k where "recent m (n + length line) older (line @ r) = concat (rev (take k older)) @ line @ r"
      by (auto simp: not_less)
    with False show ?thesis by (intro exI [of _ "Suc k"]) simp
  qed
qed simp

lemma recent_length: "n = length r \<Longrightarrow> n \<le> m \<Longrightarrow> length (recent m n ls r) \<le> m"
  by (induction m n ls r rule: recent.induct) auto

lemma get_recent_suffix: "suffix (get_recent b m) (concat (buf_lines b))"
proof -
  obtain k where "get_recent b m = concat (rev (take k (rev (buf_lines b))))"
    using recent_suffix [of m 0 "rev (buf_lines b)" "[]"] by (auto simp: get_recent_def)
  then have "get_recent b m = concat (drop (length (buf_lines b) - k) (buf_lines b))"
    by (simp add: take_rev)
  then show ?thesis
    by (metis append_take_drop_id concat_append suffixI)
qed

text \<open>C29 Scrollback.  Whatever the child wrote, in whatever pieces, what the buffer gives back is at most
  the requested number of bytes and is the end of the output so far: nothing is lost, repeated or
  reordered within it.\<close>

theorem scrollback_is_recent_output:
  assumes "append_all chunks buffer_new = Some b"
  shows "suffix (get_recent b n) (concat chunks) \<and> length (get_recent b n) \<le> n"
  using append_all_suffix [OF assms] get_recent_suffix [of b n] recent_length [of 0 "[]" n]
  by (auto simp: buffer_new_def get_recent_def intro: suffix_order.trans)

lemma trim_small: "\<not> too_big b \<Longrightarrow> trim b = Some b"
  by (simp add: trim.simps)

lemma scrollback_is_recent_output_witness:
  "suffix (get_recent \<lparr>buf_lines = [[65, 66, 10], [67]], total_size = 2, last_line_incomplete = True\<rparr> 2)
      (concat [[65], [66, 10, 67 :: u8]]) \<and>
    length (get_recent \<lparr>buf_lines = [[65, 66, 10], [67]], total_size = 2, last_line_incomplete = True\<rparr> 2) \<le> 2"
  by (rule scrollback_is_recent_output)
    (simp add: append_def append_rest_def trim_small too_big_def buffer_new_def MAX_OUTPUT_BUFFER_SIZE_def
      MAX_BUFFER_LINES_def push_line_def)

subsection \<open>The accounting of the buffer\<close>

text \<open>Completing an incomplete line leaves \<open>total_size\<close> unchanged, so it can fall below the size of
  the lines; removing a line then wraps it around.\<close>

lemma trim_spins_aux:
  assumes "trim b = Some b'"
  shows "\<not> 2 ^ 20 + length (concat (buf_lines b)) < unat (total_size b)"
proof (rule trim.raw_induct [OF _ assms])
  fix rec b b'
  assume IH: "\<And>b b'. rec b = Some b' \<Longrightarrow> \<not> 2 ^ 20 + length (concat (buf_lines b)) < unat (total_size b)"
    and run: "(if too_big b then rec (pop_line b) else Some b) = Some b'"
  show "\<not> 2 ^ 20 + length (concat (buf_lines b)) < unat (total_size b)"
  proof
    assume big: "2 ^ 20 + length (concat (buf_lines b)) < unat (total_size b)"
    then have "too_big b"
      by (simp add: too_big_def MAX_OUTPUT_BUFFER_SIZE_def word_less_nat_alt)
    with run have pop: "rec (pop_line b) = Some b'" by simp
    show False
    proof (cases "buf_lines b")
      case Nil
      with IH [OF pop] big show False by (simp add: pop_line_def)
    next
      case (Cons l ls)
      have small: "length l < 2 ^ 64"
        using big Cons unsigned_less [of "total_size b", where 'a = nat] by simp
      then have "unat (of_nat (length l) :: u64) = length l"
        by (simp add: unat_of_nat take_bit_nat_eq_self)
      moreover from this have "unat (total_size b - of_nat (length l)) = unat (total_size b) - length l"
        using big Cons by (subst unat_diff_le) (simp_all add: word_le_nat_alt)
      ultimately show False using IH [OF pop] big Cons by (simp add: pop_line_def)
    qed
  qed
qed

lemma trim_spins: "2 ^ 20 + length (concat (buf_lines b)) < unat (total_size b) \<Longrightarrow> trim b = None"
  using trim_spins_aux [of b] by (cases "trim b") auto

definition half_line :: bytes where "half_line = [62]"
definition line_end :: bytes where "line_end = replicate 4095 46 @ [newline]"
definition full_line :: bytes where "full_line = half_line @ line_end"

definition full :: "nat \<Rightarrow> u64 \<Rightarrow> output_buffer" where
  "full n t = \<lparr>buf_lines = replicate n full_line, total_size = t, last_line_incomplete = False\<rparr>"

definition partial :: "nat \<Rightarrow> u64 \<Rightarrow> output_buffer" where
  "partial n t = \<lparr>buf_lines = replicate n full_line @ [half_line], total_size = t, last_line_incomplete = True\<rparr>"

lemma full_line_length: "length full_line = 4097"
  by (simp add: full_line_def half_line_def line_end_def)

lemma append_half: "append half_line (full n t) = trim (partial n (t + 1))"
  by (simp add: append_def half_line_def full_def partial_def append_rest_def push_line_def Let_def)

lemma append_end: "append line_end (partial n t) = trim (full (Suc n) t)"
proof -
  have tw: "takeWhile (\<lambda>x. x \<noteq> newline) line_end = replicate 4095 46"
    by (simp add: line_end_def takeWhile_append takeWhile_replicate)
  have "append line_end (partial n t) = append_rest []
      (\<lparr>buf_lines = replicate n full_line @ [full_line], total_size = t, last_line_incomplete = False\<rparr>)"
    unfolding append_def Let_def tw
    by (simp add: line_end_def partial_def full_line_def)
  also have "replicate n full_line @ [full_line] = replicate (Suc n) full_line"
    by (simp add: replicate_append_same)
  finally show ?thesis
    by (simp add: append_rest_def full_def)
qed

lemma trim_pop: "too_big b \<Longrightarrow> trim b = trim (pop_line b)"
  by (subst trim.simps) simp

lemma pop_partial: "pop_line (partial (Suc n) t) = partial n (t - 4097)"
  by (simp add: pop_line_def partial_def full_line_length)

lemma append_all_append: "append_all (xs @ ys) b = Option.bind (append_all xs b) (append_all ys)"
  by (induction xs arbitrary: b) (auto split: option.splits)

lemma not_too_big: "unat t \<le> 2 ^ 20 \<Longrightarrow> n \<le> 10000 \<Longrightarrow> \<not> too_big (full n t)"
    "unat t \<le> 2 ^ 20 \<Longrightarrow> n < 10000 \<Longrightarrow> \<not> too_big (partial n t)"
  by (simp_all add: too_big_def full_def partial_def MAX_OUTPUT_BUFFER_SIZE_def MAX_BUFFER_LINES_def
      word_less_nat_alt)

lemma fill:
  "n + k \<le> 10000 \<Longrightarrow> append_all (concat (replicate k [half_line, line_end])) (full n (of_nat n)) =
    Some (full (n + k) (of_nat (n + k)))"
proof (induction k arbitrary: n)
  case (Suc k)
  have u: "unat (of_nat (Suc n) :: u64) = Suc n" 
    using Suc.prems by (subst unat_of_nat) (simp add: take_bit_nat_eq_self)
  have "append half_line (full n (of_nat n)) = Some (partial n (of_nat (Suc n)))"
    using Suc.prems u by (simp add: append_half trim_small not_too_big(2) add.commute)
  moreover have "append line_end (partial n (of_nat (Suc n))) = Some (full (Suc n) (of_nat (Suc n)))"
    unfolding append_end using Suc.prems u by (intro trim_small not_too_big(1)) simp_all
  ultimately show ?case using Suc.IH [of "Suc n"] Suc.prems by simp
qed simp

text \<open>C6 A hang.  Ten thousand and three lines of 4097 bytes, each delivered as one byte (an echoed
  prompt) and then a full read of the pseudo terminal that ends the line, make \<open>append\<close> run for ever:
  the size counter wraps around and the trimming loop never ends.\<close>

theorem scrollback_append_hangs:
  "append_all (concat (replicate 10003 [half_line, line_end])) buffer_new = None"
proof -
  have split: "replicate 10003 [half_line, line_end] =
      replicate 10000 [half_line, line_end] @ replicate 3 [half_line, line_end]"
    by (simp flip: replicate_add)
  have start: "full 0 (of_nat 0) = buffer_new" by (simp add: full_def buffer_new_def)
  have A: "append half_line (full 10000 t) = trim (partial 9999 (t - 4096))"
    if "unat (t + 1) \<le> 2 ^ 20" for t
    using that pop_partial [of 9999 "t + 1"]
    by (simp add: append_half trim_pop too_big_def partial_def MAX_BUFFER_LINES_def diff_add_eq)
  have B: "append line_end (partial 9999 t) = trim (full 10000 t)" for t
    by (simp add: append_end)
  have 1: "append half_line (full 10000 10000) = Some (partial 9999 5904)"
    using A [of 10000] by (simp add: trim_small not_too_big(2))
  have 2: "append line_end (partial 9999 5904) = Some (full 10000 5904)"
    by (simp add: B trim_small not_too_big(1))
  have 3: "append half_line (full 10000 5904) = Some (partial 9999 1808)"
    using A [of 5904] by (simp add: trim_small not_too_big(2))
  have 4: "append line_end (partial 9999 1808) = Some (full 10000 1808)"
    by (simp add: B trim_small not_too_big(1))
  have "length (concat (buf_lines (partial 9999 t))) = 9999 * 4097 + 1" for t
    by (simp add: partial_def length_concat sum_list_replicate full_line_length half_line_def)
  then have 5: "append half_line (full 10000 1808) = None"
    using A [of 1808] by (simp add: trim_spins partial_def)
  have "append_all (concat (replicate 10000 [half_line, line_end])) buffer_new = Some (full 10000 10000)"
    using fill [of 0 10000] unfolding start by simp
  then show ?thesis
    unfolding split concat_append append_all_append
    by (simp add: numeral_3_eq_3 1 2 3 4 5)
qed

subsection \<open>When the loop ends\<close>

text \<open>The counter is the size of the lines, modulo the width of the counter.\<close>

definition counted :: "output_buffer \<Rightarrow> bool" where
  "counted b \<longleftrightarrow> total_size b = of_nat (length (concat (buf_lines b)))"

lemma counted_pop: "counted b \<Longrightarrow> counted (pop_line b)"
  by (auto simp: counted_def pop_line_def split: list.split)

lemma counted_push: "counted b \<Longrightarrow> counted (push_lines ends ls b)"
  by (induction ends ls b rule: push_lines.induct) (simp_all add: counted_def push_line_def Let_def)

lemma pop_line_shorter: "too_big b \<Longrightarrow> counted b \<Longrightarrow> length (buf_lines (pop_line b)) < length (buf_lines b)"
  by (auto simp: too_big_def counted_def pop_line_def split: list.split)

lemma pop_line_frame: "last_line_incomplete (pop_line b) = last_line_incomplete b"
  by (simp add: pop_line_def split: list.split)

lemma trim_returns:
  "counted b \<Longrightarrow> \<exists>b'. trim b = Some b' \<and> counted b' \<and> \<not> too_big b' \<and> last_line_incomplete b' = last_line_incomplete b"
proof (induction "length (buf_lines b)" arbitrary: b rule: less_induct)
  case less
  show ?case
  proof (cases "too_big b")
    case True
    then show ?thesis
      using less.hyps [OF pop_line_shorter [OF True less.prems] counted_pop [OF less.prems]]
      by (simp add: trim_pop pop_line_frame)
  qed (use less.prems in \<open>simp add: trim_small\<close>)
qed

lemma push_complete: "last_line_incomplete (push_lines True ls b) = last_line_incomplete b"
  by (induction "True" ls b rule: push_lines.induct) (simp_all add: push_line_def Let_def)

text \<open>A chunk that consists of whole lines.\<close>

definition whole_lines :: "bytes \<Rightarrow> bool" where
  "whole_lines d \<longleftrightarrow> d = [] \<or> last d = newline"

lemma append_whole_lines:
  assumes "whole_lines d" "counted b" "\<not> last_line_incomplete b" "\<not> too_big b"
  shows "\<exists>b'. append d b = Some b' \<and> counted b' \<and> \<not> too_big b' \<and> \<not> last_line_incomplete b'"
proof (cases "d = []")
  case True
  then show ?thesis using assms by (simp add: append_def)
next
  case False
  then have "append d b = trim (push_lines True (split_lines d) b)"
    using assms(1,3) by (simp add: append_def append_rest_def whole_lines_def)
  then show ?thesis
    using trim_returns [OF counted_push [OF assms(2), of True "split_lines d"]] assms(3) by (simp add: push_complete)
qed

text \<open>C30 Termination.  The loop that hangs on split lines ends on whole ones: as long as every delivery
  ends with a line, however many there are and however long, \<open>append\<close> returns, and the buffer then
  holds at most 1 MiB and 10000 lines, with a counter that is the number of its bytes.\<close>

theorem whole_lines_return:
  assumes "list_all whole_lines ds" and "\<forall>d \<in> set ds. length d < 2 ^ 63"
  shows "\<exists>b. append_all ds buffer_new = Some b \<and> length (buf_lines b) \<le> 10000
    \<and> unat (total_size b) \<le> 2 ^ 20 \<and> length (concat (buf_lines b)) = unat (total_size b)"
proof -
  have "\<exists>b'. append_all ds b = Some b' \<and> counted b' \<and> \<not> too_big b' \<and> length (concat (buf_lines b')) = unat (total_size b')"
    if "counted b" "\<not> last_line_incomplete b" "\<not> too_big b" "length (concat (buf_lines b)) = unat (total_size b)" for b
    using that assms
  proof (induction ds arbitrary: b)
    case (Cons d ds)
    obtain b1 where b1: "append d b = Some b1" "counted b1" "\<not> too_big b1" "\<not> last_line_incomplete b1"
      using append_whole_lines [of d b] Cons.prems(1-3,5) by auto
    have "length (concat (buf_lines b1)) \<le> length (concat (buf_lines b)) + length d"
      using suffix_length_le [OF append_suffix [OF b1(1)]] by simp
    moreover have "unat (total_size b) \<le> 2 ^ 20"
      using Cons.prems(3) by (simp add: too_big_def MAX_OUTPUT_BUFFER_SIZE_def word_le_nat_alt not_less)
    ultimately have "length (concat (buf_lines b1)) < 2 ^ 64" using Cons.prems(4,6) by fastforce
    then have "length (concat (buf_lines b1)) = unat (total_size b1)"
      using b1(2) by (simp add: counted_def unat_of_nat)
    then show ?case using Cons.IH [OF b1(2,4,3)] Cons.prems by (simp add: b1(1))
  qed simp
  from this [of buffer_new] show ?thesis
    by (auto simp: counted_def buffer_new_def too_big_def MAX_BUFFER_LINES_def MAX_OUTPUT_BUFFER_SIZE_def
        word_le_nat_alt not_less)
qed

lemma whole_lines_return_witness:
  "\<exists>b. append_all [[65, 10], [66, 67, 10]] buffer_new = Some b \<and> length (buf_lines b) \<le> 10000"
  using whole_lines_return [of "[[65, 10], [66, 67, 10]]"] by (auto simp: whole_lines_def)

section \<open>Sessions and services\<close>

text \<open>Time is in nanoseconds, the resolution of \<open>Instant\<close>.  \<open>reader_finished\<close> is \<open>None\<close> when there is no reader thread to join.\<close>

record terminal_session =
  ts_created_at :: nat
  ts_last_activity :: nat
  pty_pair :: bool
  child :: "nat option"
  input_tx :: "bytes list option"
  output_rx :: "bytes list option"
  exiting :: bool
  reader_finished :: "bool option"
  writer_thread :: bool
  output_buffer :: output_buffer
  title :: string
  pid :: u32
  rows :: u16
  cols :: u16
  closed_message_sent :: bool
  is_opened :: bool

record terminal_service =
  service_id :: string
  sessions :: "(i32, terminal_session) hmap"
  created_at :: nat
  last_activity :: nat
  is_persistent :: bool
  needs_session_sync :: bool
  is_specified_user :: bool

text \<open>The two global tables: the services, and the child processes waiting to be reaped.\<close>

record terminal_world =
  services :: "(string, terminal_service) hmap"
  terminal_tasks :: "nat list"

record terminal_opened =
  to_terminal_id :: i32
  to_success :: bool
  to_message :: string
  to_pid :: u32
  to_service_id :: string
  persistent_sessions :: "i32 list"

datatype terminal_response =
    Opened terminal_opened
  | Data i32 bytes bool
  | Closed i32 i32
  | Error string

datatype terminal_action =
    Open i32 u32 u32
  | Resize i32 u32 u32
  | Input i32 bytes
  | Close i32
  | NoAction

definition session_new :: "nat \<Rightarrow> string \<Rightarrow> u16 \<Rightarrow> u16 \<Rightarrow> terminal_session" where
  "session_new now name r c = \<lparr>ts_created_at = now, ts_last_activity = now, pty_pair = False, child = None,
     input_tx = None, output_rx = None, exiting = False, reader_finished = None, writer_thread = False,
     output_buffer = buffer_new, title = name, pid = 0, rows = r, cols = c,
     closed_message_sent = False, is_opened = False\<rparr>"

text \<open>\<open>stop\<close>: the input channel gets a last newline and is dropped, the threads are joined, the child is
  killed and handed to the reaper (the second component).\<close>

definition session_stop :: "terminal_session \<Rightarrow> terminal_session \<times> nat list" where
  "session_stop s =
     (s\<lparr>is_opened := False, exiting := True, input_tx := None, output_rx := None, pty_pair := False,
        reader_finished := None, writer_thread := False, child := None\<rparr>,
      (case child s of Some c \<Rightarrow> [c] | None \<Rightarrow> []))"

definition service_new :: "nat \<Rightarrow> string \<Rightarrow> bool \<Rightarrow> bool \<Rightarrow> terminal_service" where
  "service_new now sid persistent user = \<lparr>service_id = sid, sessions = [], created_at = now,
     last_activity = now, is_persistent = persistent, needs_session_sync = False, is_specified_user = user\<rparr>"

definition list_terminals :: "terminal_service \<Rightarrow> (i32 \<times> string \<times> u32 \<times> nat) list" where
  "list_terminals v = map (\<lambda>(i, s). (i, title s, pid s, ts_created_at s)) (sessions v)"

definition get_terminal_buffer :: "i32 \<Rightarrow> nat \<Rightarrow> terminal_service \<Rightarrow> bytes option" where
  "get_terminal_buffer i n v = map_option (\<lambda>s. get_recent (output_buffer s) n) (hm_get (sessions v) i)"

definition get_terminal_info :: "i32 \<Rightarrow> terminal_service \<Rightarrow> (u16 \<times> u16 \<times> bytes) option" where
  "get_terminal_info i v =
     map_option (\<lambda>s. (rows s, cols s, get_recent (output_buffer s) 4096)) (hm_get (sessions v) i)"

definition has_active_terminals :: "terminal_service \<Rightarrow> bool" where
  "has_active_terminals v \<longleftrightarrow> sessions v \<noteq> []"

definition reset_status :: "bool \<Rightarrow> terminal_service \<Rightarrow> terminal_service" where
  "reset_status persistent v = v\<lparr>is_persistent := persistent, needs_session_sync := True,
     sessions := map (\<lambda>(i, s). (i, s\<lparr>is_opened := False\<rparr>)) (sessions v)\<rparr>"

section \<open>The registry\<close>

definition get_service :: "string \<Rightarrow> terminal_world \<Rightarrow> terminal_service option" where
  "get_service sid w = hm_get (services w) sid"

definition is_service_specified_user :: "string \<Rightarrow> terminal_world \<Rightarrow> bool option" where
  "is_service_specified_user sid w = map_option is_specified_user (get_service sid w)"

definition put_service :: "string \<Rightarrow> terminal_service \<Rightarrow> terminal_world \<Rightarrow> terminal_world" where
  "put_service sid v w = w\<lparr>services := hm_put sid v (services w)\<rparr>"

text \<open>\<open>None\<close>: the limit on services is reached.\<close>

definition get_or_create_service ::
  "nat \<Rightarrow> string \<Rightarrow> bool \<Rightarrow> bool \<Rightarrow> terminal_world \<Rightarrow> terminal_world option" where
  "get_or_create_service now sid persistent user w =
     (if hm_get (services w) sid = None \<and> MAX_SERVICES \<le> length (services w) then None
      else let v = (case hm_get (services w) sid of
                      Some v \<Rightarrow> v | None \<Rightarrow> service_new now sid persistent user)
           in Some (put_service sid (reset_status persistent v) w))"

definition remove_service :: "string \<Rightarrow> terminal_world \<Rightarrow> terminal_world" where
  "remove_service sid w =
     (case hm_get (services w) sid of
        None \<Rightarrow> w
      | Some v \<Rightarrow> w\<lparr>services := hm_del sid (services w),
          terminal_tasks := terminal_tasks w @ concat (map (\<lambda>(_, s). snd (session_stop s)) (sessions v))\<rparr>)"

definition list_services :: "terminal_world \<Rightarrow> (string \<times> nat \<times> nat \<times> bool) list" where
  "list_services w = map (\<lambda>(sid, v). (sid, created_at v, length (sessions v), is_persistent v)) (services w)"

definition idle_too_long :: "nat \<Rightarrow> terminal_service \<Rightarrow> bool" where
  "idle_too_long now v \<longleftrightarrow>
     \<not> is_persistent v \<and> now - last_activity v > SERVICE_IDLE_TIMEOUT \<or>
     is_persistent v \<and> sessions v = [] \<and> now - last_activity v > SERVICE_IDLE_TIMEOUT * 2"

definition cleanup_inactive_services :: "nat \<Rightarrow> terminal_world \<Rightarrow> terminal_world" where
  "cleanup_inactive_services now w =
     fold remove_service (map fst (filter (\<lambda>(_, v). idle_too_long now v) (services w))) w"

text \<open>\<open>try_wait\<close> of a child: \<open>None\<close> while it runs, otherwise it is reaped (exit or error).\<close>

definition check_zombie_terminals :: "(nat \<Rightarrow> bool) \<Rightarrow> terminal_world \<Rightarrow> terminal_world" where
  "check_zombie_terminals running w = w\<lparr>terminal_tasks := filter running (terminal_tasks w)\<rparr>"

definition set_persistent :: "string \<Rightarrow> bool \<Rightarrow> terminal_world \<Rightarrow> terminal_world option" where
  "set_persistent sid persistent w =
     map_option (\<lambda>v. put_service sid (v\<lparr>is_persistent := persistent\<rparr>) w) (get_service sid w)"

section \<open>Actions of a client\<close>

text \<open>What opening a pseudo terminal and spawning the shell in it gives: an error, or the child and
  its process id.\<close>

type_synonym spawn_result = "string + (nat \<times> u32 option)"
type_synonym action_result = "string + terminal_response option"

definition sync_list :: "i32 list \<Rightarrow> bool \<Rightarrow> terminal_service \<Rightarrow> i32 list" where
  "sync_list ids enough v = (if needs_session_sync v \<and> enough then ids else [])"

definition handle_open ::
  "nat \<Rightarrow> string \<Rightarrow> spawn_result \<Rightarrow> string \<Rightarrow> i32 \<Rightarrow> u32 \<Rightarrow> u32 \<Rightarrow> terminal_service \<Rightarrow>
   action_result \<times> terminal_service" where
  "handle_open now name spawned proxy_id tid r c v =
     (case hm_get (sessions v) tid of
        Some s \<Rightarrow>
          (Inr (Some (Opened \<lparr>to_terminal_id = tid, to_success = True,
             to_message = ''Reconnected to existing terminal'', to_pid = pid s, to_service_id = proxy_id,
             persistent_sessions =
               sync_list (filter (\<lambda>i. i \<noteq> tid) (map fst (sessions v))) (1 < length (sessions v)) v\<rparr>)),
           v\<lparr>sessions := hm_put tid (s\<lparr>is_opened := True\<rparr>) (sessions v), needs_session_sync := False\<rparr>)
      | None \<Rightarrow>
          (case spawned of
             Inl e \<Rightarrow> (Inl e, v)
           | Inr (ch, p) \<Rightarrow>
               let s = (session_new now name (ucast r) (ucast c))
                     \<lparr>pid := (case p of Some p \<Rightarrow> p | None \<Rightarrow> 0), pty_pair := True, child := Some ch,
                      input_tx := Some [], output_rx := Some [], reader_finished := Some False,
                      writer_thread := True, is_opened := True\<rparr>
               in (Inr (Some (Opened \<lparr>to_terminal_id = tid, to_success = True,
                     to_message = ''Terminal opened'', to_pid = pid s, to_service_id = service_id v,
                     persistent_sessions = sync_list (map fst (sessions v)) (sessions v \<noteq> []) v\<rparr>)),
                   v\<lparr>sessions := hm_put tid s (sessions v), needs_session_sync := False\<rparr>)))"

definition handle_resize ::
  "nat \<Rightarrow> (string option) \<Rightarrow> u32 \<Rightarrow> u32 \<Rightarrow> terminal_session \<Rightarrow> action_result \<times> terminal_session" where
  "handle_resize now failed r c s =
     (let s' = s\<lparr>ts_last_activity := now, rows := ucast r, cols := ucast c\<rparr>
      in (if pty_pair s' then (case failed of Some e \<Rightarrow> Inl e | None \<Rightarrow> Inr None) else Inr None, s'))"

definition handle_data :: "nat \<Rightarrow> bytes \<Rightarrow> terminal_session \<Rightarrow> action_result \<times> terminal_session" where
  "handle_data now d s =
     (Inr None, s\<lparr>ts_last_activity := now, input_tx := map_option (\<lambda>q. q @ [d]) (input_tx s)\<rparr>)"

text \<open>Closing removes the session whatever happens; when killing its child fails, the child is dropped
  and the error returned.  The last component is what goes to the reaper.\<close>

definition handle_close ::
  "string option \<Rightarrow> i32 \<Rightarrow> terminal_service \<Rightarrow> action_result \<times> terminal_service \<times> nat list" where
  "handle_close kill_error tid v =
     (case hm_get (sessions v) tid of
        None \<Rightarrow> (Inr None, v, [])
      | Some s \<Rightarrow>
          let v' = v\<lparr>sessions := hm_del tid (sessions v)\<rparr> in
          (case child s of
             None \<Rightarrow> (Inr (Some (Closed tid 0)), v', [])
           | Some ch \<Rightarrow>
               (case kill_error of
                  Some e \<Rightarrow> (Inl e, v', [])
                | None \<Rightarrow> (Inr (Some (Closed tid (- 1))), v', [ch]))))"

text \<open>The answers of the environment that an action may need.\<close>

record terminal_env =
  env_now :: nat
  env_name :: "i32 \<Rightarrow> string"
  env_spawn :: spawn_result
  env_resize_error :: "string option"
  env_kill_error :: "string option"

definition on_session ::
  "i32 \<Rightarrow> (terminal_session \<Rightarrow> action_result \<times> terminal_session) \<Rightarrow> terminal_service \<Rightarrow>
   action_result \<times> terminal_service" where
  "on_session tid f v =
     (case hm_get (sessions v) tid of
        None \<Rightarrow> (Inr None, v)
      | Some s \<Rightarrow> (case f s of (x, s') \<Rightarrow> (x, v\<lparr>sessions := hm_put tid s' (sessions v)\<rparr>)))"

definition handle_action ::
  "terminal_env \<Rightarrow> string \<Rightarrow> terminal_action \<Rightarrow> terminal_world \<Rightarrow> action_result \<times> terminal_world" where
  "handle_action env sid action w =
     (case get_service sid w of
        None \<Rightarrow> (Inr (Some (Error (''Terminal service '' @ sid @ '' not found''))), w)
      | Some v0 \<Rightarrow>
          let v = v0\<lparr>last_activity := env_now env\<rparr> in
          (case action of
             Open tid r c \<Rightarrow>
               (case handle_open (env_now env) (env_name env tid) (env_spawn env) sid tid r c v of
                  (x, v') \<Rightarrow> (x, put_service sid v' w))
           | Resize tid r c \<Rightarrow>
               (case on_session tid (handle_resize (env_now env) (env_resize_error env) r c) v of
                  (x, v') \<Rightarrow> (x, put_service sid v' w))
           | Input tid d \<Rightarrow>
               (case on_session tid (handle_data (env_now env) d) v of
                  (x, v') \<Rightarrow> (x, put_service sid v' w))
           | Close tid \<Rightarrow>
               (case handle_close (env_kill_error env) tid v of
                  (x, v', killed) \<Rightarrow>
                    (x, (put_service sid v' w)\<lparr>terminal_tasks := terminal_tasks w @ killed\<rparr>))
           | NoAction \<Rightarrow> (Inr None, put_service sid v w)))"

section \<open>The output loop\<close>

definition data_response :: "(bytes \<Rightarrow> bytes) \<Rightarrow> i32 \<Rightarrow> bytes \<Rightarrow> terminal_response" where
  "data_response compress tid d =
     (if length d > COMPRESS_THRESHOLD then
        let z = compress d in if length z < length d then Data tid z True else Data tid d False
      else Data tid d False)"

text \<open>One session of \<open>read_outputs\<close>: the session afterwards, its data responses, and whether the
  closed message is due.  \<open>None\<close>: appending to the scrollback buffer never returned.\<close>

definition read_session ::
  "(bytes \<Rightarrow> bytes) \<Rightarrow> nat \<Rightarrow> i32 \<Rightarrow> terminal_session \<Rightarrow>
   (terminal_session \<times> terminal_response list \<times> bool) option" where
  "read_session compress now tid s =
     (let due = (\<not> closed_message_sent s \<and> reader_finished s = Some True);
          s = (if due then s\<lparr>closed_message_sent := True\<rparr> else s)
      in if \<not> is_opened s then Some (s, [], due)
         else let received = (case output_rx s of Some q \<Rightarrow> q | None \<Rightarrow> []) in
           (case append_all received (output_buffer s) of
              None \<Rightarrow> None
            | Some buf \<Rightarrow>
                let s = s\<lparr>output_buffer := buf, output_rx := map_option (\<lambda>_. []) (output_rx s)\<rparr>;
                    s = (if received \<noteq> [] then s\<lparr>ts_last_activity := now\<rparr> else s)
                in Some (s, map (data_response compress tid) received, due)))"

text \<open>All sessions; a session whose lock is taken by another thread (\<open>busy\<close>) is skipped.\<close>

fun read_sessions ::
  "(bytes \<Rightarrow> bytes) \<Rightarrow> nat \<Rightarrow> (i32 \<Rightarrow> bool) \<Rightarrow> (i32, terminal_session) hmap \<Rightarrow>
   ((i32, terminal_session) hmap \<times> terminal_response list \<times> i32 list) option" where
  "read_sessions compress now busy [] = Some ([], [], [])"
| "read_sessions compress now busy ((tid, s) # rest) =
     (case (if busy tid then Some (s, [], False) else read_session compress now tid s) of
        None \<Rightarrow> None
      | Some (s', out, due) \<Rightarrow>
          (case read_sessions compress now busy rest of
             None \<Rightarrow> None
           | Some (rest', outs, closed) \<Rightarrow>
               Some ((tid, s') # rest', out @ outs, (if due then [tid] else []) @ closed)))"

text \<open>A terminal whose reader ended: the session is removed, or, for a persistent proxy, kept without
  its child.  \<open>exit_status\<close> is what \<open>try_wait\<close> says of a child.\<close>

definition close_terminal ::
  "(nat \<Rightarrow> i32 option) \<Rightarrow> bool \<Rightarrow> i32 \<Rightarrow> (i32, terminal_session) hmap \<times> nat list \<Rightarrow>
   terminal_response \<times> (i32, terminal_session) hmap \<times> nat list" where
  "close_terminal exit_status persistent tid st =
     (case st of (ss, reaped) \<Rightarrow>
        (case hm_get ss tid of
           None \<Rightarrow> (Closed tid 0, ss, reaped)
         | Some s \<Rightarrow>
             let ss' = (if persistent then hm_put tid (s\<lparr>child := None\<rparr>) ss else hm_del tid ss) in
             (case child s of
                None \<Rightarrow> (Closed tid 0, ss', reaped)
              | Some ch \<Rightarrow>
                  (Closed tid (case exit_status ch of Some e \<Rightarrow> e | None \<Rightarrow> 0), ss', reaped @ [ch]))))"

fun close_terminals ::
  "(nat \<Rightarrow> i32 option) \<Rightarrow> bool \<Rightarrow> i32 list \<Rightarrow> (i32, terminal_session) hmap \<times> nat list \<Rightarrow>
   terminal_response list \<times> (i32, terminal_session) hmap \<times> nat list" where
  "close_terminals exit_status persistent [] st = ([], st)"
| "close_terminals exit_status persistent (tid # tids) st =
     (case close_terminal exit_status persistent tid st of
        (x, st') \<Rightarrow> (case close_terminals exit_status persistent tids st' of (xs, st'') \<Rightarrow> (x # xs, st'')))"

definition read_outputs ::
  "(bytes \<Rightarrow> bytes) \<Rightarrow> (nat \<Rightarrow> i32 option) \<Rightarrow> (i32 \<Rightarrow> bool) \<Rightarrow> nat \<Rightarrow> string \<Rightarrow> bool \<Rightarrow> terminal_world \<Rightarrow>
   (terminal_response list \<times> terminal_world) option" where
  "read_outputs compress exit_status busy now sid persistent w =
     (case get_service sid w of
        None \<Rightarrow> Some ([], w)
      | Some v \<Rightarrow>
          (case read_sessions compress now busy (sessions v) of
             None \<Rightarrow> None
           | Some (ss, outs, closed) \<Rightarrow>
               (case close_terminals exit_status persistent closed (ss, terminal_tasks w) of
                  (closes, ss', tasks) \<Rightarrow>
                    Some (outs @ closes, (put_service sid (v\<lparr>sessions := ss'\<rparr>) w)\<lparr>terminal_tasks := tasks\<rparr>))))"

definition proxy_persistent :: "string \<Rightarrow> bool option \<Rightarrow> terminal_world \<Rightarrow> bool" where
  "proxy_persistent sid given w =
     (case given of Some b \<Rightarrow> b
      | None \<Rightarrow> (case get_service sid w of Some v \<Rightarrow> is_persistent v | None \<Rightarrow> False))"

definition on_disconnect :: "string \<Rightarrow> bool \<Rightarrow> terminal_world \<Rightarrow> terminal_world" where
  "on_disconnect sid persistent w = (if \<not> persistent then remove_service sid w else w)"

text \<open>One turn of the service loop, and what it does when the service is asked to stop.\<close>

definition run_turn ::
  "(bytes \<Rightarrow> bytes) \<Rightarrow> (nat \<Rightarrow> i32 option) \<Rightarrow> (i32 \<Rightarrow> bool) \<Rightarrow> nat \<Rightarrow> string \<Rightarrow> terminal_world \<Rightarrow>
   (terminal_response list \<times> terminal_world) option" where
  "run_turn compress exit_status busy now sid w =
     read_outputs compress exit_status busy now sid (proxy_persistent sid None w) w"

definition run_end :: "string \<Rightarrow> terminal_world \<Rightarrow> terminal_world" where
  "run_end sid w =
     (case get_service sid w of
        Some v \<Rightarrow> if \<not> is_persistent v then remove_service sid w else w
      | None \<Rightarrow> w)"

section \<open>Runs of the registry\<close>

datatype terminal_event =
    Create nat string bool bool
  | Act terminal_env string terminal_action
  | Turn "bytes \<Rightarrow> bytes" "nat \<Rightarrow> i32 option" "i32 \<Rightarrow> bool" nat string bool
  | Cleanup nat
  | Disconnect string bool
  | End_Loop string

fun term_apply :: "terminal_event \<Rightarrow> terminal_world \<Rightarrow> terminal_world option" where
  "term_apply (Create now sid p u) w =
     Some (case get_or_create_service now sid p u w of Some w' \<Rightarrow> w' | None \<Rightarrow> w)"
| "term_apply (Act env sid a) w = Some (snd (handle_action env sid a w))"
| "term_apply (Turn z ex busy now sid p) w = map_option snd (read_outputs z ex busy now sid p w)"
| "term_apply (Cleanup now) w = Some (cleanup_inactive_services now w)"
| "term_apply (Disconnect sid p) w = Some (on_disconnect sid p w)"
| "term_apply (End_Loop sid) w = Some (run_end sid w)"

fun term_run :: "terminal_event list \<Rightarrow> terminal_world \<Rightarrow> terminal_world option" where
  "term_run [] w = Some w"
| "term_run (e # es) w = (case term_apply e w of Some w' \<Rightarrow> term_run es w' | None \<Rightarrow> None)"

definition services_ok :: "terminal_world \<Rightarrow> bool" where
  "services_ok w \<longleftrightarrow> hm_ok (services w) \<and> length (services w) \<le> MAX_SERVICES"

lemma put_service_ok:
  "services_ok w \<Longrightarrow> get_service sid w = Some v0 \<Longrightarrow> services_ok (put_service sid v w)"
  by (auto simp: services_ok_def put_service_def get_service_def intro: hm.ok_put hm.capped_overwrite)

lemma remove_service_ok: "services_ok w \<Longrightarrow> services_ok (remove_service sid w)"
  by (auto simp: services_ok_def remove_service_def hm.ok_del split: option.splits intro: hm.capped_del)

lemma tasks_ok: "services_ok (w\<lparr>terminal_tasks := t\<rparr>) = services_ok w"
  by (simp add: services_ok_def)

lemma cleanup_ok: "services_ok w \<Longrightarrow> services_ok (fold remove_service ids w)"
  by (induction ids arbitrary: w) (simp_all add: remove_service_ok)

lemma handle_action_ok: "services_ok w \<Longrightarrow> services_ok (snd (handle_action env sid a w))"
  by (auto simp: handle_action_def Let_def put_service_ok tasks_ok split: option.splits prod.splits terminal_action.splits)

lemma read_outputs_ok:
  "services_ok w \<Longrightarrow> read_outputs z ex busy now sid p w = Some (r, w') \<Longrightarrow> services_ok w'"
  by (auto simp: read_outputs_def put_service_ok tasks_ok split: option.splits prod.splits)

lemma create_ok: "services_ok w \<Longrightarrow> get_or_create_service now sid p u w = Some w' \<Longrightarrow> services_ok w'"
  by (auto simp: get_or_create_service_def services_ok_def put_service_def Let_def hm.ok_put hm.len_put
      split: if_splits option.splits)

lemma term_apply_ok: "services_ok w \<Longrightarrow> term_apply e w = Some w' \<Longrightarrow> services_ok w'"
  by (cases e)
    (auto simp: handle_action_ok cleanup_inactive_services_def cleanup_ok on_disconnect_def run_end_def
      remove_service_ok split: option.splits dest: read_outputs_ok create_ok)

lemma term_run_ok: "services_ok w \<Longrightarrow> term_run es w = Some w' \<Longrightarrow> services_ok w'"
  by (induction es arbitrary: w) (auto split: option.splits dest: term_apply_ok)

definition world_empty :: terminal_world where
  "world_empty = \<lparr>services = [], terminal_tasks = []\<rparr>"

text \<open>The limit on services.  After any run at most 100 services are registered, each id once.\<close>

theorem services_limited:
  assumes "term_run es world_empty = Some w"
  shows "length (services w) \<le> 100 \<and> distinct (map fst (services w))"
proof -
  have "services_ok world_empty"
    by (simp add: services_ok_def world_empty_def hm.ok_empty)
  from term_run_ok [OF this assms] show ?thesis
    by (simp add: services_ok_def hm_ok_def MAX_SERVICES_def)
qed

lemma services_limited_witness:
  "length (services \<lparr>services = [(''s'', reset_status True (service_new 0 ''s'' True False))], terminal_tasks = []\<rparr>)
     \<le> 100 \<and>
   distinct (map fst (services \<lparr>services = [(''s'', reset_status True (service_new 0 ''s'' True False))],
     terminal_tasks = []\<rparr>))"
  by (rule services_limited [where es = "[Create 0 ''s'' True False]"])
    (simp add: world_empty_def get_or_create_service_def put_service_def MAX_SERVICES_def hm_get_def
      hm_put_def hm_del_def)

text \<open>Idle services are taken out, all others stay as they are.\<close>

lemma remove_service_get:
  "hm_get (services (remove_service sid w)) k = (if k = sid then None else hm_get (services w) k)"
  by (auto simp: remove_service_def hm.get_del split: option.splits)

lemma fold_remove_get:
  "hm_get (services (fold remove_service ids w)) k = (if k \<in> set ids then None else hm_get (services w) k)"
  by (induction ids arbitrary: w) (auto simp: remove_service_get)

lemma hm_get_iff: "hm_ok m \<Longrightarrow> hm_get m k = Some v \<longleftrightarrow> (k, v) \<in> set m"
  by (simp add: hm_ok_def hm_get_def)

text \<open>Idle cleanup.  A cleanup removes exactly the non-persistent services idle for more than an hour
  and the persistent ones without terminals idle for more than two, and leaves every other service
  untouched.\<close>

theorem cleanup_exact:
  assumes "hm_ok (services w)"
  shows "hm_get (services (cleanup_inactive_services now w)) sid =
    (case hm_get (services w) sid of
       None \<Rightarrow> None
     | Some v \<Rightarrow>
         if (if is_persistent v then sessions v = [] \<and> 2 * 3600 * 1000000000 < now - last_activity v
             else 3600 * 1000000000 < now - last_activity v)
         then None else Some v)"
proof -
  have key: "sid \<in> set (map fst (filter (\<lambda>(_, v). idle_too_long now v) (services w))) \<longleftrightarrow>
      (\<exists>v. hm_get (services w) sid = Some v \<and> idle_too_long now v)"
    by (force simp: hm_get_iff [OF assms])
  have idle: "idle_too_long now v = (if is_persistent v then sessions v = [] \<and> 2 * 3600 * 1000000000 < now - last_activity v
             else 3600 * 1000000000 < now - last_activity v)" for v
    by (simp add: idle_too_long_def SERVICE_IDLE_TIMEOUT_def)
  show ?thesis
    unfolding cleanup_inactive_services_def fold_remove_get key idle by (auto split: option.splits)
qed

lemma cleanup_exact_witness:
  "hm_get (services (cleanup_inactive_services (3601 * 1000000000)
     \<lparr>services = [(''a'', service_new 0 ''a'' False False), (''b'', service_new 0 ''b'' True False)],
      terminal_tasks = []\<rparr>)) ''a'' = None"
  by (subst cleanup_exact) (simp_all add: hm_ok_def hm_get_def service_new_def)

section \<open>Children\<close>

text \<open>A child is accounted for while a session holds it or the reaper knows it.\<close>

definition kids :: "(i32, terminal_session) hmap \<Rightarrow> nat set" where
  "kids ss = {c. \<exists>i s. hm_get ss i = Some s \<and> child s = Some c}"

definition world_children :: "terminal_world \<Rightarrow> nat set" where
  "world_children w = set (terminal_tasks w) \<union> {c. \<exists>sid v. get_service sid w = Some v \<and> c \<in> kids (sessions v)}"

lemma kids_iff: "c \<in> kids ss \<longleftrightarrow> (\<exists>i s. hm_get ss i = Some s \<and> child s = Some c)"
  by (simp add: kids_def)

lemma kids_keep:
  assumes "\<And>j t. j \<noteq> i \<Longrightarrow> hm_get ss j = Some t \<Longrightarrow> hm_get ss' j = Some t"
    and "\<And>s c. hm_get ss i = Some s \<Longrightarrow> child s = Some c \<Longrightarrow> c \<in> kids ss' \<union> X"
  shows "kids ss \<subseteq> kids ss' \<union> X"
proof
  fix c assume "c \<in> kids ss"
  then obtain j t where "hm_get ss j = Some t" "child t = Some c" by (auto simp: kids_iff)
  with assms show "c \<in> kids ss' \<union> X" by (cases "j = i") (auto simp: kids_iff)
qed

lemma kids_put_same: "hm_get ss i = Some s \<Longrightarrow> child s' = child s \<Longrightarrow> kids ss \<subseteq> kids (hm_put i s' ss) \<union> X"
  by (rule kids_keep [of i]) (auto simp: hm.get_put kids_iff)

lemma kids_put_new: "hm_get ss i = None \<Longrightarrow> kids ss \<subseteq> kids (hm_put i s' ss) \<union> X"
  by (rule kids_keep [of i]) (auto simp: hm.get_put)

lemma kids_put_del:
  "hm_get ss i = Some s \<Longrightarrow> set_option (child s) \<subseteq> X \<Longrightarrow> kids ss \<subseteq> kids (hm_put i s' ss) \<union> X"
  "hm_get ss i = Some s \<Longrightarrow> set_option (child s) \<subseteq> X \<Longrightarrow> kids ss \<subseteq> kids (hm_del i ss) \<union> X"
  by (rule kids_keep [of i]; auto simp: hm.get_put hm.get_del)+

lemma put_service_children:
  assumes "get_service sid w = Some v" and "kids (sessions v) \<subseteq> kids (sessions v') \<union> set new"
  shows "world_children w \<subseteq> world_children ((put_service sid v' w)\<lparr>terminal_tasks := terminal_tasks w @ new\<rparr>)"
proof
  fix c assume "c \<in> world_children w"
  then consider "c \<in> set (terminal_tasks w)"
    | k u where "hm_get (services w) k = Some u" "c \<in> kids (sessions u)"
    by (auto simp: world_children_def get_service_def)
  then show "c \<in> world_children ((put_service sid v' w)\<lparr>terminal_tasks := terminal_tasks w @ new\<rparr>)"
  proof cases
    case 2
    then show ?thesis
      using assms by (cases "k = sid") (auto simp: world_children_def get_service_def put_service_def hm.get_put)
  qed (simp add: world_children_def)
qed

lemma put_service_kids:
  assumes "get_service sid w = Some v" and "kids (sessions v) \<subseteq> kids (sessions v')"
  shows "world_children w \<subseteq> world_children (put_service sid v' w)"
  using put_service_children [OF assms(1), of v' "[]"] assms(2) by (simp add: put_service_def)

lemma read_session_facts:
  assumes "read_session z now tid s = Some (s', out, due)"
  shows "child s' = child s" and "due = (\<not> closed_message_sent s \<and> reader_finished s = Some True)"
    and "reader_finished s' = reader_finished s" and "closed_message_sent s' = (closed_message_sent s \<or> due)"
    and "out = (if is_opened s then map (data_response z tid) (case output_rx s of Some q \<Rightarrow> q | None \<Rightarrow> []) else [])"
  using assms by (auto simp: read_session_def Let_def split: option.splits if_splits)

lemma read_sessions_get:
  "read_sessions z now busy ss = Some (ss', outs, closed) \<Longrightarrow>
    (case hm_get ss i of
       None \<Rightarrow> hm_get ss' i = None
     | Some s \<Rightarrow> \<exists>s'. hm_get ss' i = Some s' \<and> child s' = child s)"
  by (induction ss arbitrary: ss' outs closed)
    (auto simp: hm_get_def split: option.splits prod.splits if_splits dest!: read_session_facts(1))

lemma read_sessions_kids:
  "read_sessions z now busy ss = Some (ss', outs, closed) \<Longrightarrow> kids ss' = kids ss"
proof (rule set_eqI)
  fix c assume run: "read_sessions z now busy ss = Some (ss', outs, closed)"
  have "(\<exists>s. hm_get ss' i = Some s \<and> child s = Some c) = (\<exists>s. hm_get ss i = Some s \<and> child s = Some c)" for i
    using read_sessions_get [OF run, of i] by (auto split: option.splits)
  then show "c \<in> kids ss' \<longleftrightarrow> c \<in> kids ss" by (simp add: kids_iff)
qed

lemma close_terminal_kids:
  assumes "close_terminal ex p tid (ss, reaped) = (r, ss', reaped')"
  shows "\<exists>more. reaped' = reaped @ more \<and> kids ss \<subseteq> kids ss' \<union> set more"
proof (cases "hm_get ss tid")
  case (Some s)
  have "kids ss \<subseteq> kids ss' \<union> set_option (child s)"
    using assms Some kids_put_del [OF Some order_refl]
    by (auto simp: close_terminal_def Let_def split: option.splits if_splits)
  moreover have "reaped' = reaped @ (case child s of Some c \<Rightarrow> [c] | None \<Rightarrow> [])"
    using assms Some by (auto simp: close_terminal_def Let_def split: option.splits)
  ultimately show ?thesis by (intro exI conjI) (auto split: option.splits)
qed (use assms in \<open>auto simp: close_terminal_def\<close>)

lemma close_terminals_kids:
  "close_terminals ex p tids (ss, reaped) = (rs, ss', reaped') \<Longrightarrow>
    \<exists>more. reaped' = reaped @ more \<and> kids ss \<subseteq> kids ss' \<union> set more"
proof (induction tids arbitrary: ss reaped rs)
  case (Cons tid tids)
  obtain r s1 d1 where one: "close_terminal ex p tid (ss, reaped) = (r, s1, d1)"
    by (cases "close_terminal ex p tid (ss, reaped)")
  obtain rs' where rest: "close_terminals ex p tids (s1, d1) = (rs', ss', reaped')"
    using Cons.prems one by (auto split: prod.splits)
  from close_terminal_kids [OF one] Cons.IH [OF rest] show ?case by fastforce
qed simp

lemma read_outputs_children:
  assumes "read_outputs z ex busy now sid p w = Some (r, w')"
  shows "world_children w \<subseteq> world_children w'"
proof (cases "get_service sid w")
  case (Some v)
  with assms obtain ss outs closed where rs: "read_sessions z now busy (sessions v) = Some (ss, outs, closed)"
    by (auto simp: read_outputs_def split: option.splits)
  obtain cs ss' tasks where cl: "close_terminals ex p closed (ss, terminal_tasks w) = (cs, ss', tasks)"
    by (cases "close_terminals ex p closed (ss, terminal_tasks w)")
  from close_terminals_kids [OF cl] obtain more where more: "tasks = terminal_tasks w @ more"
      "kids ss \<subseteq> kids ss' \<union> set more" by blast
  from assms Some rs cl have "w' = (put_service sid (v\<lparr>sessions := ss'\<rparr>) w)\<lparr>terminal_tasks := terminal_tasks w @ more\<rparr>"
    by (simp add: read_outputs_def more(1))
  with put_service_children [OF Some, of "v\<lparr>sessions := ss'\<rparr>" more] more(2) read_sessions_kids [OF rs]
  show ?thesis by simp
qed (use assms in \<open>simp add: read_outputs_def\<close>)

lemma remove_service_children: "world_children w \<subseteq> world_children (remove_service sid w)"
proof (cases "hm_get (services w) sid")
  case (Some v)
  let ?killed = "concat (map (\<lambda>(_, s). snd (session_stop s)) (sessions v))"
  have killed: "kids (sessions v) \<subseteq> set ?killed"
  proof
    fix c assume "c \<in> kids (sessions v)"
    then obtain i s where "(i, s) \<in> set (sessions v)" "child s = Some c"
      by (auto simp: kids_iff hm_get_def dest: map_of_SomeD)
    then show "c \<in> set ?killed" by (force simp: session_stop_def)
  qed
  show ?thesis
  proof
    fix c assume "c \<in> world_children w"
    then consider "c \<in> set (terminal_tasks w)" | k u where "hm_get (services w) k = Some u" "c \<in> kids (sessions u)"
      by (auto simp: world_children_def get_service_def)
    then show "c \<in> world_children (remove_service sid w)"
    proof cases
      case 2
      then show ?thesis using Some killed
        by (cases "k = sid")
          (auto simp: world_children_def remove_service_def get_service_def hm.get_del simp del: set_concat)
    qed (simp add: world_children_def remove_service_def Some)
  qed
qed (simp add: remove_service_def)

lemma fold_remove_children: "world_children w \<subseteq> world_children (fold remove_service ids w)"
proof (induction ids arbitrary: w)
  case (Cons i ids)
  show ?case using remove_service_children [of w i] Cons.IH [of "remove_service i w"] by simp
qed simp

lemma handle_open_kids:
  "handle_open now name sp psid tid r c v = (x, v') \<Longrightarrow> kids (sessions v) \<subseteq> kids (sessions v') \<union> X"
proof (cases "hm_get (sessions v) tid")
  case (Some s)
  assume "handle_open now name sp psid tid r c v = (x, v')"
  then show ?thesis
    using kids_put_same [OF Some, of "s\<lparr>is_opened := True\<rparr>" X] Some by (auto simp: handle_open_def)
next
  case None
  assume "handle_open now name sp psid tid r c v = (x, v')"
  with None show ?thesis
    by (auto simp: handle_open_def Let_def split: sum.splits del: subsetI intro: kids_put_new)
qed

lemma on_session_kids:
  assumes same: "\<And>s. child (snd (f s)) = child s" and run: "on_session tid f v = (x, v')"
  shows "kids (sessions v) \<subseteq> kids (sessions v') \<union> X"
proof (cases "hm_get (sessions v) tid")
  case (Some s)
  with run kids_put_same [OF Some same [of s], of X] show ?thesis
    by (auto simp: on_session_def split: prod.splits)
qed (use run in \<open>simp add: on_session_def\<close>)

lemma handle_close_kids:
  "handle_close None tid v = (x, v', killed) \<Longrightarrow> kids (sessions v) \<subseteq> kids (sessions v') \<union> set killed"
proof (cases "hm_get (sessions v) tid")
  case (Some s)
  assume "handle_close None tid v = (x, v', killed)"
  with Some have "sessions v' = hm_del tid (sessions v)" "set killed = set_option (child s)"
    by (auto simp: handle_close_def Let_def split: option.splits)
  with kids_put_del(2) [OF Some order_refl] show ?thesis by simp
qed (simp add: handle_close_def)

lemma handle_action_children:
  assumes "env_kill_error env = None"
  shows "world_children w \<subseteq> world_children (snd (handle_action env sid a w))"
proof (cases "get_service sid w")
  case (Some v0)
  let ?v = "v0\<lparr>last_activity := env_now env\<rparr>"
  have put: "kids (sessions ?v) \<subseteq> kids (sessions v') \<union> {} \<Longrightarrow> world_children w \<subseteq> world_children (put_service sid v' w)" for v'
    using put_service_kids [OF Some, of v'] by simp
  show ?thesis
  proof (cases a)
    case (Open t r c)
    then show ?thesis using Some put handle_open_kids [where v = ?v and X = "{}"]
      by (simp add: handle_action_def split: prod.splits)
  next
    case (Resize t r c)
    have "child (snd (handle_resize now e r c s)) = child s" for now e s
      by (simp add: handle_resize_def Let_def)
    then have "kids (sessions ?v) \<subseteq> kids (sessions v') \<union> {}"
      if "on_session t (handle_resize (env_now env) (env_resize_error env) r c) ?v = (x, v')" for x v'
      using on_session_kids [OF _ that] by blast
    then show ?thesis using Some put Resize by (simp add: handle_action_def split: prod.splits)
  next
    case (Input t d)
    have "child (snd (handle_data now d s)) = child s" for now s
      by (simp add: handle_data_def)
    then have "kids (sessions ?v) \<subseteq> kids (sessions v') \<union> {}"
      if "on_session t (handle_data (env_now env) d) ?v = (x, v')" for x v'
      using on_session_kids [OF _ that] by blast
    then show ?thesis using Some put Input by (simp add: handle_action_def split: prod.splits)
  next
    case (Close t)
    then show ?thesis using Some assms handle_close_kids [of t ?v] put_service_children [OF Some]
      by (simp add: handle_action_def split: prod.splits)
  next
    case NoAction
    then show ?thesis using Some put by (simp add: handle_action_def)
  qed
qed (simp add: handle_action_def)

fun loses_child :: "terminal_event \<Rightarrow> bool" where
  "loses_child (Act env sid (Close tid)) = (env_kill_error env \<noteq> None)"
| "loses_child _ = False"

lemma term_apply_children:
  assumes "term_apply e w = Some w'" and "\<not> loses_child e"
  shows "world_children w \<subseteq> world_children w'"
proof (cases e)
  case (Create now sid p u)
  have "world_children w \<subseteq> world_children w1" if run: "get_or_create_service now sid p u w = Some w1" for w1
  proof (cases "get_service sid w")
    case (Some v)
    have "kids (sessions v) \<subseteq> kids (sessions (reset_status p v))"
      by (fastforce simp: kids_def reset_status_def hm_get_def map_of_map)
    from put_service_kids [OF Some this] show ?thesis
      using run Some by (simp add: get_or_create_service_def get_service_def split: if_splits)
  next
    case None
    then show ?thesis using run
      by (auto simp: get_or_create_service_def get_service_def world_children_def put_service_def hm.get_put
          split: if_splits) (metis option.distinct(1))
  qed
  then show ?thesis using Create assms(1) by (auto simp del: subset_iff split: option.splits)
next
  case (Act env sid a)
  have "world_children w \<subseteq> world_children (snd (handle_action (env\<lparr>env_kill_error := None\<rparr>) sid a w))"
    by (rule handle_action_children) simp
  moreover have "handle_action (env\<lparr>env_kill_error := None\<rparr>) sid a w = handle_action env sid a w"
    using assms(2) Act by (cases a) (simp_all add: handle_action_def Let_def split: option.splits)
  ultimately show ?thesis using Act assms(1) by simp
next
  case (Turn z ex busy now sid p)
  then show ?thesis using assms(1) read_outputs_children by fastforce
next
  case (Cleanup now)
  then show ?thesis using assms(1) fold_remove_children [of w] by (auto simp: cleanup_inactive_services_def simp del: subset_iff)
next
  case (Disconnect sid p)
  then show ?thesis using assms(1) remove_service_children [of w sid] by (auto simp: on_disconnect_def split: if_splits)
next
  case (End_Loop sid)
  then show ?thesis using assms(1) remove_service_children [of w sid]
    by (auto simp: run_end_def split: option.splits if_splits)
qed


definition sample_session :: terminal_session where
  "sample_session = (session_new 0 ''t'' 24 80)\<lparr>child := Some 7\<rparr>"

definition sample_world :: terminal_world where
  "sample_world = \<lparr>services = [(''s'', (service_new 0 ''s'' False False)\<lparr>sessions := [(1, sample_session)]\<rparr>)],
     terminal_tasks = [3]\<rparr>"


section \<open>The output of a terminal\<close>

definition payloads :: "(bytes \<Rightarrow> bytes) \<Rightarrow> i32 \<Rightarrow> terminal_response list \<Rightarrow> bytes list" where
  "payloads decompress tid rs =
     concat (map (\<lambda>r. case r of Data t d z \<Rightarrow> if t = tid then [if z then decompress d else d] else [] | _ \<Rightarrow> []) rs)"

lemma payloads_append: "payloads u t (xs @ ys) = payloads u t xs @ payloads u t ys"
  by (simp add: payloads_def)

lemma payloads_data:
  assumes "\<And>d. u (z d) = d"
  shows "payloads u t (map (data_response z t') ds) = (if t' = t then ds else [])"
  by (induction ds) (auto simp: payloads_def data_response_def Let_def assms)

lemma payloads_closed: "close_terminals ex p tids st = (rs, st') \<Longrightarrow> payloads u t rs = []"
  by (induction tids arbitrary: st rs)
    (auto simp: payloads_def close_terminal_def Let_def split: prod.splits option.splits if_splits)

lemma read_sessions_payloads:
  assumes u: "\<And>d. u (z d) = d"
  shows "read_sessions z now busy ss = Some (ss', outs, closed) \<Longrightarrow> distinct (map fst ss) \<Longrightarrow>
    payloads u t outs = (case map_of ss t of
        None \<Rightarrow> []
      | Some s \<Rightarrow> if busy t \<or> \<not> is_opened s then [] else (case output_rx s of Some q \<Rightarrow> q | None \<Rightarrow> []))"
proof (induction ss arbitrary: ss' outs closed)
  case Nil
  then show ?case by (simp add: payloads_def)
next
  case (Cons e ss)
  obtain tid s where e: "e = (tid, s)" by (cases e)
  from Cons.prems e obtain s' o1 due rest' o2 closed2 where
    one: "(if busy tid then Some (s, [], False) else read_session z now tid s) = Some (s', o1, due)"
    and rest: "read_sessions z now busy ss = Some (rest', o2, closed2)" and outs: "outs = o1 @ o2"
    by (auto split: option.splits prod.splits)
  have "payloads u t o1 = (if t = tid \<and> \<not> busy tid \<and> is_opened s
      then (case output_rx s of Some q \<Rightarrow> q | None \<Rightarrow> []) else [])"
    using one read_session_facts(5) [of z now tid s s' o1 due] payloads_data [of u z t tid, OF u]
    by (auto simp: payloads_def split: if_splits)
  moreover have "tid \<notin> fst ` set ss" "distinct (map fst ss)" using Cons.prems(2) e by auto
  moreover from this have "map_of ss tid = None" by (simp add: map_of_eq_None_iff)
  ultimately show ?case
    using Cons.IH [OF rest] by (auto simp: outs payloads_append e)
qed


definition open_world :: terminal_world where
  "open_world = \<lparr>services = [(''s'', (service_new 0 ''s'' False False)\<lparr>sessions :=
     [(1, sample_session\<lparr>is_opened := True, output_rx := Some [[65, newline]]\<rparr>)]\<rparr>)], terminal_tasks = []\<rparr>"

lemma append_short:
  "append [65, newline] buffer_new = Some \<lparr>buf_lines = [[65, newline]], total_size = 2, last_line_incomplete = False\<rparr>"
  by (simp add: append_def append_rest_def trim_small too_big_def buffer_new_def MAX_OUTPUT_BUFFER_SIZE_def
      MAX_BUFFER_LINES_def push_line_def)


end
