(* ===== verification/Password_Security.thy ===== *)
theory Password_Security
  imports MDesk_Prelude
begin

text \<open>
  Password policy and password storage: \<open>libs/hbb_common/src/password_security.rs\<close> and
  \<open>option2bool\<close> of \<open>libs/hbb_common/src/config.rs\<close>.

  The configuration is the function \<open>cfg\<close> (\<open>Config::get_option\<close>; an option that is not set is the
  empty string).  The secret box of libsodium, base64 and the lossy UTF-8 conversion of the standard
  library are the fields of \<open>crypto\<close>.
\<close>

section \<open>Policy\<close>

datatype verification_method = OnlyUseTemporaryPassword | OnlyUsePermanentPassword | UseBothPasswords

datatype approve_mode = Both | Password | Click

definition as_str :: "approve_mode \<Rightarrow> string" where
  "as_str m = (case m of Both \<Rightarrow> ''both'' | Password \<Rightarrow> ''password'' | Click \<Rightarrow> ''click'')"

definition option2bool :: "string \<Rightarrow> string \<Rightarrow> bool" where
  "option2bool option value =
     (if prefix ''enable-'' option then value \<noteq> ''N''
      else if prefix ''allow-'' option \<or> option = ''stop-service'' \<or> option = ''direct-server'' \<or>
        option = ''force-always-relay'' then value = ''Y''
      else value \<noteq> ''N'')"

definition requires_manual_approval :: "approve_mode \<Rightarrow> bool \<Rightarrow> bool" where
  "requires_manual_approval mode valid \<longleftrightarrow> mode = Click \<or> mode = Both \<and> \<not> valid"

record password_config =
  cfg :: "string \<Rightarrow> string"
  temporary_password :: string
  permanent_password :: string

definition verification_method :: "password_config \<Rightarrow> verification_method" where
  "verification_method c =
     (let m = cfg c ''verification-method'' in
      if m = ''use-temporary-password'' then OnlyUseTemporaryPassword
      else if m = ''use-permanent-password'' then OnlyUsePermanentPassword
      else UseBothPasswords)"

definition temporary_password_length :: "password_config \<Rightarrow> nat" where
  "temporary_password_length c =
     (let l = cfg c ''temporary-password-length'' in if l = ''8'' then 8 else if l = ''10'' then 10 else 6)"

definition temporary_enabled :: "password_config \<Rightarrow> bool" where
  "temporary_enabled c \<longleftrightarrow> verification_method c \<noteq> OnlyUsePermanentPassword"

definition permanent_enabled :: "password_config \<Rightarrow> bool" where
  "permanent_enabled c \<longleftrightarrow> verification_method c \<noteq> OnlyUseTemporaryPassword"

definition has_valid_password :: "password_config \<Rightarrow> bool" where
  "has_valid_password c \<longleftrightarrow>
     temporary_enabled c \<and> temporary_password c \<noteq> [] \<or> permanent_enabled c \<and> permanent_password c \<noteq> []"

definition approve_mode :: "password_config \<Rightarrow> approve_mode" where
  "approve_mode c =
     (let m = cfg c ''approve-mode'' in
      if m = ''password'' then Password else if m = ''click'' then Click else Both)"

definition hide_cm :: "password_config \<Rightarrow> bool" where
  "hide_cm c \<longleftrightarrow> approve_mode c = Password \<and> verification_method c = OnlyUsePermanentPassword \<and>
     option2bool ''allow-hide-cm'' (cfg c ''allow-hide-cm'')"

section \<open>Storage\<close>

record crypto =
  b64_encode :: "bytes \<Rightarrow> string"
  b64_decode :: "string \<Rightarrow> bytes option"
  seal :: "bytes \<Rightarrow> bytes option"
  open_box :: "bytes \<Rightarrow> bytes option"
  utf8_lossy :: "bytes \<Rightarrow> string"

text \<open>\<open>str::chars().count()\<close>: the bytes that are not continuation bytes.\<close>

definition chars_count :: "string \<Rightarrow> nat" where
  "chars_count s = length (filter (\<lambda>b. b AND 0xC0 \<noteq> (0x80 :: u8)) (to_bytes s))"

definition VERSION_LEN :: nat where "VERSION_LEN = 2"

definition encrypt :: "crypto \<Rightarrow> bytes \<Rightarrow> string option" where
  "encrypt k v = (if v \<noteq> [] then map_option (b64_encode k) (seal k v) else None)"

definition decrypt :: "crypto \<Rightarrow> string \<Rightarrow> bytes option" where
  "decrypt k v = (if v \<noteq> [] then Option.bind (b64_decode k v) (open_box k) else None)"

definition decrypt_str_or_original :: "crypto \<Rightarrow> string \<Rightarrow> string \<Rightarrow> string \<times> bool \<times> bool" where
  "decrypt_str_or_original k s current_version =
     (case (if length s > VERSION_LEN \<and> prefix ''00'' s then decrypt k (drop VERSION_LEN s) else None) of
        Some v \<Rightarrow> (utf8_lossy k v, True, ''00'' \<noteq> current_version)
      | None \<Rightarrow> (s, False, s \<noteq> []))"

definition encrypt_str_or_original :: "crypto \<Rightarrow> string \<Rightarrow> string \<Rightarrow> nat \<Rightarrow> string" where
  "encrypt_str_or_original k s version max_len =
     (if fst (snd (decrypt_str_or_original k s version)) then s
      else if chars_count s > max_len then []
      else case (if version = ''00'' then encrypt k (to_bytes s) else None) of
        Some e \<Rightarrow> version @ e
      | None \<Rightarrow> s)"

definition decrypt_vec_or_original :: "crypto \<Rightarrow> bytes \<Rightarrow> string \<Rightarrow> bytes \<times> bool \<times> bool" where
  "decrypt_vec_or_original k v current_version =
     (case (if length v > VERSION_LEN \<and> utf8_lossy k (take VERSION_LEN v) = ''00''
            then decrypt k (of_bytes (drop VERSION_LEN v)) else None) of
        Some d \<Rightarrow> (d, True, ''00'' \<noteq> current_version)
      | None \<Rightarrow> (v, False, v \<noteq> []))"

definition encrypt_vec_or_original :: "crypto \<Rightarrow> bytes \<Rightarrow> string \<Rightarrow> nat \<Rightarrow> bytes" where
  "encrypt_vec_or_original k v version max_len =
     (if fst (snd (decrypt_vec_or_original k v version)) then v
      else if length v > max_len then []
      else case (if version = ''00'' then encrypt k v else None) of
        Some e \<Rightarrow> to_bytes version @ to_bytes e
      | None \<Rightarrow> v)"

section \<open>Round trip\<close>

text \<open>What is relied on of the secret box, base64 and the UTF-8 conversion.\<close>

definition crypto_laws :: "crypto \<Rightarrow> bool" where
  "crypto_laws k \<longleftrightarrow>
     (\<forall>v. v \<noteq> [] \<longrightarrow> (\<exists>c. seal k v = Some c \<and> open_box k c = Some v \<and> b64_encode k c \<noteq> [])) \<and>
     (\<forall>c. b64_decode k (b64_encode k c) = Some c)"

text \<open>Stored passwords.  A password that is not empty, not too long and does not already decrypt is
  stored encrypted, decrypts to itself, and encrypting it once more changes nothing.\<close>

theorem stored_password_roundtrip:
  assumes "crypto_laws k" and "utf8_lossy k (to_bytes s) = s" and "s \<noteq> []" and "chars_count s \<le> max_len"
    and "\<not> fst (snd (decrypt_str_or_original k s ''00''))"
  defines "stored \<equiv> encrypt_str_or_original k s ''00'' max_len"
  shows "decrypt_str_or_original k stored ''00'' = (s, True, False) \<and>
    encrypt_str_or_original k stored ''00'' max_len = stored"
proof -
  have "to_bytes s \<noteq> []" using assms(3) by (simp add: to_bytes_def)
  then obtain c where c: "seal k (to_bytes s) = Some c" "open_box k c = Some (to_bytes s)" "b64_encode k c \<noteq> []"
    "b64_decode k (b64_encode k c) = Some c"
    using assms(1) unfolding crypto_laws_def by blast
  have stored: "stored = ''00'' @ b64_encode k c"
    using assms(4,5) c \<open>to_bytes s \<noteq> []\<close> by (simp add: stored_def encrypt_str_or_original_def encrypt_def)
  then have "decrypt_str_or_original k stored ''00'' = (s, True, False)"
    using c assms(2) by (simp add: decrypt_str_or_original_def VERSION_LEN_def decrypt_def)
  then show ?thesis by (simp add: encrypt_str_or_original_def)
qed

text \<open>A stand-in for the box: the ciphertext is the plaintext, and base64 puts a letter in front.\<close>

definition toy_crypto :: crypto where
  "toy_crypto = \<lparr>b64_encode = (\<lambda>b. CHR ''x'' # of_bytes b),
     b64_decode = (\<lambda>s. case s of c # cs \<Rightarrow> if c = CHR ''x'' then Some (to_bytes cs) else None | [] \<Rightarrow> None),
     seal = Some, open_box = Some, utf8_lossy = of_bytes\<rparr>"

lemma stored_password_roundtrip_witness:
  "decrypt_str_or_original toy_crypto (encrypt_str_or_original toy_crypto ''secret'' ''00'' 128) ''00'' =
     (''secret'', True, False) \<and>
   encrypt_str_or_original toy_crypto (encrypt_str_or_original toy_crypto ''secret'' ''00'' 128) ''00'' 128 =
     encrypt_str_or_original toy_crypto ''secret'' ''00'' 128"
proof (rule stored_password_roundtrip)
  show "crypto_laws toy_crypto" by (simp add: crypto_laws_def toy_crypto_def bytes_inverse)
  show "chars_count ''secret'' \<le> 128"
    unfolding chars_count_def by (rule order_trans [OF length_filter_le]) (simp add: to_bytes_def)
qed (simp_all add: decrypt_str_or_original_def toy_crypto_def bytes_inverse)

text \<open>Approval.  A connection is let in without a person's approval exactly when the mode is the
  password mode, or it is the mode for both and some usable password is set.\<close>

theorem approval_policy:
  "requires_manual_approval (approve_mode c) (has_valid_password c) =
    (cfg c ''approve-mode'' = ''click'' \<or>
     cfg c ''approve-mode'' \<noteq> ''password'' \<and>
       (cfg c ''verification-method'' = ''use-permanent-password'' \<or> temporary_password c = []) \<and>
       (cfg c ''verification-method'' = ''use-temporary-password'' \<or> permanent_password c = []))"
  by (auto simp: requires_manual_approval_def approve_mode_def has_valid_password_def temporary_enabled_def
      permanent_enabled_def verification_method_def Let_def)

end
