(* ===== verification/Net_Addr.thy ===== *)
theory Net_Addr
  imports MDesk_Prelude
begin

text \<open>
  Addresses and versions: the mangled socket addresses, version numbers and version suffixes of
  \<open>libs/hbb_common/src/lib.rs\<close>, the host and port helpers of \<open>libs/hbb_common/src/socket_client.rs\<close>
  and the endpoint migration of \<open>libs/hbb_common/src/mdesk_endpoints.rs\<close>.  An IPv6 address is its 128
  bits, an IPv4 address its 32 bits in the order of \<open>u32::from_le_bytes(octets)\<close>.  The predicates of
  the regex crate (\<open>is_ipv4_str\<close>, \<open>is_ipv6_str\<close>) are arguments.
\<close>

section \<open>Little-endian bytes\<close>

definition u128_le :: "u128 \<Rightarrow> bytes" where
  "u128_le v = map (\<lambda>i. (ucast :: 128 word \<Rightarrow> 8 word) (drop_bit (8 * i) v)) [0..<16]"

fun le_value :: "bytes \<Rightarrow> u128" where
  "le_value [] = 0"
| "le_value (b # bs) = (ucast :: 8 word \<Rightarrow> 128 word) b OR push_bit 8 (le_value bs)"

lemma bit_le_value:
  "n < 128 \<Longrightarrow> bit (le_value bs) n \<longleftrightarrow> n div 8 < length bs \<and> bit (bs ! (n div 8)) (n mod 8)"
proof (induction bs arbitrary: n)
  case (Cons b bs)
  show ?case
  proof (cases "n < 8")
    case True
    then show ?thesis by (simp add: bit_simps)
  next
    case False
    then have "n div 8 = Suc ((n - 8) div 8)" "(n - 8) mod 8 = n mod 8"
      by (simp_all add: le_div_geq le_mod_geq)
    moreover have "\<not> bit b n" using False bit_imp_le_length [of b n] by auto
    ultimately show ?thesis using False Cons.prems Cons.IH [of "n - 8"]
      by (auto simp: bit_simps)
  qed
qed simp

lemma le_value_zeros: "le_value (bs @ replicate k 0) = le_value bs"
  by (induction bs; induction k) simp_all

lemma le_value_u128: "le_value (u128_le v) = v"
proof (rule bit_word_eqI)
  fix n assume n: "n < LENGTH(128)"
  then have "n div 8 < 16" by auto
  then have "bit (u128_le v ! (n div 8)) (n mod 8) = bit v (8 * (n div 8) + n mod 8)"
    by (simp add: u128_le_def bit_simps)
  with n \<open>n div 8 < 16\<close> show "bit (le_value (u128_le v)) n = bit v n"
    by (simp add: bit_le_value u128_le_def)
qed

definition strip_zeros :: "bytes \<Rightarrow> bytes" where
  "strip_zeros bs = rev (dropWhile (\<lambda>b. b = 0) (rev bs))"

lemma strip_zeros_pad: "\<exists>k. bs = strip_zeros bs @ replicate k 0"
proof -
  have "rev bs = takeWhile (\<lambda>b. b = 0) (rev bs) @ dropWhile (\<lambda>b. b = 0) (rev bs)" by simp
  then have "bs = strip_zeros bs @ rev (takeWhile (\<lambda>b. b = 0) (rev bs))"
    unfolding strip_zeros_def by (metis rev_append rev_rev_ident)
  moreover have "rev (takeWhile (\<lambda>b. b = 0) (rev bs)) = replicate (length (takeWhile (\<lambda>b. b = 0) (rev bs))) 0"
    by (rule replicate_eqI) (auto dest: set_takeWhileD)
  ultimately show ?thesis by metis
qed

lemma u128_le_length: "length (u128_le v) = 16"
  by (simp add: u128_le_def)

section \<open>Mangled addresses\<close>

datatype ip_addr = V4 u32 | V6 u128

record socket_addr =
  sa_ip :: ip_addr
  sa_port :: u16

text \<open>\<open>Ipv6Addr::to_ipv4\<close>: the IPv4-mapped and the IPv4-compatible addresses; the octets of the result
  are the last four, most significant first.\<close>

definition swap32 :: "u32 \<Rightarrow> u32" where
  "swap32 x = push_bit 24 (x AND 0xFF) OR push_bit 8 (x AND 0xFF00) OR
     (drop_bit 8 x AND 0xFF00) OR drop_bit 24 x"

definition to_ipv4 :: "u128 \<Rightarrow> u32 option" where
  "to_ipv4 a = (if drop_bit 48 a = 0 \<and> (drop_bit 32 a AND 0xFFFF = 0 \<or> drop_bit 32 a AND 0xFFFF = 0xFFFF)
     then Some (swap32 (ucast a)) else None)"

definition try_into_v4 :: "socket_addr \<Rightarrow> socket_addr" where
  "try_into_v4 a =
     (case sa_ip a of
        V6 v6 \<Rightarrow> if v6 \<noteq> 1 then (case to_ipv4 v6 of Some v4 \<Rightarrow> a\<lparr>sa_ip := V4 v4\<rparr> | None \<Rightarrow> a) else a
      | V4 _ \<Rightarrow> a)"

text \<open>The octets of an IPv6 address come most significant first.\<close>

definition v6_octets :: "u128 \<Rightarrow> bytes" where "v6_octets a = rev (u128_le a)"

definition mangle_encode :: "u32 \<Rightarrow> socket_addr \<Rightarrow> bytes" where
  "mangle_encode micros addr =
     (let a = try_into_v4 addr in
      case sa_ip a of
        V4 v4 \<Rightarrow>
          let tm = (ucast :: 32 word \<Rightarrow> 128 word) micros;
              i = (ucast :: 32 word \<Rightarrow> 128 word) v4;
              p = (ucast :: 16 word \<Rightarrow> 128 word) (sa_port a);
              v = push_bit 49 (i + tm) OR push_bit 17 tm OR (p + (tm AND 0xFFFF))
          in strip_zeros (u128_le v)
      | V6 v6 \<Rightarrow>
          v6_octets v6 @ [(ucast :: 16 word \<Rightarrow> 8 word) (sa_port a), (ucast :: 16 word \<Rightarrow> 8 word) (drop_bit 8 (sa_port a))])"

definition mangle_decode :: "bytes \<Rightarrow> socket_addr" where
  "mangle_decode b =
     (if 16 < length b then
        (if length b \<noteq> 18 then \<lparr>sa_ip = V6 0, sa_port = 0\<rparr>
         else \<lparr>sa_ip = V6 (le_value (rev (take 16 b))),
                sa_port = (ucast :: 8 word \<Rightarrow> 16 word) (b ! 16) OR push_bit 8 ((ucast :: 8 word \<Rightarrow> 16 word) (b ! 17))\<rparr>)
      else
        let n = le_value (b @ replicate (16 - length b) 0);
            tm = drop_bit 17 n AND 0xFFFFFFFF;
            i = (ucast :: 128 word \<Rightarrow> 32 word) (drop_bit 49 n - tm);
            p = (n AND 0xFFFFFF) - (tm AND 0xFFFF)
        in \<lparr>sa_ip = V4 i, sa_port = (ucast :: 128 word \<Rightarrow> 16 word) p\<rparr>)"

section \<open>Versions\<close>

definition parse_i64 :: "string \<Rightarrow> i64" where
  "parse_i64 s = (case parse_signed 64 s of Some v \<Rightarrow> word_of_int v | None \<Rightarrow> 0)"

definition get_version_number :: "string \<Rightarrow> i64" where
  "get_version_number v =
     (let parts = str_split (\<lambda>c. c = CHR ''-'') v;
          (n, last) = fold (\<lambda>x (n, last). (n * 1000 + parse_i64 x, parse_i64 x))
                        (str_split (\<lambda>c. c = CHR ''.'') (hd parts)) (0, 0);
          n = n - last + last * 10
      in case tl parts of [] \<Rightarrow> n | p # _ \<Rightarrow> n + parse_i64 p)"

text \<open>On ASCII text positions count bytes.\<close>

definition get_version_from_url :: "string \<Rightarrow> string" where
  "get_version_from_url url =
     (let n = length url in
      case find_index (\<lambda>x. x = CHR ''-'') (rev url) of
        None \<Rightarrow> []
      | Some a \<Rightarrow>
          (case find_index (\<lambda>x. x = CHR ''.'') (rev url) of
             None \<Rightarrow> []
           | Some b \<Rightarrow>
               if a > b then
                 (if parse_signed 32 (drop (n - b) url) \<noteq> None then drop (n - a) url
                  else take (a - b - 1) (drop (n - a) url))
               else drop (n - a) url))"

section \<open>Hosts and ports\<close>

definition port_text :: "i32 \<Rightarrow> string" where
  "port_text p = int_text (sint p)"

definition check_port :: "(string \<Rightarrow> bool) \<Rightarrow> string \<Rightarrow> i32 \<Rightarrow> string" where
  "check_port is_ipv6_str host prt =
     (if is_ipv6_str host then
        (if prefix ''['' host then host else ''['' @ host @ '']:'' @ port_text prt)
      else if CHR '':'' \<notin> set host then host @ '':'' @ port_text prt
      else host)"

definition parse_port :: "string \<Rightarrow> i32" where
  "parse_port s = (case parse_signed 32 s of Some v \<Rightarrow> word_of_int v | None \<Rightarrow> 0)"

definition split_host_port :: "(string \<Rightarrow> bool) \<Rightarrow> string \<Rightarrow> (string \<times> i32) option" where
  "split_host_port is_ipv6_str host =
     (if is_ipv6_str host then
        (if prefix ''['' host then
           (case split_on '']:'' host of
              [h, p] \<Rightarrow> if 0 <s parse_port p then Some (h @ '']'', parse_port p) else None
            | _ \<Rightarrow> None)
         else None)
      else if CHR '':'' \<in> set host then
        (case str_split (\<lambda>c. c = CHR '':'') host of
           [h, p] \<Rightarrow> if 0 <s parse_port p then Some (h, parse_port p) else None
         | _ \<Rightarrow> None)
      else None)"

definition increase_port :: "(string \<Rightarrow> bool) \<Rightarrow> string \<Rightarrow> i32 \<Rightarrow> string" where
  "increase_port is_ipv6_str host offset =
     (if is_ipv6_str host then
        (if prefix ''['' host then
           (case split_on '']:'' host of
              [h, p] \<Rightarrow> if 0 <s parse_port p then h @ '']:'' @ port_text (parse_port p + offset) else host
            | _ \<Rightarrow> host)
         else host)
      else if CHR '':'' \<in> set host then
        (case str_split (\<lambda>c. c = CHR '':'') host of
           [h, p] \<Rightarrow> if 0 <s parse_port p then h @ '':'' @ port_text (parse_port p + offset) else host
         | _ \<Rightarrow> host)
      else host)"

section \<open>Endpoint migration\<close>

definition SERVER_HOST :: string where "SERVER_HOST = ''787.kr''"
definition LEGACY_HOST :: string where "LEGACY_HOST = ''mdesk.imedixerp.co.kr''"

definition canonical_server :: "string \<Rightarrow> string" where
  "canonical_server value =
     (let trimmed = str_trim value;
          off = (case find_str ''://'' trimmed of Some i \<Rightarrow> i + 3 | None \<Rightarrow> 0);
          rest = drop off trimmed;
          authority_end = (case find_index (\<lambda>c. c \<in> set ''/?#'') rest of Some i \<Rightarrow> i | None \<Rightarrow> length rest)
      in if CHR ''@'' \<in> set (take authority_end rest) then value
         else
           let e = (case find_index (\<lambda>c. c \<in> set '':/?#'') rest of Some i \<Rightarrow> i | None \<Rightarrow> length rest)
           in if eq_ignore_ascii_case (take e rest) LEGACY_HOST
              then take off trimmed @ SERVER_HOST @ drop e rest
              else value)"

definition canonical_option :: "string \<Rightarrow> string \<Rightarrow> string" where
  "canonical_option key value =
     (if key = ''custom-rendezvous-server'' \<or> key = ''relay-server'' then canonical_server value
      else if key = ''rendezvous-servers''
      then join '','' (map canonical_server (str_split (\<lambda>c. c = CHR '','') value))
      else value)"

definition migrate_options :: "(string, string) hmap \<Rightarrow> bool \<times> (string, string) hmap" where
  "migrate_options options =
     (list_ex (\<lambda>(k, v). canonical_option k v \<noteq> v) options,
      map (\<lambda>(k, v). (k, canonical_option k v)) options)"

definition websocket_scheme :: "string \<Rightarrow> string \<Rightarrow> string" where
  "websocket_scheme host api =
     (if eq_ignore_ascii_case host SERVER_HOST \<or> eq_ignore_ascii_case host ''www.787.kr'' \<or> prefix ''https'' api
      then ''wss'' else ''ws'')"

section \<open>Mangling is reversible\<close>

lemma mangle_bits:
  fixes i tm low :: u128
  assumes "\<And>n. bit tm n \<Longrightarrow> n < 32" and "\<And>n. bit low n \<Longrightarrow> n < 17" and "\<And>n. bit i n \<Longrightarrow> n < 33"
  defines "v \<equiv> push_bit 49 i OR push_bit 17 tm OR low"
  shows "drop_bit 17 v AND 0xFFFFFFFF = tm" and "drop_bit 49 v = i"
    and "(ucast :: 128 word \<Rightarrow> 16 word) (v AND 0xFFFFFF) = ucast low"
proof -
  have m32: "bit (0xFFFFFFFF :: int) n = (n < 32)" for n
    using bit_mask_iff [of 32 n, where 'a = int] by (simp add: mask_eq_exp_minus_1)
  have m24: "bit (0xFFFFFF :: int) n = (n < 24)" for n
    using bit_mask_iff [of 24 n, where 'a = int] by (simp add: mask_eq_exp_minus_1)
  show "drop_bit 17 v AND 0xFFFFFFFF = tm"
    by (rule bit_word_eqI) (auto simp: v_def bit_and_iff bit_or_iff bit_drop_bit_eq bit_push_bit_iff bit_simps m32 dest: assms(1-3))
  show "drop_bit 49 v = i"
    by (rule bit_word_eqI) (auto simp: v_def bit_or_iff bit_drop_bit_eq bit_push_bit_iff dest: assms(1-3))
  show "(ucast :: 128 word \<Rightarrow> 16 word) (v AND 0xFFFFFF) = ucast low"
    by (rule bit_word_eqI) (auto simp: v_def bit_and_iff bit_or_iff bit_push_bit_iff bit_simps m24 dest: assms(1-3))
qed

lemma widen_narrow:
  "(ucast :: 128 word \<Rightarrow> 32 word) ((ucast :: 32 word \<Rightarrow> 128 word) x) = x"
  "(ucast :: 128 word \<Rightarrow> 16 word) ((ucast :: 16 word \<Rightarrow> 128 word) y) = y"
  by (rule bit_word_eqI, auto simp: bit_simps)+

lemma ucast_128_16_word_of: "(ucast :: 128 word \<Rightarrow> 16 word) z = word_of_int (uint z)"
  by simp

lemma word16_of_mod: "(word_of_int (a mod 340282366920938463463374607431768211456) :: 16 word) = word_of_int a"
  by (simp add: word_of_int_eq_iff take_bit_eq_mod mod_mod_cancel)

lemma ucast_128_16:
  "(ucast :: 128 word \<Rightarrow> 16 word) (x - y) = ucast x - ucast y"
  "(ucast :: 128 word \<Rightarrow> 16 word) (x + y) = ucast x + ucast y"
  unfolding ucast_128_16_word_of uint_word_ariths by (simp_all add: word16_of_mod)

lemma mangle_v6:
  assumes "sa_ip (try_into_v4 a) = V6 v6"
  shows "mangle_decode (mangle_encode micros a) = try_into_v4 a"
proof -
  let ?p = "sa_port (try_into_v4 a)"
  have "(ucast ((ucast :: 16 word \<Rightarrow> 8 word) ?p) :: u16) OR
      push_bit 8 (ucast ((ucast :: 16 word \<Rightarrow> 8 word) (drop_bit 8 ?p))) = ?p"
    by (rule bit_word_eqI) (auto simp: bit_simps)
  with assms show ?thesis
    by (simp add: Let_def mangle_encode_def mangle_decode_def v6_octets_def nth_append u128_le_def
        le_value_u128 [unfolded u128_le_def])
qed

lemma stripped_number:
  "(16 < length (strip_zeros (u128_le v))) = False"
  "le_value (strip_zeros (u128_le v) @ replicate (16 - length (strip_zeros (u128_le v))) 0) = v"
proof -
  obtain k where k: "u128_le v = strip_zeros (u128_le v) @ replicate k 0" using strip_zeros_pad by blast
  then have len: "length (strip_zeros (u128_le v)) + k = 16" by (metis k length_append length_replicate u128_le_length)
  show "(16 < length (strip_zeros (u128_le v))) = False" using len by simp
  show "le_value (strip_zeros (u128_le v) @ replicate (16 - length (strip_zeros (u128_le v))) 0) = v"
    using le_value_zeros le_value_u128 [of v] k by metis
qed


section \<open>Versions are ordered\<close>

definition version_text :: "nat \<Rightarrow> nat \<Rightarrow> nat \<Rightarrow> string" where
  "version_text a b c = nat_text a @ ''.'' @ nat_text b @ ''.'' @ nat_text c"

lemma nat_text_plain: "\<forall>c \<in> set (nat_text n). c \<noteq> CHR ''.'' \<and> c \<noteq> CHR ''-'' \<and> c \<noteq> CHR '':''"
  using nat_text_not_sign by (fastforce simp: char_code_def)

lemma parse_i64_text: "n < 2 ^ 63 \<Longrightarrow> parse_i64 (nat_text n) = of_nat n"
  using parse_signed_text [of n 64] by (simp add: parse_i64_def)

lemma nat_text_sep:
  "d = CHR ''.'' \<or> d = CHR ''-'' \<or> d = CHR '':'' \<Longrightarrow> \<forall>c \<in> set (nat_text n). c \<noteq> d"
  using nat_text_plain [of n] by blast

lemma split_number:
  assumes "d = CHR ''.'' \<or> d = CHR ''-'' \<or> d = CHR '':''"
  shows "str_split (\<lambda>c. c = d) (nat_text n @ d # t) = nat_text n # str_split (\<lambda>c. c = d) t"
    and "str_split (\<lambda>c. c = d) (nat_text n) = [nat_text n]"
  by (rule str_split_at; rule nat_text_sep [OF assms] refl) (rule str_split_none, rule nat_text_sep [OF assms])

lemma split_version:
  "str_split (\<lambda>c. c = CHR ''-'') (version_text a b c) = [version_text a b c]"
  "str_split (\<lambda>c. c = CHR ''.'') (version_text a b c) = [nat_text a, nat_text b, nat_text c]"
proof -
  have "x \<noteq> CHR ''-''" if "x \<in> set (version_text a b c)" for x
    using that nat_text_sep [of "CHR ''-''"] by (auto simp: version_text_def)
  then show "str_split (\<lambda>c. c = CHR ''-'') (version_text a b c) = [version_text a b c]"
    by (intro str_split_none) blast
  show "str_split (\<lambda>c. c = CHR ''.'') (version_text a b c) = [nat_text a, nat_text b, nat_text c]"
    unfolding version_text_def append_Cons append_Nil by (simp only: split_number simp_thms)
qed

lemma version_number_text:
  assumes "a < 2 ^ 63" "b < 2 ^ 63" "c < 2 ^ 63"
  shows "get_version_number (version_text a b c) = of_nat ((a * 1000 + b) * 1000 + c * 10)"
  by (simp add: get_version_number_def split_version parse_i64_text [OF assms(1)] parse_i64_text [OF assms(2)]
      parse_i64_text [OF assms(3)])

text \<open>Version order.  On versions of three parts, the last two below 1000 and 100, the numbers are
  ordered as the versions are.\<close>

theorem version_order:
  assumes "a < 2 ^ 32" "b < 1000" "c < 100" "a' < 2 ^ 32" "b' < 1000" "c' < 100"
  shows "(get_version_number (version_text a b c) \<le>s get_version_number (version_text a' b' c')) =
    (a < a' \<or> a = a' \<and> (b < b' \<or> b = b' \<and> c \<le> c'))"
proof -
  let ?n = "(a * 1000 + b) * 1000 + c * 10" and ?n' = "(a' * 1000 + b') * 1000 + c' * 10"
  have n: "?n < 2 ^ 63" "?n' < 2 ^ 63" using assms by simp_all
  have "sint (of_nat k :: i64) = int k" if "k < 2 ^ 63" for k
    using that by (simp add: signed_of_nat signed_take_bit_int_eq_self)
  note s = this [OF n(1)] this [OF n(2)]
  have big: "a < 2 ^ 63" "b < 2 ^ 63" "c < 2 ^ 63" "a' < 2 ^ 63" "b' < 2 ^ 63" "c' < 2 ^ 63"
    using assms by simp_all
  have "(?n \<le> ?n') = (a < a' \<or> a = a' \<and> (b < b' \<or> b = b' \<and> c \<le> c'))"
    using assms by auto
  then show ?thesis
    unfolding version_number_text [OF big(1-3)] version_number_text [OF big(4-6)] word_sle_eq s by linarith
qed

lemma version_order_witness:
  "(get_version_number (version_text 1 2 10) \<le>s get_version_number (version_text 1 3 2)) =
    ((1 :: nat) < 1 \<or> 1 = (1 :: nat) \<and> ((2 :: nat) < 3 \<or> 2 = (3 :: nat) \<and> 10 \<le> (2 :: nat)))"
  by (rule version_order) simp_all

text \<open>Hosts and ports.  A port put on a plain host name is found again, and increased ports keep
  the host.\<close>

theorem port_roundtrip:
  assumes "\<not> is_ipv6_str host" and "\<not> is_ipv6_str (check_port is_ipv6_str host p)"
    and "CHR '':'' \<notin> set host" and "0 <s p"
  shows "split_host_port is_ipv6_str (check_port is_ipv6_str host p) = Some (host, p) \<and>
    increase_port is_ipv6_str (check_port is_ipv6_str host p) k = check_port is_ipv6_str host (p + k)"
proof -
  have pos: "0 < sint p" using assms(4) by (simp add: word_sless_alt)
  then have digits: "port_text p = nat_text (nat (sint p))" by (simp add: port_text_def int_text_def)
  have "sint p < 2 ^ 31" using sint_lt [of p] by simp
  with pos have "parse_port (port_text p) = p"
    unfolding digits using parse_signed_text [of "nat (sint p)" 32] by (simp add: parse_port_def)
  moreover have cp: "check_port is_ipv6_str host q = host @ '':'' @ port_text q" for q
    using assms(1,3) by (simp add: check_port_def)
  moreover have "str_split (\<lambda>c. c = CHR '':'') (host @ '':'' @ port_text p) = [host, port_text p]"
    unfolding digits append_Cons append_Nil using assms(3)
    by (subst str_split_at) (auto simp: split_number(2) simp del: str_split.simps)
  ultimately show ?thesis
    using assms(2,4) by (simp add: split_host_port_def increase_port_def)
qed

lemma port_roundtrip_witness:
  "split_host_port (\<lambda>_. False) (check_port (\<lambda>_. False) ''mdesk'' 21116) = Some (''mdesk'', 21116) \<and>
   increase_port (\<lambda>_. False) (check_port (\<lambda>_. False) ''mdesk'' 21116) 1 = check_port (\<lambda>_. False) ''mdesk'' (21116 + 1)"
  by (rule port_roundtrip) (simp_all add: word_sless_alt)

end
