(* ===== verification/Session_Scope.thy ===== *)
theory Session_Scope
  imports MDesk_Prelude
begin

text \<open>
  What a session may ask for: the messages of a connection (\<open>message.proto\<close>) as the controlled side
  reads them, and the scope rules of \<open>src/server/connection.rs\<close> that decide, for each kind of
  authorized session, which messages are handled, which are silently tolerated and which fields of an
  option update survive.

  A protobuf enumeration is the number on the wire (\<open>EnumOrUnknown\<close>): its \<open>enum_value\<close> is \<open>None\<close> for a
  number the enumeration does not list.  Payloads the controlled side only passes on are byte lists.
\<close>

section \<open>Messages\<close>

datatype auth_conn_type = Remote | FileTransferConn | PortForwardConn | ViewCameraConn | TerminalConn

datatype bool_option = BoolOption_NotSet | BoolOption_No | BoolOption_Yes

datatype image_quality = ImageQuality_NotSet | ImageQuality_Low | ImageQuality_Balanced | ImageQuality_Best

definition bool_option_value :: "i32 \<Rightarrow> bool_option option" where
  "bool_option_value n =
     (if n = 0 then Some BoolOption_NotSet else if n = 1 then Some BoolOption_No
      else if n = 2 then Some BoolOption_Yes else None)"

definition bool_option_number :: "bool_option \<Rightarrow> i32" where
  "bool_option_number q = (case q of BoolOption_NotSet \<Rightarrow> 0 | BoolOption_No \<Rightarrow> 1 | BoolOption_Yes \<Rightarrow> 2)"

definition image_quality_value :: "i32 \<Rightarrow> image_quality option" where
  "image_quality_value n =
     (if n = 0 then Some ImageQuality_NotSet else if n = 2 then Some ImageQuality_Low
      else if n = 3 then Some ImageQuality_Balanced else if n = 4 then Some ImageQuality_Best else None)"

record option_message =
  o_image_quality :: i32
  o_lock_after_session_end :: i32
  o_show_remote_cursor :: i32
  o_privacy_mode :: i32
  o_block_input :: i32
  o_custom_image_quality :: i32
  o_disable_audio :: i32
  o_disable_clipboard :: i32
  o_enable_file_transfer :: i32
  o_supported_decoding :: "u8 list option"
  o_custom_fps :: i32
  o_disable_keyboard :: i32
  o_follow_remote_cursor :: i32
  o_follow_remote_window :: i32
  o_disable_camera :: i32
  o_terminal_persistent :: i32
  o_show_my_cursor :: i32

text \<open>\<open>OptionMessage::new()\<close>: every field has its default.\<close>

definition option_message_new :: option_message where
  "option_message_new = \<lparr>o_image_quality = 0, o_lock_after_session_end = 0, o_show_remote_cursor = 0,
     o_privacy_mode = 0, o_block_input = 0, o_custom_image_quality = 0, o_disable_audio = 0,
     o_disable_clipboard = 0, o_enable_file_transfer = 0, o_supported_decoding = None, o_custom_fps = 0,
     o_disable_keyboard = 0, o_follow_remote_cursor = 0, o_follow_remote_window = 0, o_disable_camera = 0,
     o_terminal_persistent = 0, o_show_my_cursor = 0\<rparr>"

record mouse_event =
  me_mask :: i32
  me_x :: i32
  me_y :: i32
  me_modifiers :: "i32 list"

datatype key_union =
    ControlKey i32 | Chr u32 | Unicode u32 | Seq string | Win2winHotkey u32

record key_event =
  ke_down :: bool
  ke_press :: bool
  ke_union :: "key_union option"
  ke_modifiers :: "i32 list"
  ke_mode :: i32
  ke_hangul :: bool

record clipboard_msg =
  cb_compress :: bool
  cb_content :: "u8 list"
  cb_width :: i32
  cb_height :: i32
  cb_format :: i32
  cb_special_name :: string
  cb_relayed :: bool
  cb_source_application :: i32

record file_entry =
  fe_type :: i32
  fe_name :: string
  fe_hidden :: bool
  fe_size :: u64
  fe_modified_time :: u64

datatype confirm_union = Skip bool | OffsetBlk u32

datatype file_action =
    ReadDir (fa_path: string) (fa_hidden: bool)
  | Send (fa_id: i32) (fa_path: string) (fa_hidden: bool) (fa_file_num: i32) (fa_file_type: i32)
  | Receive (fa_id: i32) (fa_path: string) (fa_files: "file_entry list") (fa_file_num: i32) (fa_total_size: u64)
  | Create (fa_id: i32) (fa_path: string)
  | RemoveDir (fa_id: i32) (fa_path: string) (fa_recursive: bool)
  | RemoveFile (fa_id: i32) (fa_path: string) (fa_file_num: i32)
  | AllFiles (fa_id: i32) (fa_path: string) (fa_hidden: bool)
  | Cancel (fa_id: i32)
  | SendConfirm (fa_id: i32) (fa_file_num: i32) (fa_confirm: "confirm_union option")
  | Rename (fa_id: i32) (fa_path: string) (fa_new_name: string)
  | ReadEmptyDirs (fa_path: string) (fa_hidden: bool)
  | DirectReceive "u8 list"

datatype file_response =
    Dir "u8 list"
  | Block (fr_id: i32) (fr_file_num: i32) (fr_data: "u8 list") (fr_compressed: bool) (fr_blk_id: u32)
  | Error (fr_id: i32) (fr_error: string) (fr_file_num: i32)
  | Done (fr_id: i32) (fr_file_num: i32)
  | Digest (fr_id: i32) (fr_file_num: i32) (fr_last_modified: u64) (fr_file_size: u64) (fr_is_resume: bool)
  | EmptyDirs "u8 list"

record file_stream_msg =
  fs_kind :: u32
  fs_generation :: u64
  fs_request_id :: u64
  fs_index :: u32
  fs_offset :: u64
  fs_size :: u64
  fs_data :: "u8 list"
  fs_compressed :: bool

datatype cliprdr =
    FormatList "(i32 \<times> string) list"
  | Files "(string \<times> u64) list" i32
  | FileStream file_stream_msg
  | Cliprdr_Other "u8 list"

datatype elevation_request = Direct | Logon string string

datatype misc =
    ChatMessage string
  | SwitchDisplay i32 i32 i32
  | Option option_message
  | AudioFormat u32 u32
  | CloseReason string
  | RefreshVideo bool
  | VideoReceived bool
  | RestartRemoteDevice bool
  | ElevationRequest "elevation_request option"
  | SwitchSidesRequest "u8 list"
  | ChangeResolution i32 i32
  | PluginRequest "u8 list"
  | AutoAdjustFps u32
  | ClientRecordStatus bool
  | CaptureDisplays "i32 list" "i32 list" "i32 list"
  | RefreshVideoDisplay i32
  | ToggleVirtualDisplay i32 bool
  | TogglePrivacyMode string bool
  | SelectedSid u32
  | ChangeDisplayResolution i32 i32 i32
  | MessageQuery i32
  | FollowCurrentDisplay i32
  | Misc_Other "u8 list"

text \<open>The union of \<open>Message\<close>: a message without one is \<open>None\<close>.  \<open>Message_Other\<close> stands for the members
  that only a controlled side sends.\<close>

datatype message =
    LoginRequest | TestDelay bool | SwitchSidesResponse | Auth2FA
  | MouseEvent mouse_event
  | AudioFrame "u8 list"
  | PointerDeviceEvent "u8 list"
  | KeyEvent key_event
  | Clipboard clipboard_msg
  | MultiClipboards "clipboard_msg list"
  | Cliprdr "cliprdr option"
  | FileAction "file_action option"
  | FileResponse "file_response option"
  | Misc "misc option"
  | VoiceCallRequest bool i64
  | VoiceCallResponse
  | ScreenshotRequest i32 string
  | ScreenshotResponse
  | TerminalAction "u8 list"
  | TerminalResponse
  | Message_Other "u8 list"


section \<open>Options\<close>

definition is_bool_option_not_set :: "i32 \<Rightarrow> bool" where
  "is_bool_option_not_set opt \<longleftrightarrow> bool_option_value opt = Some BoolOption_NotSet"

definition is_supported_decoding_only_option :: "option_message \<Rightarrow> bool" where
  "is_supported_decoding_only_option opt \<longleftrightarrow>
     o_supported_decoding opt \<noteq> None
     \<and> image_quality_value (o_image_quality opt) = Some ImageQuality_NotSet
     \<and> o_custom_image_quality opt = 0
     \<and> o_custom_fps opt = 0
     \<and> is_bool_option_not_set (o_lock_after_session_end opt)
     \<and> is_bool_option_not_set (o_show_remote_cursor opt)
     \<and> is_bool_option_not_set (o_privacy_mode opt)
     \<and> is_bool_option_not_set (o_block_input opt)
     \<and> is_bool_option_not_set (o_disable_audio opt)
     \<and> is_bool_option_not_set (o_disable_clipboard opt)
     \<and> is_bool_option_not_set (o_enable_file_transfer opt)
     \<and> is_bool_option_not_set (o_disable_keyboard opt)
     \<and> is_bool_option_not_set (o_follow_remote_cursor opt)
     \<and> is_bool_option_not_set (o_follow_remote_window opt)
     \<and> is_bool_option_not_set (o_disable_camera opt)
     \<and> is_bool_option_not_set (o_terminal_persistent opt)
     \<and> is_bool_option_not_set (o_show_my_cursor opt)"

definition option_has_non_view_camera_login_field :: "option_message \<Rightarrow> bool" where
  "option_has_non_view_camera_login_field opt \<longleftrightarrow>
     \<not> (is_bool_option_not_set (o_lock_after_session_end opt)
        \<and> is_bool_option_not_set (o_show_remote_cursor opt)
        \<and> is_bool_option_not_set (o_privacy_mode opt)
        \<and> is_bool_option_not_set (o_block_input opt)
        \<and> is_bool_option_not_set (o_disable_clipboard opt)
        \<and> is_bool_option_not_set (o_enable_file_transfer opt)
        \<and> is_bool_option_not_set (o_disable_keyboard opt)
        \<and> is_bool_option_not_set (o_follow_remote_cursor opt)
        \<and> is_bool_option_not_set (o_follow_remote_window opt)
        \<and> is_bool_option_not_set (o_disable_camera opt)
        \<and> is_bool_option_not_set (o_terminal_persistent opt)
        \<and> is_bool_option_not_set (o_show_my_cursor opt))"

definition option_has_non_terminal_login_field :: "option_message \<Rightarrow> bool" where
  "option_has_non_terminal_login_field opt \<longleftrightarrow>
     image_quality_value (o_image_quality opt) \<noteq> Some ImageQuality_NotSet
     \<or> o_custom_image_quality opt \<noteq> 0
     \<or> o_custom_fps opt \<noteq> 0
     \<or> o_supported_decoding opt \<noteq> None
     \<or> \<not> is_bool_option_not_set (o_lock_after_session_end opt)
     \<or> \<not> is_bool_option_not_set (o_show_remote_cursor opt)
     \<or> \<not> is_bool_option_not_set (o_privacy_mode opt)
     \<or> \<not> is_bool_option_not_set (o_block_input opt)
     \<or> \<not> is_bool_option_not_set (o_disable_audio opt)
     \<or> \<not> is_bool_option_not_set (o_disable_clipboard opt)
     \<or> \<not> is_bool_option_not_set (o_enable_file_transfer opt)
     \<or> \<not> is_bool_option_not_set (o_disable_keyboard opt)
     \<or> \<not> is_bool_option_not_set (o_follow_remote_cursor opt)
     \<or> \<not> is_bool_option_not_set (o_follow_remote_window opt)
     \<or> \<not> is_bool_option_not_set (o_disable_camera opt)
     \<or> \<not> is_bool_option_not_set (o_show_my_cursor opt)"

definition option_has_any_field :: "option_message \<Rightarrow> bool" where
  "option_has_any_field opt \<longleftrightarrow>
     option_has_non_terminal_login_field opt \<or> \<not> is_bool_option_not_set (o_terminal_persistent opt)"

definition scoped_terminal_login_option :: "option_message \<Rightarrow> option_message option \<times> string option" where
  "scoped_terminal_login_option opt =
     (let (scoped, violation) =
            (case bool_option_value (o_terminal_persistent opt) of
               Some value \<Rightarrow> (option_message_new\<lparr>o_terminal_persistent := bool_option_number value\<rparr>, False)
             | None \<Rightarrow> (option_message_new, True));
          violation = (violation \<or> option_has_non_terminal_login_field opt)
      in (if option_has_any_field scoped then Some scoped else None,
          if violation then Some ''login.option'' else None))"

definition scoped_view_camera_option :: "option_message \<Rightarrow> option_message option \<times> string option" where
  "scoped_view_camera_option opt =
     (let scoped = option_message_new;
          scoped = (if image_quality_value (o_image_quality opt) \<noteq> None
                    then scoped\<lparr>o_image_quality := o_image_quality opt\<rparr> else scoped);
          scoped = (if 0 \<le> sint (o_custom_image_quality opt)
                    then scoped\<lparr>o_custom_image_quality := o_custom_image_quality opt\<rparr> else scoped);
          scoped = (if 0 \<le> sint (o_custom_fps opt)
                    then scoped\<lparr>o_custom_fps := o_custom_fps opt\<rparr> else scoped);
          scoped = scoped\<lparr>o_supported_decoding := o_supported_decoding opt\<rparr>;
          scoped = (case bool_option_value (o_disable_audio opt) of
                      Some value \<Rightarrow> scoped\<lparr>o_disable_audio := bool_option_number value\<rparr>
                    | None \<Rightarrow> scoped);
          violation = option_has_non_view_camera_login_field opt
      in (if option_has_any_field scoped then Some scoped else None,
          if violation then Some ''login.option'' else None))"

definition scoped_login_option ::
  "auth_conn_type \<Rightarrow> option_message \<Rightarrow> option_message option \<times> string option"
where
  "scoped_login_option conn_type opt =
     (case conn_type of
        Remote \<Rightarrow> (Some opt, None)
      | ViewCameraConn \<Rightarrow> scoped_view_camera_option opt
      | TerminalConn \<Rightarrow> scoped_terminal_login_option opt
      | _ \<Rightarrow> (None, if option_has_any_field opt then Some ''login.option'' else None))"

definition scoped_update_option_message ::
  "auth_conn_type option \<Rightarrow> option_message \<Rightarrow> option_message option"
where
  "scoped_update_option_message conn_type opt =
     (case conn_type of
        Some ViewCameraConn \<Rightarrow> fst (scoped_view_camera_option opt)
      | Some TerminalConn \<Rightarrow> fst (scoped_terminal_login_option opt)
      | _ \<Rightarrow> None)"

section \<open>Scopes\<close>

definition is_connection_housekeeping_message :: "message option \<Rightarrow> bool" where
  "is_connection_housekeeping_message msg =
     (case msg of
        Some LoginRequest \<Rightarrow> True
      | Some (TestDelay _) \<Rightarrow> True
      | Some (Misc (Some (CloseReason _))) \<Rightarrow> True
      | _ \<Rightarrow> False)"

definition is_render_broadcast_noop_compat_message :: "message option \<Rightarrow> bool" where
  "is_render_broadcast_noop_compat_message msg =
     (case msg of
        Some (Misc (Some (RefreshVideo _))) \<Rightarrow> True
      | Some (Misc (Some (RefreshVideoDisplay _))) \<Rightarrow> True
      | Some (Misc (Some (Option opt))) \<Rightarrow> is_supported_decoding_only_option opt
      | _ \<Rightarrow> False)"

definition is_text_clipboard_noop_compat_message :: "message option \<Rightarrow> bool" where
  "is_text_clipboard_noop_compat_message msg =
     (case msg of Some (Clipboard _) \<Rightarrow> True | Some (MultiClipboards _) \<Rightarrow> True | _ \<Rightarrow> False)"

definition is_file_transfer_scoped_misc :: "misc option \<Rightarrow> bool" where
  "is_file_transfer_scoped_misc m = (case m of Some (SelectedSid _) \<Rightarrow> True | _ \<Rightarrow> False)"

definition is_file_transfer_scoped_message :: "message option \<Rightarrow> bool" where
  "is_file_transfer_scoped_message msg =
     (case msg of
        Some (FileAction _) \<Rightarrow> True
      | Some (FileResponse _) \<Rightarrow> True
      | Some (Misc m) \<Rightarrow> is_file_transfer_scoped_misc m
      | _ \<Rightarrow> False)"

definition is_terminal_scoped_option :: "option_message \<Rightarrow> bool" where
  "is_terminal_scoped_option opt \<longleftrightarrow> snd (scoped_terminal_login_option opt) = None"

definition is_terminal_scoped_misc :: "misc option \<Rightarrow> bool" where
  "is_terminal_scoped_misc m =
     (case m of
        Some (ChatMessage _) \<Rightarrow> True
      | Some (Option opt) \<Rightarrow> is_terminal_scoped_option opt
      | _ \<Rightarrow> False)"

definition is_terminal_scoped_message :: "message option \<Rightarrow> bool" where
  "is_terminal_scoped_message msg =
     (case msg of
        Some (TerminalAction _) \<Rightarrow> True
      | Some (Misc m) \<Rightarrow> is_terminal_scoped_misc m
      | _ \<Rightarrow> False)"

definition is_view_camera_scoped_option :: "option_message \<Rightarrow> bool" where
  "is_view_camera_scoped_option opt \<longleftrightarrow> snd (scoped_view_camera_option opt) = None"

definition is_view_camera_scoped_misc :: "misc option \<Rightarrow> bool" where
  "is_view_camera_scoped_misc m =
     (case m of
        Some (SwitchDisplay _ _ _) \<Rightarrow> True
      | Some (CaptureDisplays _ _ _) \<Rightarrow> True
      | Some (RefreshVideo _) \<Rightarrow> True
      | Some (RefreshVideoDisplay _) \<Rightarrow> True
      | Some (VideoReceived _) \<Rightarrow> True
      | Some (ChatMessage _) \<Rightarrow> True
      | Some (AudioFormat _ _) \<Rightarrow> True
      | Some (ClientRecordStatus _) \<Rightarrow> True
      | Some (MessageQuery _) \<Rightarrow> True
      | Some (TogglePrivacyMode _ _) \<Rightarrow> True
      | Some (ToggleVirtualDisplay _ _) \<Rightarrow> True
      | Some (ChangeResolution _ _) \<Rightarrow> True
      | Some (ChangeDisplayResolution _ _ _) \<Rightarrow> True
      | Some (Option opt) \<Rightarrow> is_view_camera_scoped_option opt
      | Some (SelectedSid _) \<Rightarrow> True
      | _ \<Rightarrow> False)"

definition is_view_camera_scoped_message :: "message option \<Rightarrow> bool" where
  "is_view_camera_scoped_message msg =
     (case msg of
        Some (ScreenshotRequest _ _) \<Rightarrow> True
      | Some (Misc m) \<Rightarrow> is_view_camera_scoped_misc m
      | Some (MouseEvent _) \<Rightarrow> True
      | Some (PointerDeviceEvent _) \<Rightarrow> True
      | Some (KeyEvent _) \<Rightarrow> True
      | Some (AudioFrame _) \<Rightarrow> True
      | Some (VoiceCallRequest _ _) \<Rightarrow> True
      | Some VoiceCallResponse \<Rightarrow> True
      | _ \<Rightarrow> False)"

definition misc_message_family :: "misc option \<Rightarrow> string" where
  "misc_message_family m =
     (case m of
        Some (ChatMessage _) \<Rightarrow> ''misc.chat_message''
      | Some (SwitchDisplay _ _ _) \<Rightarrow> ''misc.switch_display''
      | Some (Option _) \<Rightarrow> ''misc.option''
      | Some (AudioFormat _ _) \<Rightarrow> ''misc.audio_format''
      | Some (CaptureDisplays _ _ _) \<Rightarrow> ''misc.capture_displays''
      | Some (ClientRecordStatus _) \<Rightarrow> ''misc.client_record_status''
      | Some (TogglePrivacyMode _ _) \<Rightarrow> ''misc.toggle_privacy_mode''
      | Some (ToggleVirtualDisplay _ _) \<Rightarrow> ''misc.toggle_virtual_display''
      | Some (SelectedSid _) \<Rightarrow> ''misc.selected_sid''
      | Some (ChangeResolution _ _) \<Rightarrow> ''misc.change_resolution''
      | Some (ChangeDisplayResolution _ _ _) \<Rightarrow> ''misc.change_display_resolution''
      | Some (MessageQuery _) \<Rightarrow> ''misc.message_query''
      | Some (FollowCurrentDisplay _) \<Rightarrow> ''misc.follow_current_display''
      | Some _ \<Rightarrow> ''misc.other''
      | None \<Rightarrow> ''misc.empty'')"

definition message_family :: "message option \<Rightarrow> string" where
  "message_family msg =
     (case msg of
        Some (MouseEvent _) \<Rightarrow> ''mouse_event''
      | Some (AudioFrame _) \<Rightarrow> ''audio_frame''
      | Some (PointerDeviceEvent _) \<Rightarrow> ''pointer_device_event''
      | Some (KeyEvent _) \<Rightarrow> ''key_event''
      | Some (Clipboard _) \<Rightarrow> ''clipboard''
      | Some (FileAction _) \<Rightarrow> ''file_action''
      | Some (FileResponse _) \<Rightarrow> ''file_response''
      | Some (VoiceCallRequest _ _) \<Rightarrow> ''voice_call_request''
      | Some VoiceCallResponse \<Rightarrow> ''voice_call_response''
      | Some (MultiClipboards _) \<Rightarrow> ''multi_clipboards''
      | Some (ScreenshotRequest _ _) \<Rightarrow> ''screenshot_request''
      | Some ScreenshotResponse \<Rightarrow> ''screenshot_response''
      | Some (TerminalAction _) \<Rightarrow> ''terminal_action''
      | Some TerminalResponse \<Rightarrow> ''terminal_response''
      | Some (Misc m) \<Rightarrow> misc_message_family m
      | Some _ \<Rightarrow> ''message.other''
      | None \<Rightarrow> ''empty'')"

definition authorized_message_scope_violation :: "auth_conn_type \<Rightarrow> message option \<Rightarrow> string option" where
  "authorized_message_scope_violation conn_type msg =
     (if is_connection_housekeeping_message msg then None
      else
        let noop_compat =
              (case conn_type of
                 FileTransferConn \<Rightarrow> is_render_broadcast_noop_compat_message msg \<or> is_text_clipboard_noop_compat_message msg
               | TerminalConn \<Rightarrow> is_render_broadcast_noop_compat_message msg \<or> is_text_clipboard_noop_compat_message msg
               | PortForwardConn \<Rightarrow> is_render_broadcast_noop_compat_message msg
               | ViewCameraConn \<Rightarrow> is_text_clipboard_noop_compat_message msg
               | _ \<Rightarrow> False)
        in if noop_compat then None
           else
             let allowed =
                   (case conn_type of
                      Remote \<Rightarrow> True
                    | FileTransferConn \<Rightarrow> is_file_transfer_scoped_message msg
                    | PortForwardConn \<Rightarrow> False
                    | ViewCameraConn \<Rightarrow> is_view_camera_scoped_message msg
                    | TerminalConn \<Rightarrow> is_terminal_scoped_message msg)
             in if allowed then None else Some (message_family msg))"

definition authorized_scope_violation :: "auth_conn_type option \<Rightarrow> message option \<Rightarrow> string option" where
  "authorized_scope_violation conn_type msg =
     (case conn_type of
        None \<Rightarrow> (if is_connection_housekeeping_message msg then None else Some ''session.auth_type'')
      | Some t \<Rightarrow> authorized_message_scope_violation t msg)"


section \<open>What a limited session may change\<close>

lemma bool_option_not_set_iff [simp]: "is_bool_option_not_set n \<longleftrightarrow> n = 0"
  by (simp add: is_bool_option_not_set_def bool_option_value_def)

lemma bool_option_value_Some:
  "bool_option_value n = Some q \<longleftrightarrow> n = bool_option_number q"
  by (cases q) (auto simp: bool_option_value_def bool_option_number_def)

lemma bool_option_value_number [simp]: "bool_option_value (bool_option_number q) = Some q"
  by (simp add: bool_option_value_Some)

lemma image_quality_not_set_iff [simp]: "image_quality_value n = Some ImageQuality_NotSet \<longleftrightarrow> n = 0"
  by (simp add: image_quality_value_def)

lemmas option_fields_defs = option_has_any_field_def option_has_non_terminal_login_field_def
  option_has_non_view_camera_login_field_def option_message_new_def

text \<open>An option without any field is the empty option.\<close>

lemma no_field_iff: "\<not> option_has_any_field opt \<longleftrightarrow> opt = option_message_new"
  by (cases opt) (auto simp: option_fields_defs)

lemma terminal_filter:
  "fst (scoped_terminal_login_option opt) =
     (if o_terminal_persistent opt \<in> {1, 2}
      then Some (option_message_new\<lparr>o_terminal_persistent := o_terminal_persistent opt\<rparr>) else None)"
proof (cases "bool_option_value (o_terminal_persistent opt)")
  case None
  then have "o_terminal_persistent opt \<notin> {1, 2}"
    by (auto simp: bool_option_value_def split: if_splits)
  with None show ?thesis
    by (auto simp: scoped_terminal_login_option_def no_field_iff)
next
  case (Some q)
  then have n: "o_terminal_persistent opt = bool_option_number q" by (simp add: bool_option_value_Some)
  show ?thesis
    by (cases q) (simp_all add: n scoped_terminal_login_option_def bool_option_value_def
        bool_option_number_def option_fields_defs)
qed

lemma terminal_no_violation:
  assumes "snd (scoped_terminal_login_option opt) = None"
  shows "opt = option_message_new\<lparr>o_terminal_persistent := o_terminal_persistent opt\<rparr>"
    and "o_terminal_persistent opt \<in> {0, 1, 2}"
proof -
  from assms have a: "\<not> option_has_non_terminal_login_field opt"
    and b: "bool_option_value (o_terminal_persistent opt) \<noteq> None"
    by (auto simp: scoped_terminal_login_option_def split: option.splits if_splits)
  from a show "opt = option_message_new\<lparr>o_terminal_persistent := o_terminal_persistent opt\<rparr>"
    by (cases opt) (simp add: option_fields_defs)
  from b show "o_terminal_persistent opt \<in> {0, 1, 2}"
    by (auto simp: bool_option_value_def split: if_splits)
qed

text \<open>The fields of a camera session that survive.\<close>

definition camera_part :: "option_message \<Rightarrow> option_message" where
  "camera_part opt = option_message_new\<lparr>
     o_image_quality := (if image_quality_value (o_image_quality opt) = None then 0 else o_image_quality opt),
     o_custom_image_quality := (if sint (o_custom_image_quality opt) < 0 then 0 else o_custom_image_quality opt),
     o_custom_fps := (if sint (o_custom_fps opt) < 0 then 0 else o_custom_fps opt),
     o_supported_decoding := o_supported_decoding opt,
     o_disable_audio := (if bool_option_value (o_disable_audio opt) = None then 0 else o_disable_audio opt)\<rparr>"

lemma camera_filter:
  "fst (scoped_view_camera_option opt) =
     (if camera_part opt = option_message_new then None else Some (camera_part opt))"
proof -
  obtain k where k: "k = camera_part opt" by simp
  have disable: "(case bool_option_value (o_disable_audio opt) of
      Some v \<Rightarrow> s\<lparr>o_disable_audio := bool_option_number v\<rparr> | None \<Rightarrow> s) =
    (if bool_option_value (o_disable_audio opt) = None then s else s\<lparr>o_disable_audio := o_disable_audio opt\<rparr>)" for s
    by (cases "bool_option_value (o_disable_audio opt)") (simp_all add: bool_option_value_Some)
  have "fst (scoped_view_camera_option opt) = (if option_has_any_field k then Some k else None)"
    by (simp add: scoped_view_camera_option_def disable Let_def k camera_part_def option_message_new_def)
  then show ?thesis using no_field_iff [of "camera_part opt"] by (simp add: k split: if_splits)
qed

lemma camera_part_idem: "camera_part (camera_part opt) = camera_part opt"
  by (simp add: camera_part_def option_message_new_def image_quality_value_def bool_option_value_def)

lemma camera_part_no_violation: "snd (scoped_view_camera_option (camera_part opt)) = None"
  by (simp add: scoped_view_camera_option_def Let_def option_has_non_view_camera_login_field_def
      camera_part_def option_message_new_def)


lemma terminal_option_kept:
  assumes "fst (scoped_terminal_login_option opt) = Some k"
  shows "o_terminal_persistent opt \<in> {1, 2} \<and> k = option_message_new\<lparr>o_terminal_persistent := o_terminal_persistent opt\<rparr>
    \<and> k \<noteq> option_message_new \<and> scoped_terminal_login_option k = (Some k, None)"
proof -
  have p: "o_terminal_persistent opt \<in> {1, 2}" and k: "k = option_message_new\<lparr>o_terminal_persistent := o_terminal_persistent opt\<rparr>"
    using assms unfolding terminal_filter by (auto split: if_splits)
  have pk: "o_terminal_persistent k = o_terminal_persistent opt" by (simp add: k)
  have "fst (scoped_terminal_login_option k) = Some k"
    unfolding terminal_filter pk using p by (simp add: k)
  moreover have "snd (scoped_terminal_login_option k) = None"
    using p by (auto simp: k scoped_terminal_login_option_def bool_option_value_def option_fields_defs)
  moreover have "k \<noteq> option_message_new" using p by (auto simp: k option_message_new_def)
  ultimately show ?thesis using p k by (simp add: prod_eq_iff)
qed

text \<open>Options of limited sessions.  Outside a remote-control session the options a peer sends are confined.  A file-transfer or
  port-forward session keeps none; a terminal session keeps only a valid choice of persistence; a
  camera session keeps only a known picture quality, non-negative rates, the decoder abilities and a
  valid audio switch.  What survives is what the peer asked for, filtering it again changes
  nothing, and nothing more is reported.\<close>

theorem limited_session_options:
  assumes "scoped_login_option t opt = (kept, violation)" and "t \<noteq> Remote"
  shows "case kept of
      None \<Rightarrow> True
    | Some k \<Rightarrow>
        (t = TerminalConn \<and> o_terminal_persistent opt \<in> {1, 2}
           \<and> k = option_message_new\<lparr>o_terminal_persistent := o_terminal_persistent opt\<rparr>
         \<or> t = ViewCameraConn
           \<and> k = option_message_new\<lparr>o_image_quality := o_image_quality k,
                   o_custom_image_quality := o_custom_image_quality k, o_custom_fps := o_custom_fps k,
                   o_supported_decoding := o_supported_decoding opt, o_disable_audio := o_disable_audio k\<rparr>
           \<and> o_image_quality k \<in> {0, o_image_quality opt} \<inter> {0, 2, 3, 4}
           \<and> o_custom_image_quality k \<in> {0, o_custom_image_quality opt} \<and> 0 \<le> sint (o_custom_image_quality k)
           \<and> o_custom_fps k \<in> {0, o_custom_fps opt} \<and> 0 \<le> sint (o_custom_fps k)
           \<and> o_disable_audio k \<in> {0, o_disable_audio opt} \<inter> {0, 1, 2})
        \<and> k \<noteq> option_message_new
        \<and> scoped_login_option t k = (Some k, None)"
proof (cases kept)
  case None
  then show ?thesis by simp
next
  case kept: (Some k)
  consider "t = TerminalConn" | "t = ViewCameraConn"
    using assms kept by (cases t) (auto simp: scoped_login_option_def)
  then show ?thesis
  proof cases
    case 1
    have f: "fst (scoped_terminal_login_option opt) = Some k"
      using assms(1) kept by (simp add: scoped_login_option_def 1)
    show ?thesis using terminal_option_kept [OF f] by (simp add: kept 1 scoped_login_option_def) metis
  next
    case 2
    have f: "fst (scoped_view_camera_option opt) = Some k"
      using assms(1) kept by (simp add: scoped_login_option_def 2)
    from f have k: "k = camera_part opt" and ne: "k \<noteq> option_message_new"
      unfolding camera_filter by (auto split: if_splits)
    have "scoped_login_option t k = (Some k, None)"
      using ne by (simp add: 2 scoped_login_option_def prod_eq_iff camera_filter camera_part_no_violation
          camera_part_idem k)
    moreover have "k = option_message_new\<lparr>o_image_quality := o_image_quality k,
        o_custom_image_quality := o_custom_image_quality k, o_custom_fps := o_custom_fps k,
        o_supported_decoding := o_supported_decoding opt, o_disable_audio := o_disable_audio k\<rparr>"
      by (simp add: k camera_part_def option_message_new_def)
    moreover have "o_image_quality k \<in> {0, o_image_quality opt} \<inter> {0, 2, 3, 4}"
      by (simp add: k camera_part_def image_quality_value_def)
    moreover have "o_custom_image_quality k \<in> {0, o_custom_image_quality opt} \<and> 0 \<le> sint (o_custom_image_quality k)
        \<and> o_custom_fps k \<in> {0, o_custom_fps opt} \<and> 0 \<le> sint (o_custom_fps k)"
      by (simp add: k camera_part_def)
    moreover have "o_disable_audio k \<in> {0, o_disable_audio opt} \<inter> {0, 1, 2}"
      by (simp add: k camera_part_def bool_option_value_def)
    ultimately show ?thesis using ne by (simp add: kept 2)
  qed
qed

definition greedy_options :: option_message where
  "greedy_options = option_message_new\<lparr>o_image_quality := 9, o_custom_fps := 30, o_privacy_mode := 2,
     o_terminal_persistent := 2\<rparr>"

lemma limited_session_options_witness:
  "scoped_login_option ViewCameraConn greedy_options =
     (Some (option_message_new\<lparr>o_custom_fps := 30\<rparr>), Some ''login.option'') \<and>
   scoped_login_option ViewCameraConn (option_message_new\<lparr>o_custom_fps := 30\<rparr>) =
     (Some (option_message_new\<lparr>o_custom_fps := 30\<rparr>), None)"
proof -
  have s: "scoped_login_option ViewCameraConn greedy_options =
     (Some (option_message_new\<lparr>o_custom_fps := 30\<rparr>), Some ''login.option'')"
    by code_simp
  show ?thesis using s limited_session_options [OF s] by simp
qed

lemma authed_scope_None:
  "authorized_scope_violation None msg = None \<longleftrightarrow> is_connection_housekeeping_message msg"
  by (simp add: authorized_scope_violation_def)

end
