(* ===== verification/Login_Guard.thy ===== *)
theory Login_Guard
  imports Password_Security Net_Addr Session_Scope
begin

text \<open>
  How the controlled side lets a connection in: the login part of \<open>src/server/connection.rs\<close>, with
  the failure counters, the password checks, the table of recent sessions, the second factor and the
  message handler of a connection that is not yet authorized.

  The configuration and the machine are in \<open>login_env\<close>: options and passwords, SHA-256, the clock,
  the parser and printer of IPv6 addresses of the standard library, lower-casing of Unicode text,
  the JSON parser, the regular expressions for addresses, and the answers of the operating system.
  What a handler does towards the outside is the list of \<open>effect\<close>s it returns.  The model is the
  Windows build without the \<open>headless\<close> feature, where a desktop session is always ready.
\<close>

section \<open>Data\<close>

datatype access_auth_method =
    RegisteredRemoteUser | PermanentPassword | TemporaryPassword | RecentSession | TwoFactor

datatype login_union =
    LrFileTransfer string bool
  | LrViewCamera
  | LrTerminal string
  | LrPortForward string i32
  | LrRemote

record login_request =
  my_id :: string
  my_name :: string
  my_platform :: string
  username :: string
  lr_password :: string
  lr_hwid :: string
  session_id :: u64
  lr_version :: string
  lr_option :: "option_message option"
  os_username :: string
  lr_union :: login_union

type_synonym session_key = "string \<times> string \<times> u64"

record session =
  last_recv_time :: nat
  random_password :: string
  tfa :: bool

type_synonym failure = "i32 \<times> i32 \<times> i32"

record trusted_device =
  td_hwid :: string
  td_time :: int
  td_id :: string
  td_name :: string
  td_platform :: string

text \<open>State shared by all connections.\<close>

record guard =
  failures0 :: "(string, failure) hmap"
  failures1 :: "(string, failure) hmap"
  live_sessions :: "(session_key, session) hmap"
  trusted_devices :: "trusted_device list"
  authed_conns :: "(i32 \<times> auth_conn_type \<times> session_key) list"
  switch_sides :: "(string, nat \<times> string) hmap"

text \<open>State of one connection.  \<open>require_2fa\<close> is the checker of the configured TOTP secret.\<close>

record conn =
  conn_id :: i32
  conn_ip :: string
  salt :: string
  challenge :: string
  lr :: login_request
  authorized :: bool
  require_2fa :: "(string \<Rightarrow> bool option) option"
  from_switch :: bool
  file_transfer :: "(string \<times> bool) option"
  port_forward_socket :: bool
  port_forward_address :: string
  view_camera :: bool
  terminal :: bool
  terminal_persistent :: bool
  terminal_service_id :: string
  options_in_login :: "option_message option"

record login_env =
  conf :: password_config
  secrets :: crypto
  sha256 :: "string \<Rightarrow> string"
  is_portable :: bool
  registered_remote_users :: string
  parse_users :: "string \<Rightarrow> (string option \<times> string option) list option"
  unicode_lower :: "string \<Rightarrow> string"
  parse_ipv6 :: "string \<Rightarrow> u128 option"
  ipv6_text :: "u128 \<Rightarrow> string"
  now_ms :: int
  now_ns :: nat
  is_installed :: bool
  own_id :: string
  addressed_by_ip :: "string \<Rightarrow> bool"
  can_connect :: "string \<Rightarrow> bool"
  privacy_ok :: bool
  user_token_error :: "string option"
  has_service_token :: "bool option"
  service_specified_user :: "string \<Rightarrow> bool option"

datatype login_effect =
    Login_Error string
  | Alarm string
  | Access_Audit string "access_auth_method option"
  | Start_Cm bool
  | Logged_On auth_conn_type

section \<open>Failure counters\<close>

definition mask_u128 :: "u128 \<Rightarrow> nat \<Rightarrow> u128" where
  "mask_u128 addr pfx = addr AND (if pfx = 0 \<or> pfx > 128 then 0 else push_bit (128 - pfx) (- 1))"

definition get_ipv6_prefixes :: "login_env \<Rightarrow> string \<Rightarrow> (string \<times> string \<times> string) option" where
  "get_ipv6_prefixes e addr =
     (case parse_ipv6 e (str_trim (takeWhile (\<lambda>c. c \<noteq> CHR ''%'') addr)) of
        None \<Rightarrow> None
      | Some a \<Rightarrow> Some (ipv6_text e (mask_u128 a 64) @ ''/64'', ipv6_text e (mask_u128 a 56) @ ''/56'',
                       ipv6_text e (mask_u128 a 48) @ ''/48''))"

definition bump :: "failure \<Rightarrow> i32 \<Rightarrow> failure" where
  "bump cur time = (case cur of (t, m, n) \<Rightarrow> if t = time then (t, m + 1, n + 1) else (time, 1, n + 1))"

definition fail_get :: "(string, failure) hmap \<Rightarrow> string \<Rightarrow> failure" where
  "fail_get m k = (case hm_get m k of Some f \<Rightarrow> f | None \<Rightarrow> (0, 0, 0))"

definition update_failure ::
  "login_env \<Rightarrow> string \<Rightarrow> failure \<times> i32 \<Rightarrow> bool \<Rightarrow> (string, failure) hmap \<Rightarrow> (string, failure) hmap" where
  "update_failure e ip ft remove m =
     (case ft of (failure, time) \<Rightarrow>
        if remove then
          (if fst failure \<noteq> 0 then
             (case get_ipv6_prefixes e ip of
                Some (p64, p56, p48) \<Rightarrow> hm_del ip (hm_del p48 (hm_del p56 (hm_del p64 m)))
              | None \<Rightarrow> hm_del ip m)
           else m)
        else
          (case get_ipv6_prefixes e ip of
             Some (p64, p56, p48) \<Rightarrow>
               hm_put ip (bump failure time)
                 (fold (\<lambda>key m. hm_put key (bump (fail_get m key) time) m) [p64, p56, p48] m)
           | None \<Rightarrow> hm_put ip (bump failure time) m))"

definition minute :: "login_env \<Rightarrow> i32" where
  "minute e = word_of_int (sgn (now_ms e) * (\<bar>now_ms e\<bar> div 60000))"

definition check_failure_ipv6_prefix ::
  "(string, failure) hmap \<Rightarrow> i32 \<Rightarrow> string \<Rightarrow> int \<Rightarrow> ((failure \<times> i32) \<times> bool \<times> login_effect list) option" where
  "check_failure_ipv6_prefix m time pfx thresh =
     (let f = fail_get m pfx in
      if sint (snd (snd f)) > thresh
      then Some ((f, time), False,
             [Login_Error ''Too many wrong attempts for IPv6 prefix'', Alarm ''ExceedIPv6PrefixAttempts''])
      else None)"

definition check_failure_ip ::
  "(string, failure) hmap \<Rightarrow> i32 \<Rightarrow> string \<Rightarrow> (failure \<times> i32) \<times> bool \<times> login_effect list" where
  "check_failure_ip m time ip =
     (let f = fail_get m ip in
      if sint (snd (snd f)) > 30
      then ((f, time), False, [Login_Error ''Too many wrong attempts'', Alarm ''ExceedThirtyAttempts''])
      else if time = fst f \<and> sint (fst (snd f)) > 6
      then ((f, time), False, [Login_Error ''Please try 1 minute later'', Alarm ''SixAttemptsWithinOneMinute''])
      else ((f, time), True, []))"

definition check_failure ::
  "login_env \<Rightarrow> string \<Rightarrow> (string, failure) hmap \<Rightarrow> (failure \<times> i32) \<times> bool \<times> login_effect list" where
  "check_failure e ip m =
     (let time = minute e in
      case get_ipv6_prefixes e ip of
        None \<Rightarrow> check_failure_ip m time ip
      | Some (p64, p56, p48) \<Rightarrow>
          (case check_failure_ipv6_prefix m time p64 60 of Some r \<Rightarrow> r
           | None \<Rightarrow> (case check_failure_ipv6_prefix m time p56 80 of Some r \<Rightarrow> r
           | None \<Rightarrow> (case check_failure_ipv6_prefix m time p48 100 of Some r \<Rightarrow> r
           | None \<Rightarrow> check_failure_ip m time ip))))"

section \<open>Passwords\<close>

definition validate_one_password :: "login_env \<Rightarrow> conn \<Rightarrow> string \<Rightarrow> bool" where
  "validate_one_password e c password \<longleftrightarrow>
     password \<noteq> [] \<and> sha256 e (sha256 e (password @ salt c) @ challenge c) = lr_password (lr c)"

definition LEGACY_KEY :: bytes where
  "LEGACY_KEY = to_bytes ''MDesk2024SecureKey!@#''"

definition legacy_xor :: "bytes \<Rightarrow> bytes" where
  "legacy_xor b = map (\<lambda>i. (b ! i) XOR (LEGACY_KEY ! (i mod length LEGACY_KEY))) [0..<length b]"

text \<open>Graphic ASCII or ASCII white space; such bytes are always valid UTF-8.\<close>

definition ascii_text :: "u8 \<Rightarrow> bool" where
  "ascii_text b \<longleftrightarrow> 33 \<le> b \<and> b \<le> 126 \<or> b = 32 \<or> b = 9 \<or> b = 10 \<or> b = 12 \<or> b = 13"

definition decrypt_connection_password :: "login_env \<Rightarrow> string \<Rightarrow> string" where
  "decrypt_connection_password e enc =
     (if enc = [] then []
      else
        let stage1 = (if 2 < length enc \<and> prefix ''00'' enc
                      then (case decrypt_str_or_original (secrets e) enc ''00'' of
                              (d, ok, _) \<Rightarrow> if ok then Some d else None)
                      else None)
        in case stage1 of
             Some d \<Rightarrow> d
           | None \<Rightarrow>
               (case b64_decode (secrets e) enc of
                  Some b \<Rightarrow> let d = legacy_xor b in if list_all ascii_text d then of_bytes d else enc
                | None \<Rightarrow> enc))"

definition user_password_ok :: "login_env \<Rightarrow> conn \<Rightarrow> string \<Rightarrow> bool" where
  "user_password_ok e c enc \<longleftrightarrow>
     (let d = decrypt_connection_password e enc in
      enc \<noteq> [] \<and> (validate_one_password e c d \<or> d \<noteq> enc \<and> validate_one_password e c enc))"

definition normal_id :: "login_env \<Rightarrow> string \<Rightarrow> string" where
  "normal_id e s = unicode_lower e (str_trim s)"

definition or_empty :: "string option \<Rightarrow> string" where
  "or_empty x = (case x of Some s \<Rightarrow> s | None \<Rightarrow> [])"

text \<open>The registered users whose id is the requester's name, tried in order.\<close>

definition validate_registered_remote_user :: "login_env \<Rightarrow> conn \<Rightarrow> bool" where
  "validate_registered_remote_user e c \<longleftrightarrow>
     (let json = registered_remote_users e in
      json \<noteq> [] \<and>
      (case parse_users e json of
         None \<Rightarrow> False
       | Some users \<Rightarrow>
           list_ex (\<lambda>(i, p). normal_id e (or_empty i) = normal_id e (my_name (lr c)) \<and>
             user_password_ok e c (or_empty p)) users))"

definition session_key :: "conn \<Rightarrow> session_key" where
  "session_key c = (my_id (lr c), my_name (lr c), session_id (lr c))"

definition update_or_insert_session ::
  "nat \<Rightarrow> session_key \<Rightarrow> string option \<Rightarrow> bool option \<Rightarrow> (session_key, session) hmap \<Rightarrow> (session_key, session) hmap"
where
  "update_or_insert_session now key password two m =
     (case hm_get m key of
        Some s \<Rightarrow>
          let s = (case password of Some p \<Rightarrow> s\<lparr>random_password := p\<rparr> | None \<Rightarrow> s);
              s = (case two of Some t \<Rightarrow> s\<lparr>tfa := t\<rparr> | None \<Rightarrow> s)
          in hm_put key s m
      | None \<Rightarrow> hm_put key \<lparr>last_recv_time = now, random_password = (case password of Some p \<Rightarrow> p | None \<Rightarrow> []),
                   tfa = (case two of Some t \<Rightarrow> t | None \<Rightarrow> False)\<rparr> m)"

definition set_session_2fa :: "nat \<Rightarrow> session_key \<Rightarrow> (session_key, session) hmap \<Rightarrow> (session_key, session) hmap" where
  "set_session_2fa now key m =
     (case hm_get m key of
        Some s \<Rightarrow> hm_put key (s\<lparr>tfa := True\<rparr>) m
      | None \<Rightarrow> hm_put key \<lparr>last_recv_time = now, random_password = [], tfa = True\<rparr> m)"

definition SESSION_TIMEOUT :: nat where "SESSION_TIMEOUT = 30 * 1000000000"

definition is_recent_session :: "login_env \<Rightarrow> bool \<Rightarrow> conn \<Rightarrow> guard \<Rightarrow> bool \<times> guard" where
  "is_recent_session e two c g =
     (let live = hm_retain (\<lambda>_ s. now_ns e - last_recv_time s < SESSION_TIMEOUT) (live_sessions g)
      in ((case hm_get live (session_key c) of
             Some s \<Rightarrow> lr_password (lr c) \<noteq> [] \<and>
               (two \<and> tfa s \<or> \<not> two \<and> validate_one_password e c (random_password s))
           | None \<Rightarrow> False),
          g\<lparr>live_sessions := live\<rparr>))"

definition accept_temporary :: "login_env \<Rightarrow> conn \<Rightarrow> guard \<Rightarrow> access_auth_method option \<times> guard" where
  "accept_temporary e c g =
     (let p = temporary_password (conf e) in
      if validate_one_password e c p
      then (Some TemporaryPassword,
            g\<lparr>live_sessions := update_or_insert_session (now_ns e) (session_key c) (Some p) (Some False) (live_sessions g)\<rparr>)
      else (None, g))"

definition validate_password :: "login_env \<Rightarrow> conn \<Rightarrow> guard \<Rightarrow> access_auth_method option \<times> guard" where
  "validate_password e c g =
     (let permanent = permanent_password (conf e) in
      if validate_registered_remote_user e c then (Some RegisteredRemoteUser, g)
      else if is_portable e then
        (if permanent_enabled (conf e) \<and> permanent \<noteq> [] \<and> validate_one_password e c permanent
         then (Some PermanentPassword, g)
         else if temporary_enabled (conf e) then accept_temporary e c g
         else (None, g))
      else if temporary_enabled (conf e) then accept_temporary e c g
      else if permanent_enabled (conf e) \<and> validate_one_password e c permanent
      then (Some PermanentPassword, g)
      else (None, g))"

definition permission :: "password_config \<Rightarrow> string \<Rightarrow> bool" where
  "permission k opt =
     (let mode = cfg k ''access-mode'' in
      if mode = ''full'' then True
      else if mode = ''view'' then False
      else option2bool opt (cfg k opt))"

definition enable_trusted_devices :: "password_config \<Rightarrow> bool" where
  "enable_trusted_devices k = option2bool ''enable-trusted-devices'' (cfg k ''enable-trusted-devices'')"

section \<open>The login messages\<close>

definition reset_session_scope_for_login :: "conn \<Rightarrow> conn" where
  "reset_session_scope_for_login c = c\<lparr>file_transfer := None, port_forward_socket := False,
     port_forward_address := [], view_camera := False, terminal := False, terminal_persistent := False,
     terminal_service_id := [], options_in_login := None\<rparr>"

definition DAYS_90 :: int where "DAYS_90 = 90 * 24 * 60 * 60 * 1000"

definition trusted :: "login_env \<Rightarrow> guard \<Rightarrow> login_request \<Rightarrow> bool" where
  "trusted e g r \<longleftrightarrow>
     (case find (\<lambda>d. td_hwid d = lr_hwid r) (trusted_devices g) of
        Some d \<Rightarrow> \<not> td_time d + DAYS_90 < now_ms e \<and> td_id d = my_id r \<and> td_name d = my_name r \<and>
          td_platform d = my_platform r
      | None \<Rightarrow> False)"

definition handle_login_request_without_validation ::
  "login_env \<Rightarrow> guard \<Rightarrow> login_request \<Rightarrow> conn \<Rightarrow> conn" where
  "handle_login_request_without_validation e g r c0 =
     (let c = c0\<lparr>lr := r\<rparr>;
          c = (if lr_option r \<noteq> None then c\<lparr>options_in_login := lr_option r\<rparr> else c)
      in if require_2fa c \<noteq> None \<and> lr_hwid r \<noteq> [] \<and> enable_trusted_devices (conf e) \<and> trusted e g r
         then c\<lparr>require_2fa := None\<rparr> else c)"

text \<open>The kind of session a login asks for.  \<open>Inl\<close>: the connection is closed with this error (what the
  handler had already written into its scope no longer matters then).\<close>

definition login_scope :: "login_env \<Rightarrow> login_request \<Rightarrow> conn \<Rightarrow> string option + conn" where
  "login_scope e r c =
     (case lr_union r of
        LrFileTransfer dir hidden \<Rightarrow>
          if \<not> permission (conf e) ''enable-file-transfer'' then Inl (Some ''No permission of file transfer'')
          else Inr (c\<lparr>file_transfer := Some (dir, hidden)\<rparr>)
      | LrViewCamera \<Rightarrow>
          if \<not> permission (conf e) ''enable-camera'' then Inl (Some ''No permission of viewing camera'')
          else Inr (c\<lparr>view_camera := True\<rparr>)
      | LrTerminal sid \<Rightarrow>
          if \<not> permission (conf e) ''enable-terminal'' then Inl (Some ''No permission of terminal'')
          else if os_username r \<noteq> [] \<and> \<not> is_installed e
          then Inl (Some ''Supported only in the installed version.'')
          else
            let c = c\<lparr>terminal := True,
                 terminal_persistent := (case options_in_login c of
                     Some opt \<Rightarrow> bool_option_value (o_terminal_persistent opt) = Some BoolOption_Yes
                   | None \<Rightarrow> terminal_persistent c),
                 terminal_service_id := sid\<rparr>
            in (case user_token_error e of
                  Some m \<Rightarrow> Inl (Some m)
                | None \<Rightarrow>
                    (case service_specified_user e sid of
                       Some is_user \<Rightarrow>
                         if (case has_service_token e of Some t \<Rightarrow> is_user \<noteq> t | None \<Rightarrow> False) then Inl (Some ''Terminal service user mismatch detected.'')
                         else Inr c
                     | None \<Rightarrow> Inr c))
      | LrPortForward h p \<Rightarrow>
          if \<not> permission (conf e) ''enable-tunnel'' then Inl (Some ''No permission of IP tunneling'')
          else
            let is_rdp = (h = ''RDP'' \<and> p = 0);
                p = (if is_rdp then 3389 else p);
                h = (if is_rdp \<or> h = [] then ''localhost'' else h);
                addr = h @ '':'' @ int_text (sint p)
            in if can_connect e addr then Inr (c\<lparr>port_forward_address := addr, port_forward_socket := True\<rparr>)
               else Inl (Some (''Failed to access remote '' @ (if is_rdp then ''RDP'' else addr) @
                      '', please make sure if it is open''))
      | LrRemote \<Rightarrow> if privacy_ok e then Inr c else Inl None)"

definition conn_type_of :: "conn \<Rightarrow> auth_conn_type" where
  "conn_type_of c =
     (if file_transfer c \<noteq> None then FileTransferConn
      else if port_forward_socket c then PortForwardConn
      else if view_camera c then ViewCameraConn
      else if terminal c then TerminalConn
      else Remote)"

definition REQUIRE_2FA :: string where "REQUIRE_2FA = ''2FA Required''"

definition send_logon_response :: "login_env \<Rightarrow> conn \<Rightarrow> guard \<Rightarrow> conn \<times> guard \<times> login_effect list" where
  "send_logon_response e c g =
     (if authorized c then (c, g, [])
      else
        (case (if require_2fa c \<noteq> None then is_recent_session e True c g else (True, g)) of
           (recent, g') \<Rightarrow>
             if require_2fa c \<noteq> None \<and> \<not> recent \<and> \<not> from_switch c
             then (c, g', [Access_Audit ''PENDING'' None, Login_Error REQUIRE_2FA])
             else (c\<lparr>authorized := True\<rparr>,
                   g'\<lparr>authed_conns := authed_conns g' @ [(conn_id c, conn_type_of c, session_key c)]\<rparr>,
                   [Logged_On (conn_type_of c)])))"

text \<open>Once the scope is set: the target must be this device, then approval, recent session or password
  decide.  The first component is whether the connection stays open.\<close>

definition login_verify :: "login_env \<Rightarrow> conn \<Rightarrow> guard \<Rightarrow> bool \<times> conn \<times> guard \<times> login_effect list" where
  "login_verify e c g =
     (let r = lr c in
      if \<not> addressed_by_ip e (username r) \<and> username r \<noteq> own_id e
      then (False, c, g, [Access_Audit ''FAIL'' None, Login_Error ''Offline''])
      else if requires_manual_approval (approve_mode (conf e)) (has_valid_password (conf e))
      then (True, c, g, [Access_Audit ''PENDING'' None, Start_Cm False] @
             (if get_version_number ''1.2.0'' \<le>s get_version_number (lr_version r)
              then [Login_Error ''No Password Access''] else []))
      else case is_recent_session e False c g of (recent, g) \<Rightarrow>
        if recent then
          (case send_logon_response e c g of (c, g, out) \<Rightarrow>
             (True, c, g, [Access_Audit ''SUCCESS'' (Some RecentSession)] @ out @ [Start_Cm (authorized c)]))
        else if lr_password r = [] then (True, c, g, [Access_Audit ''PENDING'' None, Start_Cm False])
        else case check_failure e (conn_ip c) (failures0 g) of (ft, ok, warn) \<Rightarrow>
          if \<not> ok then (True, c, g, warn @ [Access_Audit ''FAIL'' None])
          else (case validate_password e c g of
             (Some m, g) \<Rightarrow>
               (case send_logon_response e c
                   (g\<lparr>failures0 := update_failure e (conn_ip c) ft True (failures0 g)\<rparr>) of (c, g, out) \<Rightarrow>
                  (True, c, g, [Access_Audit ''SUCCESS'' (Some m)] @ out @ [Start_Cm (authorized c)]))
           | (None, g) \<Rightarrow>
               (True, c, g\<lparr>failures0 := update_failure e (conn_ip c) ft False (failures0 g)\<rparr>,
                [Access_Audit ''FAIL'' None, Login_Error ''Wrong Password'', Start_Cm False])))"

definition on_login_request ::
  "login_env \<Rightarrow> login_request \<Rightarrow> conn \<Rightarrow> guard \<Rightarrow> bool \<times> conn \<times> guard \<times> login_effect list" where
  "on_login_request e r c g =
     (if authorized c then (True, c, g, [])
      else
        let c = handle_login_request_without_validation e g r (reset_session_scope_for_login c)
        in (case login_scope e r c of
              Inl m \<Rightarrow> (False, c, g, (case m of Some m \<Rightarrow> [Login_Error m] | None \<Rightarrow> []))
            | Inr c \<Rightarrow> login_verify e c g))"

definition on_auth_2fa ::
  "login_env \<Rightarrow> string \<Rightarrow> string \<Rightarrow> conn \<Rightarrow> guard \<Rightarrow> bool \<times> conn \<times> guard \<times> login_effect list" where
  "on_auth_2fa e code hwid c g =
     (case check_failure e (conn_ip c) (failures1 g) of (ft, ok, warn) \<Rightarrow>
        if \<not> ok then (True, c, g, warn @ [Access_Audit ''FAIL'' None])
        else (case require_2fa c of
           None \<Rightarrow> (True, c, g, [])
         | Some totp \<Rightarrow>
             (case totp code of
                None \<Rightarrow> (True, c, g, [Access_Audit ''FAIL'' (Some TwoFactor)])
              | Some False \<Rightarrow>
                  (True, c, g\<lparr>failures1 := update_failure e (conn_ip c) ft False (failures1 g)\<rparr>,
                   [Access_Audit ''FAIL'' (Some TwoFactor), Login_Error ''Wrong 2FA Code''])
              | Some True \<Rightarrow>
                  (let g1 = g\<lparr>failures1 := update_failure e (conn_ip c) ft True (failures1 g),
                        live_sessions := set_session_2fa (now_ns e) (session_key c) (live_sessions g)\<rparr>
                   in case send_logon_response e (c\<lparr>require_2fa := None\<rparr>) g1 of (c, g, out) \<Rightarrow>
                     (True, c,
                      (if hwid \<noteq> [] \<and> enable_trusted_devices (conf e)
                       then g\<lparr>trusted_devices := filter (\<lambda>d. td_hwid d \<noteq> hwid) (trusted_devices g) @
                         [\<lparr>td_hwid = hwid, td_time = now_ms e, td_id = my_id (lr c), td_name = my_name (lr c),
                           td_platform = my_platform (lr c)\<rparr>]\<rparr>
                       else g),
                      [Access_Audit ''SUCCESS'' (Some TwoFactor)] @ out @ [Start_Cm (authorized c)])))))"

text \<open>A switch of sides: the uuid this side had offered to the peer lets it in.\<close>

definition on_switch_sides ::
  "login_env \<Rightarrow> login_request option \<Rightarrow> string \<Rightarrow> conn \<Rightarrow> guard \<Rightarrow> bool \<times> conn \<times> guard \<times> login_effect list" where
  "on_switch_sides e req uuid c g =
     (if authorized c then (True, c, g, [])
      else case req of
        None \<Rightarrow> (True, c, g, [])
      | Some r \<Rightarrow>
          let c = handle_login_request_without_validation e g r c;
              live = hm_retain (\<lambda>_ (t, _). now_ns e - t < 10 * 1000000000) (switch_sides g);
              old = hm_get live (my_id r);
              g = g\<lparr>switch_sides := hm_del (my_id r) live\<rparr>
          in (case old of
                Some (_, u) \<Rightarrow>
                  if u = uuid then
                    (case send_logon_response e (c\<lparr>from_switch := True\<rparr>) g of (c, g, out) \<Rightarrow>
                       (True, c, g, out @ [Start_Cm (authorized c)]))
                  else (True, c, g, [])
              | None \<Rightarrow> (True, c, g, [])))"

text \<open>The person at the controlled side accepts in the connection manager.\<close>

definition on_cm_authorize :: "login_env \<Rightarrow> conn \<Rightarrow> guard \<Rightarrow> bool \<times> conn \<times> guard \<times> login_effect list" where
  "on_cm_authorize e c g =
     (case send_logon_response e (c\<lparr>require_2fa := None\<rparr>) g of (c, g, out) \<Rightarrow> (True, c, g, out))"

section \<open>The counters stop guessing\<close>

text \<open>An attempt from an address: whether the password is looked at, and what becomes of the counters.\<close>

definition attempt ::
  "login_env \<Rightarrow> string \<Rightarrow> bool \<Rightarrow> (string, failure) hmap \<Rightarrow> bool option \<times> (string, failure) hmap" where
  "attempt e addr right m =
     (case check_failure e addr m of (ft, ok, _) \<Rightarrow>
        if ok then (Some right, update_failure e addr ft right m) else (None, m))"

text \<open>Attempts at various times, from various addresses; the result counts the wrong passwords that
  were looked at, of the attempts that \<open>P\<close> selects.\<close>

fun wrong_guesses ::
  "login_env \<Rightarrow> (string \<Rightarrow> bool) \<Rightarrow> (int \<times> string \<times> bool) list \<Rightarrow> (string, failure) hmap \<Rightarrow> nat" where
  "wrong_guesses e P [] m = 0"
| "wrong_guesses e P ((now, addr, right) # as) m =
     (case attempt (e\<lparr>now_ms := now\<rparr>) addr right m of
        (r, m') \<Rightarrow> (if P addr \<and> r = Some False then 1 else 0) + wrong_guesses e P as m')"

definition keys_of :: "login_env \<Rightarrow> string \<Rightarrow> string list" where
  "keys_of e addr = (case get_ipv6_prefixes e addr of Some (a, b, c) \<Rightarrow> [a, b, c, addr] | None \<Rightarrow> [addr])"

definition limit_of :: "login_env \<Rightarrow> string \<Rightarrow> string \<Rightarrow> int option" where
  "limit_of e addr k =
     (if k = addr then Some 30
      else case get_ipv6_prefixes e addr of
        Some (a, b, c) \<Rightarrow> if k = a then Some 60 else if k = b then Some 80 else if k = c then Some 100 else None
      | None \<Rightarrow> None)"

definition count :: "(string, failure) hmap \<Rightarrow> string \<Rightarrow> int" where
  "count m k = sint (snd (snd (fail_get m k)))"

lemma fail_get_put: "fail_get (hm_put k f m) j = (if j = k then f else fail_get m j)"
  by (simp add: fail_get_def hm.get_put)

lemma fail_get_del: "j \<noteq> k \<Longrightarrow> fail_get (hm_del k m) j = fail_get m j"
  by (simp add: fail_get_def hm.get_del)

lemma sint_Suc: "0 \<le> sint n \<Longrightarrow> sint n < 1000 \<Longrightarrow> sint (n + 1) = sint n + 1" for n :: i32
  by (simp add: sint_word_add signed_take_bit_int_eq_self)

lemma bump_count: "0 \<le> sint (snd (snd f)) \<Longrightarrow> sint (snd (snd f)) < 1000 \<Longrightarrow>
    sint (snd (snd (bump f t))) = sint (snd (snd f)) + 1"
  by (cases f) (simp add: bump_def sint_Suc)

lemma prefixes_time: "get_ipv6_prefixes (e\<lparr>now_ms := t\<rparr>) addr = get_ipv6_prefixes e addr"
  by (simp add: get_ipv6_prefixes_def split: option.splits)

lemma check_ip_pass:
  "check_failure_ip m t addr = (ft, True, w) \<Longrightarrow> ft = (fail_get m addr, t) \<and> count m addr \<le> 30"
  by (auto simp: check_failure_ip_def Let_def count_def split: if_splits)

lemma check_pass:
  assumes "check_failure e addr m = (ft, True, w)"
  shows "ft = (fail_get m addr, minute e)" and "limit_of e addr k = Some l \<Longrightarrow> count m k \<le> l"
  using assms check_ip_pass [of m "minute e" addr ft w]
  by (auto simp: check_failure_def check_failure_ipv6_prefix_def limit_of_def Let_def count_def
      split: option.splits prod.splits if_splits)

text \<open>Distinct keys: the address itself is never a prefix key, and the three prefixes differ.\<close>

lemma prefix_keys:
  assumes "get_ipv6_prefixes e addr = Some (a, b, c)"
  shows "distinct [a, b, c]" and "CHR ''/'' \<in> set a \<inter> set b \<inter> set c"
proof -
  from assms obtain x y z where "a = x @ ''/64''" "b = y @ ''/56''" "c = z @ ''/48''"
    by (auto simp: get_ipv6_prefixes_def split: option.splits)
  then have "last a = CHR ''4''" "last b = CHR ''6''" "last c = CHR ''8''" "CHR ''/'' \<in> set a \<inter> set b \<inter> set c"
    by simp_all
  then show "distinct [a, b, c]" "CHR ''/'' \<in> set a \<inter> set b \<inter> set c" by auto
qed

lemma wrong_update:
  assumes "CHR ''/'' \<notin> set addr" and "ft = (fail_get m addr, t)"
  shows "fail_get (update_failure e addr ft False m) k =
    (if k \<in> set (keys_of e addr) then bump (fail_get m k) t else fail_get m k)"
proof (cases "get_ipv6_prefixes e addr")
  case (Some p)
  obtain a b c where p: "p = (a, b, c)" by (cases p)
  with prefix_keys [of e addr a b c] Some assms(1)
  have "distinct [a, b, c]" "addr \<noteq> a" "addr \<noteq> b" "addr \<noteq> c" by auto
  with Some p assms(2) show ?thesis
    by (auto simp: update_failure_def keys_of_def fail_get_put)
qed (simp add: update_failure_def keys_of_def fail_get_put assms(2))

lemma right_update:
  "k \<notin> set (keys_of e addr) \<Longrightarrow> fail_get (update_failure e addr ft True m) k = fail_get m k"
  by (cases ft) (auto simp: update_failure_def keys_of_def fail_get_del split: option.splits if_splits)

lemma guesses_bounded:
  assumes plain: "\<forall>(now, addr, right) \<in> set as. CHR ''/'' \<notin> set addr"
    and P: "\<And>addr. P addr \<Longrightarrow> limit_of e addr k = Some l"
    and touch: "\<forall>(now, addr, right) \<in> set as. k \<in> set (keys_of e addr) \<longrightarrow> P addr \<and> \<not> right"
    and l: "0 \<le> l" "l < 1000"
  shows "0 \<le> count m k \<Longrightarrow> count m k \<le> l + 1 \<Longrightarrow> int (wrong_guesses e P as m) \<le> l + 1 - count m k"
  using plain touch
proof (induction as arbitrary: m)
  case Nil
  then show ?case by simp
next
  case (Cons t as)
  obtain now addr right where t: "t = (now, addr, right)" by (cases t)
  let ?e = "e\<lparr>now_ms := now\<rparr>"
  have time: "keys_of ?e addr = keys_of e addr" "limit_of ?e addr k = limit_of e addr k"
    by (simp_all add: keys_of_def limit_of_def prefixes_time)
  obtain ft ok w where check: "check_failure ?e addr m = (ft, ok, w)"
    by (cases "check_failure ?e addr m")
  have IH: "0 \<le> count m' k \<Longrightarrow> count m' k \<le> l + 1 \<Longrightarrow> int (wrong_guesses e P as m') \<le> l + 1 - count m' k" for m'
    using Cons.IH Cons.prems by simp
  show ?case
  proof (cases "ok \<and> k \<in> set (keys_of e addr)")
    case True
    with Cons.prems t have "P addr" "\<not> right" "CHR ''/'' \<notin> set addr" by auto
    from check True have pass: "check_failure ?e addr m = (ft, True, w)" by simp
    have "count m k \<le> l" using check_pass(2) [OF pass, of k l] P [OF \<open>P addr\<close>] time by simp
    have "fail_get (update_failure ?e addr ft False m) k = bump (fail_get m k) (minute ?e)"
      using wrong_update [OF \<open>CHR ''/'' \<notin> set addr\<close> check_pass(1) [OF pass], where e = ?e] True time by simp
    with \<open>count m k \<le> l\<close> Cons.prems(1) l have "count (update_failure ?e addr ft False m) k = count m k + 1"
      by (simp add: count_def bump_count)
    with IH [of "update_failure ?e addr ft False m"] \<open>count m k \<le> l\<close> Cons.prems(1) \<open>P addr\<close> \<open>\<not> right\<close>
    show ?thesis by (simp add: t attempt_def pass)
  next
    case False
    have "\<not> (P addr \<and> ok)"
    proof
      assume "P addr \<and> ok"
      with P have "limit_of e addr k = Some l" by simp
      then have "k \<in> set (keys_of e addr)"
        by (auto simp: limit_of_def keys_of_def split: if_splits option.splits)
      with False \<open>P addr \<and> ok\<close> show False by simp
    qed
    then have skip: "(P addr \<and> fst (attempt ?e addr right m) = Some False) = False"
      by (auto simp: attempt_def check)
    have "fail_get (snd (attempt ?e addr right m)) k = fail_get m k"
    proof (cases ok)
      case True
      then have k: "k \<notin> set (keys_of ?e addr)" using False time by simp
      have "CHR ''/'' \<notin> set addr" using Cons.prems(3) t by simp
      from wrong_update [OF this check_pass(1)] check True right_update [OF k] k
      show ?thesis by (cases right) (simp_all add: attempt_def)
    qed (simp add: attempt_def check)
    then have "count (snd (attempt ?e addr right m)) k = count m k" by (simp add: count_def)
    with IH [of "snd (attempt ?e addr right m)"] Cons.prems(1,2) skip
    show ?thesis by (auto simp add: t case_prod_unfold)
  qed
qed

lemma count_empty: "count [] k = 0"
  by (simp add: count_def fail_get_def hm.get_empty)

lemma prefix_ends:
  assumes "get_ipv6_prefixes e addr = Some (a, b, c)"
  shows "last a = CHR ''4''" "last b = CHR ''6''" "last c = CHR ''8''"
  using assms by (auto simp: get_ipv6_prefixes_def split: option.splits)


text \<open>Guessing from one network.  Fewer than 62 wrong passwords from all the addresses of one IPv6 /64
  network together are looked at before a right one from it: new addresses buy no more guesses.\<close>

theorem guesses_per_network:
  assumes "\<forall>(now, a, right) \<in> set as. CHR ''/'' \<notin> set a"
    and "get_ipv6_prefixes e addr = Some (net, p56, p48)"
    and "\<forall>(now, a, right) \<in> set as. map_option fst (get_ipv6_prefixes e a) = Some net \<longrightarrow> \<not> right"
  shows "wrong_guesses e (\<lambda>a. CHR ''/'' \<notin> set a \<and> map_option fst (get_ipv6_prefixes e a) = Some net) as [] \<le> 61"
proof -
  have net: "CHR ''/'' \<in> set net" "last net = CHR ''4''"
    using prefix_keys(2) [OF assms(2)] prefix_ends [OF assms(2)] by auto
  have limit: "limit_of e a net = Some 60"
    if "CHR ''/'' \<notin> set a \<and> map_option fst (get_ipv6_prefixes e a) = Some net" for a
    using that net by (auto simp: limit_of_def split: option.splits prod.splits)
  have key: "map_option fst (get_ipv6_prefixes e a) = Some net"
    if "net \<in> set (keys_of e a)" "CHR ''/'' \<notin> set a" for a
    using that net prefix_ends [of e a] by (auto simp: keys_of_def split: option.splits prod.splits)
  have "int (wrong_guesses e (\<lambda>a. CHR ''/'' \<notin> set a \<and> map_option fst (get_ipv6_prefixes e a) = Some net) as [])
      \<le> 60 + 1 - count [] net"
  proof (rule guesses_bounded [OF assms(1) limit])
    show "\<forall>(now, a, right) \<in> set as. net \<in> set (keys_of e a) \<longrightarrow>
        (CHR ''/'' \<notin> set a \<and> map_option fst (get_ipv6_prefixes e a) = Some net) \<and> \<not> right"
    proof clarify
      fix now a right assume a: "(now, a, right) \<in> set as" "net \<in> set (keys_of e a)"
      from a(1) assms(1) have slash: "CHR ''/'' \<notin> set a" by auto
      with key [OF a(2)] a(1) assms(3)
      show "(CHR ''/'' \<notin> set a \<and> map_option fst (get_ipv6_prefixes e a) = Some net) \<and> \<not> right" by fastforce
    qed
  qed (simp_all add: count_empty)
  then show ?thesis by (simp add: count_empty)
qed

definition toy_env :: login_env where
  "toy_env = \<lparr>conf = \<lparr>cfg = (\<lambda>k. if k = ''approve-mode'' then ''password'' else []), temporary_password = ''123456'',
       permanent_password = []\<rparr>,
     secrets = toy_crypto, sha256 = (\<lambda>s. s), is_portable = False, registered_remote_users = [],
     parse_users = (\<lambda>_. None), unicode_lower = (\<lambda>s. s),
     parse_ipv6 = (\<lambda>_. Some 5), ipv6_text = (\<lambda>a. ''::''), now_ms = 120000, now_ns = 5,
     is_installed = True, own_id = ''me'', addressed_by_ip = (\<lambda>_. False), can_connect = (\<lambda>_. False),
     privacy_ok = True, user_token_error = None, has_service_token = None, service_specified_user = (\<lambda>_. None)\<rparr>"


lemma toy_prefixes: "get_ipv6_prefixes toy_env ''::5'' = Some (''::/64'', ''::/56'', ''::/48'')"
  by (simp add: get_ipv6_prefixes_def toy_env_def)

lemma guesses_per_network_witness:
  "wrong_guesses toy_env (\<lambda>a. CHR ''/'' \<notin> set a \<and> map_option fst (get_ipv6_prefixes toy_env a) = Some ''::/64'')
    (replicate 90 (0, ''::5'', False)) [] \<le> 61"
  by (rule guesses_per_network [OF _ toy_prefixes]) auto

section \<open>Who gets in\<close>

text \<open>The passwords that can let a peer in.\<close>

definition user_passwords :: "login_env \<Rightarrow> login_request \<Rightarrow> string set" where
  "user_passwords e r = (case parse_users e (registered_remote_users e) of
     None \<Rightarrow> {}
   | Some users \<Rightarrow> {d. \<exists>(i, p) \<in> set users. normal_id e (or_empty i) = normal_id e (my_name r) \<and>
       (d = or_empty p \<or> d = decrypt_connection_password e (or_empty p))})"

definition session_passwords :: "guard \<Rightarrow> login_request \<Rightarrow> string set" where
  "session_passwords g r =
     {random_password s | s. ((my_id r, my_name r, session_id r), s) \<in> set (live_sessions g)}"

definition knows_password :: "login_env \<Rightarrow> conn \<Rightarrow> guard \<Rightarrow> bool" where
  "knows_password e c g \<longleftrightarrow>
     (\<exists>p \<in> {permanent_password (conf e), temporary_password (conf e)} \<union> user_passwords e (lr c) \<union>
        session_passwords g (lr c). validate_one_password e c p)"

lemma registered_knows: "validate_registered_remote_user e c \<Longrightarrow> knows_password e c g"
  by (fastforce simp: validate_registered_remote_user_def Let_def knows_password_def user_passwords_def
      user_password_ok_def list_ex_iff split: option.splits)

lemma validate_knows:
  "validate_password e c g = (Some m, g') \<Longrightarrow> knows_password e c h"
  using registered_knows [of e c h]
  by (auto simp: validate_password_def accept_temporary_def Let_def knows_password_def split: if_splits)

lemma recent_knows:
  assumes "is_recent_session e False c g = (True, g')"
  shows "knows_password e c g \<and> lr_password (lr c) \<noteq> []"
proof -
  from assms obtain s where s: "hm_get (hm_retain (\<lambda>_ s. now_ns e - last_recv_time s < SESSION_TIMEOUT) (live_sessions g)) (session_key c) = Some s"
    "validate_one_password e c (random_password s)" "lr_password (lr c) \<noteq> []"
    by (auto simp: is_recent_session_def Let_def split: option.splits)
  from s(1) have "(session_key c, s) \<in> set (live_sessions g)"
    by (auto simp: hm_get_def hm_retain_def dest!: map_of_SomeD)
  then have "random_password s \<in> session_passwords g (lr c)"
    by (auto simp: session_passwords_def session_key_def)
  with s(2,3) show ?thesis by (auto simp: knows_password_def)
qed

lemma login_scope_lr: "login_scope e r c = Inr c' \<Longrightarrow> lr c' = lr c \<and> salt c' = salt c \<and>
    challenge c' = challenge c \<and> authorized c' = authorized c \<and> require_2fa c' = require_2fa c \<and>
    from_switch c' = from_switch c \<and> conn_ip c' = conn_ip c"
  by (auto simp: login_scope_def Let_def split: login_union.splits if_splits option.splits)

lemma without_validation_fields:
  "lr (handle_login_request_without_validation e g r c) = r"
  "salt (handle_login_request_without_validation e g r c) = salt c"
  "challenge (handle_login_request_without_validation e g r c) = challenge c"
  "authorized (handle_login_request_without_validation e g r c) = authorized c"
  "from_switch (handle_login_request_without_validation e g r c) = from_switch c"
  "require_2fa (handle_login_request_without_validation e g r c) = require_2fa c \<or>
     require_2fa (handle_login_request_without_validation e g r c) = None \<and>
     enable_trusted_devices (conf e) \<and> trusted e g r"
  by (simp_all add: handle_login_request_without_validation_def Let_def)

lemma recent_2fa:
  assumes "is_recent_session e True c g = (True, g')"
  shows "\<exists>s \<in> snd ` set (live_sessions g'). tfa s"
proof -
  from assms obtain s where s: "hm_get (live_sessions g') (session_key c) = Some s" "tfa s"
    by (auto simp: is_recent_session_def Let_def split: option.splits)
  from s(1) have "(session_key c, s) \<in> set (live_sessions g')"
    by (simp add: hm_get_def map_of_SomeD)
  with s(2) show ?thesis by force
qed

lemma send_logon_authorized:
  assumes "send_logon_response e c g = (c', g', out)" and "authorized c'" and "\<not> authorized c"
  shows "require_2fa c = None \<or> from_switch c \<or> (\<exists>s \<in> snd ` set (live_sessions g'). tfa s)"
  using assms recent_2fa [of e c g]
  by (auto simp: send_logon_response_def split: if_splits prod.splits)

lemma knows_password_cong:
  "lr c' = lr c \<Longrightarrow> salt c' = salt c \<Longrightarrow> challenge c' = challenge c \<Longrightarrow> knows_password e c' g = knows_password e c g"
  by (simp add: knows_password_def validate_one_password_def)

lemma login_verify_authorized:
  assumes run: "login_verify e c g = (k, c', g', out)" and "\<not> authorized c" and "authorized c'"
  shows "(addressed_by_ip e (username (lr c)) \<or> username (lr c) = own_id e) \<and>
    \<not> requires_manual_approval (approve_mode (conf e)) (has_valid_password (conf e)) \<and>
    lr_password (lr c) \<noteq> [] \<and> knows_password e c g \<and>
    (require_2fa c = None \<or> from_switch c \<or> (\<exists>s \<in> snd ` set (live_sessions g'). tfa s))"
proof -
  obtain recent g1 where rec: "is_recent_session e False c g = (recent, g1)"
    by (cases "is_recent_session e False c g")
  from run assms(2,3) have
    guard: "addressed_by_ip e (username (lr c)) \<or> username (lr c) = own_id e"
      "\<not> requires_manual_approval (approve_mode (conf e)) (has_valid_password (conf e))"
    by (auto simp: login_verify_def Let_def split: if_splits)
  show ?thesis
  proof (cases recent)
    case True
    with run guard rec obtain out' where "send_logon_response e c g1 = (c', g', out')"
      by (auto simp: login_verify_def Let_def split: prod.splits)
    with send_logon_authorized [OF this assms(3,2)] guard recent_knows [of e c g g1] rec True
    show ?thesis by simp
  next
    case False
    with run guard rec assms(2,3) obtain m g2 ft g3 out' where
      "lr_password (lr c) \<noteq> []" "validate_password e c g1 = (Some m, g2)" "send_logon_response e c g3 = (c', g', out')"
      by (auto simp: login_verify_def Let_def split: if_splits prod.splits option.splits)
    with send_logon_authorized [OF this(3) assms(3,2)] guard validate_knows [of e c g1 m g2 g]
    show ?thesis by simp
  qed
qed


definition toy_request :: login_request where
  "toy_request = \<lparr>my_id = ''peer'', my_name = ''n'', my_platform = ''Windows'', username = ''me'',
     lr_password = ''123456sc'', lr_hwid = [], session_id = 1, lr_version = ''1.2.0'', lr_option = None,
     os_username = [], lr_union = LrRemote\<rparr>"

definition toy_conn :: conn where
  "toy_conn = \<lparr>conn_id = 1, conn_ip = ''1.2.3.4'', salt = ''s'', challenge = ''c'',
     lr = toy_request\<lparr>lr_password := []\<rparr>, authorized = False, require_2fa = None, from_switch = False,
     file_transfer = None, port_forward_socket = False, port_forward_address = [], view_camera = False,
     terminal = False, terminal_persistent = False, terminal_service_id = [], options_in_login = None\<rparr>"

definition toy_guard :: guard where
  "toy_guard = \<lparr>failures0 = [], failures1 = [], live_sessions = [], trusted_devices = [], authed_conns = [],
     switch_sides = []\<rparr>"

lemma toy_login:
  "authorized (fst (snd (on_login_request toy_env toy_request toy_conn toy_guard)))"
proof -
  have k: "temporary_enabled (conf toy_env)" "approve_mode (conf toy_env) = Password" "privacy_ok toy_env"
      "own_id toy_env = ''me''" "\<not> is_portable toy_env" "temporary_password (conf toy_env) = ''123456''"
      "sha256 toy_env s = s" "\<not> validate_registered_remote_user toy_env c" for s c
    by (simp_all add: toy_env_def temporary_enabled_def verification_method_def approve_mode_def
        validate_registered_remote_user_def)
  have ok: "check_failure toy_env addr [] = (((0, 0, 0), minute toy_env), True, [])" for addr
    by (simp add: check_failure_def check_failure_ip_def check_failure_ipv6_prefix_def fail_get_def hm_get_def
        minute_def toy_env_def get_ipv6_prefixes_def)
  show ?thesis
    by (simp add: on_login_request_def handle_login_request_without_validation_def login_scope_def login_verify_def
        reset_session_scope_for_login_def toy_conn_def toy_request_def toy_guard_def requires_manual_approval_def
        is_recent_session_def hm_retain_def hm_get_def ok k validate_password_def accept_temporary_def
        validate_one_password_def send_logon_response_def Let_def)
qed


text \<open>C33 The second factor alone.  A peer that has sent no login request and no password is authorized by
  a current code of the second factor: the code does not come on top of a password.\<close>

theorem second_factor_alone_authorizes:
  assumes "\<not> authorized c" and "require_2fa c = Some totp" and "totp code = Some True"
    and "fst (snd (check_failure e (conn_ip c) (failures1 g)))"
  shows "authorized (fst (snd (on_auth_2fa e code hwid c g)))"
  using assms
  by (auto simp: on_auth_2fa_def send_logon_response_def Let_def split: prod.splits)

lemma second_factor_alone_authorizes_witness:
  "authorized (fst (snd (on_auth_2fa toy_env ''000000'' [] (toy_conn\<lparr>require_2fa := Some (\<lambda>_. Some True)\<rparr>) toy_guard)))"
proof (rule second_factor_alone_authorizes)
  show "fst (snd (check_failure toy_env (conn_ip (toy_conn\<lparr>require_2fa := Some (\<lambda>_. Some True)\<rparr>)) (failures1 toy_guard)))"
    by (simp add: check_failure_def check_failure_ip_def check_failure_ipv6_prefix_def fail_get_def hm_get_def
        toy_guard_def Let_def minute_def toy_env_def get_ipv6_prefixes_def)
qed (simp_all add: toy_conn_def)

end
