(* ===== verification/Transfer_Paths.thy ===== *)
theory Transfer_Paths
  imports Session_Scope
begin

text \<open>
  The names of transferred files (\<open>libs/hbb_common/src/fs.rs\<close>): what a peer may call a file it sends,
  where a file dropped on the remote desktop may land, and the manifest of a direct push into the
  Downloads folder.  The model is the Windows build, where the backslash separates too.

  Strings are the bytes of their UTF-8 encoding.  A path below a known folder is the list of the
  components pushed onto it.  \<open>lower\<close> stands for \<open>str::to_lowercase\<close>.
\<close>

definition REMOTE_DROP_DOWNLOADS_PREFIX :: string where
  "REMOTE_DROP_DOWNLOADS_PREFIX = ''mdesk-drop-downloads:''"

definition DEVICE_REMOTE_PREFIX :: string where
  "DEVICE_REMOTE_PREFIX = ''mdesk-device-remote:''"

definition DEVICE_REMOTE_TARGET :: string where
  "DEVICE_REMOTE_TARGET = ''mdesk-device-remote:DeviceRemote.exe''"

definition DIRECT_TRANSFER_MAX_ENTRIES :: nat where "DIRECT_TRANSFER_MAX_ENTRIES = 100000"
definition DIRECT_TRANSFER_MAX_METADATA_BYTES :: nat where "DIRECT_TRANSFER_MAX_METADATA_BYTES = 8 * 1024 * 1024"
definition DIRECT_TRANSFER_MAX_PATH_BYTES :: nat where "DIRECT_TRANSFER_MAX_PATH_BYTES = 4 * 1024"
definition DIRECT_TRANSFER_MAX_DEPTH :: nat where "DIRECT_TRANSFER_MAX_DEPTH = 64"
definition DIRECT_TRANSFER_MAX_TOTAL_BYTES :: u64 where
  "DIRECT_TRANSFER_MAX_TOTAL_BYTES = 20 * 1024 * 1024 * 1024"

definition separator :: "char \<Rightarrow> bool" where
  "separator c \<longleftrightarrow> c = CHR ''/'' \<or> c = CHR 0x5C"

section \<open>Characters of a UTF-8 string\<close>

text \<open>\<open>String::from_utf8\<close>: well-formed sequences, without surrogates and overlong forms.\<close>

definition utf8_tail :: "nat \<Rightarrow> bool" where
  "utf8_tail b \<longleftrightarrow> 0x80 \<le> b \<and> b < 0xC0"

definition utf8_second :: "nat \<Rightarrow> nat \<Rightarrow> bool" where
  "utf8_second a b \<longleftrightarrow>
     (if a = 0xE0 then 0xA0 else if a = 0xF0 then 0x90 else 0x80) \<le> b
     \<and> b < (if a = 0xED then 0xA0 else if a = 0xF4 then 0x90 else 0xC0)"

text \<open>How many bytes follow the leading byte \<open>a\<close>.\<close>

definition utf8_more :: "nat \<Rightarrow> nat option" where
  "utf8_more a =
     (if a < 0x80 then Some 0
      else if 0xC2 \<le> a \<and> a < 0xE0 then Some 1
      else if 0xE0 \<le> a \<and> a < 0xF0 then Some 2
      else if 0xF0 \<le> a \<and> a < 0xF5 then Some 3
      else None)"

fun valid_utf8 :: "nat list \<Rightarrow> bool" where
  "valid_utf8 [] = True"
| "valid_utf8 (a # bs) =
     (case utf8_more a of
        None \<Rightarrow> False
      | Some n \<Rightarrow>
          n \<le> length bs \<and> (n = 0 \<or> utf8_second a (hd bs)) \<and> list_all utf8_tail (take n bs)
          \<and> valid_utf8 (drop n bs))"

text \<open>\<open>chars().any(char::is_control)\<close>: U+0000 to U+001F, U+007F to U+009F.\<close>

fun has_control :: "string \<Rightarrow> bool" where
  "has_control [] = False"
| "has_control (c # cs) \<longleftrightarrow>
     char_code c < 0x20 \<or> char_code c = 0x7F
     \<or> (char_code c = 0xC2 \<and> (case cs of d # _ \<Rightarrow> 0x80 \<le> char_code d \<and> char_code d < 0xA0 | [] \<Rightarrow> False))
     \<or> has_control cs"

text \<open>\<open>encode_utf16().count()\<close>: two units for a character of four bytes, none for a continuation byte.\<close>

definition utf16_count :: "string \<Rightarrow> nat" where
  "utf16_count s =
     sum_list (map (\<lambda>c. let n = char_code c
                        in if 0x80 \<le> n \<and> n < 0xC0 then 0 else if 0xF0 \<le> n then 2 else 1) s)"

section \<open>File names of an ordinary transfer\<close>

datatype name_error = Null_Byte | Traversal | Absolute | Empty_Name

definition is_ascii_alphabetic :: "char \<Rightarrow> bool" where
  "is_ascii_alphabetic c \<longleftrightarrow>
     65 \<le> char_code c \<and> char_code c \<le> 90 \<or> 97 \<le> char_code c \<and> char_code c \<le> 122"

definition validate_file_name_no_traversal :: "string \<Rightarrow> name_error + unit" where
  "validate_file_name_no_traversal name =
     (if (\<exists>b \<in> set name. char_code b = 0) then Inl Null_Byte
      else if (\<exists>s \<in> set (filter (\<lambda>s. s \<noteq> []) (str_split separator name)). s = ''..'') then Inl Traversal
      else if 2 \<le> length name \<and> is_ascii_alphabetic (name ! 0) \<and> name ! 1 = CHR '':'' then Inl Absolute
      else if prefix ''/'' name \<or> prefix [CHR 0x5C] name then Inl Absolute
      else Inr ())"

fun validate_names :: "file_entry list \<Rightarrow> name_error + unit" where
  "validate_names [] = Inr ()"
| "validate_names (f # fs) =
     (if fe_name f = [] then Inl Empty_Name
      else case validate_file_name_no_traversal (fe_name f) of
             Inl err \<Rightarrow> Inl err
           | Inr _ \<Rightarrow> validate_names fs)"

definition validate_transfer_file_names :: "file_entry list \<Rightarrow> name_error + unit" where
  "validate_transfer_file_names files =
     (if length files = 1 \<and> (case files of f # _ \<Rightarrow> fe_name f = [] | [] \<Rightarrow> False) then Inr ()
      else validate_names files)"

definition validate_fs_path_argument :: "string \<Rightarrow> name_error + unit" where
  "validate_fs_path_argument path =
     (if path = [] then Inl Empty_Name
      else if (\<exists>b \<in> set path. char_code b = 0) then Inl Null_Byte
      else Inr ())"

section \<open>Files dropped on the remote desktop\<close>

definition is_remote_drop_downloads_path :: "string \<Rightarrow> bool" where
  "is_remote_drop_downloads_path path \<longleftrightarrow>
     prefix REMOTE_DROP_DOWNLOADS_PREFIX path \<or> prefix DEVICE_REMOTE_PREFIX path"

definition hex_value :: "char \<Rightarrow> nat option" where
  "hex_value c =
     (let n = char_code c in
      if 48 \<le> n \<and> n \<le> 57 then Some (n - 48)
      else if 97 \<le> n \<and> n \<le> 102 then Some (n - 97 + 10)
      else if 65 \<le> n \<and> n \<le> 70 then Some (n - 65 + 10)
      else None)"

fun percent_decode :: "string \<Rightarrow> string option" where
  "percent_decode [] = Some []"
| "percent_decode (c # cs) =
     (if c = CHR ''%'' then
        (case cs of
           h # l # rest \<Rightarrow>
             (case (hex_value h, hex_value l) of
                (Some hi, Some lo) \<Rightarrow> map_option (\<lambda>s. char_of (hi * 16 + lo) # s) (percent_decode rest)
              | _ \<Rightarrow> None)
         | _ \<Rightarrow> None)
      else map_option (\<lambda>s. c # s) (percent_decode cs))"

definition decode_remote_drop_component :: "string \<Rightarrow> string option" where
  "decode_remote_drop_component component =
     (if component = [] then None
      else case percent_decode component of
             Some s \<Rightarrow> if valid_utf8 (map char_code s) then Some s else None
           | None \<Rightarrow> None)"

definition validate_remote_drop_component :: "string \<Rightarrow> bool" where
  "validate_remote_drop_component component \<longleftrightarrow>
     \<not> (component = [] \<or> component = ''.'' \<or> component = ''..'')
     \<and> \<not> (\<exists>c \<in> set component. separator c \<or> char_code c = 0)
     \<and> \<not> (has_control component \<or> (\<exists>c \<in> set component. c \<in> set ''<>:\"|?*''))"

fun drop_components :: "string list \<Rightarrow> string list option" where
  "drop_components [] = Some []"
| "drop_components (encoded # rest) =
     (case decode_remote_drop_component encoded of
        Some decoded \<Rightarrow>
          if validate_remote_drop_component decoded then map_option (\<lambda>t. decoded # t) (drop_components rest)
          else None
      | None \<Rightarrow> None)"

text \<open>The components of the target below the Downloads folder; \<open>Inl ()\<close> is an error, \<open>Inr None\<close> a path of
  another kind.  \<open>strict_ok\<close>: \<open>get_download_dir_strict\<close> finds the folder.\<close>

definition resolve_remote_drop_downloads_path :: "bool \<Rightarrow> string \<Rightarrow> unit + string list option" where
  "resolve_remote_drop_downloads_path strict_ok path =
     (if prefix DEVICE_REMOTE_PREFIX path then
        (if path \<noteq> DEVICE_REMOTE_TARGET then Inl ()
         else if strict_ok then Inr (Some [''DeviceRemote.exe'']) else Inl ())
      else case strip_prefix REMOTE_DROP_DOWNLOADS_PREFIX path of
             None \<Rightarrow> Inr None
           | Some relative \<Rightarrow>
               if relative = [] then Inl ()
               else case drop_components (str_split (\<lambda>c. c = CHR ''/'') relative) of
                      Some target \<Rightarrow> Inr (Some target)
                    | None \<Rightarrow> Inl ())"


section \<open>The manifest of a direct transfer\<close>

definition ascii_upper :: "string \<Rightarrow> string" where
  "ascii_upper s = map (\<lambda>c. if 97 \<le> char_code c \<and> char_code c \<le> 122 then char_of (char_code c - 32) else c) s"

definition reserved_device :: "string \<Rightarrow> bool" where
  "reserved_device component \<longleftrightarrow>
     (let upper = ascii_upper (hd (str_split (\<lambda>c. c = CHR ''.'') component))
      in upper \<in> set [''CON'', ''PRN'', ''AUX'', ''NUL'']
         \<or> length upper = 4 \<and> (prefix ''COM'' upper \<or> prefix ''LPT'' upper)
           \<and> 49 \<le> char_code (upper ! 3) \<and> char_code (upper ! 3) \<le> 57)"

definition validate_direct_path_component :: "string \<Rightarrow> bool" where
  "validate_direct_path_component component \<longleftrightarrow>
     \<not> (component = [] \<or> component = ''.'' \<or> component = ''..'')
     \<and> utf16_count component \<le> 255
     \<and> \<not> ((\<exists>c \<in> set component. separator c \<or> char_code c = 0 \<or> c \<in> set ''<>:\"|?*'') \<or> has_control component)
     \<and> \<not> (suffix '' '' component \<or> suffix ''.'' component)
     \<and> \<not> reserved_device component"

definition direct_relative_components :: "string \<Rightarrow> string list option" where
  "direct_relative_components path =
     (if path = [] \<or> prefix ''/'' path \<or> prefix [CHR 0x5C] path then None
      else let components = str_split separator path
           in if list_all validate_direct_path_component components then Some components else None)"

definition normalized_direct_relative_path :: "string \<Rightarrow> string option" where
  "normalized_direct_relative_path path = map_option (join ''/'') (direct_relative_components path)"

datatype layout_error =
    Bad_Component | Too_Many_Entries | Invalid_Layout | Not_Regular | Duplicate | Size_Overflow
  | Manifest_Too_Large | Path_Limits | Conflicting_Hierarchy | Size_Mismatch | Over_Size_Limit

fun metadata_budget :: "nat \<Rightarrow> nat \<Rightarrow> string list \<Rightarrow> layout_error option" where
  "metadata_budget count bytes [] = None"
| "metadata_budget count bytes (path # paths) =
     (let count = count + 1; bytes = bytes + length path in
      if DIRECT_TRANSFER_MAX_ENTRIES < count \<or> DIRECT_TRANSFER_MAX_METADATA_BYTES < bytes
      then Some Manifest_Too_Large
      else if DIRECT_TRANSFER_MAX_PATH_BYTES < length path
           \<or> DIRECT_TRANSFER_MAX_DEPTH < length (str_split (\<lambda>c. c = CHR ''/'') path)
      then Some Path_Limits
      else metadata_budget count bytes paths)"

fun layout_files ::
  "(string \<Rightarrow> string) \<Rightarrow> bool \<Rightarrow> file_entry list \<Rightarrow> string set \<Rightarrow> string list \<Rightarrow> u64
   \<Rightarrow> layout_error + string set \<times> string list \<times> u64"
where
  "layout_files lower is_directory [] paths file_paths acc_size = Inr (paths, file_paths, acc_size)"
| "layout_files lower is_directory (f # fs) paths file_paths acc_size =
     (if fe_type f \<noteq> 4 then Inl Not_Regular
      else case (if is_directory then normalized_direct_relative_path (fe_name f) else Some []) of
        None \<Rightarrow> Inl Bad_Component
      | Some normalized \<Rightarrow>
          if lower normalized \<in> paths then Inl Duplicate
          else if 2 ^ 64 \<le> unat acc_size + unat (fe_size f) then Inl Size_Overflow
          else layout_files lower is_directory fs (insert (lower normalized) paths)
                 (file_paths @ [normalized]) (acc_size + fe_size f))"

fun layout_dirs ::
  "(string \<Rightarrow> string) \<Rightarrow> string list \<Rightarrow> string set \<Rightarrow> string list \<Rightarrow> layout_error + string list"
where
  "layout_dirs lower [] paths dirs = Inr dirs"
| "layout_dirs lower (d # ds) paths dirs =
     (case normalized_direct_relative_path d of
        None \<Rightarrow> Inl Bad_Component
      | Some normalized \<Rightarrow>
          if lower normalized \<in> paths then Inl Duplicate
          else layout_dirs lower ds (insert (lower normalized) paths) (dirs @ [normalized]))"

text \<open>The proper ancestors of a path, shortest first.\<close>

fun ancestors :: "string \<Rightarrow> string list \<Rightarrow> string list" where
  "ancestors acc (c # d # cs) =
     (let a = (if acc \<noteq> [] then acc @ ''/'' else acc) @ c in a # ancestors a (d # cs))"
| "ancestors acc cs = []"

definition conflicting_hierarchy :: "string list \<Rightarrow> bool" where
  "conflicting_hierarchy keys \<longleftrightarrow>
     (\<exists>path \<in> set keys. \<exists>a \<in> set (ancestors [] (str_split (\<lambda>c. c = CHR ''/'') path)). a \<in> set keys)"

definition validate_direct_transfer_layout ::
  "(string \<Rightarrow> string) \<Rightarrow> string \<Rightarrow> bool \<Rightarrow> file_entry list \<Rightarrow> string list \<Rightarrow> u64 \<Rightarrow> layout_error + unit"
where
  "validate_direct_transfer_layout lower root_name is_directory files empty_dirs declared_total_size =
     (if \<not> validate_direct_path_component root_name then Inl Bad_Component
      else if 255 < utf16_count root_name then Inl Bad_Component
      else if DIRECT_TRANSFER_MAX_ENTRIES < length files + length empty_dirs then Inl Too_Many_Entries
      else if \<not> is_directory \<and> (length files \<noteq> 1 \<or> fe_name (hd files) \<noteq> [] \<or> empty_dirs \<noteq> [])
      then Inl Invalid_Layout
      else case layout_files lower is_directory files {} [] 0 of
        Inl err \<Rightarrow> Inl err
      | Inr (paths, file_paths, total_size) \<Rightarrow>
          (case (if is_directory then layout_dirs lower empty_dirs paths [] else Inr []) of
             Inl err \<Rightarrow> Inl err
           | Inr directory_paths \<Rightarrow>
               (case metadata_budget 0 0 (file_paths @ directory_paths) of
                  Some err \<Rightarrow> Inl err
                | None \<Rightarrow>
                    if conflicting_hierarchy (map lower (file_paths @ directory_paths)) then Inl Conflicting_Hierarchy
                    else if total_size \<noteq> declared_total_size then Inl Size_Mismatch
                    else if DIRECT_TRANSFER_MAX_TOTAL_BYTES < total_size then Inl Over_Size_Limit
                    else Inr ())))"


section \<open>Splitting and joining\<close>

lemma join_Cons: "ls \<noteq> [] \<Longrightarrow> join sep (l # ls) = l @ sep @ join sep ls"
  by (cases ls) (simp_all add: join_def)

lemma join_single [simp]: "join sep [l] = l"
  by (simp add: join_def)

lemma join_str_split: "join [d] (str_split (\<lambda>c. c = d) s) = s"
proof (induction s)
  case (Cons c s)
  obtain l ls where s: "str_split (\<lambda>c. c = d) s = l # ls"
    by (cases "str_split (\<lambda>c. c = d) s") auto
  show ?case
  proof (cases "c = d")
    case True
    then show ?thesis using Cons by (simp add: join_Cons)
  next
    case False
    then show ?thesis using Cons s by (simp add: join_def)
  qed
qed (simp add: join_def)

lemma str_split_append:
  "P d \<Longrightarrow> str_split P (s @ d # t) = str_split P s @ str_split P t"
proof (induction s)
  case (Cons c s)
  obtain l ls where "str_split P s = l # ls" by (cases "str_split P s") auto
  then show ?case using Cons by simp
qed simp

lemma str_split_join:
  assumes "P d" "ls \<noteq> []" "\<forall>l \<in> set ls. \<forall>c \<in> set l. \<not> P c"
  shows "str_split P (join [d] ls) = ls"
  using assms(2,3)
proof (induction ls rule: list_nonempty_induct)
  case (single l)
  then show ?case by (simp add: str_split_none)
next
  case (cons l ls)
  then show ?case using assms(1) by (simp add: join_Cons str_split_at)
qed

lemma ancestors_complete:
  "acc \<noteq> [] \<Longrightarrow> cs \<noteq> [] \<Longrightarrow> ds \<noteq> [] \<Longrightarrow> acc @ ''/'' @ join ''/'' cs \<in> set (ancestors acc (cs @ ds))"
proof (induction cs arbitrary: acc)
  case (Cons c cs)
  obtain e es where e: "cs @ ds = e # es" using Cons.prems by (cases "cs @ ds") auto
  show ?case
  proof (cases "cs = []")
    case True
    then show ?thesis using e Cons.prems by (simp add: Let_def)
  next
    case False
    have "(acc @ ''/'' @ c) @ ''/'' @ join ''/'' cs \<in> set (ancestors (acc @ ''/'' @ c) (cs @ ds))"
      by (rule Cons.IH) (use False Cons.prems in simp_all)
    then show ?thesis using e Cons.prems False by (simp add: Let_def join_Cons)
  qed
qed simp

lemma ancestors_prefix:
  assumes "p \<noteq> []" and "\<not> prefix ''/'' p" and "q = p @ ''/'' @ r"
  shows "p \<in> set (ancestors [] (str_split (\<lambda>c. c = CHR ''/'') q))"
proof -
  let ?s = "str_split (\<lambda>c. c = CHR ''/'')"
  obtain c cs where p: "?s p = c # cs" by (cases "?s p") auto
  have pj: "join ''/'' (c # cs) = p" using join_str_split [of "CHR ''/''" p] p by simp
  have "c \<noteq> []"
  proof
    assume "c = []"
    with pj show False using assms(1,2) by (cases cs) (auto simp: join_def)
  qed
  have q: "?s q = c # (cs @ ?s r)" using p by (simp add: assms(3) str_split_append)
  obtain e es where e: "cs @ ?s r = e # es" by (cases "cs @ ?s r") auto
  show ?thesis
  proof (cases "cs = []")
    case True
    then show ?thesis using q e pj by (simp add: Let_def)
  next
    case False
    then have "c @ ''/'' @ join ''/'' cs \<in> set (ancestors c (cs @ ?s r))"
      using \<open>c \<noteq> []\<close> by (intro ancestors_complete) simp_all
    then show ?thesis using q e pj False by (simp add: Let_def join_Cons)
  qed
qed

section \<open>What an accepted manifest is\<close>

lemma layout_files_Inr:
  assumes "layout_files lower d fs paths fps n = Inr (paths', fps', n')"
  shows "\<exists>ns. fps' = fps @ ns
    \<and> list_all2 (\<lambda>f x. fe_type f = 4 \<and> (if d then normalized_direct_relative_path (fe_name f) = Some x else x = [])) fs ns
    \<and> distinct (map lower ns) \<and> set (map lower ns) \<inter> paths = {} \<and> paths' = paths \<union> set (map lower ns)
    \<and> unat n' = unat n + (\<Sum>f\<leftarrow>fs. unat (fe_size f))"
  using assms
proof (induction fs arbitrary: paths fps n)
  case (Cons f fs)
  obtain x where x: "(if d then normalized_direct_relative_path (fe_name f) else Some []) = Some x"
      "fe_type f = 4" "lower x \<notin> paths" "unat n + unat (fe_size f) < 2 ^ 64"
      "layout_files lower d fs (insert (lower x) paths) (fps @ [x]) (n + fe_size f) = Inr (paths', fps', n')"
    using Cons.prems by (auto split: option.splits if_splits simp: not_le)
  from Cons.IH [OF x(5)] obtain ns where ns: "fps' = (fps @ [x]) @ ns"
      "list_all2 (\<lambda>f x. fe_type f = 4 \<and> (if d then normalized_direct_relative_path (fe_name f) = Some x else x = [])) fs ns"
      "distinct (map lower ns)" "set (map lower ns) \<inter> insert (lower x) paths = {}"
      "paths' = insert (lower x) paths \<union> set (map lower ns)"
      "unat n' = unat (n + fe_size f) + (\<Sum>f\<leftarrow>fs. unat (fe_size f))" by blast
  have "unat (n + fe_size f) = unat n + unat (fe_size f)"
    using x(4) by (intro unat_add_lem [THEN iffD1]) simp
  then show ?case
    using ns x(1,2,3) by (intro exI [of _ "x # ns"]) (auto split: if_splits)
qed auto

lemma layout_dirs_Inr:
  assumes "layout_dirs lower ds paths out = Inr out'"
  shows "\<exists>ns. out' = out @ ns \<and> list_all2 (\<lambda>d x. normalized_direct_relative_path d = Some x) ds ns
    \<and> distinct (map lower ns) \<and> set (map lower ns) \<inter> paths = {}"
  using assms
proof (induction ds arbitrary: paths out)
  case (Cons d ds)
  obtain x where x: "normalized_direct_relative_path d = Some x" "lower x \<notin> paths"
      "layout_dirs lower ds (insert (lower x) paths) (out @ [x]) = Inr out'"
    using Cons.prems by (auto split: option.splits if_splits)
  from Cons.IH [OF x(3)] obtain ns where "out' = (out @ [x]) @ ns"
      "list_all2 (\<lambda>d x. normalized_direct_relative_path d = Some x) ds ns"
      "distinct (map lower ns)" "set (map lower ns) \<inter> insert (lower x) paths = {}" by blast
  then show ?case using x by (intro exI [of _ "x # ns"]) auto
qed auto

lemma metadata_budget_None:
  assumes "metadata_budget count bytes paths = None"
  shows "(\<forall>p \<in> set paths. length p \<le> DIRECT_TRANSFER_MAX_PATH_BYTES
        \<and> length (str_split (\<lambda>c. c = CHR ''/'') p) \<le> DIRECT_TRANSFER_MAX_DEPTH)
    \<and> (paths = [] \<or> count + length paths \<le> DIRECT_TRANSFER_MAX_ENTRIES
        \<and> bytes + (\<Sum>p\<leftarrow>paths. length p) \<le> DIRECT_TRANSFER_MAX_METADATA_BYTES)"
  using assms
proof (induction paths arbitrary: count bytes)
  case (Cons p paths)
  have b: "metadata_budget (count + 1) (bytes + length p) paths = None"
      "length p \<le> DIRECT_TRANSFER_MAX_PATH_BYTES"
      "length (str_split (\<lambda>c. c = CHR ''/'') p) \<le> DIRECT_TRANSFER_MAX_DEPTH"
      "count + 1 \<le> DIRECT_TRANSFER_MAX_ENTRIES" "bytes + length p \<le> DIRECT_TRANSFER_MAX_METADATA_BYTES"
    using Cons.prems by (auto simp: Let_def split: if_splits)
  then show ?case using Cons.IH [OF b(1)] by auto
qed simp


text \<open>A component that names an entry of its folder and nothing else: not the folder or its parent, no
  separator, no drive or stream.\<close>

definition plain_component :: "string \<Rightarrow> bool" where
  "plain_component c \<longleftrightarrow> c \<notin> {[], ''.'', ''..''} \<and> (\<forall>x \<in> set c. \<not> separator x \<and> char_code x \<noteq> 0 \<and> x \<noteq> CHR '':'')"

lemma direct_component_plain: "validate_direct_path_component c \<Longrightarrow> plain_component c"
  by (auto simp: validate_direct_path_component_def plain_component_def)

lemma drop_component_plain: "validate_remote_drop_component c \<Longrightarrow> plain_component c"
  by (auto simp: validate_remote_drop_component_def plain_component_def)

lemma normalized_Some:
  assumes "normalized_direct_relative_path p = Some x"
  shows "x = join ''/'' (str_split separator p)" and "\<forall>c \<in> set (str_split separator p). plain_component c"
    and "x \<noteq> []" and "\<not> prefix ''/'' x" and "str_split (\<lambda>c. c = CHR ''/'') x = str_split separator p"
proof -
  from assms have x: "x = join ''/'' (str_split separator p)"
    and ok: "list_all validate_direct_path_component (str_split separator p)"
    by (auto simp: normalized_direct_relative_path_def direct_relative_components_def Let_def split: if_splits)
  show "x = join ''/'' (str_split separator p)" by (rule x)
  from ok show plain: "\<forall>c \<in> set (str_split separator p). plain_component c"
    by (auto simp: list_all_iff direct_component_plain)
  obtain c cs where c: "str_split separator p = c # cs" by (cases "str_split separator p") auto
  have cp: "plain_component c" using plain c by simp
  then obtain a b where ab: "c = a # b" "a \<noteq> CHR ''/''"
    by (cases c) (auto simp: plain_component_def separator_def)
  have "x = c @ (case cs of [] \<Rightarrow> [] | _ \<Rightarrow> ''/'' @ join ''/'' cs)"
    by (cases cs) (simp_all add: x c join_Cons)
  then show "x \<noteq> []" "\<not> prefix ''/'' x" using ab by auto
  show "str_split (\<lambda>c. c = CHR ''/'') x = str_split separator p"
    unfolding x using plain by (intro str_split_join) (auto simp: plain_component_def separator_def)
qed

text \<open>What the proofs use of \<open>str::to_lowercase\<close>: it maps no text that begins otherwise to one that
  begins with a slash, or to nothing.\<close>

definition lower_ok :: "(string \<Rightarrow> string) \<Rightarrow> bool" where
  "lower_ok lower \<longleftrightarrow> (\<forall>s. s \<noteq> [] \<longrightarrow> \<not> prefix ''/'' s \<longrightarrow> lower s \<noteq> [] \<and> \<not> prefix ''/'' (lower s))"

lemma no_conflict:
  assumes "\<not> conflicting_hierarchy keys" "p \<in> set keys" "q \<in> set keys" "p \<noteq> []" "\<not> prefix ''/'' p"
  shows "\<not> prefix (p @ ''/'') q"
proof
  assume "prefix (p @ ''/'') q"
  then obtain r where "q = p @ ''/'' @ r" by (auto elim: prefixE)
  then have "p \<in> set (ancestors [] (str_split (\<lambda>c. c = CHR ''/'') q))"
    by (rule ancestors_prefix [OF assms(4,5)])
  then show False using assms(1-3) by (auto simp: conflicting_hierarchy_def)
qed

definition norm_path :: "string \<Rightarrow> string" where
  "norm_path p = join ''/'' (str_split separator p)"

lemma layout_directory_Inr:
  assumes "validate_direct_transfer_layout lower root True files dirs n = Inr ()"
  defines "ns \<equiv> map norm_path (map fe_name files @ dirs)"
  shows "\<forall>p \<in> set (map fe_name files @ dirs). normalized_direct_relative_path p = Some (norm_path p)"
    and "\<forall>f \<in> set files. fe_type f = 4" and "distinct (map lower ns)" and "metadata_budget 0 0 ns = None"
    and "\<not> conflicting_hierarchy (map lower ns)" and "(\<Sum>f\<leftarrow>files. unat (fe_size f)) = unat n"
    and "n \<le> DIRECT_TRANSFER_MAX_TOTAL_BYTES" and "length files + length dirs \<le> DIRECT_TRANSFER_MAX_ENTRIES"
    and "validate_direct_path_component root"
proof -
  obtain paths fps n' dps where r: "layout_files lower True files {} [] 0 = Inr (paths, fps, n')"
      "layout_dirs lower dirs paths [] = Inr dps" "metadata_budget 0 0 (fps @ dps) = None"
      "\<not> conflicting_hierarchy (map lower (fps @ dps))" "n' = n" "\<not> DIRECT_TRANSFER_MAX_TOTAL_BYTES < n'"
      "length files + length dirs \<le> DIRECT_TRANSFER_MAX_ENTRIES" "validate_direct_path_component root"
    using assms(1) by (auto simp: validate_direct_transfer_layout_def split: if_splits sum.splits option.splits)
  from layout_files_Inr [OF r(1)] have f:
      "list_all2 (\<lambda>f x. fe_type f = 4 \<and> normalized_direct_relative_path (fe_name f) = Some x) files fps"
      "distinct (map lower fps)" "paths = set (map lower fps)" "unat n' = (\<Sum>f\<leftarrow>files. unat (fe_size f))"
    by auto
  from layout_dirs_Inr [OF r(2)] have d:
      "list_all2 (\<lambda>d x. normalized_direct_relative_path d = Some x) dirs dps"
      "distinct (map lower dps)" "set (map lower dps) \<inter> paths = {}" by auto
  have "list_all2 (\<lambda>p x. normalized_direct_relative_path p = Some x) (map fe_name files @ dirs) (fps @ dps)"
    using f(1) d(1) by (intro list_all2_appendI) (auto simp: list_all2_conv_all_nth)
  then have n: "\<And>i. i < length (map fe_name files @ dirs) \<Longrightarrow>
      normalized_direct_relative_path ((map fe_name files @ dirs) ! i) = Some ((fps @ dps) ! i)"
    and len: "length (fps @ dps) = length (map fe_name files @ dirs)"
    by (auto simp: list_all2_conv_all_nth)
  have np: "normalized_direct_relative_path p = Some x \<Longrightarrow> x = norm_path p" for p x
    by (simp add: norm_path_def normalized_Some(1))
  have ns: "fps @ dps = ns"
    unfolding ns_def
  proof (rule nth_equalityI)
    show "length (fps @ dps) = length (map norm_path (map fe_name files @ dirs))" using len by simp
    fix i assume "i < length (fps @ dps)"
    then have i: "i < length (map fe_name files @ dirs)" using len by simp
    show "(fps @ dps) ! i = map norm_path (map fe_name files @ dirs) ! i"
      unfolding nth_map [OF i] by (rule np [OF n [OF i]])
  qed
  show "\<forall>p \<in> set (map fe_name files @ dirs). normalized_direct_relative_path p = Some (norm_path p)"
    using n np by (metis in_set_conv_nth)
  show "\<forall>f \<in> set files. fe_type f = 4" using f(1) by (auto simp: list_all2_conv_all_nth in_set_conv_nth)
  show "distinct (map lower ns)" unfolding ns [symmetric] using f(2,3) d(2,3) by auto
  show "metadata_budget 0 0 ns = None" "\<not> conflicting_hierarchy (map lower ns)"
      "(\<Sum>f\<leftarrow>files. unat (fe_size f)) = unat n" "n \<le> DIRECT_TRANSFER_MAX_TOTAL_BYTES"
      "length files + length dirs \<le> DIRECT_TRANSFER_MAX_ENTRIES" "validate_direct_path_component root"
    using r f(4) by (simp_all add: ns not_less)
qed


text \<open>C19 Manifests.  A directory manifest a controlled machine pushes is accepted only if every entry is
  a non-empty path of plain components below its root, no two entries differ only by case, no entry
  is a folder another one is put into, all files are regular, the declared size is the exact sum of
  the sizes and at most 20 GiB, and the number, the length and the depth of the paths are bounded.\<close>

theorem accepted_manifest_is_a_tree:
  assumes "validate_direct_transfer_layout lower root True files dirs declared = Inr ()" and "lower_ok lower"
  shows "let paths = map fe_name files @ dirs; key = lower \<circ> norm_path in
      plain_component root
      \<and> (\<forall>p \<in> set paths. \<forall>c \<in> set (str_split separator p). plain_component c)
      \<and> distinct (map key paths)
      \<and> (\<forall>p \<in> set paths. \<forall>q \<in> set paths. \<not> prefix (key p @ ''/'') (key q))
      \<and> (\<forall>f \<in> set files. fe_type f = 4)
      \<and> (\<Sum>f\<leftarrow>files. unat (fe_size f)) = unat declared \<and> unat declared \<le> 20 * 2 ^ 30
      \<and> length paths \<le> 100000
      \<and> (\<forall>p \<in> set paths. length (norm_path p) \<le> 4096 \<and> length (str_split separator p) \<le> 64)"
proof -
  let ?paths = "map fe_name files @ dirs"
  note l = layout_directory_Inr [OF assms(1)]
  have n: "normalized_direct_relative_path p = Some (norm_path p)" if "p \<in> set ?paths" for p
    using l(1) that by blast
  have key: "lower (norm_path p) \<noteq> []" "\<not> prefix ''/'' (lower (norm_path p))" if "p \<in> set ?paths" for p
    using normalized_Some(3,4) [OF n [OF that]] assms(2) by (simp_all add: lower_ok_def)
  have keys: "lower (norm_path p) \<in> set (map lower (map norm_path ?paths))" if "p \<in> set ?paths" for p
    using that by auto
  have "\<not> prefix (lower (norm_path p) @ ''/'') (lower (norm_path q))" if "p \<in> set ?paths" "q \<in> set ?paths" for p q
    using no_conflict [OF l(5) keys [OF that(1)] keys [OF that(2)]] key that by blast
  moreover have "\<forall>c \<in> set (str_split separator p). plain_component c" if "p \<in> set ?paths" for p
    by (rule normalized_Some(2) [OF n [OF that]])
  moreover have "distinct (map (lower \<circ> norm_path) ?paths)" using l(3) by (simp add: comp_def)
  moreover have "length (norm_path p) \<le> 4096 \<and> length (str_split separator p) \<le> 64" if "p \<in> set ?paths" for p
  proof -
    have "norm_path p \<in> set (map norm_path ?paths)" using that by auto
    with metadata_budget_None [OF l(4), THEN conjunct1]
    have "length (norm_path p) \<le> DIRECT_TRANSFER_MAX_PATH_BYTES
        \<and> length (str_split (\<lambda>c. c = CHR ''/'') (norm_path p)) \<le> DIRECT_TRANSFER_MAX_DEPTH" by blast
    then show ?thesis
      unfolding normalized_Some(5) [OF n [OF that]]
      by (simp add: DIRECT_TRANSFER_MAX_PATH_BYTES_def DIRECT_TRANSFER_MAX_DEPTH_def)
  qed
  moreover have "unat declared \<le> 20 * 2 ^ 30"
    using l(7) by (simp add: DIRECT_TRANSFER_MAX_TOTAL_BYTES_def word_le_nat_alt)
  ultimately show ?thesis
    using l(2,6,8) direct_component_plain [OF l(9)] by (simp add: Let_def DIRECT_TRANSFER_MAX_ENTRIES_def)
qed

definition plain_file :: "string \<Rightarrow> u64 \<Rightarrow> file_entry" where
  "plain_file name n = \<lparr>fe_type = 4, fe_name = name, fe_hidden = False, fe_size = n, fe_modified_time = 0\<rparr>"

lemma accepted_manifest_is_a_tree_witness:
  "validate_direct_transfer_layout id ''root'' True [plain_file ''a/b'' 3, plain_file ''c'' 4] [''a/d''] 7 = Inr ()
   \<and> \<not> prefix (norm_path ''c'' @ ''/'') (norm_path ''a/b'')"
proof -
  note component = validate_direct_path_component_def utf16_count_def reserved_device_def ascii_upper_def
    separator_def char_code_def Let_def suffix_def
  have c: "validate_direct_path_component ''root''" "validate_direct_path_component ''a''"
      "validate_direct_path_component ''b''" "validate_direct_path_component ''c''" "validate_direct_path_component ''d''"
    by (simp_all add: component)
  have n: "normalized_direct_relative_path ''a/b'' = Some ''a/b''" "normalized_direct_relative_path ''c'' = Some ''c''"
      "normalized_direct_relative_path ''a/d'' = Some ''a/d''"
    using c by (simp_all add: normalized_direct_relative_path_def direct_relative_components_def separator_def join_def)
  have v: "validate_direct_transfer_layout id ''root'' True [plain_file ''a/b'' 3, plain_file ''c'' 4] [''a/d''] 7 = Inr ()"
    using c(1) by (simp add: validate_direct_transfer_layout_def plain_file_def n utf16_count_def char_code_def Let_def
        DIRECT_TRANSFER_MAX_ENTRIES_def DIRECT_TRANSFER_MAX_METADATA_BYTES_def DIRECT_TRANSFER_MAX_PATH_BYTES_def
        DIRECT_TRANSFER_MAX_DEPTH_def DIRECT_TRANSFER_MAX_TOTAL_BYTES_def conflicting_hierarchy_def)
  have "lower_ok id" by (simp add: lower_ok_def)
  from accepted_manifest_is_a_tree [OF v this] v show ?thesis by (simp add: Let_def plain_file_def)
qed

lemma drop_components_Some:
  "drop_components es = Some cs \<Longrightarrow> list_all2 (\<lambda>e c. decode_remote_drop_component e = Some c) es cs
    \<and> (\<forall>c \<in> set cs. plain_component c)"
  by (induction es arbitrary: cs) (auto split: option.splits if_splits intro: drop_component_plain)



text \<open>The folder, relative to the destination, that a name walks to: \<open>None\<close> if it leaves it on the way.\<close>

fun walk :: "nat \<Rightarrow> string list \<Rightarrow> nat option" where
  "walk depth [] = Some depth"
| "walk depth (c # cs) =
     (if c = [] \<or> c = ''.'' then walk depth cs
      else if c = ''..'' then (case depth of 0 \<Rightarrow> None | Suc d \<Rightarrow> walk d cs)
      else walk (Suc depth) cs)"

lemma walk_no_parent: "''..'' \<notin> set cs \<Longrightarrow> \<exists>d. walk n cs = Some d \<and> n \<le> d"
  by (induction cs arbitrary: n) (auto, metis Suc_leD)

lemma validate_names_Inr:
  "validate_names files = Inr () \<longleftrightarrow>
     (\<forall>f \<in> set files. fe_name f \<noteq> [] \<and> validate_file_name_no_traversal (fe_name f) = Inr ())"
  by (induction files) (auto split: sum.split)

text \<open>Traversal.  The names of an accepted file list, other than the empty name of a single file,
  never lead out of the destination folder on the way, begin neither with a separator nor with a
  drive, and contain no null byte.\<close>

theorem accepted_names_stay_inside:
  assumes "validate_transfer_file_names files = Inr ()" and "f \<in> set files"
  shows "files = [f] \<and> fe_name f = []
    \<or> (\<exists>d. walk 0 (str_split separator (fe_name f)) = Some d)
      \<and> \<not> separator (hd (fe_name f)) \<and> fe_name f \<noteq> []
      \<and> (\<nexists>drive rest. fe_name f = drive # CHR '':'' # rest \<and> is_ascii_alphabetic drive)
      \<and> CHR 0x00 \<notin> set (fe_name f)"
proof (cases "length files = 1 \<and> fe_name f = []")
  case True
  then show ?thesis using assms(2) by (cases files) auto
next
  case False
  have "validate_names files = Inr ()"
  proof (cases "length files = 1 \<and> (case files of f # _ \<Rightarrow> fe_name f = [] | [] \<Rightarrow> False)")
    case True
    then show ?thesis using assms(2) False by (cases files) auto
  next
    case False
    then show ?thesis using assms(1) unfolding validate_transfer_file_names_def by (simp only: if_False)
  qed
  then have ne: "fe_name f \<noteq> []" and v: "validate_file_name_no_traversal (fe_name f) = Inr ()"
    using assms(2) by (auto simp: validate_names_Inr)
  from v have b: "\<forall>b \<in> set (fe_name f). char_code b \<noteq> 0" "''..'' \<notin> set (str_split separator (fe_name f))"
      "\<not> (2 \<le> length (fe_name f) \<and> is_ascii_alphabetic (fe_name f ! 0) \<and> fe_name f ! 1 = CHR '':'')"
      "\<not> prefix ''/'' (fe_name f)" "\<not> prefix [CHR 0x5C] (fe_name f)"
    by (auto simp: validate_file_name_no_traversal_def split: if_splits)
  obtain a as where a: "fe_name f = a # as" using ne by (cases "fe_name f") auto
  have "\<nexists>drive rest. fe_name f = drive # CHR '':'' # rest \<and> is_ascii_alphabetic drive"
    using b(3) by auto
  moreover have "CHR 0x00 \<notin> set (fe_name f)" using b(1) by (auto simp: char_code_def)
  moreover have "\<not> separator (hd (fe_name f))" using b(4,5) by (simp add: a separator_def)
  ultimately show ?thesis using ne walk_no_parent [OF b(2), of 0] by blast
qed

lemma accepted_names_stay_inside_witness:
  "walk 0 (str_split separator ''a/./b'') = Some 2
   \<and> validate_transfer_file_names [plain_file ''a/../../b'' 1] = Inl Traversal"
proof -
  have v: "validate_transfer_file_names [plain_file ''a/./b'' 1] = Inr ()" by code_simp
  have "plain_file ''a/./b'' 1 \<in> set [plain_file ''a/./b'' 1]" by simp
  from accepted_names_stay_inside [OF v this]
  have "\<exists>d. walk 0 (str_split separator ''a/./b'') = Some d" by (auto simp: plain_file_def)
  moreover have "walk 0 (str_split separator ''a/./b'') = Some 2" by code_simp
  moreover have "validate_transfer_file_names [plain_file ''a/../../b'' 1] = Inl Traversal" by code_simp
  ultimately show ?thesis by simp
qed

end
