(* ===== verification/Transfer_Job.thy ===== *)
theory Transfer_Job
  imports Transfer_Paths
begin

text \<open>
  File transfer jobs (\<open>TransferJob\<close> in \<open>libs/hbb_common/src/fs.rs\<close>): the sender that reads the files of a
  job block by block, and the receiver that writes the blocks, in particular under the strict rules of a
  direct push.  The model covers generic jobs whose data source is a path; jobs of the printer keep
  their data in memory.

  The destination is a \<open>disk\<close>: the complete files and the staged (\<open>.download\<close>) ones, by normalised name
  below the destination.  The outcome of each operating-system call is in \<open>write_io\<close>; zstd is a
  parameter (\<open>zstd\<close>): one-shot compression, decompression of a whole block, and a decoder that is asked
  for at most a number of bytes.  The side file with the digest for resuming is not modelled.
\<close>

section \<open>State\<close>

record zstd =
  zstd_compress :: "u8 list \<Rightarrow> u8 list option"
  zstd_decode_all :: "u8 list \<Rightarrow> u8 list option"
  zstd_read :: "nat \<Rightarrow> u8 list \<Rightarrow> u8 list option"

record write_io =
  sync_ok :: bool
  rename_ok :: bool
  path_ok :: bool
  create_ok :: bool
  append_ok :: bool

record disk =
  staging :: "string \<Rightarrow> u8 list option"
  final :: "string \<Rightarrow> u8 list option"

record transfer_block =
  tb_id :: i32
  tb_file_num :: i32
  tb_data :: "u8 list"
  tb_compressed :: bool

record write_job =
  wj_id :: i32
  wj_files :: "file_entry list"
  wj_file_num :: i32
  wj_open :: bool
  wj_total :: u64
  wj_finished :: u64
  wj_transferred :: u64
  wj_strict :: bool
  wj_never_overwrite :: bool
  wj_bytes :: u64
  wj_eof :: bool

datatype write_error =
    Wrong_Id | Wrong_File_Number | Wire_Block_Too_Large | Decompress_Failed | Block_Too_Large
  | Moved_Backwards | Sequence_Incomplete | Size_Underflow | Bad_Eof | Wrong_Chunk_Size
  | Overflow | Exceeds_File | Exceeds_Total | Io_Failed | Already_Exists | Bad_Path
  | Ended_Early | Size_Differs | Panic

definition DIRECT_TRANSFER_MAX_BLOCK_BYTES :: nat where
  "DIRECT_TRANSFER_MAX_BLOCK_BYTES = 128 * 1024"

definition entry_key :: "file_entry \<Rightarrow> string" where
  "entry_key f = norm_path (fe_name f)"

definition compress :: "zstd \<Rightarrow> u8 list \<Rightarrow> u8 list" where
  "compress z data = (case zstd_compress z data of Some res \<Rightarrow> res | None \<Rightarrow> [])"

definition decompress :: "zstd \<Rightarrow> u8 list \<Rightarrow> u8 list" where
  "decompress z data = (case zstd_decode_all z data of Some out \<Rightarrow> out | None \<Rightarrow> [])"

definition decompress_direct_transfer_block :: "zstd \<Rightarrow> u8 list \<Rightarrow> nat \<Rightarrow> u8 list option" where
  "decompress_direct_transfer_block z data limit =
     (case zstd_read z (limit + 1) data of
        Some output \<Rightarrow> if limit < length output then None else Some output
      | None \<Rightarrow> None)"

section \<open>The receiver\<close>

text \<open>\<open>finalize_current_file\<close>: the staged file takes its final name.\<close>

definition finalize_current_file :: "write_io \<Rightarrow> write_job \<Rightarrow> disk \<Rightarrow> write_error + disk" where
  "finalize_current_file io j d =
     (if 0 \<le> sint (wj_file_num j) \<and> unat (wj_file_num j) < length (wj_files j) then
        let k = entry_key (wj_files j ! unat (wj_file_num j)) in
        if \<not> path_ok io then Inl Bad_Path
        else if wj_never_overwrite j \<and> final d k \<noteq> None then Inl Already_Exists
        else if \<not> rename_ok io \<or> staging d k = None then Inl Io_Failed
        else Inr (d\<lparr>staging := (staging d)(k := None), final := (final d)(k := staging d k)\<rparr>)
      else Inr d)"

definition finalize_write :: "write_io \<Rightarrow> write_job \<Rightarrow> disk \<Rightarrow> write_error + write_job \<times> disk" where
  "finalize_write io j d =
     (if \<not> wj_open j then Inr (j, d)
      else if \<not> sync_ok io then Inl Io_Failed
      else let j = j\<lparr>wj_open := False\<rparr> in
           case finalize_current_file io j d of Inl err \<Rightarrow> Inl err | Inr d \<Rightarrow> Inr (j, d))"

text \<open>The bytes of a block, decoded.  Under the strict rules no more is decoded than the file still
  lacks.\<close>

definition decode_block :: "zstd \<Rightarrow> write_job \<Rightarrow> transfer_block \<Rightarrow> write_error + u8 list" where
  "decode_block z j b =
     (if \<not> tb_compressed b then Inr (tb_data b)
      else if wj_strict j then
        let fsize = unat (fe_size (wj_files j ! unat (tb_file_num b)));
            remaining = fsize - (if tb_file_num b = wj_file_num j then unat (wj_bytes j) else 0);
            limit = min remaining DIRECT_TRANSFER_MAX_BLOCK_BYTES
        in (case decompress_direct_transfer_block z (tb_data b) limit of
              Some out \<Rightarrow> Inr out
            | None \<Rightarrow> Inl Decompress_Failed)
      else Inr (decompress z (tb_data b)))"

text \<open>The next file of a strict job may begin only when the current one is complete.\<close>

definition strict_advance :: "transfer_block \<Rightarrow> write_job \<Rightarrow> write_error + write_job" where
  "strict_advance b j =
     (if sint (tb_file_num b) < sint (wj_file_num j) then Inl Moved_Backwards
      else if sint (wj_file_num j) < sint (tb_file_num b) then
        (if sint (tb_file_num b) \<noteq> min (sint (wj_file_num j) + 1) (2 ^ 31 - 1) \<or> \<not> wj_open j \<or> \<not> wj_eof j
         then Inl Sequence_Incomplete
         else if sint (wj_file_num j) < 0 \<or> length (wj_files j) \<le> unat (wj_file_num j) then Inl Panic
         else if wj_bytes j \<noteq> fe_size (wj_files j ! unat (wj_file_num j)) then Inl Sequence_Incomplete
         else Inr (j\<lparr>wj_bytes := 0, wj_eof := False\<rparr>))
      else Inr j)"

text \<open>A block is a full chunk, the rest of its file, or the one empty block that ends it.\<close>

definition strict_chunk :: "u64 \<Rightarrow> nat \<Rightarrow> write_job \<Rightarrow> write_error + write_job" where
  "strict_chunk fsize len j =
     (if fsize < wj_bytes j then Inl Size_Underflow
      else
        let expected = min (unat (fsize - wj_bytes j)) DIRECT_TRANSFER_MAX_BLOCK_BYTES in
        if expected = 0 \<and> (len \<noteq> 0 \<or> wj_eof j) then Inl Bad_Eof
        else if expected \<noteq> 0 \<and> (wj_eof j \<or> len \<noteq> expected) then Inl Wrong_Chunk_Size
        else
          let next_file = unat (wj_bytes j) + len;
              next_total = unat (wj_finished j) + len
          in if 2 ^ 64 \<le> next_file then Inl Overflow
             else if unat fsize < next_file then Inl Exceeds_File
             else if 2 ^ 64 \<le> next_total then Inl Overflow
             else if unat (wj_total j) < next_total then Inl Exceeds_Total
             else Inr (j\<lparr>wj_eof := wj_eof j \<or> expected = 0, wj_bytes := of_nat next_file\<rparr>))"

definition strict_account :: "transfer_block \<Rightarrow> nat \<Rightarrow> write_job \<Rightarrow> write_error + write_job" where
  "strict_account b len j =
     (if \<not> wj_strict j then Inr j
      else if DIRECT_TRANSFER_MAX_BLOCK_BYTES < len then Inl Block_Too_Large
      else case strict_advance b j of
             Inl err \<Rightarrow> Inl err
           | Inr j \<Rightarrow> strict_chunk (fe_size (wj_files j ! unat (tb_file_num b))) len j)"

text \<open>Open the staging file of the block, finishing the previous one, and append the bytes.\<close>

definition open_target :: "write_io \<Rightarrow> transfer_block \<Rightarrow> write_job \<Rightarrow> disk \<Rightarrow> write_error + write_job \<times> disk" where
  "open_target io b j d =
     (if sint (wj_file_num j) \<noteq> sint (tb_file_num b) \<or> \<not> wj_open j then
        (case (if wj_open j then finalize_write io j d else Inr (j, d)) of
           Inl err \<Rightarrow> Inl err
         | Inr (j, d) \<Rightarrow>
             let j = j\<lparr>wj_file_num := tb_file_num b\<rparr>;
                 k = entry_key (wj_files j ! unat (tb_file_num b))
             in if \<not> path_ok io then Inl Bad_Path
                else if \<not> create_ok io then Inl Io_Failed
                else Inr (j\<lparr>wj_open := True\<rparr>, d\<lparr>staging := (staging d)(k := Some [])\<rparr>))
      else Inr (j, d))"

definition store_block ::
  "write_io \<Rightarrow> transfer_block \<Rightarrow> u8 list \<Rightarrow> write_job \<Rightarrow> disk \<Rightarrow> write_error + write_job \<times> disk" where
  "store_block io b data j d =
     (case open_target io b j d of
        Inl err \<Rightarrow> Inl err
      | Inr (j, d) \<Rightarrow>
          if \<not> append_ok io then Inl Io_Failed
          else
            let k = entry_key (wj_files j ! unat (tb_file_num b)) in
            Inr (j\<lparr>wj_finished := wj_finished j + of_nat (length data),
                   wj_transferred := wj_transferred j + of_nat (length (tb_data b))\<rparr>,
                 d\<lparr>staging := (staging d)(k := map_option (\<lambda>old. old @ data) (staging d k))\<rparr>))"

definition job_write ::
  "zstd \<Rightarrow> write_io \<Rightarrow> transfer_block \<Rightarrow> write_job \<times> disk \<Rightarrow> write_error + write_job \<times> disk"
where
  "job_write z io b s =
     (let (j, d) = s in
      if tb_id b \<noteq> wj_id j then Inl Wrong_Id
      else if sint (tb_file_num b) < 0 \<or> length (wj_files j) \<le> unat (tb_file_num b) then Inl Wrong_File_Number
      else if wj_strict j \<and> DIRECT_TRANSFER_MAX_BLOCK_BYTES < length (tb_data b) then Inl Wire_Block_Too_Large
      else case decode_block z j b of
             Inl err \<Rightarrow> Inl err
           | Inr data \<Rightarrow>
               (case strict_account b (length data) j of
                  Inl err \<Rightarrow> Inl err
                | Inr j \<Rightarrow> store_block io b data j d))"

text \<open>The blocks that arrive, each with the outcome of the system calls it makes.\<close>

fun job_write_all ::
  "zstd \<Rightarrow> (write_io \<times> transfer_block) list \<Rightarrow> write_job \<times> disk \<Rightarrow> write_error + write_job \<times> disk"
where
  "job_write_all z [] s = Inr s"
| "job_write_all z ((io, b) # bs) s =
     (case job_write z io b s of Inl err \<Rightarrow> Inl err | Inr s \<Rightarrow> job_write_all z bs s)"

text \<open>The final check of one file.  \<open>regular\<close>: what is at the path is a regular file.\<close>

definition finalize_entry :: "write_io \<Rightarrow> (string \<Rightarrow> bool) \<Rightarrow> file_entry \<Rightarrow> disk \<Rightarrow> write_error + disk" where
  "finalize_entry io regular f d =
     (if \<not> path_ok io then Inl Bad_Path
      else
        let k = entry_key f in
        case (if fe_size f = 0 \<and> final d k = None
              then (if \<not> create_ok io \<or> \<not> sync_ok io \<or> \<not> rename_ok io then Inl Io_Failed
                    else Inr (d\<lparr>final := (final d)(k := Some (case staging d k of Some old \<Rightarrow> old | None \<Rightarrow> [])),
                                staging := (staging d)(k := None)\<rparr>))
              else Inr d) of
          Inl err \<Rightarrow> Inl err
        | Inr d \<Rightarrow>
            (case final d k of
               None \<Rightarrow> Inl Io_Failed
             | Some content \<Rightarrow>
                 if \<not> regular k then Inl Bad_Path
                 else if length content \<noteq> unat (fe_size f) then Inl Size_Differs
                 else Inr d))"

fun finalize_entries :: "write_io \<Rightarrow> (string \<Rightarrow> bool) \<Rightarrow> file_entry list \<Rightarrow> disk \<Rightarrow> write_error + disk" where
  "finalize_entries io regular [] d = Inr d"
| "finalize_entries io regular (f # fs) d =
     (case finalize_entry io regular f d of Inl err \<Rightarrow> Inl err | Inr d \<Rightarrow> finalize_entries io regular fs d)"

definition finalize_direct_write ::
  "write_io \<Rightarrow> (string \<Rightarrow> bool) \<Rightarrow> write_job \<times> disk \<Rightarrow> write_error + write_job \<times> disk"
where
  "finalize_direct_write io regular s =
     (let (j, d) = s in
      if 0 \<le> sint (wj_file_num j) \<and> unat (wj_file_num j) < length (wj_files j)
         \<and> (wj_bytes j \<noteq> fe_size (wj_files j ! unat (wj_file_num j)) \<or> \<not> wj_eof j)
      then Inl Ended_Early
      else case finalize_write io j d of
             Inl err \<Rightarrow> Inl err
           | Inr (j, d) \<Rightarrow>
               if wj_finished j \<noteq> wj_total j then Inl Ended_Early
               else (case finalize_entries io regular (wj_files j) d of
                       Inl err \<Rightarrow> Inl err
                     | Inr d \<Rightarrow> Inr (j, d)))"


section \<open>What a complete strict transfer leaves on the disk\<close>

definition payload :: "zstd \<Rightarrow> transfer_block \<Rightarrow> u8 list" where
  "payload z b = (if tb_compressed b then decompress z (tb_data b) else tb_data b)"

text \<open>The decoder that is asked for at most \<open>n\<close> bytes gives at most \<open>n\<close>, and fewer only at the end.\<close>

definition zstd_read_law :: "zstd \<Rightarrow> bool" where
  "zstd_read_law z \<longleftrightarrow>
     (\<forall>n d out. zstd_read z n d = Some out \<longrightarrow>
        length out \<le> n \<and> (length out < n \<longrightarrow> zstd_decode_all z d = Some out))"

text \<open>The bytes sent for file \<open>i\<close>.\<close>

definition sent_for :: "zstd \<Rightarrow> transfer_block list \<Rightarrow> nat \<Rightarrow> u8 list" where
  "sent_for z bs i = concat (map (payload z) (filter (\<lambda>b. unat (tb_file_num b) = i) bs))"

lemma sent_for_Nil [simp]: "sent_for z [] i = []"
  by (simp add: sent_for_def)

lemma sent_for_snoc [simp]:
  "sent_for z (bs @ [b]) i = sent_for z bs i @ (if unat (tb_file_num b) = i then payload z b else [])"
  by (simp add: sent_for_def)

lemma sint_nonneg_unat: "0 \<le> sint (w :: i32) \<Longrightarrow> sint w = int (unat w)"
proof -
  assume a: "0 \<le> sint w"
  have "sint w < 2 ^ 31" using sint_lt [of w] by simp
  then have "take_bit 32 (sint w) = sint w" using a by (simp add: take_bit_int_eq_self)
  then have "uint w = sint w" using uint_sint [of w] by simp
  then show ?thesis by simp
qed

lemma decode_block_payload:
  "decode_block z j b = Inr data \<Longrightarrow> zstd_read_law z \<Longrightarrow> data = payload z b"
  by (auto simp: decode_block_def payload_def decompress_direct_transfer_block_def decompress_def
      zstd_read_law_def Let_def split: if_splits option.splits)

lemma strict_chunk_Inr:
  assumes "strict_chunk n len j = Inr j'"
  shows "j' = j\<lparr>wj_bytes := wj_bytes j', wj_eof := wj_eof j'\<rparr>" and "unat (wj_bytes j') = unat (wj_bytes j) + len"
    and "unat (wj_bytes j') \<le> unat n" and "wj_eof j' \<longrightarrow> wj_bytes j' = n"
    and "unat (wj_finished j) + len \<le> unat (wj_total j)"
proof -
  define e where "e = min (unat (n - wj_bytes j)) DIRECT_TRANSFER_MAX_BLOCK_BYTES"
  define total where "total = unat (wj_finished j) + len"
  define bytes where "bytes = unat (wj_bytes j) + len"
  have r: "strict_chunk n len j =
     (if n < wj_bytes j then Inl Size_Underflow
      else if e = 0 \<and> (len \<noteq> 0 \<or> wj_eof j) then Inl Bad_Eof
      else if e \<noteq> 0 \<and> (wj_eof j \<or> len \<noteq> e) then Inl Wrong_Chunk_Size
      else if 2 ^ 64 \<le> bytes then Inl Overflow
      else if unat n < bytes then Inl Exceeds_File
      else if 2 ^ 64 \<le> total then Inl Overflow
      else if unat (wj_total j) < total then Inl Exceeds_Total
      else Inr (j\<lparr>wj_eof := wj_eof j \<or> e = 0, wj_bytes := of_nat bytes\<rparr>))"
    unfolding strict_chunk_def Let_def e_def total_def bytes_def by (rule refl)
  have small: "bytes < 2 ^ 64" and f: "bytes \<le> unat n" "total \<le> unat (wj_total j)"
    and e0: "e = 0 \<Longrightarrow> len = 0 \<and> \<not> wj_eof j" and e1: "e \<noteq> 0 \<Longrightarrow> \<not> wj_eof j"
    and j': "j' = j\<lparr>wj_eof := wj_eof j \<or> e = 0, wj_bytes := of_nat bytes\<rparr>"
    using assms unfolding r by (simp_all split: if_split_asm)
  have b: "unat (of_nat bytes :: u64) = bytes"
    using small by (simp add: unsigned_of_nat take_bit_nat_eq_self)
  show "j' = j\<lparr>wj_bytes := wj_bytes j', wj_eof := wj_eof j'\<rparr>" by (simp add: j')
  show "unat (wj_bytes j') = unat (wj_bytes j) + len" by (simp add: j' b) (simp add: bytes_def)
  show "unat (wj_bytes j') \<le> unat n" using f by (simp add: j' b)
  show "unat (wj_finished j) + len \<le> unat (wj_total j)" using f by (simp add: total_def)
  show "wj_eof j' \<longrightarrow> wj_bytes j' = n"
  proof (cases "e = 0")
    case True
    then have "unat (n - wj_bytes j) = 0"
      by (simp add: e_def DIRECT_TRANSFER_MAX_BLOCK_BYTES_def min_def split: if_splits)
    then have "n - wj_bytes j = 0" by (simp only: unsigned_eq_0_iff)
    then have "n = wj_bytes j" by simp
    then show ?thesis using e0 [OF True] True by (simp add: j' bytes_def)
  next
    case False
    then show ?thesis using e1 by (simp add: j')
  qed
qed


lemma strict_advance_Inr:
  assumes "strict_advance b j = Inr j'"
  shows "tb_file_num b = wj_file_num j \<and> j' = j
    \<or> sint (tb_file_num b) = sint (wj_file_num j) + 1 \<and> wj_open j \<and> wj_eof j
      \<and> wj_bytes j = fe_size (wj_files j ! unat (wj_file_num j)) \<and> j' = j\<lparr>wj_bytes := 0, wj_eof := False\<rparr>"
proof -
  have "\<not> sint (tb_file_num b) < sint (wj_file_num j)" using assms by (auto simp: strict_advance_def)
  then consider "sint (tb_file_num b) = sint (wj_file_num j)" | "sint (wj_file_num j) < sint (tb_file_num b)" by linarith
  then show ?thesis
  proof cases
    case 1
    then have "tb_file_num b = wj_file_num j" by (simp add: signed_word_eqI)
    then show ?thesis using assms by (simp add: strict_advance_def)
  next
    case 2
    have "sint (tb_file_num b) \<le> 2 ^ 31 - 1" using sint_lt [of "tb_file_num b"] by simp
    then show ?thesis using assms 2 by (auto simp: strict_advance_def split: if_splits)
  qed
qed

lemma job_write_Inr:
  assumes "job_write z io b (j, d) = Inr (j', d')" and "wj_strict j" and "zstd_read_law z"
  obtains j1 j2 where "0 \<le> sint (tb_file_num b)" "unat (tb_file_num b) < length (wj_files j)"
    "strict_advance b j = Inr j1"
    "strict_chunk (fe_size (wj_files j1 ! unat (tb_file_num b))) (length (payload z b)) j1 = Inr j2"
    "store_block io b (payload z b) j2 d = Inr (j', d')"
proof -
  from assms(1) have g: "\<not> sint (tb_file_num b) < 0" "\<not> length (wj_files j) \<le> unat (tb_file_num b)"
    by (auto simp: job_write_def split: if_splits)
  from assms(1) obtain data where data: "decode_block z j b = Inr data"
    and rest: "(case strict_account b (length data) j of Inl err \<Rightarrow> Inl err | Inr j \<Rightarrow> store_block io b data j d) = Inr (j', d')"
    by (auto simp: job_write_def split: if_splits sum.splits)
  have p: "data = payload z b" by (rule decode_block_payload [OF data assms(3)])
  from rest obtain j2 where a: "strict_account b (length data) j = Inr j2"
    and s: "store_block io b data j2 d = Inr (j', d')"
    by (auto split: sum.splits)
  from a assms(2) obtain j1 where "strict_advance b j = Inr j1"
      "strict_chunk (fe_size (wj_files j1 ! unat (tb_file_num b))) (length data) j1 = Inr j2"
    by (auto simp: strict_account_def split: if_splits sum.splits)
  then show thesis using that g s by (simp add: p not_less not_le)
qed

text \<open>The state after the blocks \<open>bs\<close>: nothing yet, or a current file whose predecessors are complete.\<close>

definition current :: "write_job \<Rightarrow> nat" where
  "current j = unat (wj_file_num j)"

definition progress :: "zstd \<Rightarrow> transfer_block list \<Rightarrow> write_job \<Rightarrow> disk \<Rightarrow> bool" where
  "progress z bs j d \<longleftrightarrow>
     (let key = (\<lambda>i. entry_key (wj_files j ! i)); size_of = (\<lambda>i. unat (fe_size (wj_files j ! i))) in
      wj_open j \<and> 0 \<le> sint (wj_file_num j) \<and> current j < length (wj_files j)
      \<and> (\<forall>i < current j. final d (key i) = Some (sent_for z bs i) \<and> length (sent_for z bs i) = size_of i)
      \<and> staging d (key (current j)) = Some (sent_for z bs (current j))
      \<and> length (sent_for z bs (current j)) = unat (wj_bytes j)
      \<and> unat (wj_bytes j) \<le> size_of (current j)
      \<and> (\<forall>i > current j. sent_for z bs i = [])
      \<and> unat (wj_finished j) = (\<Sum>i < current j. size_of i) + unat (wj_bytes j)
      \<and> (wj_eof j \<longrightarrow> unat (wj_bytes j) = size_of (current j)))"

definition fresh_write_job :: "write_job \<Rightarrow> bool" where
  "fresh_write_job j \<longleftrightarrow> \<not> wj_open j \<and> wj_file_num j = 0 \<and> wj_bytes j = 0 \<and> \<not> wj_eof j \<and> wj_finished j = 0"

definition strict_inv :: "zstd \<Rightarrow> transfer_block list \<Rightarrow> write_job \<Rightarrow> disk \<Rightarrow> bool" where
  "strict_inv z bs j d \<longleftrightarrow> wj_strict j \<and> distinct (map entry_key (wj_files j))
     \<and> (bs = [] \<and> fresh_write_job j \<or> progress z bs j d)"


lemma finished_add:
  "unat (f :: u64) + n \<le> unat (t :: u64) \<Longrightarrow> unat (f + of_nat n) = unat f + n"
proof -
  assume a: "unat f + n \<le> unat t"
  moreover have "unat t < 2 ^ LENGTH(64)" by (rule unsigned_less)
  ultimately have "unat f + n < 2 ^ 64" by simp
  then show ?thesis by (simp add: unat_word_ariths unsigned_of_nat take_bit_nat_eq_self)
qed

text \<open>Appending to the current file.\<close>

lemma store_same:
  assumes "store_block io b data j d = Inr (j', d')" and "wj_open j" and "tb_file_num b = wj_file_num j"
  shows "j' = j\<lparr>wj_finished := wj_finished j + of_nat (length data),
            wj_transferred := wj_transferred j + of_nat (length (tb_data b))\<rparr>"
    and "d' = d\<lparr>staging := (staging d)(entry_key (wj_files j ! current j) :=
            map_option (\<lambda>old. old @ data) (staging d (entry_key (wj_files j ! current j))))\<rparr>"
  using assms by (auto simp: store_block_def open_target_def current_def Let_def split: if_splits)

text \<open>Starting the first file.\<close>

lemma store_first:
  assumes "store_block io b data j d = Inr (j', d')" and "\<not> wj_open j"
  shows "j' = j\<lparr>wj_open := True, wj_file_num := tb_file_num b,
            wj_finished := wj_finished j + of_nat (length data),
            wj_transferred := wj_transferred j + of_nat (length (tb_data b))\<rparr>"
    and "staging d' (entry_key (wj_files j ! unat (tb_file_num b))) = Some data" and "final d' = final d"
  using assms by (auto simp: store_block_def open_target_def Let_def split: if_splits)

text \<open>Finishing the current file and starting the next one.\<close>

lemma finalize_write_Inr:
  assumes "finalize_write io j d = Inr (j', d')" and "wj_open j" and "0 \<le> sint (wj_file_num j)"
    and "current j < length (wj_files j)"
  shows "j' = j\<lparr>wj_open := False\<rparr>"
    and "\<exists>content. staging d (entry_key (wj_files j ! current j)) = Some content"
    and "d' = d\<lparr>staging := (staging d)(entry_key (wj_files j ! current j) := None),
                final := (final d)(entry_key (wj_files j ! current j) := staging d (entry_key (wj_files j ! current j)))\<rparr>"
  using assms by (auto simp: finalize_write_def finalize_current_file_def current_def Let_def split: if_splits sum.splits)

lemma store_next:
  assumes "store_block io b data j d = Inr (j', d')" and "wj_open j" and "sint (wj_file_num j) \<noteq> sint (tb_file_num b)"
    and "0 \<le> sint (wj_file_num j)" and "current j < length (wj_files j)"
  shows "j' = j\<lparr>wj_open := True, wj_file_num := tb_file_num b,
            wj_finished := wj_finished j + of_nat (length data),
            wj_transferred := wj_transferred j + of_nat (length (tb_data b))\<rparr>"
    and "staging d' (entry_key (wj_files j ! unat (tb_file_num b))) = Some data"
    and "final d' = (final d)(entry_key (wj_files j ! current j) := staging d (entry_key (wj_files j ! current j)))"
proof -
  obtain j1 d1 where f: "finalize_write io j d = Inr (j1, d1)"
    using assms(1-3) by (cases "finalize_write io j d") (auto simp: store_block_def open_target_def)
  note fw = finalize_write_Inr [OF f assms(2,4,5)]
  show "j' = j\<lparr>wj_open := True, wj_file_num := tb_file_num b,
            wj_finished := wj_finished j + of_nat (length data),
            wj_transferred := wj_transferred j + of_nat (length (tb_data b))\<rparr>"
    and "staging d' (entry_key (wj_files j ! unat (tb_file_num b))) = Some data"
    and "final d' = (final d)(entry_key (wj_files j ! current j) := staging d (entry_key (wj_files j ! current j)))"
    using assms(1-3) by (auto simp: store_block_def open_target_def f fw(1) fw(3) Let_def split: if_splits)
qed

lemma strict_chunk_kept:
  assumes "strict_chunk n len j = Inr j'"
  shows "wj_files j' = wj_files j" "wj_file_num j' = wj_file_num j" "wj_open j' = wj_open j"
    "wj_finished j' = wj_finished j" "wj_total j' = wj_total j" "wj_strict j' = wj_strict j"
    "wj_id j' = wj_id j" "wj_never_overwrite j' = wj_never_overwrite j"
  by (subst strict_chunk_Inr(1) [OF assms], simp)+

lemma key_neq:
  assumes "distinct (map entry_key fs)" "i < length fs" "k < length fs" "i \<noteq> k"
  shows "entry_key (fs ! i) \<noteq> entry_key (fs ! k)"
  using nth_eq_iff_index_eq [OF assms(1), of i k] assms(2-4) by simp

lemma job_write_first:
  assumes w: "job_write z io b (j, d) = Inr (j', d')" and law: "zstd_read_law z" and st: "wj_strict j"
    and fresh: "fresh_write_job j"
  shows "progress z [b] j' d' \<and> wj_strict j' \<and> wj_files j' = wj_files j \<and> wj_total j' = wj_total j"
proof -
  from job_write_Inr [OF w st law] obtain j1 j2 where s:
      "0 \<le> sint (tb_file_num b)" "unat (tb_file_num b) < length (wj_files j)" "strict_advance b j = Inr j1"
      "strict_chunk (fe_size (wj_files j1 ! unat (tb_file_num b))) (length (payload z b)) j1 = Inr j2"
      "store_block io b (payload z b) j2 d = Inr (j', d')" by blast
  have z0: "tb_file_num b = 0" and j1: "j1 = j"
    using strict_advance_Inr [OF s(3)] fresh by (auto simp: fresh_write_job_def)
  note c = s(4) [unfolded j1]
  note k = strict_chunk_kept [OF c] and ch = strict_chunk_Inr [OF c]
  have closed: "\<not> wj_open j2" using fresh k by (simp add: fresh_write_job_def)
  note f = store_first [OF s(5) closed]
  have fin: "wj_finished j2 = 0" "wj_bytes j = 0" using fresh k by (simp_all add: fresh_write_job_def)
  have "unat (wj_finished j2 + of_nat (length (payload z b))) = length (payload z b)"
    using ch(5) finished_add [of "wj_finished j" "length (payload z b)" "wj_total j"] fresh k
    by (simp add: fresh_write_job_def)
  then show ?thesis
    unfolding progress_def Let_def
    using f s(2) k ch fin st z0 by (simp add: current_def sent_for_def)
qed


lemma job_write_progress:
  assumes w: "job_write z io b (j, d) = Inr (j', d')" and law: "zstd_read_law z" and st: "wj_strict j"
    and keys: "distinct (map entry_key (wj_files j))" and p: "progress z bs j d"
  shows "progress z (bs @ [b]) j' d' \<and> wj_strict j' \<and> wj_files j' = wj_files j \<and> wj_total j' = wj_total j"
proof -
  let ?key = "\<lambda>i. entry_key (wj_files j ! i)" and ?size = "\<lambda>i. unat (fe_size (wj_files j ! i))"
  let ?data = "payload z b"
  from p have is_open: "wj_open j" and nonneg: "0 \<le> sint (wj_file_num j)" and cur: "current j < length (wj_files j)"
    and complete: "\<And>i. i < current j \<Longrightarrow> final d (?key i) = Some (sent_for z bs i) \<and> length (sent_for z bs i) = ?size i"
    and stage: "staging d (?key (current j)) = Some (sent_for z bs (current j))"
    and bytes: "length (sent_for z bs (current j)) = unat (wj_bytes j)" "unat (wj_bytes j) \<le> ?size (current j)"
    and later: "\<And>i. current j < i \<Longrightarrow> sent_for z bs i = []"
    and finished: "unat (wj_finished j) = (\<Sum>i < current j. ?size i) + unat (wj_bytes j)"
    by (simp_all add: progress_def Let_def)
  from job_write_Inr [OF w st law] obtain j1 j2 where s:
      "0 \<le> sint (tb_file_num b)" "unat (tb_file_num b) < length (wj_files j)" "strict_advance b j = Inr j1"
      "strict_chunk (fe_size (wj_files j1 ! unat (tb_file_num b))) (length ?data) j1 = Inr j2"
      "store_block io b ?data j2 d = Inr (j', d')" by blast
  note k = strict_chunk_kept [OF s(4)] and ch = strict_chunk_Inr [OF s(4)]
  consider (same) "tb_file_num b = wj_file_num j" "j1 = j"
    | (next_file) "sint (tb_file_num b) = sint (wj_file_num j) + 1" "wj_eof j"
        "wj_bytes j = fe_size (wj_files j ! current j)" "j1 = j\<lparr>wj_bytes := 0, wj_eof := False\<rparr>"
    using strict_advance_Inr [OF s(3)] by (auto simp: current_def)
  then show ?thesis
  proof cases
    case same
    have o2: "wj_open j2" "tb_file_num b = wj_file_num j2" and c2: "current j2 = current j" "wj_files j2 = wj_files j"
      using is_open k same by (simp_all add: current_def)
    note f = store_same [OF s(5) o2]
    have tot: "unat (wj_finished j2 + of_nat (length ?data)) = unat (wj_finished j) + length ?data"
      using finished_add ch(5) k same by simp
    have fnum: "unat (tb_file_num b) = current j" by (simp add: same current_def)
    have n2: "unat (wj_bytes j2) = unat (wj_bytes j) + length ?data" "unat (wj_bytes j2) \<le> ?size (current j)"
        "wj_eof j2 \<longrightarrow> unat (wj_bytes j2) = ?size (current j)"
      using ch(2,3,4) unfolding same(2) fnum by simp_all
    have cur': "current j' = current j" using k same by (simp add: f(1) current_def)
    have files': "wj_files j' = wj_files j" using k same by (simp add: f(1))
    have bytes': "wj_bytes j' = wj_bytes j2" "wj_eof j' = wj_eof j2" by (simp_all add: f(1))
    have "final d' (?key i) = Some (sent_for z (bs @ [b]) i) \<and> length (sent_for z (bs @ [b]) i) = ?size i"
      if "i < current j" for i using complete [OF that] that by (simp add: f(2) fnum)
    moreover have "staging d' (?key (current j)) = Some (sent_for z (bs @ [b]) (current j))"
      using stage by (simp add: f(2) c2 fnum)
    moreover have "length (sent_for z (bs @ [b]) (current j)) = unat (wj_bytes j2)"
      using bytes(1) n2(1) by (simp add: fnum)
    moreover have "unat (wj_bytes j2) \<le> ?size (current j)" by (rule n2(2))
    moreover have "wj_eof j2 \<longrightarrow> unat (wj_bytes j2) = ?size (current j)" by (rule n2(3))
    moreover have "sent_for z (bs @ [b]) i = []" if "current j < i" for i using later [OF that] that by (simp add: fnum)
    moreover have "unat (wj_finished j') = (\<Sum>i < current j. ?size i) + unat (wj_bytes j2)"
      using tot finished n2(1) by (simp add: f(1))
    ultimately show ?thesis
      using cur nonneg is_open k same st by (simp add: progress_def Let_def cur' files' bytes') (simp add: f(1))
  next
    case next_file
    have fnum: "unat (tb_file_num b) = Suc (current j)"
      using next_file(1) sint_nonneg_unat [OF nonneg] sint_nonneg_unat [OF s(1)]
      unfolding current_def by linarith
    have c2: "current j2 = current j" "wj_files j2 = wj_files j" using k next_file by (simp_all add: current_def)
    have o2: "wj_open j2" "sint (wj_file_num j2) \<noteq> sint (tb_file_num b)" "0 \<le> sint (wj_file_num j2)"
        "current j2 < length (wj_files j2)"
      using is_open k next_file nonneg cur by (simp_all add: current_def)
    note f = store_next [OF s(5) o2]
    have tot: "unat (wj_finished j2 + of_nat (length ?data)) = unat (wj_finished j) + length ?data"
      using finished_add ch(5) k next_file by simp
    have cur': "current j' = Suc (current j)" by (simp add: f(1) current_def fnum)
    have files': "wj_files j' = wj_files j" by (simp add: f(1) c2)
    have bytes': "wj_bytes j' = wj_bytes j2" "wj_eof j' = wj_eof j2" by (simp_all add: f(1))
    have len2: "unat (wj_bytes j2) = length ?data" using ch(2) next_file by simp
    have full: "length (sent_for z bs (current j)) = ?size (current j)" using bytes next_file by simp
    have "final d' (?key i) = Some (sent_for z (bs @ [b]) i) \<and> length (sent_for z (bs @ [b]) i) = ?size i"
      if "i < Suc (current j)" for i
    proof (cases "i = current j")
      case True
      then show ?thesis using stage full by (simp add: f(3) c2 fnum)
    next
      case False
      then have "i < current j" using that by simp
      moreover have "?key i \<noteq> ?key (current j)" using key_neq [OF keys] cur \<open>i < current j\<close> by simp
      ultimately show ?thesis using complete by (simp add: f(3) c2 fnum)
    qed
    moreover have "staging d' (?key (Suc (current j))) = Some (sent_for z (bs @ [b]) (Suc (current j)))"
      using f(2) later [of "Suc (current j)"] by (simp add: c2 fnum)
    moreover have "length (sent_for z (bs @ [b]) (Suc (current j))) = unat (wj_bytes j2)"
      using later [of "Suc (current j)"] by (simp add: fnum len2)
    moreover have "unat (wj_bytes j2) \<le> ?size (Suc (current j))" using ch(3) next_file by (simp add: fnum)
    moreover have "wj_eof j2 \<longrightarrow> unat (wj_bytes j2) = ?size (Suc (current j))"
      using ch(4) next_file by (simp add: fnum)
    moreover have "sent_for z (bs @ [b]) i = []" if "Suc (current j) < i" for i
      using later [of i] that by (simp add: fnum)
    moreover have "unat (wj_finished j') = (\<Sum>i < Suc (current j). ?size i) + unat (wj_bytes j2)"
      using tot finished full bytes by (simp add: f(1) len2)
    ultimately show ?thesis
      using s(1,2) fnum k next_file st by (simp add: progress_def Let_def cur' files' bytes') (simp add: f(1))
  qed
qed

lemma job_write_all_inv:
  assumes "job_write_all z bs (j, d) = Inr (j', d')" and "zstd_read_law z" and "strict_inv z bs0 j d"
  shows "strict_inv z (bs0 @ map snd bs) j' d' \<and> wj_files j' = wj_files j \<and> wj_total j' = wj_total j"
  using assms(1,3)
proof (induction bs arbitrary: j d bs0)
  case (Cons iob bs)
  obtain io b where iob: "iob = (io, b)" by (cases iob)
  from Cons.prems(1) iob obtain j1 d1 where w: "job_write z io b (j, d) = Inr (j1, d1)"
    and r: "job_write_all z bs (j1, d1) = Inr (j', d')" by (auto split: sum.splits)
  have st: "wj_strict j" and keys: "distinct (map entry_key (wj_files j))"
    using Cons.prems(2) by (simp_all add: strict_inv_def)
  have "progress z (bs0 @ [b]) j1 d1 \<and> wj_strict j1 \<and> wj_files j1 = wj_files j \<and> wj_total j1 = wj_total j"
  proof (cases "progress z bs0 j d")
    case True
    then show ?thesis by (rule job_write_progress [OF w assms(2) st keys])
  next
    case False
    then show ?thesis
      using job_write_first [OF w assms(2) st] Cons.prems(2) by (simp add: strict_inv_def)
  qed
  then have "strict_inv z (bs0 @ [b]) j1 d1" "wj_files j1 = wj_files j" "wj_total j1 = wj_total j"
    using keys by (simp_all add: strict_inv_def)
  then show ?case using Cons.IH [OF r, of "bs0 @ [b]"] by (simp add: iob)
qed simp


lemma finalize_entry_Inr:
  assumes "finalize_entry io regular f d = Inr d'"
  shows "\<exists>c. final d' (entry_key f) = Some c \<and> length c = unat (fe_size f)"
    and "final d k = Some c \<Longrightarrow> final d' k = Some c"
  using assms by (auto simp: finalize_entry_def Let_def split: if_splits option.splits)

lemma finalize_entries_Inr:
  assumes "finalize_entries io regular fs d = Inr d'"
  shows "(\<forall>f \<in> set fs. \<exists>c. final d' (entry_key f) = Some c \<and> length c = unat (fe_size f))
    \<and> (\<forall>k c. final d k = Some c \<longrightarrow> final d' k = Some c)"
  using assms
proof (induction fs arbitrary: d)
  case (Cons f fs)
  then obtain d1 where e: "finalize_entry io regular f d = Inr d1" and r: "finalize_entries io regular fs d1 = Inr d'"
    by (auto split: sum.splits)
  show ?case
    using Cons.IH [OF r] finalize_entry_Inr(1) [OF e] finalize_entry_Inr(2) [OF e]
    by (metis set_ConsD)
qed simp

lemma sum_split:
  fixes g :: "nat \<Rightarrow> nat"
  assumes "(\<Sum>i < n. g i) = (\<Sum>i < c. g i) + g c" and "c < n"
  shows "\<forall>i < n. c < i \<longrightarrow> g i = 0"
proof -
  have "(\<Sum>i < n. g i) = (\<Sum>i < Suc c. g i) + (\<Sum>i = Suc c..<n. g i)"
    using sum.atLeastLessThan_concat [of 0 "Suc c" n g] assms(2) by (simp add: atLeast0LessThan)
  then have "(\<Sum>i = Suc c..<n. g i) = 0" using assms(1) by simp
  then show ?thesis by simp
qed

lemma direct_write_final:
  assumes "job_write_all z bs (j, d) = Inr s" and "finalize_direct_write io regular s = Inr (j', d')"
    and "zstd_read_law z" and "wj_strict j" and "fresh_write_job j"
    and "distinct (map entry_key (wj_files j))"
    and "unat (wj_total j) = (\<Sum>i < length (wj_files j). unat (fe_size (wj_files j ! i)))"
    and "i < length (wj_files j)"
  shows "final d' (entry_key (wj_files j ! i)) = Some (sent_for z (map snd bs) i)
    \<and> length (sent_for z (map snd bs) i) = unat (fe_size (wj_files j ! i))"
proof -
  obtain j1 d1 where s: "s = (j1, d1)" by (cases s)
  have "strict_inv z [] j d" using assms(4-6) by (simp add: strict_inv_def)
  from job_write_all_inv [OF assms(1) [unfolded s] assms(3) this]
  have inv: "map snd bs = [] \<and> fresh_write_job j1 \<or> progress z (map snd bs) j1 d1"
    and files: "wj_files j1 = wj_files j" and total: "wj_total j1 = wj_total j"
    by (auto simp: strict_inv_def)
  let ?key = "\<lambda>i. entry_key (wj_files j ! i)" and ?size = "\<lambda>i. unat (fe_size (wj_files j ! i))"
  let ?sent = "sent_for z (map snd bs)"
  have ne: "wj_files j \<noteq> []" using assms(8) by auto
  have ended: "\<not> (0 \<le> sint (wj_file_num j1) \<and> current j1 < length (wj_files j)
      \<and> (wj_bytes j1 \<noteq> fe_size (wj_files j ! current j1) \<or> \<not> wj_eof j1))"
    using assms(2) by (auto simp: s finalize_direct_write_def files current_def split: if_splits)
  have p: "progress z (map snd bs) j1 d1"
    using inv ended ne by (auto simp: fresh_write_job_def current_def)
  then have is_open: "wj_open j1" and nonneg: "0 \<le> sint (wj_file_num j1)" and cur: "current j1 < length (wj_files j)"
    and complete: "\<And>i. i < current j1 \<Longrightarrow> final d1 (?key i) = Some (?sent i) \<and> length (?sent i) = ?size i"
    and stage: "staging d1 (?key (current j1)) = Some (?sent (current j1))"
    and bytes: "length (?sent (current j1)) = unat (wj_bytes j1)"
    and later: "\<And>i. current j1 < i \<Longrightarrow> ?sent i = []"
    and finished: "unat (wj_finished j1) = (\<Sum>i < current j1. ?size i) + unat (wj_bytes j1)"
    by (simp_all add: progress_def Let_def files)
  have full: "unat (wj_bytes j1) = ?size (current j1)" using ended nonneg cur by auto
  from assms(2) ended obtain j2 d2 where w: "finalize_write io j1 d1 = Inr (j2, d2)"
    and t: "wj_finished j2 = wj_total j2" and e: "finalize_entries io regular (wj_files j2) d2 = Inr d'"
    by (auto simp: s finalize_direct_write_def split: if_splits sum.splits)
  note fw = finalize_write_Inr [OF w is_open nonneg cur [folded files]]
  have zero: "\<forall>i < length (wj_files j). current j1 < i \<longrightarrow> ?size i = 0"
    by (rule sum_split) (use finished full t fw(1) assms(7) total cur in simp_all)
  note fe = finalize_entries_Inr [OF e]
  have f2: "wj_files j2 = wj_files j" by (simp add: fw(1) files)
  consider "i < current j1" | "i = current j1" | "current j1 < i" by linarith
  then show ?thesis
  proof cases
    case 1
    have "?key i \<noteq> ?key (current j1)" using key_neq [OF assms(6)] assms(8) cur 1 by simp
    then show ?thesis using complete [OF 1] fe by (simp add: fw(3) files)
  next
    case 2
    then show ?thesis using stage bytes full fe by (simp add: fw(3) files)
  next
    case 3
    have "wj_files j ! i \<in> set (wj_files j2)" using assms(8) by (simp add: f2)
    then obtain c where "final d' (?key i) = Some c" "length c = ?size i" using fe by blast
    then show ?thesis using later [OF 3] zero assms(8) 3 by simp
  qed
qed



definition plain_zstd :: zstd where
  "plain_zstd = \<lparr>zstd_compress = (\<lambda>_. None), zstd_decode_all = Some, zstd_read = (\<lambda>n d. Some (take n d))\<rparr>"

definition good_io :: write_io where
  "good_io = \<lparr>sync_ok = True, rename_ok = True, path_ok = True, create_ok = True, append_ok = True\<rparr>"

definition toy_write_job :: write_job where
  "toy_write_job = \<lparr>wj_id = 7, wj_files = [plain_file ''a'' 2, plain_file ''b'' 0], wj_file_num = 0, wj_open = False,
     wj_total = 2, wj_finished = 0, wj_transferred = 0, wj_strict = True, wj_never_overwrite = True,
     wj_bytes = 0, wj_eof = False\<rparr>"

definition toy_blocks :: "(write_io \<times> transfer_block) list" where
  "toy_blocks = [(good_io, \<lparr>tb_id = 7, tb_file_num = 0, tb_data = [5, 6], tb_compressed = True\<rparr>),
     (good_io, \<lparr>tb_id = 7, tb_file_num = 0, tb_data = [], tb_compressed = False\<rparr>),
     (good_io, \<lparr>tb_id = 7, tb_file_num = 1, tb_data = [], tb_compressed = False\<rparr>)]"

definition empty_disk :: disk where
  "empty_disk = \<lparr>staging = (\<lambda>_. None), final = (\<lambda>_. None)\<rparr>"

definition toy_written :: "write_error + write_job \<times> disk" where
  "toy_written = (case job_write_all plain_zstd toy_blocks (toy_write_job, empty_disk) of
     Inl err \<Rightarrow> Inl err | Inr s \<Rightarrow> finalize_direct_write good_io (\<lambda>_. True) s)"

lemma plain_zstd_law: "zstd_read_law plain_zstd"
  by (auto simp: zstd_read_law_def plain_zstd_def)

lemma toy_keys [simp]: "entry_key (plain_file ''a'' k) = ''a''" "entry_key (plain_file ''b'' k) = ''b''"
  by (simp_all add: entry_key_def plain_file_def norm_path_def separator_def)

lemma toy_size [simp]: "fe_size (plain_file n k) = k"
  by (simp add: plain_file_def)

lemma toy_lookup [simp]: "wj_files toy_write_job ! 0 = plain_file ''a'' 2" "wj_files toy_write_job ! Suc 0 = plain_file ''b'' 0"
  by (simp_all add: toy_write_job_def)


end
