(* ===== verification/Transfer_Read.thy ===== *)
theory Transfer_Read
  imports Transfer_Job
begin

text \<open>
  The sending side of a file transfer (\<open>TransferJob::read\<close>, \<open>open_data_stream\<close>, \<open>confirm\<close> and
  \<open>handle_read_jobs\<close> in \<open>libs/hbb_common/src/fs.rs\<close>).  A generic job reads the files of a path; a printer
  job (\<open>rj_memory\<close>) sends one document from memory.

  What the operating system answers is in \<open>read_io\<close>: whether the source is still the file of the
  manifest, the content it opens, and how many bytes each call of \<open>read\<close> gives (any number up to the
  room that is left, at least one before the end of the file).  The name of the file a job reads is that
  of its entry, or the last component of its path for a single file with an empty name.
\<close>

section \<open>State\<close>

definition BUF_SIZE :: nat where
  "BUF_SIZE = 128 * 1024"

record read_io =
  source_valid :: bool
  opened :: "u8 list option"
  source_still_valid :: bool
  source_identity :: "u64 option"
  source_digest :: "(u64 \<times> u64) option"
  read_sizes :: "nat \<Rightarrow> nat option"
  resume_from :: "u8 list option"

datatype read_error =
    Source_Invalid | Source_Not_Opened | Identity_Missing | Identity_Changed | Digest_Failed | Stream_Missing
  | Read_Failed | Skipped

record read_job =
  rj_id :: i32
  rj_files :: "file_entry list"
  rj_base_name :: string
  rj_file_num :: i32
  rj_is_last_job :: bool
  rj_is_resume :: bool
  rj_stream :: "u8 list option"
  rj_finished :: u64
  rj_transferred :: u64
  rj_detect :: bool
  rj_confirmed :: bool
  rj_skipped :: bool
  rj_waiting :: bool
  rj_strict :: bool
  rj_identities :: "u64 list"
  rj_error :: "read_error option"
  rj_audit_skipped :: bool
  rj_memory :: "u8 list option"

datatype file_message =
    Digest_Message i32 i32 u64 u64 bool
  | Block_Message transfer_block
  | Error_Message i32 read_error i32
  | Done_Message i32 i32

definition get_ext :: "string \<Rightarrow> string" where
  "get_ext name = (if CHR ''.'' \<in> set name then rev (takeWhile (\<lambda>c. c \<noteq> CHR ''.'') (rev name)) else [])"

definition is_compressed_file :: "string \<Rightarrow> bool" where
  "is_compressed_file name =
     (get_ext name \<in> set [''xz'', ''gz'', ''zip'', ''7z'', ''rar'', ''bz2'', ''tgz'', ''png'', ''jpg''])"

definition past_end :: "read_job \<Rightarrow> bool" where
  "past_end j \<longleftrightarrow> sint (rj_file_num j) < 0 \<or> length (rj_files j) \<le> unat (rj_file_num j)"

definition unconfirm :: "read_job \<Rightarrow> read_job" where
  "unconfirm j = j\<lparr>rj_confirmed := False, rj_waiting := False\<rparr>"

section \<open>Reading\<close>

text \<open>\<open>open_data_stream\<close>: the boolean says that there is no file left.\<close>

definition abandon :: "read_error \<Rightarrow> i32 \<Rightarrow> read_job \<Rightarrow> read_job \<times> (read_error + 'a)" where
  "abandon err n j = (unconfirm (j\<lparr>rj_error := Some err, rj_file_num := n\<rparr>), Inl err)"

definition open_data_stream :: "read_io \<Rightarrow> read_job \<Rightarrow> read_job \<times> (read_error + bool)" where
  "open_data_stream io j =
     (if rj_memory j \<noteq> None then
        (if rj_stream j = None then j\<lparr>rj_stream := rj_memory j, rj_memory := Some []\<rparr> else j, Inr False)
      else if past_end j then (j\<lparr>rj_stream := None\<rparr>, Inr True)
      else if rj_stream j \<noteq> None then (j, Inr False)
      else
        let fnum = unat (rj_file_num j);
            give_up = (\<lambda>err. abandon err (of_nat (length (rj_files j))) j)
        in if rj_strict j \<and> \<not> source_valid io then give_up Source_Invalid
           else case opened io of
                  None \<Rightarrow> abandon Source_Not_Opened (rj_file_num j + 1) j
                | Some content \<Rightarrow>
                    if rj_strict j \<and> (\<not> source_still_valid io \<or> source_identity io = None)
                    then give_up Source_Invalid
                    else if rj_strict j \<and> length (rj_identities j) \<le> fnum then give_up Identity_Missing
                    else if rj_strict j \<and> source_identity io \<noteq> Some (rj_identities j ! fnum)
                    then give_up Identity_Changed
                    else (unconfirm (j\<lparr>rj_stream := Some content\<rparr>), Inr False))"

definition init_data_stream :: "read_io \<Rightarrow> read_job \<Rightarrow> read_job \<times> (read_error + file_message list)" where
  "init_data_stream io j =
     (case open_data_stream io j of
        (j, Inl err) \<Rightarrow> (j, Inl err)
      | (j, Inr True) \<Rightarrow> (j, Inr [])
      | (j, Inr False) \<Rightarrow>
          if rj_memory j = None \<and> rj_detect j \<and> \<not> rj_confirmed j \<and> \<not> rj_waiting j then
            (case source_digest io of
               None \<Rightarrow> (j, Inl Digest_Failed)
             | Some (modified, bytes) \<Rightarrow>
                 (j\<lparr>rj_waiting := True\<rparr>,
                  Inr [Digest_Message (rj_id j) (rj_file_num j) modified bytes (rj_is_resume j)]))
          else (j, Inr []))"

text \<open>The loop that fills the buffer.  The \<open>i\<close>-th call of the operating system fails or gives as
  many bytes as it likes: one at least, if any are left, and no more than there is room for.\<close>

function fill :: "(nat \<Rightarrow> nat option) \<Rightarrow> nat \<Rightarrow> u8 list \<Rightarrow> u8 list \<Rightarrow> (u8 list \<times> u8 list) option" where
  "fill sizes i buf rest =
     (case sizes i of
        None \<Rightarrow> None
      | Some k \<Rightarrow>
          let n = min (max 1 k) (min (BUF_SIZE - length buf) (length rest));
              buf' = buf @ take n rest
          in if n = 0 \<or> length buf' = BUF_SIZE then Some (buf', drop n rest)
             else fill sizes (Suc i) buf' (drop n rest))"
  by pat_completeness auto
termination by (relation "measure (\<lambda>(_, _, _, rest). length rest)") auto

declare fill.simps [simp del]

definition source_name :: "read_job \<Rightarrow> string" where
  "source_name j =
     (let name = fe_name (rj_files j ! unat (rj_file_num j)) in
      if length (rj_files j) = 1 \<and> name = [] then rj_base_name j else name)"

text \<open>The data of a block and whether it is compressed.\<close>

definition pack :: "zstd \<Rightarrow> string \<Rightarrow> u8 list \<Rightarrow> u8 list \<times> bool" where
  "pack z name buf =
     (if \<not> is_compressed_file name \<and> length (compress z buf) < length buf then (compress z buf, True)
      else (buf, False))"

definition next_file :: "read_job \<Rightarrow> read_job" where
  "next_file j = unconfirm (j\<lparr>rj_file_num := rj_file_num j + 1, rj_stream := None\<rparr>)"

definition read_block :: "zstd \<Rightarrow> read_io \<Rightarrow> read_job \<Rightarrow> read_job \<times> (read_error + transfer_block option)" where
  "read_block z io j =
     (if rj_memory j = None \<and> rj_detect j \<and> \<not> rj_confirmed j then (j, Inr None)
      else if rj_memory j = None \<and> past_end j then (j\<lparr>rj_stream := None\<rparr>, Inr None)
      else case rj_stream j of
             None \<Rightarrow> (j, Inl Stream_Missing)
           | Some content \<Rightarrow>
               (case fill (read_sizes io) 0 [] content of
                  None \<Rightarrow> (next_file (j\<lparr>rj_error := Some Read_Failed\<rparr>), Inl Read_Failed)
                | Some (buf, rest) \<Rightarrow>
                    if buf = [] \<and> rj_memory j \<noteq> None then (j\<lparr>rj_stream := None\<rparr>, Inr None)
                    else if buf = [] then
                      (next_file j,
                       Inr (Some \<lparr>tb_id = rj_id j, tb_file_num = rj_file_num j, tb_data = [], tb_compressed = False\<rparr>))
                    else
                      let (data, packed) = (if rj_memory j = None then pack z (source_name j) buf else (buf, False)) in
                      (j\<lparr>rj_stream := Some rest, rj_finished := rj_finished j + of_nat (length buf),
                         rj_transferred := rj_transferred j + of_nat (length data)\<rparr>,
                       Inr (Some \<lparr>tb_id = rj_id j, tb_file_num = rj_file_num j, tb_data = data,
                                  tb_compressed = packed\<rparr>))))"

section \<open>Confirmation by the receiver\<close>

definition set_file_confirmed :: "bool \<Rightarrow> read_job \<Rightarrow> read_job" where
  "set_file_confirmed b j = j\<lparr>rj_confirmed := b, rj_skipped := False\<rparr>"

definition set_file_skipped :: "read_job \<Rightarrow> read_job" where
  "set_file_skipped j =
     (let j = set_file_confirmed False (j\<lparr>rj_audit_skipped := True, rj_stream := None\<rparr>) in
      j\<lparr>rj_waiting := False, rj_file_num := rj_file_num j + 1, rj_skipped := True\<rparr>)"

text \<open>\<open>None\<close>: the index of the file list is out of range, which aborts the process.\<close>

definition set_stream_offset :: "read_io \<Rightarrow> i32 \<Rightarrow> u64 \<Rightarrow> read_job \<Rightarrow> read_job option" where
  "set_stream_offset io n offset j =
     (if rj_memory j \<noteq> None then Some j
      else if sint n < 0 \<or> length (rj_files j) \<le> unat n then None
      else case resume_from io of
             None \<Rightarrow> Some j
           | Some content \<Rightarrow>
               Some (j\<lparr>rj_stream := Some (drop (unat offset) content),
                       rj_transferred := rj_transferred j + offset,
                       rj_finished := rj_finished j + offset\<rparr>))"

definition confirm_file :: "read_io \<Rightarrow> i32 \<Rightarrow> confirm_union option \<Rightarrow> read_job \<Rightarrow> read_job option" where
  "confirm_file io n answer j =
     (if rj_file_num j \<noteq> n then Some j
      else case answer of
             Some (Skip s) \<Rightarrow> Some (if s then set_file_skipped j else set_file_confirmed True j)
           | Some (OffsetBlk offset) \<Rightarrow>
               let j = set_file_confirmed True j in
               if 0 < offset then set_stream_offset io n (ucast offset) j else Some j
           | None \<Rightarrow> Some j)"

section \<open>The jobs of a connection\<close>

definition job_skipped :: "read_job \<Rightarrow> bool" where
  "job_skipped j \<longleftrightarrow> rj_skipped j \<and> length (rj_files j) = 1"

definition job_completed :: "read_job \<Rightarrow> bool" where
  "job_completed j \<longleftrightarrow> \<not> rj_detect j \<or> \<not> rj_confirmed j \<and> \<not> rj_waiting j"

definition job_error :: "read_job \<Rightarrow> read_error option" where
  "job_error j = (if job_skipped j then Some Skipped else rj_error j)"

definition audit_succeeded :: "read_job \<Rightarrow> bool" where
  "audit_succeeded j \<longleftrightarrow> \<not> rj_audit_skipped j \<and> rj_error j = None"

fun init_jobs :: "(i32 \<Rightarrow> read_io) \<Rightarrow> read_job list \<Rightarrow> read_job list \<times> file_message list" where
  "init_jobs io [] = ([], [])"
| "init_jobs io (j # js) =
     (let (j', ms) =
            (if rj_is_last_job j then (j, [])
             else case init_data_stream (io (rj_id j)) j of
                    (j, Inr ms) \<Rightarrow> (j, ms)
                  | (j, Inl err) \<Rightarrow> (j, [Error_Message (rj_id j) err (rj_file_num j)]));
          (js', ms') = init_jobs io js
      in (j' # js', ms @ ms'))"

definition get_job :: "i32 \<Rightarrow> read_job list \<Rightarrow> read_job option" where
  "get_job i js = List.find (\<lambda>j. rj_id j = i) js"

fun remove_job :: "i32 \<Rightarrow> read_job list \<Rightarrow> read_job list" where
  "remove_job i [] = []"
| "remove_job i (j # js) = (if rj_id j = i then js else j # remove_job i js)"

text \<open>One job: the first that is not left over from an earlier session.  The result carries the
  outcome (id, complete) of a job that has ended.\<close>

fun read_jobs_once ::
  "zstd \<Rightarrow> (i32 \<Rightarrow> read_io) \<Rightarrow> read_job list \<Rightarrow> read_job list \<times> file_message list \<times> (i32 \<times> bool) option"
where
  "read_jobs_once z io [] = ([], [], None)"
| "read_jobs_once z io (j # js) =
     (if rj_is_last_job j then
        (let (js, ms, out) = read_jobs_once z io js in (j # js, ms, out))
      else
        case read_block z (io (rj_id j)) j of
          (j, Inl err) \<Rightarrow> (j # js, [Error_Message (rj_id j) err (rj_file_num j)], None)
        | (j, Inr (Some b)) \<Rightarrow> (j # js, [Block_Message b], None)
        | (j, Inr None) \<Rightarrow>
            if job_completed j then
              (j # js,
               [case job_error j of
                  Some err \<Rightarrow> Error_Message (rj_id j) err (rj_file_num j)
                | None \<Rightarrow> Done_Message (rj_id j) (rj_file_num j)],
               Some (rj_id j, audit_succeeded j))
            else (j # js, [], None))"

definition handle_read_jobs ::
  "zstd \<Rightarrow> (i32 \<Rightarrow> read_io) \<Rightarrow> read_job list \<Rightarrow> read_job list \<times> file_message list \<times> (i32 \<times> bool) option"
where
  "handle_read_jobs z io js =
     (let (js, ms) = init_jobs io js;
          (js, ms', out) = read_jobs_once z io js
      in ((case out of Some (i, _) \<Rightarrow> remove_job i js | None \<Rightarrow> js), ms @ ms', out))"


section \<open>Short reads do not matter\<close>

lemma fill_general:
  assumes "\<And>i. sizes i \<noteq> None" and "length buf \<le> BUF_SIZE" and "rest = [] \<or> length buf < BUF_SIZE"
  shows "fill sizes i buf rest = Some (buf @ take (BUF_SIZE - length buf) rest, drop (BUF_SIZE - length buf) rest)"
  using assms
proof (induction sizes i buf rest rule: fill.induct)
  case (1 sizes i buf rest)
  obtain k where k: "sizes i = Some k" using "1.prems"(1) [of i] by (cases "sizes i") simp_all
  define room where "room = BUF_SIZE - length buf"
  define n where "n = min (max 1 k) (min room (length rest))"
  have step: "fill sizes i buf rest =
      (if n = 0 \<or> length (buf @ take n rest) = BUF_SIZE then Some (buf @ take n rest, drop n rest)
       else fill sizes (Suc i) (buf @ take n rest) (drop n rest))"
    unfolding n_def room_def by (subst fill.simps) (simp only: k option.case Let_def)
  have n: "n \<le> room" "n \<le> length rest" by (simp_all add: n_def)
  consider "rest = []" | "rest \<noteq> []" "n = room" | "rest \<noteq> []" "n < room" using n(1) by linarith
  then show ?case
  proof cases
    case 1
    then show ?thesis unfolding step by (simp add: n_def)
  next
    case 2
    then show ?thesis unfolding step using n "1.prems"(2) by (simp add: room_def)
  next
    case 3
    then have "0 < n" by (auto simp: n_def room_def min_def max_def split: if_splits)
    moreover have "length buf + n \<noteq> BUF_SIZE" using 3 by (simp add: room_def)
    ultimately have "fill sizes i buf rest = fill sizes (Suc i) (buf @ take n rest) (drop n rest)"
      unfolding step using n by simp
    also have "\<dots> = Some ((buf @ take n rest) @ take (BUF_SIZE - length (buf @ take n rest)) (drop n rest),
        drop (BUF_SIZE - length (buf @ take n rest)) (drop n rest))"
      by (rule "1.IH" [OF k n_def [unfolded room_def] refl]) (use "1.prems" 3 n \<open>0 < n\<close> in \<open>auto simp: room_def\<close>)
    also have "BUF_SIZE - length (buf @ take n rest) = room - n" using n by (simp add: room_def)
    finally show ?thesis
      using 3 by (simp add: take_add [symmetric] room_def [symmetric] flip: append.assoc)
  qed
qed

text \<open>C34 Equivalence of the reading loop with a reference.  However few bytes the operating system
  gives at each call, the block read is the next 128 KiB of the file, or what is left of it.\<close>

theorem short_reads_do_not_matter:
  assumes "\<And>i. sizes i \<noteq> None"
  shows "fill sizes 0 [] content = Some (take BUF_SIZE content, drop BUF_SIZE content)"
  using fill_general [of sizes "[]" content 0] assms by (simp add: BUF_SIZE_def)

section \<open>A job whose source can be read ends, complete\<close>

function chunks :: "u8 list \<Rightarrow> u8 list list" where
  "chunks xs = (if xs = [] then [] else take BUF_SIZE xs # chunks (drop BUF_SIZE xs))"
  by pat_completeness auto
termination by (relation "measure length") (auto simp: BUF_SIZE_def)

declare chunks.simps [simp del]

definition make_block :: "zstd \<Rightarrow> read_job \<Rightarrow> nat \<Rightarrow> u8 list \<Rightarrow> transfer_block" where
  "make_block z j n buf =
     (let (data, packed) = (if buf = [] then ([], False) else pack z (source_name (j\<lparr>rj_file_num := of_nat n\<rparr>)) buf) in
      \<lparr>tb_id = rj_id j, tb_file_num = of_nat n, tb_data = data, tb_compressed = packed\<rparr>)"

definition file_blocks :: "zstd \<Rightarrow> read_job \<Rightarrow> nat \<Rightarrow> u8 list \<Rightarrow> transfer_block list" where
  "file_blocks z j n content = map (make_block z j n) (chunks content) @ [make_block z j n []]"

definition all_blocks :: "zstd \<Rightarrow> read_job \<Rightarrow> (nat \<Rightarrow> u8 list) \<Rightarrow> transfer_block list" where
  "all_blocks z j source = concat (map (\<lambda>n. file_blocks z j n (source n)) [0..<length (rj_files j)])"

text \<open>The ticks of the timer, each with what the operating system answers then.\<close>

fun run_jobs ::
  "zstd \<Rightarrow> (read_job list \<Rightarrow> i32 \<Rightarrow> read_io) list \<Rightarrow> read_job list
    \<Rightarrow> read_job list \<times> file_message list \<times> (i32 \<times> bool) list"
where
  "run_jobs z [] js = (js, [], [])"
| "run_jobs z (h # hs) js =
     (let (js, ms, out) = handle_read_jobs z (h js) js;
          (js, ms', outs) = run_jobs z hs js
      in (js, ms @ ms', (case out of Some r \<Rightarrow> r # outs | None \<Rightarrow> outs)))"

text \<open>The host can read: every file opens with its content, is still the file of the manifest, and no
  read fails.\<close>

definition readable :: "(nat \<Rightarrow> u8 list) \<Rightarrow> read_job \<Rightarrow> read_io \<Rightarrow> bool" where
  "readable source j io \<longleftrightarrow> opened io = Some (source (unat (rj_file_num j))) \<and> (\<forall>i. read_sizes io i \<noteq> None)
     \<and> source_valid io \<and> source_still_valid io \<and> source_identity io = Some (rj_identities j ! unat (rj_file_num j))"

definition host_reads ::
  "(nat \<Rightarrow> u8 list) \<Rightarrow> read_job \<Rightarrow> (read_job list \<Rightarrow> i32 \<Rightarrow> read_io) list \<Rightarrow> bool"
where
  "host_reads source j hs \<longleftrightarrow>
     (\<forall>h \<in> set hs. \<forall>j'. rj_id j' = rj_id j \<longrightarrow> rj_identities j' = rj_identities j \<longrightarrow> readable source j' (h [j'] (rj_id j')))"

definition fresh_read_job :: "read_job \<Rightarrow> bool" where
  "fresh_read_job j \<longleftrightarrow> rj_memory j = None \<and> rj_file_num j = 0 \<and> \<not> rj_is_last_job j \<and> rj_stream j = None \<and> \<not> rj_detect j
     \<and> \<not> rj_skipped j \<and> rj_error j = None \<and> \<not> rj_audit_skipped j
     \<and> length (rj_files j) < 2 ^ 31 \<and> (rj_strict j \<longrightarrow> length (rj_identities j) = length (rj_files j))"

text \<open>The job \<open>j\<close> is at file \<open>i\<close> of the job \<open>j0\<close>, with \<open>content\<close> left to send of it.\<close>

definition reading :: "(nat \<Rightarrow> u8 list) \<Rightarrow> read_job \<Rightarrow> nat \<Rightarrow> u8 list \<Rightarrow> read_job \<Rightarrow> bool" where
  "reading source j0 i content j \<longleftrightarrow>
     rj_memory j = None \<and> i \<le> length (rj_files j0) \<and> rj_file_num j = of_nat i \<and> rj_id j = rj_id j0 \<and> rj_files j = rj_files j0
     \<and> rj_base_name j = rj_base_name j0 \<and> rj_strict j = rj_strict j0 \<and> rj_identities j = rj_identities j0
     \<and> (rj_stream j = Some content \<or> rj_stream j = None \<and> content = source i)
     \<and> \<not> rj_is_last_job j \<and> \<not> rj_detect j \<and> \<not> rj_skipped j \<and> rj_error j = None \<and> \<not> rj_audit_skipped j"

lemma file_num_word:
  assumes "i < 2 ^ 31"
  shows "unat (of_nat i :: i32) = i" and "sint (of_nat i :: i32) = int i"
proof -
  show u: "unat (of_nat i :: i32) = i" using assms by (simp add: unsigned_of_nat take_bit_nat_eq_self)
  show "sint (of_nat i :: i32) = int i"
    using assms by (simp add: signed_of_nat signed_take_bit_eq_if_positive bit_iff_odd take_bit_int_eq_self)
qed

lemma reading_past_end:
  assumes "reading source j0 i content j" and "length (rj_files j0) < 2 ^ 31"
  shows "past_end j \<longleftrightarrow> i = length (rj_files j0)"
  using assms by (auto simp: reading_def past_end_def file_num_word)


lemma init_reading:
  assumes r: "reading source j0 i content j" and n: "length (rj_files j0) < 2 ^ 31" and i: "i < length (rj_files j0)"
    and ids: "rj_strict j0 \<longrightarrow> length (rj_identities j0) = length (rj_files j0)" and io: "readable source j io"
  obtains j' where "init_data_stream io j = (j', Inr [])" "reading source j0 i content j'" "rj_stream j' = Some content"
proof -
  have p: "\<not> past_end j" using reading_past_end [OF r n] i by simp
  have u: "unat (rj_file_num j) = i" using r n i by (simp add: reading_def file_num_word)
  show thesis
  proof (cases "rj_stream j")
    case (Some s)
    then have "init_data_stream io j = (j, Inr [])" using p r by (simp add: init_data_stream_def open_data_stream_def reading_def)
    then show thesis using that r Some by (simp add: reading_def)
  next
    case None
    then have c: "content = source i" using r by (simp add: reading_def)
    let ?j = "unconfirm (j\<lparr>rj_stream := Some (source i)\<rparr>)"
    have "open_data_stream io j = (?j, Inr False)"
      using p None io u ids r i
      by (cases "rj_strict j0") (simp_all add: open_data_stream_def readable_def reading_def)
    then have "init_data_stream io j = (?j, Inr [])"
      using r by (simp add: init_data_stream_def unconfirm_def reading_def)
    moreover have "reading source j0 i content ?j" using r c by (simp add: reading_def unconfirm_def)
    moreover have "rj_stream ?j = Some content" by (simp add: unconfirm_def c)
    ultimately show thesis by (rule that)
  qed
qed

lemma read_reading:
  assumes r: "reading source j0 i content j" and n: "length (rj_files j0) < 2 ^ 31" and i: "i < length (rj_files j0)"
    and s: "rj_stream j = Some content" and io: "\<And>k. read_sizes io k \<noteq> None"
  obtains j' where "read_block z io j = (j', Inr (Some (make_block z j0 i (take BUF_SIZE content))))"
    "reading source j0 (if content = [] then Suc i else i) (if content = [] then source (Suc i) else drop BUF_SIZE content) j'"
proof -
  have p: "\<not> past_end j" using reading_past_end [OF r n] i by simp
  have f: "fill (read_sizes io) 0 [] content = Some (take BUF_SIZE content, drop BUF_SIZE content)"
    using fill_general [of "read_sizes io" "[]" content 0] io by (simp add: BUF_SIZE_def)
  have nm: "source_name j = source_name (j0\<lparr>rj_file_num := of_nat i\<rparr>)"
    using r by (simp add: source_name_def reading_def Let_def)
  have e: "take BUF_SIZE content = [] \<longleftrightarrow> content = []" by (simp add: BUF_SIZE_def)
  have d: "\<not> rj_detect j" "rj_memory j = None" using r by (simp_all add: reading_def)
  show thesis
  proof (cases "content = []")
    case True
    then have "read_block z io j = (next_file j, Inr (Some (make_block z j0 i [])))"
      using p f s d r by (simp add: read_block_def make_block_def reading_def)
    moreover have "reading source j0 (Suc i) (source (Suc i)) (next_file j)"
      using r i by (simp add: reading_def next_file_def unconfirm_def add.commute)
    ultimately show thesis using that True by simp
  next
    case False
    obtain data packed where pk: "pack z (source_name j) (take BUF_SIZE content) = (data, packed)" by fastforce
    let ?j = "j\<lparr>rj_stream := Some (drop BUF_SIZE content),
        rj_finished := rj_finished j + of_nat (length (take BUF_SIZE content)),
        rj_transferred := rj_transferred j + of_nat (length data)\<rparr>"
    have "make_block z j0 i (take BUF_SIZE content)
        = \<lparr>tb_id = rj_id j, tb_file_num = rj_file_num j, tb_data = data, tb_compressed = packed\<rparr>"
      using False e pk r by (simp add: make_block_def nm [symmetric]) (simp add: reading_def)
    then have "read_block z io j = (?j, Inr (Some (make_block z j0 i (take BUF_SIZE content))))"
      using p f s d False e pk by (simp add: read_block_def)
    moreover have "reading source j0 i (drop BUF_SIZE content) ?j" using r by (simp add: reading_def)
    ultimately show thesis using that False by simp
  qed
qed

lemma tick_block:
  assumes "reading source j0 i content j" and "length (rj_files j0) < 2 ^ 31" and "i < length (rj_files j0)"
    and "rj_strict j0 \<longrightarrow> length (rj_identities j0) = length (rj_files j0)"
    and "readable source j (h (rj_id j))"
  obtains j' where "handle_read_jobs z h [j] = ([j'], [Block_Message (make_block z j0 i (take BUF_SIZE content))], None)"
    "reading source j0 (if content = [] then Suc i else i) (if content = [] then source (Suc i) else drop BUF_SIZE content) j'"
proof -
  obtain j1 where 1: "init_data_stream (h (rj_id j)) j = (j1, Inr [])" "reading source j0 i content j1" "rj_stream j1 = Some content"
    by (rule init_reading [OF assms])
  have io: "\<And>k. read_sizes (h (rj_id j)) k \<noteq> None" using assms(5) by (simp add: readable_def)
  obtain j2 where 2: "read_block z (h (rj_id j)) j1 = (j2, Inr (Some (make_block z j0 i (take BUF_SIZE content))))"
    "reading source j0 (if content = [] then Suc i else i) (if content = [] then source (Suc i) else drop BUF_SIZE content) j2"
    by (rule read_reading [OF 1(2) assms(2,3) 1(3) io])
  have "rj_id j1 = rj_id j" "\<not> rj_is_last_job j" "\<not> rj_is_last_job j1" using 1(2) assms(1) by (simp_all add: reading_def)
  then have "handle_read_jobs z h [j] = ([j2], [Block_Message (make_block z j0 i (take BUF_SIZE content))], None)"
    by (simp add: handle_read_jobs_def 1(1) 2(1))
  then show thesis using 2(2) that by blast
qed

lemma tick_done:
  assumes "reading source j0 (length (rj_files j0)) content j" and "length (rj_files j0) < 2 ^ 31"
  shows "handle_read_jobs z h [j] =
    ([], [Done_Message (rj_id j0) (of_nat (length (rj_files j0)))], Some (rj_id j0, True))"
proof -
  have "past_end j" using reading_past_end [OF assms] by simp
  then show ?thesis
    using assms(1) by (simp add: handle_read_jobs_def init_data_stream_def open_data_stream_def read_block_def
        reading_def past_end_def job_completed_def job_error_def job_skipped_def audit_succeeded_def)
qed

text \<open>What is left to send.\<close>

definition blocks_left :: "zstd \<Rightarrow> read_job \<Rightarrow> (nat \<Rightarrow> u8 list) \<Rightarrow> nat \<Rightarrow> u8 list \<Rightarrow> transfer_block list" where
  "blocks_left z j source i content =
     (if i < length (rj_files j)
      then file_blocks z j i content
        @ concat (map (\<lambda>n. file_blocks z j n (source n)) [Suc i..<length (rj_files j)])
      else [])"

lemma blocks_left_step:
  assumes "i < length (rj_files j)"
  shows "blocks_left z j source i content = make_block z j i (take BUF_SIZE content)
    # blocks_left z j source (if content = [] then Suc i else i)
        (if content = [] then source (Suc i) else drop BUF_SIZE content)"
proof (cases "content = []")
  case True
  then show ?thesis
    using assms by (cases "Suc i < length (rj_files j)")
      (simp_all add: blocks_left_def file_blocks_def chunks.simps [of "[]"] upt_conv_Cons)
next
  case False
  then show ?thesis using assms by (simp add: blocks_left_def file_blocks_def chunks.simps [of content])
qed

lemma run_jobs_Nil [simp]: "run_jobs z hs [] = ([], [], [])"
  by (induction hs) (simp_all add: handle_read_jobs_def)

lemma run_reading:
  assumes "reading source j0 i content j" and n: "length (rj_files j0) < 2 ^ 31"
    and ids: "rj_strict j0 \<longrightarrow> length (rj_identities j0) = length (rj_files j0)"
    and hs: "\<And>h j. h \<in> set hs \<Longrightarrow> rj_id j = rj_id j0 \<Longrightarrow> rj_identities j = rj_identities j0 \<Longrightarrow> readable source j (h [j] (rj_id j))"
    and "length (blocks_left z j0 source i content) < length hs"
  shows "run_jobs z hs [j] = ([], map Block_Message (blocks_left z j0 source i content)
      @ [Done_Message (rj_id j0) (of_nat (length (rj_files j0)))], [(rj_id j0, True)])"
  using assms(1,4,5)
proof (induction hs arbitrary: i content j)
  case (Cons h hs)
  have r: "readable source j (h [j] (rj_id j))" using Cons.prems(1,2) by (simp add: reading_def)
  show ?case
  proof (cases "i < length (rj_files j0)")
    case True
    obtain j' where t: "handle_read_jobs z (h [j]) [j] = ([j'], [Block_Message (make_block z j0 i (take BUF_SIZE content))], None)"
      "reading source j0 (if content = [] then Suc i else i) (if content = [] then source (Suc i) else drop BUF_SIZE content) j'"
      by (rule tick_block [where h = "h [j]", OF Cons.prems(1) n True ids r])
    note b = blocks_left_step [OF True, of z source content]
    show ?thesis
      using Cons.IH [OF t(2)] Cons.prems(2,3) by (simp add: t(1) b del: if_split)
  next
    case False
    then have i: "i = length (rj_files j0)" using Cons.prems(1) by (simp add: reading_def)
    show ?thesis using tick_done [OF Cons.prems(1) [unfolded i] n] by (simp add: i blocks_left_def)
  qed
qed simp

lemma run_fresh_job:
  assumes "fresh_read_job j"
    and "host_reads source j hs"
    and "length (all_blocks z j source) < length hs"
  shows "run_jobs z hs [j] = ([], map Block_Message (all_blocks z j source)
      @ [Done_Message (rj_id j) (of_nat (length (rj_files j)))], [(rj_id j, True)])"
proof -
  have r: "reading source j 0 (source 0) j" using assms(1) by (simp add: fresh_read_job_def reading_def)
  have b: "blocks_left z j source 0 (source 0) = all_blocks z j source"
    by (cases "rj_files j") (simp_all add: blocks_left_def all_blocks_def upt_conv_Cons del: upt_Suc)
  show ?thesis
    using run_reading [OF r, of hs z] assms by (simp add: b fresh_read_job_def host_reads_def)
qed



definition toy_read_job :: read_job where
  "toy_read_job = \<lparr>rj_id = 7, rj_files = [plain_file ''a'' 2, plain_file ''b'' 0], rj_base_name = ''root'', rj_file_num = 0,
     rj_is_last_job = False, rj_is_resume = False, rj_stream = None, rj_finished = 0, rj_transferred = 0,
     rj_detect = False, rj_confirmed = False, rj_skipped = False, rj_waiting = False, rj_strict = True,
     rj_identities = [11, 12], rj_error = None, rj_audit_skipped = False,
     rj_memory = None\<rparr>"

definition toy_source :: "nat \<Rightarrow> u8 list" where
  "toy_source n = (if n = 0 then [5, 6] else [])"

text \<open>A host whose reads give one byte at a time.\<close>

definition toy_host :: "read_job list \<Rightarrow> i32 \<Rightarrow> read_io" where
  "toy_host js i = (let n = unat (rj_file_num (hd js)) in
     \<lparr>source_valid = True, opened = Some (toy_source n), source_still_valid = True,
      source_identity = Some (rj_identities (hd js) ! n), source_digest = None, read_sizes = (\<lambda>_. Some 1),
      resume_from = None\<rparr>)"

text \<open>A compressor that knows one pair of bytes.\<close>

definition tiny_zstd :: zstd where
  "tiny_zstd =
     (let dec = (\<lambda>c. case c of [] \<Rightarrow> None | x # d \<Rightarrow> if x = 0 then Some [5, 6] else Some d) in
      \<lparr>zstd_compress = (\<lambda>d. Some (if d = [5, 6] then [0] else 1 # d)), zstd_decode_all = dec,
       zstd_read = (\<lambda>n c. map_option (take n) (dec c))\<rparr>)"

lemma toy_host_reads: "host_reads toy_source toy_read_job (replicate n toy_host)"
  by (simp add: host_reads_def readable_def toy_host_def Let_def)

lemma toy_fresh: "fresh_read_job toy_read_job"
  by (simp add: fresh_read_job_def toy_read_job_def)

lemma toy_all_blocks: "all_blocks tiny_zstd toy_read_job toy_source =
    [\<lparr>tb_id = 7, tb_file_num = 0, tb_data = [0], tb_compressed = True\<rparr>,
     \<lparr>tb_id = 7, tb_file_num = 0, tb_data = [], tb_compressed = False\<rparr>,
     \<lparr>tb_id = 7, tb_file_num = 1, tb_data = [], tb_compressed = False\<rparr>]"
  by (simp add: all_blocks_def file_blocks_def chunks.simps make_block_def pack_def compress_def source_name_def
      is_compressed_file_def get_ext_def tiny_zstd_def toy_read_job_def toy_source_def plain_file_def BUF_SIZE_def Let_def)


theorem short_reads_do_not_matter_witness:
  "fill (\<lambda>_. Some 1) 0 [] [5, 6, 7] = Some ([5, 6, 7], [])"
  using short_reads_do_not_matter [of "\<lambda>_. Some 1" "[5, 6, 7]"] by (simp add: BUF_SIZE_def)

section \<open>Confirmations that abort\<close>

text \<open>Confirming past the end.  The receiver's answer aborts the sending process exactly when it gives a
  resume offset for the current file number of a job over a path and that number is not one of a file: before its first file
  of an empty job, after its last file, or for a job that was asked to start outside its list.\<close>

theorem confirm_aborts_past_end:
  "confirm_file io n answer j = None \<longleftrightarrow>
    rj_file_num j = n \<and> rj_memory j = None \<and> past_end j \<and> (\<exists>offset. 0 < offset \<and> answer = Some (OffsetBlk offset))"
  by (auto simp: confirm_file_def set_stream_offset_def set_file_confirmed_def past_end_def Let_def
      split: option.splits confirm_union.splits if_splits)

lemma failed_compression_sends_nothing:
  assumes "zstd_compress z buf = None" and "buf \<noteq> []" and "\<not> is_compressed_file name"
  shows "pack z name buf = ([], True)"
  using assms by (simp add: pack_def compress_def)

end
