(* ===== verification/Session_State.thy ===== *)
theory Session_State
  imports Login_Guard Transfer_Read
begin

text \<open>
  The state of an authorized connection (\<open>src/server/connection.rs\<close>), what its handlers ask of their
  surroundings and do to them, and the predicates that read the permissions: what the user of the
  controlled machine grants (\<open>permissions\<close>, switched by the connection manager) and what the peer gives
  up (\<open>peer_options\<close>, the \<open>disable_*\<close> options).

  \<open>subs\<close> is the connection's part of the server's service table, \<open>sent\<close> what the handlers did towards
  the outside, in order: video quality, privacy mode, input, files, messages to the manager and to the
  peer.
\<close>

section \<open>State\<close>

datatype service_name =
    NAME_CURSOR | NAME_POS | NAME_WINDOW_FOCUS | CLIPBOARD_SERVICE | AUDIO_SERVICE | PRIMARY_VIDEO_SERVICE

datatype rdev_key =
    KeyV | KeyInsert | ControlLeft | ControlRight | ShiftLeft | ShiftRight | MetaLeft | MetaRight
  | KeyAlt | KeyAltGr | Rdev_Other nat

datatype file_direction = Upload | Download

datatype transfer_mode = FileManager | RemoteDrop | RemoteDirectDownload

record pending_audit =
  pa_direction :: file_direction
  pa_mode :: transfer_mode
  pa_path :: string
  pa_files :: "(string \<times> int) list"
  pa_finished :: bool

datatype fs_request =
    Fs_ReadEmptyDirs string bool
  | Fs_ReadDir string bool
  | Fs_RemoveDir string i32 bool
  | Fs_RemoveFile string i32 i32
  | Fs_CreateDir string i32
  | Fs_NewWrite string i32 i32 "(string \<times> u64) list" bool u64
  | Fs_CancelWrite i32
  | Fs_WriteBlock i32 i32 "u8 list" bool
  | Fs_WriteDone i32 i32
  | Fs_WriteError i32 i32 string
  | Fs_CheckDigest i32 i32 u64 u64 bool
  | Fs_SendConfirm i32 i32 "confirm_union option"
  | Fs_Rename i32 string string

text \<open>\<open>ClipboardFile\<close>: what the clipboard of the host sends (payloads included).  \<open>host_message\<close>: what its services send.\<close>

datatype clip_file =
    CF_FileStream file_stream_msg
  | CF_NotifyCallback string string string
  | CF_MonitorReady
  | CF_FormatList "(i32 \<times> string) list"
  | CF_FormatListResponse i32
  | CF_FormatDataRequest i32
  | CF_FormatDataResponse i32 "u8 list"
  | CF_FileContentsRequest "i32 list" bool
  | CF_FileContentsResponse i32 i32 "u8 list"
  | CF_TryEmpty
  | CF_Files "(string \<times> u64) list" i32

datatype host_message =
    Stop_Service
  | Peer_Info
  | Clipboard_Out clipboard_msg
  | Multi_Clipboards_Out "clipboard_msg list" "clipboard_msg list option"
  | Audio_Out "u8 list"
  | Service_Out "u8 list"

text \<open>Effects, by the component they go to.\<close>

datatype video_effect =
    User_Image_Quality i32
  | User_Custom_Fps u32
  | User_Auto_Adjust_Fps u32
  | User_Record bool
  | Update_Decoding "u8 list"
  | Refresh_Video "i32 option"
  | Frame_Fetched
  | Take_Screenshot i32 string
  | Switch_Service u64 u64 bool
  | Capture "i32 list" "i32 list" "i32 list"
  | Sub_Camera
  | Network_Delay int
  | Delay_Response_Elapsed int

datatype input_effect =
    Input_Block bool
  | Input_Mouse mouse_event bool bool
  | Input_Pointer "u8 list"
  | Input_Key key_event bool

datatype cm_effect =
    Cm_Clipboard_File_Enabled bool
  | Cm_Clipboard_File cliprdr
  | Cm_Chat string
  | Cm_Voice_Call_Incoming
  | Cm_Start_Voice_Call
  | Cm_Close_Voice_Call
  | Cm_File_Log string string
  | Cm_Disconnected bool
  | Cm_Show_Elevation bool

datatype audit_effect =
    Clipboard_Audit "clipboard_msg list"
  | Clipboard_Synced_Audit "clipboard_msg list"
  | Clipboard_Files_Audit "(string \<times> u64) list" i32
  | Clipboard_Files_Synced "(string \<times> u64) list" i32
  | File_Audit file_direction string "(string \<times> int) list"
  | File_Outcome pending_audit "nat option" "(string \<times> int) list" string

datatype peer_effect =
    Block_Input_Error bool
  | Message_Box string
  | Send_Permission string bool
  | File_Error i32 string i32
  | File_Dir i32 string "file_entry list"
  | Stream_Refused file_stream_msg
  | Display_Changed u64
  | Elevation_Response string
  | Test_Delay bool
  | Close_Reason string
  | Chat_To_Peer string
  | Open_File_Transfer string string
  | Auto_Disconnect_Status bool nat nat
  | Printer_Request string
  | Direct_Receive i32 string bool "file_entry list" "string list" u64
  | Raw_To_Peer "file_response option"
  | Clip_To_Peer clip_file
  | Service_To_Peer host_message
  | Portable_Running bool
  | Uac bool
  | Foreground_Elevated bool
  | Printing_Disallowed
  | Privacy_Mode_State nat string
  | Switch_Back
  | Job_Messages "file_message list"
  | Voice_Call_Ended
  | Voice_Call_Response i64 bool

datatype host_effect =
    Turn_On_Privacy string
  | Turn_Off_Privacy string
  | Set_Service_Persistent string bool
  | Register_Whiteboard bool
  | Whiteboard_Message string
  | Update_Clipboard "clipboard_msg list"
  | Plug_Virtual_Display i32 bool
  | Log_Analysis string
  | Reboot
  | Elevate elevation_request
  | Play_Audio_Format u32 u32
  | Play_Audio "u8 list"
  | Run_Switch_Sides "u8 list"
  | Set_Resolution u64 i32 i32
  | Connect_User_Session u32
  | Terminal_Request "u8 list"
  | Process_Aborted
  | Lock_Screen
  | Reset_Voice_Input
  | Default_Voice_Input
  | Check_Remove_Session
  | Start_Portable
  | Update_Temporary_Password
  | Conn_Closed_Audit
  | Remove_Connection

datatype effect =
    Video video_effect
  | Input input_effect
  | Cm cm_effect
  | Audit audit_effect
  | Peer peer_effect
  | Fs fs_request
  | Host host_effect

text \<open>The fields of \<open>Connection\<close> in groups: what the controlled user granted, what the peer chose, the
  state of input, and that of file transfer.  \<open>login\<close> is the part the login handlers own.\<close>

record permissions =
  keyboard :: bool
  clipboard :: bool
  audio :: bool
  file_perm :: bool
  restart :: bool
  recording :: bool
  block_input :: bool

record peer_options =
  disable_audio :: bool
  enable_file_transfer :: bool
  disable_clipboard :: bool
  disable_keyboard :: bool
  lock_after_session_end :: bool
  show_remote_cursor :: bool
  follow_remote_cursor :: bool
  follow_remote_window :: bool
  show_my_cursor :: bool

record input_state =
  pressed_modifiers :: "rdev_key set"
  v_down :: bool
  insert_down :: bool
  last_clipboard_audit_for_paste :: "(int \<times> clipboard_msg list) option"

record transfer_state =
  delayed_read_dir :: "(string \<times> bool) option"
  last_remote_drop_recv_at :: "int option"
  device_remote_jobs :: "i32 set"
  read_jobs :: "read_job list"
  printer_data :: "(int \<times> string \<times> u8 list) list"
  pending_file_audits :: "i32 \<Rightarrow> pending_audit option"
  audit_context :: "(string \<times> string) option"
  audit_protocol :: u32
  supports_direct_file_receive :: bool
  audit_file_url :: string
  audit_conn_url :: string
  file_transferred :: bool
  removed_at :: int
  removed_files :: "(i32 \<times> string) list"
  removed_dirs :: "(i32 \<times> string) list"

record portable_state =
  last_running :: "bool option"
  last_uac :: bool
  last_foreground_elevated :: bool

record session_conn =
  login :: conn
  authed_conn_type :: "auth_conn_type option"
  perms :: permissions
  opts :: peer_options
  inp :: input_state
  xfer :: transfer_state
  portable :: portable_state
  services_subed :: bool
  voice_calling :: bool
  voice_call_request_timestamp :: "i64 option"
  audio_sender :: bool
  chat_unanswered :: bool
  auto_disconnect_timer :: "(int \<times> u64) option"
  last_test_delay :: "int option"
  scope_violation_messages :: "string set"
  display_idx :: u64
  multi_ui_session :: bool
  subs :: "service_name set"
  sent :: "effect list"
  closed :: bool

text \<open>\<open>DirectTransferManifest\<close>\<close>

record direct_manifest =
  dm_root :: string
  dm_is_directory :: bool
  dm_files :: "file_entry list"
  dm_empty_dirs :: "string list"
  dm_total :: u64
  dm_identities :: "u64 list"

text \<open>What the handlers ask of the machine, the configuration and libraries.\<close>

record session_env =
  server_alive :: bool
  builtin_option :: "string \<Rightarrow> string"
  at_ms :: int
  win10 :: bool
  login_screen :: bool
  rdev_of_scancode :: "u32 \<Rightarrow> rdev_key"
  recursive_files :: "string \<Rightarrow> bool \<Rightarrow> string + file_entry list"
  read_source :: "file_action \<Rightarrow> u8 list option \<Rightarrow> string + file_entry list"
  downloads_found :: bool
  path_file_name :: "string \<Rightarrow> string option"
  path_parent :: "string \<Rightarrow> string option"
  confirm_io :: "i32 \<Rightarrow> read_io"
  current_process_sid :: "u32 option"
  available_sids :: "u32 list"
  installed :: bool
  portable_running :: bool
  portable_error :: "elevation_request \<Rightarrow> string"
  uac_running :: bool
  foreground_elevated :: bool
  privacy_by_conn :: bool
  subbed_displays :: nat
  display_info :: "u64 \<Rightarrow> bool"
  config_option :: "string \<Rightarrow> string"
  config_bool :: "string \<Rightarrow> bool"
  time_text :: string
  codec_of_blocks :: zstd
  path_is_absolute :: "string \<Rightarrow> bool"
  direct_source :: "string \<Rightarrow> direct_manifest option"
  identity_size :: "u64 \<Rightarrow> u64"
  next_direct_id :: i32
  lower_case :: "string \<Rightarrow> string"
  share_rdp :: bool
  non_port_forward_conn_count :: nat

definition emit :: "effect \<Rightarrow> session_conn \<Rightarrow> session_conn" where
  "emit e c = c\<lparr>sent := sent c @ [e]\<rparr>"

text \<open>\<open>Server::subscribe\<close> for this connection.\<close>

definition subscribe :: "session_env \<Rightarrow> service_name \<Rightarrow> bool \<Rightarrow> session_conn \<Rightarrow> session_conn" where
  "subscribe e name sub c =
     (if server_alive e then c\<lparr>subs := (if sub then insert name (subs c) else subs c - {name})\<rparr> else c)"

definition is_authed_remote_conn :: "session_conn \<Rightarrow> bool" where
  "is_authed_remote_conn c \<longleftrightarrow> authed_conn_type c = Some Remote"

definition is_authed_view_camera_conn :: "session_conn \<Rightarrow> bool" where
  "is_authed_view_camera_conn c \<longleftrightarrow> authed_conn_type c = Some ViewCameraConn"

definition should_handle_render_broadcast_message :: "session_conn \<Rightarrow> bool" where
  "should_handle_render_broadcast_message c \<longleftrightarrow> authed_conn_type c \<in> {Some Remote, Some ViewCameraConn}"

definition should_handle_text_clipboard_message :: "session_conn \<Rightarrow> bool" where
  "should_handle_text_clipboard_message c \<longleftrightarrow> authed_conn_type c = Some Remote"

definition is_remote :: "session_conn \<Rightarrow> bool" where
  "is_remote c \<longleftrightarrow> file_transfer (login c) = None \<and> \<not> port_forward_socket (login c)
     \<and> \<not> view_camera (login c) \<and> \<not> terminal (login c)"

definition peer_keyboard_enabled :: "session_conn \<Rightarrow> bool" where
  "peer_keyboard_enabled c \<longleftrightarrow> keyboard (perms c) \<and> \<not> disable_keyboard (opts c)"

definition clipboard_enabled :: "session_conn \<Rightarrow> bool" where
  "clipboard_enabled c \<longleftrightarrow> clipboard (perms c) \<and> \<not> disable_clipboard (opts c)"

definition can_sub_clipboard_service :: "session_env \<Rightarrow> session_conn \<Rightarrow> bool" where
  "can_sub_clipboard_service e c \<longleftrightarrow>
     clipboard_enabled c \<and> peer_keyboard_enabled c
     \<and> builtin_option e ''one-way-clipboard-redirection'' \<noteq> ''Y''"

definition audio_enabled :: "session_conn \<Rightarrow> bool" where
  "audio_enabled c \<longleftrightarrow> audio (perms c) \<and> \<not> disable_audio (opts c)"

definition file_transfer_enabled :: "session_conn \<Rightarrow> bool" where
  "file_transfer_enabled c \<longleftrightarrow> file_perm (perms c) \<and> enable_file_transfer (opts c)"

definition remote_drop_file_transfer_enabled :: "session_conn \<Rightarrow> bool" where
  "remote_drop_file_transfer_enabled c \<longleftrightarrow> file_perm (perms c) \<and> enable_file_transfer (opts c)"

text \<open>The idle limit, in minutes.\<close>

definition DEFAULT_AUTO_DISCONNECT_TIMEOUT_MINUTES :: u64 where
  "DEFAULT_AUTO_DISCONNECT_TIMEOUT_MINUTES = 10"

definition normalize_auto_disconnect_timeout :: "string \<Rightarrow> u64" where
  "normalize_auto_disconnect_timeout v =
     (case parse_unsigned 64 10 v of
        Some mins \<Rightarrow>
          if 10 \<le> mins \<and> mins \<le> 60 \<and> mins mod 10 = 0 then of_nat mins else DEFAULT_AUTO_DISCONNECT_TIMEOUT_MINUTES
      | None \<Rightarrow> DEFAULT_AUTO_DISCONNECT_TIMEOUT_MINUTES)"

definition get_auto_disconnect_timeout :: "session_env \<Rightarrow> u64 option" where
  "get_auto_disconnect_timeout e =
     (if config_option e ''allow-auto-disconnect'' = ''Y''
      then Some (normalize_auto_disconnect_timeout (config_option e ''auto-disconnect-timeout'')) else None)"

definition update_auto_disconnect_timer :: "session_env \<Rightarrow> session_conn \<Rightarrow> session_conn" where
  "update_auto_disconnect_timer e c =
     c\<lparr>auto_disconnect_timer := map_option (\<lambda>(_, m). (at_ms e, m)) (auto_disconnect_timer c)\<rparr>"


lemma emit_sel [simp]:
  "login (emit x c) = login c" "authed_conn_type (emit x c) = authed_conn_type c" "perms (emit x c) = perms c"
  "opts (emit x c) = opts c" "inp (emit x c) = inp c" "xfer (emit x c) = xfer c"
  "services_subed (emit x c) = services_subed c" "voice_calling (emit x c) = voice_calling c"
  "subs (emit x c) = subs c" "sent (emit x c) = sent c @ [x]" "audio_sender (emit x c) = audio_sender c"
  by (simp_all add: emit_def)

lemma subscribe_sel [simp]:
  "login (subscribe e n b c) = login c" "authed_conn_type (subscribe e n b c) = authed_conn_type c"
  "perms (subscribe e n b c) = perms c" "opts (subscribe e n b c) = opts c" "inp (subscribe e n b c) = inp c"
  "xfer (subscribe e n b c) = xfer c" "services_subed (subscribe e n b c) = services_subed c"
  "voice_calling (subscribe e n b c) = voice_calling c" "sent (subscribe e n b c) = sent c"
  by (simp_all add: subscribe_def)

lemma subscribe_subs:
  "server_alive e \<Longrightarrow> n' \<in> subs (subscribe e n b c) \<longleftrightarrow> (if n' = n then b else n' \<in> subs c)"
  by (auto simp: subscribe_def)

lemma perm_emit [simp]:
  "peer_keyboard_enabled (emit x c) = peer_keyboard_enabled c"
  "clipboard_enabled (emit x c) = clipboard_enabled c"
  "can_sub_clipboard_service e (emit x c) = can_sub_clipboard_service e c"
  "audio_enabled (emit x c) = audio_enabled c"
  "file_transfer_enabled (emit x c) = file_transfer_enabled c"
  "is_authed_view_camera_conn (emit x c) = is_authed_view_camera_conn c"
  "is_remote (emit x c) = is_remote c"
  by (simp_all add: peer_keyboard_enabled_def clipboard_enabled_def can_sub_clipboard_service_def
      audio_enabled_def file_transfer_enabled_def is_authed_view_camera_conn_def is_remote_def)

lemma perm_subscribe [simp]:
  "peer_keyboard_enabled (subscribe e' n b c) = peer_keyboard_enabled c"
  "clipboard_enabled (subscribe e' n b c) = clipboard_enabled c"
  "can_sub_clipboard_service e (subscribe e' n b c) = can_sub_clipboard_service e c"
  "audio_enabled (subscribe e' n b c) = audio_enabled c"
  "is_authed_view_camera_conn (subscribe e' n b c) = is_authed_view_camera_conn c"
  "is_remote (subscribe e' n b c) = is_remote c"
  by (simp_all add: peer_keyboard_enabled_def clipboard_enabled_def can_sub_clipboard_service_def
      audio_enabled_def is_authed_view_camera_conn_def is_remote_def)

end
