(* ===== verification/Session_Perms.thy ===== *)
theory Session_Perms
  imports Session_State
begin

text \<open>
  How the permissions of a connection change and what follows from a change
  (\<open>src/server/connection.rs\<close>): the options a peer sends (\<open>update_options\<close>, behind the filter of
  \<open>Session_Scope\<close>), the switches of the connection manager (\<open>ipc::Data::SwitchPermission\<close>) and the
  subscription to the services of the desktop after the logon (\<open>try_sub_monitor_services\<close>).

  The services named here are registered on every desktop build, so \<open>Server::subscribe\<close> finds them.
\<close>

text \<open>\<open>Ok(q)\<close> with \<open>q != NotSet\<close>, as the switch it sets.\<close>

definition chosen :: "i32 \<Rightarrow> bool option" where
  "chosen n = (case bool_option_value n of
                 Some BoolOption_Yes \<Rightarrow> Some True
               | Some BoolOption_No \<Rightarrow> Some False
               | _ \<Rightarrow> None)"

definition options_video :: "option_message \<Rightarrow> session_conn \<Rightarrow> session_conn" where
  "options_video opt c0 =
     (let c = (case image_quality_value (o_image_quality opt) of
                 Some q \<Rightarrow>
                   let n = (if q = ImageQuality_NotSet
                            then (if 0 < sint (o_custom_image_quality opt) then o_custom_image_quality opt else - 1)
                            else o_image_quality opt)
                   in if 0 < sint n then emit (Video (User_Image_Quality n)) c0 else c0
               | None \<Rightarrow> c0);
          c = (if 0 < sint (o_custom_fps opt)
               then emit (Video (User_Custom_Fps (ucast (o_custom_fps opt)))) c else c)
      in case o_supported_decoding opt of
           Some q \<Rightarrow> emit (Video (Update_Decoding q)) c
         | None \<Rightarrow> c)"

text \<open>Apply a change if the option chooses one.\<close>

definition when_chosen :: "i32 \<Rightarrow> (bool \<Rightarrow> session_conn \<Rightarrow> session_conn) \<Rightarrow> session_conn \<Rightarrow> session_conn" where
  "when_chosen n f c = (case chosen n of Some b \<Rightarrow> f b c | None \<Rightarrow> c)"

definition set_lock_after_session_end :: "bool \<Rightarrow> session_conn \<Rightarrow> session_conn" where
  "set_lock_after_session_end b c = c\<lparr>opts := (opts c)\<lparr>lock_after_session_end := b\<rparr>\<rparr>"

definition set_show_remote_cursor :: "session_env \<Rightarrow> bool \<Rightarrow> session_conn \<Rightarrow> session_conn" where
  "set_show_remote_cursor e b c0 =
     (let c = c0\<lparr>opts := (opts c0)\<lparr>show_remote_cursor := b\<rparr>\<rparr>;
          c = subscribe e NAME_CURSOR (peer_keyboard_enabled c \<or> show_remote_cursor (opts c)) c
      in subscribe e NAME_POS (show_remote_cursor (opts c)) c)"

definition set_follow_remote_cursor :: "bool \<Rightarrow> session_conn \<Rightarrow> session_conn" where
  "set_follow_remote_cursor b c = c\<lparr>opts := (opts c)\<lparr>follow_remote_cursor := b\<rparr>\<rparr>"

definition set_follow_remote_window :: "session_env \<Rightarrow> bool \<Rightarrow> session_conn \<Rightarrow> session_conn" where
  "set_follow_remote_window e b c0 =
     (let c = c0\<lparr>opts := (opts c0)\<lparr>follow_remote_window := b\<rparr>\<rparr>
      in subscribe e NAME_WINDOW_FOCUS (follow_remote_window (opts c)) c)"

definition options_cursor :: "session_env \<Rightarrow> option_message \<Rightarrow> session_conn \<Rightarrow> session_conn" where
  "options_cursor e opt c =
     when_chosen (o_follow_remote_window opt) (set_follow_remote_window e)
       (when_chosen (o_follow_remote_cursor opt) set_follow_remote_cursor
         (when_chosen (o_show_remote_cursor opt) (set_show_remote_cursor e)
           (when_chosen (o_lock_after_session_end opt) set_lock_after_session_end c)))"

text \<open>The audio service after a change: in a camera session it carries only a voice call.\<close>

definition audio_changed :: "session_env \<Rightarrow> session_conn \<Rightarrow> session_conn" where
  "audio_changed e c =
     (if is_authed_view_camera_conn c
      then (if voice_calling c \<or> \<not> audio_enabled c
            then subscribe e AUDIO_SERVICE (audio_enabled c) c else c)
      else subscribe e AUDIO_SERVICE (audio_enabled c) c)"

definition set_disable_audio :: "session_env \<Rightarrow> bool \<Rightarrow> session_conn \<Rightarrow> session_conn" where
  "set_disable_audio e b c = audio_changed e (c\<lparr>opts := (opts c)\<lparr>disable_audio := b\<rparr>\<rparr>)"

definition options_audio :: "session_env \<Rightarrow> option_message \<Rightarrow> session_conn \<Rightarrow> session_conn" where
  "options_audio e opt c = when_chosen (o_disable_audio opt) (set_disable_audio e) c"

definition set_enable_file_transfer :: "bool \<Rightarrow> session_conn \<Rightarrow> session_conn" where
  "set_enable_file_transfer b c0 =
     (let c = c0\<lparr>opts := (opts c0)\<lparr>enable_file_transfer := b\<rparr>\<rparr>
      in emit (Cm (Cm_Clipboard_File_Enabled (file_transfer_enabled c))) c)"

definition set_disable_clipboard :: "session_env \<Rightarrow> bool \<Rightarrow> session_conn \<Rightarrow> session_conn" where
  "set_disable_clipboard e b c0 =
     (let c = c0\<lparr>opts := (opts c0)\<lparr>disable_clipboard := b\<rparr>\<rparr>
      in subscribe e CLIPBOARD_SERVICE (can_sub_clipboard_service e c) c)"

definition set_disable_keyboard :: "session_env \<Rightarrow> bool \<Rightarrow> session_conn \<Rightarrow> session_conn" where
  "set_disable_keyboard e b c0 =
     (let c = c0\<lparr>opts := (opts c0)\<lparr>disable_keyboard := b\<rparr>\<rparr>;
          c = subscribe e CLIPBOARD_SERVICE (can_sub_clipboard_service e c) c
      in subscribe e NAME_CURSOR (peer_keyboard_enabled c \<or> show_remote_cursor (opts c)) c)"

definition options_clipboard :: "session_env \<Rightarrow> option_message \<Rightarrow> session_conn \<Rightarrow> session_conn" where
  "options_clipboard e opt c =
     when_chosen (o_disable_keyboard opt) (set_disable_keyboard e)
       (when_chosen (o_disable_clipboard opt) (set_disable_clipboard e)
         (when_chosen (o_enable_file_transfer opt) set_enable_file_transfer c))"

definition options_privacy :: "option_message \<Rightarrow> session_conn \<Rightarrow> session_conn" where
  "options_privacy opt c0 =
     (let c = (if sint (get_version_number (lr_version (lr (login c0)))) < sint (get_version_number ''1.2.4'')
               then (if keyboard (perms c0) then
                       (case chosen (o_privacy_mode opt) of
                          Some True \<Rightarrow> emit (Host (Turn_On_Privacy [])) c0
                        | Some False \<Rightarrow> emit (Host (Turn_Off_Privacy [])) c0
                        | None \<Rightarrow> c0)
                     else c0)
               else c0)
      in if keyboard (perms c) \<and> block_input (perms c)
         then (case chosen (o_block_input opt) of Some b \<Rightarrow> emit (Input (Input_Block b)) c | None \<Rightarrow> c)
         else (case chosen (o_block_input opt) of Some b \<Rightarrow> emit (Peer (Block_Input_Error b)) c | None \<Rightarrow> c))"

definition update_terminal_persistence :: "bool \<Rightarrow> session_conn \<Rightarrow> session_conn" where
  "update_terminal_persistence persistent c =
     emit (Host (Set_Service_Persistent (terminal_service_id (login c)) persistent))
       (c\<lparr>login := (login c)\<lparr>terminal_persistent := persistent\<rparr>\<rparr>)"

definition set_show_my_cursor :: "session_env \<Rightarrow> bool \<Rightarrow> session_conn \<Rightarrow> session_conn" where
  "set_show_my_cursor e b c0 =
     (let c = c0\<lparr>opts := (opts c0)\<lparr>show_my_cursor := b\<rparr>\<rparr>;
          not_support_msg = (if \<not> win10 e then ''Windows 10 or greater is required.'' else [])
      in if b then
           (if not_support_msg = [] then emit (Host (Register_Whiteboard True)) c
            else emit (Peer (Message_Box not_support_msg)) c)
         else if not_support_msg = [] then emit (Host (Register_Whiteboard False)) c
         else c)"

definition options_terminal :: "session_env \<Rightarrow> option_message \<Rightarrow> session_conn \<Rightarrow> session_conn" where
  "options_terminal e opt c =
     when_chosen (o_show_my_cursor opt) (set_show_my_cursor e)
       (when_chosen (o_terminal_persistent opt) update_terminal_persistence c)"

definition update_options :: "session_env \<Rightarrow> option_message \<Rightarrow> session_conn \<Rightarrow> session_conn" where
  "update_options e opt c =
     options_terminal e opt (options_privacy opt (options_clipboard e opt (options_audio e opt
       (options_cursor e opt (options_video opt c)))))"

definition update_scoped_login_options :: "session_env \<Rightarrow> session_conn \<Rightarrow> session_conn" where
  "update_scoped_login_options e c =
     (case options_in_login (login c) of
        None \<Rightarrow> c
      | Some opt \<Rightarrow>
          let c = c\<lparr>login := (login c)\<lparr>options_in_login := None\<rparr>\<rparr>
          in case authed_conn_type c of
               None \<Rightarrow> c
             | Some t \<Rightarrow>
                 (case fst (scoped_login_option t opt) of
                    Some kept \<Rightarrow> update_options e kept c
                  | None \<Rightarrow> c))"

text \<open>\<open>misc::Union::Option\<close> of an authorized session.\<close>

definition on_option :: "session_env \<Rightarrow> option_message \<Rightarrow> session_conn \<Rightarrow> session_conn" where
  "on_option e opt c =
     (if authed_conn_type c = Some Remote then update_options e opt c
      else case scoped_update_option_message (authed_conn_type c) opt of
             Some kept \<Rightarrow> update_options e kept c
           | None \<Rightarrow> c)"

text \<open>\<open>ipc::Data::SwitchPermission\<close>.\<close>

definition switch_permission :: "session_env \<Rightarrow> string \<Rightarrow> bool \<Rightarrow> session_conn \<Rightarrow> session_conn" where
  "switch_permission e name enabled c =
     (if name = ''keyboard'' then
        let c = emit (Peer (Send_Permission name enabled)) (c\<lparr>perms := (perms c)\<lparr>keyboard := enabled\<rparr>\<rparr>);
            c = subscribe e CLIPBOARD_SERVICE (can_sub_clipboard_service e c) c
        in subscribe e NAME_CURSOR (enabled \<or> show_remote_cursor (opts c)) c
      else if name = ''clipboard'' then
        let c = emit (Peer (Send_Permission name enabled)) (c\<lparr>perms := (perms c)\<lparr>clipboard := enabled\<rparr>\<rparr>)
        in subscribe e CLIPBOARD_SERVICE (can_sub_clipboard_service e c) c
      else if name = ''audio'' then
        let c = emit (Peer (Send_Permission name enabled)) (c\<lparr>perms := (perms c)\<lparr>audio := enabled\<rparr>\<rparr>)
        in if authorized (login c) then audio_changed e c else c
      else if name = ''file'' then
        let c = emit (Peer (Send_Permission name enabled)) (c\<lparr>perms := (perms c)\<lparr>file_perm := enabled\<rparr>\<rparr>)
        in emit (Cm (Cm_Clipboard_File_Enabled (file_transfer_enabled c))) c
      else if name = ''restart'' then
        emit (Peer (Send_Permission name enabled)) (c\<lparr>perms := (perms c)\<lparr>restart := enabled\<rparr>\<rparr>)
      else if name = ''recording'' then
        emit (Peer (Send_Permission name enabled)) (c\<lparr>perms := (perms c)\<lparr>recording := enabled\<rparr>\<rparr>)
      else if name = ''block_input'' then
        emit (Peer (Send_Permission name enabled)) (c\<lparr>perms := (perms c)\<lparr>block_input := enabled\<rparr>\<rparr>)
      else c)"

definition noperms :: "session_env \<Rightarrow> session_conn \<Rightarrow> service_name list" where
  "noperms e c =
     (if \<not> peer_keyboard_enabled c \<and> \<not> show_remote_cursor (opts c) then [NAME_CURSOR] else [])
     @ (if \<not> show_remote_cursor (opts c) then [NAME_POS] else [])
     @ (if \<not> follow_remote_window (opts c) then [NAME_WINDOW_FOCUS] else [])
     @ (if \<not> can_sub_clipboard_service e c then [CLIPBOARD_SERVICE] else [])
     @ (if \<not> audio_enabled c then [AUDIO_SERVICE] else [])"

definition desktop_services :: "service_name list" where
  "desktop_services = [NAME_CURSOR, NAME_POS, NAME_WINDOW_FOCUS, CLIPBOARD_SERVICE, AUDIO_SERVICE, PRIMARY_VIDEO_SERVICE]"

text \<open>\<open>timeout\<close> is the configured auto-disconnect, if any.\<close>

definition try_sub_monitor_services :: "session_env \<Rightarrow> u64 option \<Rightarrow> session_conn \<Rightarrow> session_conn" where
  "try_sub_monitor_services e timeout c =
     (if is_remote c \<and> \<not> services_subed c then
        let c = c\<lparr>services_subed := True\<rparr>;
            c = (if server_alive e
                 then c\<lparr>auto_disconnect_timer := map_option (\<lambda>m. (at_ms e, m)) timeout,
                        subs := subs c \<union> {s \<in> set desktop_services. s \<notin> set (noperms e c)}\<rparr>
                 else c)
        in if login_screen e then emit (Video (Refresh_Video None)) c else c
      else c)"


section \<open>Subscriptions follow the permissions\<close>

text \<open>Whether the permissions and options of the connection call for a service.\<close>

definition wanted :: "session_env \<Rightarrow> session_conn \<Rightarrow> service_name \<Rightarrow> bool" where
  "wanted e c s =
     (case s of
        NAME_CURSOR \<Rightarrow> peer_keyboard_enabled c \<or> show_remote_cursor (opts c)
      | NAME_POS \<Rightarrow> show_remote_cursor (opts c)
      | NAME_WINDOW_FOCUS \<Rightarrow> follow_remote_window (opts c)
      | CLIPBOARD_SERVICE \<Rightarrow> can_sub_clipboard_service e c
      | AUDIO_SERVICE \<Rightarrow> audio_enabled c
      | PRIMARY_VIDEO_SERVICE \<Rightarrow> True)"

text \<open>One change of the permissions of a connection.\<close>

inductive perm_step :: "session_env \<Rightarrow> session_conn \<Rightarrow> session_conn \<Rightarrow> bool" for e where
  login_options: "perm_step e c (update_scoped_login_options e c)"
| option: "perm_step e c (on_option e opt c)"
| switch: "perm_step e c (switch_permission e name enabled c)"
| services: "perm_step e c (try_sub_monitor_services e timeout c)"

text \<open>Every service is subscribed only when wanted, and, once the desktop services are, whenever wanted.
  The cursor service may stay subscribed too long.\<close>

definition mirrored :: "session_env \<Rightarrow> session_conn \<Rightarrow> bool" where
  "mirrored e c \<longleftrightarrow>
     (\<forall>s. (s \<in> subs c \<longrightarrow> s \<noteq> NAME_CURSOR \<longrightarrow> wanted e c s)
        \<and> (services_subed c \<longrightarrow> wanted e c s \<longrightarrow> s \<in> subs c))"

definition remote_session :: "session_conn \<Rightarrow> bool" where
  "remote_session c \<longleftrightarrow> authed_conn_type c = Some Remote \<and> authorized (login c) \<and> is_remote c"

lemma mirroredI:
  assumes "\<And>s. s \<in> subs c \<Longrightarrow> s \<noteq> NAME_CURSOR \<Longrightarrow> wanted e c s"
    and "\<And>s. services_subed c \<Longrightarrow> wanted e c s \<Longrightarrow> s \<in> subs c"
  shows "mirrored e c"
  using assms by (auto simp: mirrored_def)

text \<open>A change that leaves permissions, options and subscriptions alone.\<close>

lemma mirrored_cong:
  assumes "mirrored e c" "perms d = perms c" "opts d = opts c" "subs d = subs c" "services_subed d = services_subed c"
  shows "mirrored e d"
proof -
  have "wanted e d s = wanted e c s" for s
    using assms(2,3) by (simp add: wanted_def peer_keyboard_enabled_def can_sub_clipboard_service_def
        clipboard_enabled_def audio_enabled_def split: service_name.split)
  then show ?thesis using assms by (simp add: mirrored_def)
qed

lemma mirrored_emit: "mirrored e c \<Longrightarrow> mirrored e (emit x c)"
  by (rule mirrored_cong) simp_all

text \<open>A change of permissions or options after which the services it concerns are subscribed anew.\<close>

lemma mirrored_resub:
  assumes m: "mirrored e c" and alive: "server_alive e"
    and same: "\<And>s. s \<notin> T \<Longrightarrow> wanted e d s = wanted e c s \<and> (s \<in> subs d \<longleftrightarrow> s \<in> subs c)"
    and anew: "\<And>s. s \<in> T \<Longrightarrow> (s \<in> subs d \<longleftrightarrow> wanted e d s) \<or> s = NAME_CURSOR \<and> (wanted e d s \<longrightarrow> s \<in> subs d)"
    and "services_subed d = services_subed c"
  shows "mirrored e d"
proof (rule mirroredI)
  fix s assume "s \<in> subs d" "s \<noteq> NAME_CURSOR"
  then show "wanted e d s"
    using m same [of s] anew [of s] by (cases "s \<in> T") (auto simp: mirrored_def)
next
  fix s assume "services_subed d" "wanted e d s"
  then show "s \<in> subs d"
    using m same [of s] anew [of s] assms(5) by (cases "s \<in> T") (auto simp: mirrored_def)
qed

lemmas wanted_defs = wanted_def peer_keyboard_enabled_def can_sub_clipboard_service_def
  clipboard_enabled_def audio_enabled_def

lemma options_video_frame [simp]:
  "perms (options_video opt c) = perms c" "opts (options_video opt c) = opts c"
  "subs (options_video opt c) = subs c" "services_subed (options_video opt c) = services_subed c"
  "login (options_video opt c) = login c" "authed_conn_type (options_video opt c) = authed_conn_type c"
  "voice_calling (options_video opt c) = voice_calling c"
  by (simp_all add: options_video_def Let_def split: option.split)

lemma options_privacy_frame [simp]:
  "perms (options_privacy opt c) = perms c" "opts (options_privacy opt c) = opts c"
  "subs (options_privacy opt c) = subs c" "services_subed (options_privacy opt c) = services_subed c"
  "login (options_privacy opt c) = login c" "authed_conn_type (options_privacy opt c) = authed_conn_type c"
  by (simp_all add: options_privacy_def Let_def split: option.split bool.split)


lemmas set_defs = set_lock_after_session_end_def set_show_remote_cursor_def set_follow_remote_cursor_def
  set_follow_remote_window_def set_disable_audio_def set_enable_file_transfer_def set_disable_clipboard_def
  set_disable_keyboard_def set_show_my_cursor_def update_terminal_persistence_def

lemma mirrored_when:
  "mirrored e c \<Longrightarrow> (\<And>b. mirrored e c \<Longrightarrow> mirrored e (f b c)) \<Longrightarrow> mirrored e (when_chosen n f c)"
  by (simp add: when_chosen_def split: option.split)

lemma mirrored_same:
  assumes "mirrored e c" "\<And>s. wanted e d s = wanted e c s" "subs d = subs c" "services_subed d = services_subed c"
  shows "mirrored e d"
  using assms by (simp add: mirrored_def)

lemma wanted_same:
  assumes "perms d = perms c" "disable_audio (opts d) = disable_audio (opts c)"
    "disable_clipboard (opts d) = disable_clipboard (opts c)" "disable_keyboard (opts d) = disable_keyboard (opts c)"
    "show_remote_cursor (opts d) = show_remote_cursor (opts c)"
    "follow_remote_window (opts d) = follow_remote_window (opts c)"
  shows "wanted e d s = wanted e c s"
  using assms by (cases s) (simp_all add: wanted_defs)

lemma mirrored_set_other:
  assumes "mirrored e c"
  shows "mirrored e (set_lock_after_session_end b c)" and "mirrored e (set_follow_remote_cursor b c)"
    and "mirrored e (set_enable_file_transfer b c)" and "mirrored e (set_show_my_cursor e b c)"
    and "mirrored e (update_terminal_persistence b c)"
proof -
  have show_my: "mirrored e (set_show_my_cursor e b c)"
    by (cases "win10 e"; cases b) (rule mirrored_same [OF assms wanted_same]; simp add: set_defs)+
  show "mirrored e (set_lock_after_session_end b c)" and "mirrored e (set_follow_remote_cursor b c)"
    and "mirrored e (set_enable_file_transfer b c)" and "mirrored e (set_show_my_cursor e b c)"
    and "mirrored e (update_terminal_persistence b c)"
    by (rule show_my mirrored_same [OF assms wanted_same]; simp add: set_defs Let_def)+
qed

lemma mirrored_set_show_remote_cursor:
  assumes "mirrored e c" "server_alive e"
  shows "mirrored e (set_show_remote_cursor e b c)"
proof (rule mirrored_resub [OF assms, where T = "{NAME_CURSOR, NAME_POS}"])
  fix s show "s \<notin> {NAME_CURSOR, NAME_POS} \<Longrightarrow> wanted e (set_show_remote_cursor e b c) s = wanted e c s \<and>
      (s \<in> subs (set_show_remote_cursor e b c) \<longleftrightarrow> s \<in> subs c)"
    by (cases s) (simp_all add: set_defs Let_def subscribe_subs assms(2) wanted_defs)
next
  fix s show "s \<in> {NAME_CURSOR, NAME_POS} \<Longrightarrow> (s \<in> subs (set_show_remote_cursor e b c) \<longleftrightarrow> wanted e (set_show_remote_cursor e b c) s)
      \<or> s = NAME_CURSOR \<and> (wanted e (set_show_remote_cursor e b c) s \<longrightarrow> s \<in> subs (set_show_remote_cursor e b c))"
    by (cases s) (simp_all add: set_defs Let_def subscribe_subs assms(2) wanted_defs)
qed (simp add: set_defs Let_def)

lemma mirrored_set_follow_remote_window:
  assumes "mirrored e c" "server_alive e"
  shows "mirrored e (set_follow_remote_window e b c)"
proof (rule mirrored_resub [OF assms, where T = "{NAME_WINDOW_FOCUS}"])
  fix s show "s \<notin> {NAME_WINDOW_FOCUS} \<Longrightarrow> wanted e (set_follow_remote_window e b c) s = wanted e c s \<and>
      (s \<in> subs (set_follow_remote_window e b c) \<longleftrightarrow> s \<in> subs c)"
    by (cases s) (simp_all add: set_defs Let_def subscribe_subs assms(2) wanted_defs)
next
  fix s show "s \<in> {NAME_WINDOW_FOCUS} \<Longrightarrow> (s \<in> subs (set_follow_remote_window e b c) \<longleftrightarrow> wanted e (set_follow_remote_window e b c) s)
      \<or> s = NAME_CURSOR \<and> (wanted e (set_follow_remote_window e b c) s \<longrightarrow> s \<in> subs (set_follow_remote_window e b c))"
    by (cases s) (simp_all add: set_defs Let_def subscribe_subs assms(2) wanted_defs)
qed (simp add: set_defs Let_def)

lemma mirrored_set_disable_clipboard:
  assumes "mirrored e c" "server_alive e"
  shows "mirrored e (set_disable_clipboard e b c)"
proof (rule mirrored_resub [OF assms, where T = "{CLIPBOARD_SERVICE}"])
  fix s show "s \<notin> {CLIPBOARD_SERVICE} \<Longrightarrow> wanted e (set_disable_clipboard e b c) s = wanted e c s \<and>
      (s \<in> subs (set_disable_clipboard e b c) \<longleftrightarrow> s \<in> subs c)"
    by (cases s) (simp_all add: set_defs Let_def subscribe_subs assms(2) wanted_defs)
next
  fix s show "s \<in> {CLIPBOARD_SERVICE} \<Longrightarrow> (s \<in> subs (set_disable_clipboard e b c) \<longleftrightarrow> wanted e (set_disable_clipboard e b c) s)
      \<or> s = NAME_CURSOR \<and> (wanted e (set_disable_clipboard e b c) s \<longrightarrow> s \<in> subs (set_disable_clipboard e b c))"
    by (cases s) (simp_all add: set_defs Let_def subscribe_subs assms(2) wanted_defs)
qed (simp add: set_defs Let_def)

lemma mirrored_set_disable_keyboard:
  assumes "mirrored e c" "server_alive e"
  shows "mirrored e (set_disable_keyboard e b c)"
proof (rule mirrored_resub [OF assms, where T = "{CLIPBOARD_SERVICE, NAME_CURSOR}"])
  fix s show "s \<notin> {CLIPBOARD_SERVICE, NAME_CURSOR} \<Longrightarrow> wanted e (set_disable_keyboard e b c) s = wanted e c s \<and>
      (s \<in> subs (set_disable_keyboard e b c) \<longleftrightarrow> s \<in> subs c)"
    by (cases s) (simp_all add: set_defs Let_def subscribe_subs assms(2) wanted_defs)
next
  fix s show "s \<in> {CLIPBOARD_SERVICE, NAME_CURSOR} \<Longrightarrow> (s \<in> subs (set_disable_keyboard e b c) \<longleftrightarrow> wanted e (set_disable_keyboard e b c) s)
      \<or> s = NAME_CURSOR \<and> (wanted e (set_disable_keyboard e b c) s \<longrightarrow> s \<in> subs (set_disable_keyboard e b c))"
    by (cases s) (simp_all add: set_defs Let_def subscribe_subs assms(2) wanted_defs)
qed (simp add: set_defs Let_def)

lemma mirrored_audio:
  assumes "mirrored e c" "server_alive e" "authed_conn_type d \<noteq> Some ViewCameraConn"
    and "\<And>s. s \<noteq> AUDIO_SERVICE \<Longrightarrow> wanted e d s = wanted e c s"
    and "subs d = subs c" "services_subed d = services_subed c"
  shows "mirrored e (audio_changed e d)"
proof -
  have d: "audio_changed e d = subscribe e AUDIO_SERVICE (audio_enabled d) d"
    using assms(3) by (simp add: audio_changed_def is_authed_view_camera_conn_def)
  have w: "wanted e (subscribe e AUDIO_SERVICE b d) s = wanted e d s" for b s
    by (simp add: wanted_def split: service_name.split)
  show ?thesis
    unfolding d
    by (rule mirrored_resub [OF assms(1,2), where T = "{AUDIO_SERVICE}"])
      (auto simp: w subscribe_subs assms(2,5,6) assms(4), auto simp: wanted_def)
qed

lemma mirrored_set_disable_audio:
  assumes "mirrored e c" "server_alive e" "authed_conn_type c \<noteq> Some ViewCameraConn"
  shows "mirrored e (set_disable_audio e b c)"
  unfolding set_disable_audio_def
  by (rule mirrored_audio [OF assms(1,2)])
    (use assms(3) in \<open>auto simp: wanted_defs split: service_name.split\<close>)

lemma mirrored_try_sub:
  assumes "mirrored e c" "server_alive e"
  shows "mirrored e (try_sub_monitor_services e t c)"
proof (cases "is_remote c \<and> \<not> services_subed c")
  case True
  let ?d = "c\<lparr>services_subed := True, auto_disconnect_timer := map_option (\<lambda>m. (at_ms e, m)) t,
                subs := subs c \<union> {s \<in> set desktop_services. s \<notin> set (noperms e (c\<lparr>services_subed := True\<rparr>))}\<rparr>"
  have w: "wanted e ?d s = wanted e c s" for s by (simp add: wanted_defs split: service_name.split)
  have n: "s \<in> set (noperms e (c\<lparr>services_subed := True\<rparr>)) \<longleftrightarrow> \<not> wanted e c s" for s
    by (cases s) (simp_all add: noperms_def wanted_defs)
  have "s \<in> set desktop_services" for s by (cases s) (simp_all add: desktop_services_def)
  then have s: "s \<in> subs ?d \<longleftrightarrow> s \<in> subs c \<or> wanted e c s" for s by (simp add: n)
  have "mirrored e ?d"
  proof (rule mirroredI)
    fix x assume "x \<in> subs ?d" "x \<noteq> NAME_CURSOR"
    then show "wanted e ?d x" unfolding s w using assms(1) by (auto simp: mirrored_def)
  next
    fix x assume "wanted e ?d x"
    then show "x \<in> subs ?d" unfolding s w ..
  qed
  then show ?thesis
    using True assms(2) by (simp add: try_sub_monitor_services_def Let_def mirrored_emit)
next
  case False
  then show ?thesis using assms(1) by (auto simp: try_sub_monitor_services_def)
qed


lemma remote_session_emit [simp]: "remote_session (emit x c) = remote_session c"
  by (simp add: remote_session_def)

lemma remote_session_subscribe [simp]: "remote_session (subscribe e n b c) = remote_session c"
  by (simp add: remote_session_def)

lemma remote_session_perms [simp]: "remote_session (c\<lparr>perms := p\<rparr>) = remote_session c"
  by (simp add: remote_session_def is_remote_def)

lemma remote_session_opts [simp]: "remote_session (c\<lparr>opts := p\<rparr>) = remote_session c"
  by (simp add: remote_session_def is_remote_def)

lemma remote_session_audio_changed [simp]: "remote_session (audio_changed e c) = remote_session c"
  by (simp add: audio_changed_def)

lemma remote_session_terminal [simp]: "remote_session (update_terminal_persistence b c) = remote_session c"
  by (simp add: update_terminal_persistence_def remote_session_def is_remote_def)

lemma remote_session_set [simp]:
  "remote_session (set_lock_after_session_end b c) = remote_session c"
  "remote_session (set_show_remote_cursor e b c) = remote_session c"
  "remote_session (set_follow_remote_cursor b c) = remote_session c"
  "remote_session (set_follow_remote_window e b c) = remote_session c"
  "remote_session (set_disable_audio e b c) = remote_session c"
  "remote_session (set_enable_file_transfer b c) = remote_session c"
  "remote_session (set_disable_clipboard e b c) = remote_session c"
  "remote_session (set_disable_keyboard e b c) = remote_session c"
  "remote_session (set_show_my_cursor e b c) = remote_session c"
  by (simp_all add: set_lock_after_session_end_def set_show_remote_cursor_def set_follow_remote_cursor_def
      set_follow_remote_window_def set_disable_audio_def set_enable_file_transfer_def
      set_disable_clipboard_def set_disable_keyboard_def set_show_my_cursor_def Let_def)

lemma remote_session_when:
  "(\<And>b c. remote_session (f b c) = remote_session c) \<Longrightarrow> remote_session (when_chosen n f c) = remote_session c"
  by (simp add: when_chosen_def split: option.split)

lemma remote_session_update_options [simp]: "remote_session (update_options e opt c) = remote_session c"
proof -
  have v: "remote_session (options_video opt c) = remote_session c" for c
    by (simp add: remote_session_def is_remote_def)
  have p: "remote_session (options_privacy opt c) = remote_session c" for c
    by (simp add: remote_session_def is_remote_def)
  show ?thesis
    by (simp add: update_options_def options_terminal_def options_clipboard_def options_audio_def
        options_cursor_def remote_session_when v p)
qed

lemma mirrored_update_options:
  assumes m: "mirrored e c" and alive: "server_alive e" and r: "remote_session c"
  shows "mirrored e (update_options e opt c)"
proof -
  let ?v = "options_video opt c"
  let ?cu = "options_cursor e opt ?v"
  let ?au = "options_audio e opt ?cu"
  let ?cl = "options_clipboard e opt ?au"
  let ?pr = "options_privacy opt ?cl"
  have "mirrored e ?v" by (rule mirrored_cong [OF m]) simp_all
  then have cu: "mirrored e ?cu"
    unfolding options_cursor_def
    by (intro mirrored_when mirrored_set_other mirrored_set_show_remote_cursor
        mirrored_set_follow_remote_window alive)
  have rcu: "remote_session ?cu"
    using r by (simp add: options_cursor_def remote_session_when) (simp add: remote_session_def is_remote_def)
  then have "authed_conn_type ?cu \<noteq> Some ViewCameraConn" by (simp add: remote_session_def)
  then have "mirrored e ?au"
    unfolding options_audio_def by (intro mirrored_when cu mirrored_set_disable_audio alive)
  then have "mirrored e ?cl"
    unfolding options_clipboard_def
    by (intro mirrored_when mirrored_set_other mirrored_set_disable_clipboard mirrored_set_disable_keyboard alive)
  then have "mirrored e ?pr" by (rule mirrored_cong) simp_all
  then show ?thesis
    unfolding update_options_def options_terminal_def by (intro mirrored_when mirrored_set_other)
qed

lemma mirrored_switch_permission:
  assumes m: "mirrored e c" and alive: "server_alive e" and r: "remote_session c"
  shows "mirrored e (switch_permission e name enabled c)"
proof -
  let ?d = "switch_permission e name enabled c"
  consider "name = ''keyboard''" | "name = ''clipboard''" | "name = ''audio''"
    | "name \<notin> {''keyboard'', ''clipboard'', ''audio''}" by auto
  then show ?thesis
  proof cases
    case 1
    show ?thesis
    proof (rule mirrored_resub [OF m alive, where T = "{CLIPBOARD_SERVICE, NAME_CURSOR}"])
      fix s show "s \<notin> {CLIPBOARD_SERVICE, NAME_CURSOR} \<Longrightarrow>
          wanted e ?d s = wanted e c s \<and> (s \<in> subs ?d \<longleftrightarrow> s \<in> subs c)"
        by (cases s) (simp_all add: 1 switch_permission_def Let_def subscribe_subs alive wanted_defs)
    next
      fix s show "s \<in> {CLIPBOARD_SERVICE, NAME_CURSOR} \<Longrightarrow> (s \<in> subs ?d \<longleftrightarrow> wanted e ?d s)
          \<or> s = NAME_CURSOR \<and> (wanted e ?d s \<longrightarrow> s \<in> subs ?d)"
        by (cases s) (simp_all add: 1 switch_permission_def Let_def subscribe_subs alive wanted_defs)
    qed (simp add: 1 switch_permission_def Let_def)
  next
    case 2
    show ?thesis
    proof (rule mirrored_resub [OF m alive, where T = "{CLIPBOARD_SERVICE}"])
      fix s show "s \<notin> {CLIPBOARD_SERVICE} \<Longrightarrow>
          wanted e ?d s = wanted e c s \<and> (s \<in> subs ?d \<longleftrightarrow> s \<in> subs c)"
        by (cases s) (simp_all add: 2 switch_permission_def Let_def subscribe_subs alive wanted_defs)
    next
      fix s show "s \<in> {CLIPBOARD_SERVICE} \<Longrightarrow> (s \<in> subs ?d \<longleftrightarrow> wanted e ?d s)
          \<or> s = NAME_CURSOR \<and> (wanted e ?d s \<longrightarrow> s \<in> subs ?d)"
        by (cases s) (simp_all add: 2 switch_permission_def Let_def subscribe_subs alive wanted_defs)
    qed (simp add: 2 switch_permission_def Let_def)
  next
    case 3
    let ?a = "emit (Peer (Send_Permission name enabled)) (c\<lparr>perms := (perms c)\<lparr>audio := enabled\<rparr>\<rparr>)"
    have d: "?d = audio_changed e ?a"
      using r by (simp add: 3 switch_permission_def Let_def remote_session_def)
    show ?thesis
      unfolding d
    proof (rule mirrored_audio [OF m alive])
      show "authed_conn_type ?a \<noteq> Some ViewCameraConn" using r by (simp add: remote_session_def)
      fix s show "s \<noteq> AUDIO_SERVICE \<Longrightarrow> wanted e ?a s = wanted e c s"
        by (cases s) (simp_all add: wanted_defs)
    qed simp_all
  next
    case 4
    show ?thesis
    proof (rule mirrored_same [OF m])
      fix s show "wanted e ?d s = wanted e c s"
        using 4 by (cases s) (simp_all add: switch_permission_def Let_def wanted_defs)
    qed (use 4 in \<open>simp_all add: switch_permission_def Let_def\<close>)
  qed
qed

lemma remote_session_switch_permission [simp]:
  "remote_session (switch_permission e name enabled c) = remote_session c"
  by (simp add: switch_permission_def Let_def)

lemma perm_step_mirrored:
  assumes "perm_step e c d" "server_alive e" "remote_session c" "mirrored e c"
  shows "mirrored e d \<and> remote_session d"
  using assms(1)
proof cases
  case login_options
  have "mirrored e (c\<lparr>login := (login c)\<lparr>options_in_login := None\<rparr>\<rparr>)"
    by (rule mirrored_cong [OF assms(4)]) simp_all
  moreover have "remote_session (c\<lparr>login := (login c)\<lparr>options_in_login := None\<rparr>\<rparr>)"
    using assms(3) by (simp add: remote_session_def is_remote_def)
  ultimately show ?thesis
    using assms by (simp add: login_options update_scoped_login_options_def Let_def mirrored_update_options
        split: option.split)
next
  case (option opt)
  then show ?thesis
    using assms by (simp add: on_option_def mirrored_update_options split: option.split)
next
  case (switch name enabled)
  then show ?thesis using assms by (simp add: mirrored_switch_permission)
next
  case (services t)
  have "remote_session (try_sub_monitor_services e t c) = remote_session c"
    by (simp add: try_sub_monitor_services_def Let_def) (simp add: remote_session_def is_remote_def)
  then show ?thesis using assms services by (simp add: mirrored_try_sub)
qed

inductive_cases perm_stepE [elim]: "perm_step e c d"

text \<open>C13 Subscriptions.  In a remote-control session, whatever options the peer sends and permissions the manager
  switches, before or after the desktop services are subscribed, the connection receives the clipboard,
  the audio, the cursor position and the focused window only while its permissions and options call for
  them, and, once subscribed, it receives every service they call for.\<close>

theorem services_follow_permissions:
  assumes "(perm_step e)\<^sup>*\<^sup>* c d" and "server_alive e" and "remote_session c"
    and "subs c = {}" and "\<not> services_subed c"
  shows "(CLIPBOARD_SERVICE \<in> subs d \<longrightarrow> can_sub_clipboard_service e d)
    \<and> (AUDIO_SERVICE \<in> subs d \<longrightarrow> audio_enabled d)
    \<and> (NAME_POS \<in> subs d \<longrightarrow> show_remote_cursor (opts d))
    \<and> (NAME_WINDOW_FOCUS \<in> subs d \<longrightarrow> follow_remote_window (opts d))
    \<and> (services_subed d \<longrightarrow> {s. wanted e d s} \<subseteq> subs d)"
proof -
  have "mirrored e d \<and> remote_session d"
    using assms(1)
  proof (induction rule: rtranclp_induct)
    case base
    have "mirrored e c" by (rule mirroredI) (simp_all add: assms(4,5))
    then show ?case using assms(3) ..
  next
    case (step x y)
    then show ?case using perm_step_mirrored assms(2) by blast
  qed
  then have m: "mirrored e d" ..
  have "wanted e d CLIPBOARD_SERVICE = can_sub_clipboard_service e d" "wanted e d AUDIO_SERVICE = audio_enabled d"
    "wanted e d NAME_POS = show_remote_cursor (opts d)" "wanted e d NAME_WINDOW_FOCUS = follow_remote_window (opts d)"
    by (simp_all add: wanted_def)
  with m show ?thesis unfolding mirrored_def by (metis (no_types, lifting) mem_Collect_eq service_name.distinct subsetI)
qed


lemma chosen_0 [simp]: "chosen 0 = None"
  by (simp add: chosen_def bool_option_value_def)

lemma when_chosen_0 [simp]: "when_chosen 0 f c = c"
  by (simp add: when_chosen_def)

text \<open>An update without any field changes nothing.\<close>

lemma options_video_none:
  "o_image_quality opt = 0 \<Longrightarrow> o_custom_image_quality opt = 0 \<Longrightarrow> o_custom_fps opt = 0 \<Longrightarrow>
   o_supported_decoding opt = None \<Longrightarrow> options_video opt c = c"
  by (simp add: options_video_def image_quality_value_def Let_def)

lemma options_privacy_none:
  "o_privacy_mode opt = 0 \<Longrightarrow> o_block_input opt = 0 \<Longrightarrow> options_privacy opt c = c"
  by (simp add: options_privacy_def Let_def)

lemma update_options_terminal:
  "update_options e (option_message_new\<lparr>o_terminal_persistent := n\<rparr>) c =
     when_chosen n update_terminal_persistence c"
proof -
  let ?opt = "option_message_new\<lparr>o_terminal_persistent := n\<rparr>"
  have "options_video ?opt c = c" by (rule options_video_none) (simp_all add: option_message_new_def)
  moreover have "options_privacy ?opt c = c" by (rule options_privacy_none) (simp_all add: option_message_new_def)
  ultimately show ?thesis
    by (simp add: update_options_def options_terminal_def options_clipboard_def options_audio_def
        options_cursor_def) (simp add: option_message_new_def)
qed

lemma options_video_sent:
  "set (sent (options_video opt c)) \<subseteq> set (sent c) \<union> range Video"
  by (auto simp: options_video_def Let_def split: option.split)

lemma audio_changed_frame [simp]:
  "sent (audio_changed e c) = sent c" "perms (audio_changed e c) = perms c" "opts (audio_changed e c) = opts c"
  "login (audio_changed e c) = login c" "subs (audio_changed e c) - {AUDIO_SERVICE} = subs c - {AUDIO_SERVICE}"
  by (auto simp: audio_changed_def subscribe_def)

lemma update_options_camera:
  assumes "kept = camera_part opt"
  shows "update_options e kept c = when_chosen (o_disable_audio kept) (set_disable_audio e) (options_video kept c)"
proof -
  have "options_privacy kept c = c" for c
    by (rule options_privacy_none) (simp_all add: assms camera_part_def option_message_new_def)
  then show ?thesis
    by (simp add: update_options_def options_terminal_def options_clipboard_def options_audio_def
        options_cursor_def) (simp add: assms camera_part_def option_message_new_def)
qed

text \<open>Option updates in limited sessions.  An option update in a session that is not remote control reaches no permission and no switch
  but the audio of a camera session, and no service but audio.  A terminal session can only change the
  persistence of its own terminals, a camera session only the parameters of the video, any other
  session nothing.\<close>

theorem limited_session_option_effects:
  assumes "authed_conn_type c = Some t" and "t \<noteq> Remote" and d_def: "d = on_option e opt c"
  shows "perms d = perms c
    \<and> opts d = (opts c)\<lparr>disable_audio := disable_audio (opts d)\<rparr>
    \<and> subs d - {AUDIO_SERVICE} = subs c - {AUDIO_SERVICE}
    \<and> (t \<noteq> ViewCameraConn \<longrightarrow> opts d = opts c \<and> subs d = subs c)
    \<and> set (sent d) \<subseteq> set (sent c) \<union>
        (case t of TerminalConn \<Rightarrow> range (\<lambda>b. Host (Set_Service_Persistent (terminal_service_id (login c)) b))
         | ViewCameraConn \<Rightarrow> range Video | _ \<Rightarrow> {})"
proof (cases t)
  case TerminalConn
  have "d = (if o_terminal_persistent opt \<in> {1, 2}
             then when_chosen (o_terminal_persistent opt) update_terminal_persistence c else c)"
    using assms(1) by (simp add: d_def on_option_def scoped_update_option_message_def TerminalConn
        terminal_filter update_options_terminal)
  then show ?thesis
    by (auto simp: TerminalConn when_chosen_def update_terminal_persistence_def split: option.split)
next
  case ViewCameraConn
  define kept where "kept = camera_part opt"
  have "d = c \<or> d = when_chosen (o_disable_audio kept) (set_disable_audio e) (options_video kept c)"
    using assms(1) by (simp add: d_def on_option_def scoped_update_option_message_def ViewCameraConn
        camera_filter update_options_camera kept_def)
  moreover have "perms d = perms c \<and> opts d = (opts c)\<lparr>disable_audio := disable_audio (opts d)\<rparr>
      \<and> subs d - {AUDIO_SERVICE} = subs c - {AUDIO_SERVICE} \<and> set (sent d) \<subseteq> set (sent c) \<union> range Video"
    if "d = when_chosen (o_disable_audio kept) (set_disable_audio e) (options_video kept c)"
    using options_video_sent [of kept c]
    by (cases "chosen (o_disable_audio kept)") (simp_all add: that when_chosen_def set_disable_audio_def)
  ultimately show ?thesis by (elim disjE) (simp_all add: ViewCameraConn)
qed (use assms in \<open>simp_all add: on_option_def scoped_update_option_message_def\<close>)


section \<open>Concrete sessions\<close>

definition toy_session_env :: session_env where
  "toy_session_env = \<lparr>server_alive = True, builtin_option = (\<lambda>_. []), at_ms = 1000, win10 = True,
     login_screen = False, rdev_of_scancode = (\<lambda>n. if n = 47 then KeyV else if n = 29 then ControlLeft else Rdev_Other (unat n)),
     recursive_files = (\<lambda>_ _. Inr []), read_source = (\<lambda>_ _. Inr []), downloads_found = True,
     path_file_name = (\<lambda>p. if p = [] then None else Some p), path_parent = (\<lambda>_. None),
     confirm_io = toy_host [toy_read_job], current_process_sid = None,
     available_sids = [], installed = False, portable_running = False, portable_error = (\<lambda>_. []), uac_running = False, foreground_elevated = False, privacy_by_conn = False, subbed_displays = 1, display_info = (\<lambda>_. True), config_option = (\<lambda>_. []), config_bool = (\<lambda>_. True), time_text = ''0'', codec_of_blocks = plain_zstd, path_is_absolute = (\<lambda>_. True), direct_source = (\<lambda>_. None),
     identity_size = (\<lambda>i. i), next_direct_id = - 1, lower_case = (\<lambda>s. s), share_rdp = False, non_port_forward_conn_count = 1\<rparr>"

definition toy_session :: "auth_conn_type \<Rightarrow> session_conn" where
  "toy_session t = \<lparr>
     login = toy_conn\<lparr>authorized := True, lr := toy_request,
       file_transfer := (if t = FileTransferConn then Some ([], False) else None),
       port_forward_socket := (t = PortForwardConn), view_camera := (t = ViewCameraConn),
       terminal := (t = TerminalConn)\<rparr>,
     authed_conn_type = Some t,
     perms = \<lparr>keyboard = True, clipboard = True, audio = True, file_perm = True, restart = False,
       recording = False, block_input = True\<rparr>,
     opts = \<lparr>disable_audio = False, enable_file_transfer = False, disable_clipboard = False,
       disable_keyboard = False, lock_after_session_end = False, show_remote_cursor = False,
       follow_remote_cursor = False, follow_remote_window = False, show_my_cursor = False\<rparr>,
     inp = \<lparr>pressed_modifiers = {}, v_down = False, insert_down = False, last_clipboard_audit_for_paste = None\<rparr>,
     xfer = \<lparr>delayed_read_dir = None, last_remote_drop_recv_at = None, device_remote_jobs = {}, read_jobs = [],
       printer_data = [], pending_file_audits = (\<lambda>_. None), audit_context = None, audit_protocol = 0, supports_direct_file_receive = False, audit_file_url = [],
       audit_conn_url = [], file_transferred = False, removed_at = 0, removed_files = [], removed_dirs = []\<rparr>,
     portable = \<lparr>last_running = None, last_uac = False, last_foreground_elevated = False\<rparr>,
     services_subed = False, voice_calling = False, voice_call_request_timestamp = None, audio_sender = False,
     chat_unanswered = False, auto_disconnect_timer = None, last_test_delay = None, scope_violation_messages = {}, display_idx = 0, multi_ui_session = False, subs = {}, sent = [], closed = False\<rparr>"

lemma toy_session_sel [simp]:
  "authed_conn_type (toy_session t) = Some t" "subs (toy_session t) = {}" "\<not> services_subed (toy_session t)"
  "sent (toy_session t) = []" "authorized (login (toy_session t))"
  by (simp_all add: toy_session_def)

lemma toy_remote: "remote_session (toy_session Remote)"
  by (simp add: remote_session_def is_remote_def) (simp add: toy_session_def toy_conn_def)

lemma toy_alive [simp]: "server_alive toy_session_env"
  by (simp add: toy_session_env_def)

lemma services_follow_permissions_witness:
  "CLIPBOARD_SERVICE \<in> subs (try_sub_monitor_services toy_session_env None (toy_session Remote)) \<and>
   CLIPBOARD_SERVICE \<notin> subs (switch_permission toy_session_env ''clipboard'' False
      (try_sub_monitor_services toy_session_env None (toy_session Remote)))"
proof -
  let ?c = "toy_session Remote" and ?e = toy_session_env
  let ?s = "try_sub_monitor_services ?e None ?c"
  let ?d = "switch_permission ?e ''clipboard'' False ?s"
  have 1: "(perm_step ?e)\<^sup>*\<^sup>* ?c ?s" by (intro r_into_rtranclp perm_step.services)
  then have 2: "(perm_step ?e)\<^sup>*\<^sup>* ?c ?d" by (rule rtranclp.rtrancl_into_rtrancl) (rule perm_step.switch)
  note hyps = toy_alive toy_remote
  have sub: "services_subed ?s"
    using toy_remote by (simp add: try_sub_monitor_services_def Let_def remote_session_def toy_session_env_def)
  have "perms ?s = perms ?c" "opts ?s = opts ?c"
    by (simp_all add: try_sub_monitor_services_def Let_def)
  then have "wanted ?e ?s CLIPBOARD_SERVICE"
    by (simp add: wanted_defs) (simp add: toy_session_def toy_session_env_def)
  moreover have "\<not> can_sub_clipboard_service ?e ?d"
    by (simp add: switch_permission_def Let_def wanted_defs)
  ultimately show ?thesis
    using services_follow_permissions [OF 1 hyps] services_follow_permissions [OF 2 hyps] sub by auto
qed

lemma limited_session_option_effects_witness:
  "perms (on_option toy_session_env greedy_options (toy_session TerminalConn)) = perms (toy_session TerminalConn) \<and>
   sent (on_option toy_session_env greedy_options (toy_session TerminalConn)) = [Host (Set_Service_Persistent [] True)]"
proof -
  have "sent (on_option toy_session_env greedy_options (toy_session TerminalConn)) =
      [Host (Set_Service_Persistent [] True)]"
    by (simp add: on_option_def scoped_update_option_message_def terminal_filter greedy_options_def
        update_options_terminal when_chosen_def chosen_def bool_option_value_def update_terminal_persistence_def)
      (simp add: toy_session_def toy_conn_def option_message_new_def)
  with limited_session_option_effects [of "toy_session TerminalConn" TerminalConn
      "on_option toy_session_env greedy_options (toy_session TerminalConn)" toy_session_env greedy_options]
  show ?thesis by simp
qed

text \<open>A service too many.  The switch of the keyboard permission subscribes the cursor service without looking at the
  peer's own \<open>disable_keyboard\<close>, unlike every other place: after it a view-only session receives the
  cursor although neither its input nor its cursor display calls for it.\<close>

theorem cursor_service_oversubscribed:
  assumes "disable_keyboard (opts c)" and "\<not> show_remote_cursor (opts c)" and "server_alive e"
  shows "let d = switch_permission e ''keyboard'' True c
    in NAME_CURSOR \<in> subs d \<and> \<not> wanted e d NAME_CURSOR \<and> NAME_CURSOR \<in> set (noperms e d)"
  using assms by (simp add: switch_permission_def Let_def subscribe_subs wanted_def
      peer_keyboard_enabled_def noperms_def)


lemma cursor_service_oversubscribed_witness:
  "NAME_CURSOR \<in> subs (switch_permission toy_session_env ''keyboard'' True
     (set_disable_keyboard toy_session_env True (toy_session Remote)))"
proof -
  let ?c = "set_disable_keyboard toy_session_env True (toy_session Remote)"
  have "disable_keyboard (opts ?c)" by (simp add: set_disable_keyboard_def Let_def)
  moreover have "\<not> show_remote_cursor (opts ?c)"
    by (simp add: set_disable_keyboard_def Let_def) (simp add: toy_session_def)
  ultimately show ?thesis
    using cursor_service_oversubscribed [of ?c toy_session_env] by (simp add: Let_def)
qed

end
