(* ===== verification/Session_Files.thy ===== *)
theory Session_Files
  imports Session_Perms
begin

text \<open>
  File transfer in an authorized connection (\<open>src/server/connection.rs\<close>, Windows host): the checks of a
  \<open>FileAction\<close> and what each action asks of the connection manager, the answers of the peer
  (\<open>FileResponse\<close>), and the audit records of a transfer, from the request to its terminal outcome.

  Directory listings, the opening of a source and the path parser of the host are in \<open>session_env\<close>.
\<close>

section \<open>Audit records\<close>

definition get_files_for_audit :: "bool \<Rightarrow> file_entry list \<Rightarrow> (string \<times> int) list" where
  "get_files_for_audit printer files =
     map (\<lambda>f. (if printer then ''Remote print'' else fe_name f, min (uint (fe_size f)) (2 ^ 63 - 1))) files"

text \<open>The characters of a string, each with the bytes of its UTF-8 encoding, and their UTF-16 length.\<close>

definition continuation :: "char \<Rightarrow> bool" where
  "continuation c \<longleftrightarrow> 128 \<le> char_code c \<and> char_code c < 192"

function utf8_chars :: "string \<Rightarrow> string list" where
  "utf8_chars [] = []"
| "utf8_chars (c # cs) = (c # takeWhile continuation cs) # utf8_chars (dropWhile continuation cs)"
  by pat_completeness auto
termination by (relation "measure length") (auto simp: le_imp_less_Suc length_dropWhile_le)

definition len_utf16 :: "string \<Rightarrow> nat" where
  "len_utf16 ch = (if 240 \<le> char_code (hd ch) then 2 else 1)"

fun take_units :: "nat \<Rightarrow> nat \<Rightarrow> string list \<Rightarrow> string list" where
  "take_units limit used [] = []"
| "take_units limit used (ch # chs) =
     (if limit < used + len_utf16 ch then [] else ch # take_units limit (used + len_utf16 ch) chs)"

definition truncate_audit_text :: "string \<Rightarrow> nat \<Rightarrow> string" where
  "truncate_audit_text v max_chars = concat (take_units max_chars 0 (utf8_chars v))"

definition blank :: "string \<Rightarrow> bool" where
  "blank s \<longleftrightarrow> str_trim s = []"

definition normalized_audit_files :: "session_env \<Rightarrow> string \<Rightarrow> (string \<times> int) list \<Rightarrow> (string \<times> int) list" where
  "normalized_audit_files e path files =
     (let fallback = (case path_file_name e path of
                        Some name \<Rightarrow> if blank name then ''transferred-file'' else name
                      | None \<Rightarrow> ''transferred-file'');
          normalized = map (\<lambda>(name, n). (truncate_audit_text (if blank name then fallback else name) 255, max n 0)) files
      in if normalized = [] then [(truncate_audit_text fallback 255, 0)] else normalized)"

definition enterprise_file_transfer_mode_for :: "bool \<Rightarrow> bool \<Rightarrow> file_direction \<Rightarrow> string \<Rightarrow> transfer_mode option" where
  "enterprise_file_transfer_mode_for is_file_transfer is_remote_connection direction path =
     (if is_file_transfer then Some FileManager
      else if is_remote_connection \<and> direction = Upload \<and> is_remote_drop_downloads_path path then Some RemoteDrop
      else None)"

text \<open>The verified audit context: a ticket and the id of the connection, neither blank.\<close>

definition audit_verified :: "session_conn \<Rightarrow> bool" where
  "audit_verified c \<longleftrightarrow>
     (case audit_context (xfer c) of Some (ticket, source) \<Rightarrow> \<not> blank ticket \<and> \<not> blank source | None \<Rightarrow> False)"

definition enterprise_file_transfer_mode :: "session_conn \<Rightarrow> file_direction \<Rightarrow> string \<Rightarrow> transfer_mode option" where
  "enterprise_file_transfer_mode c direction path =
     (if audit_verified c
      then enterprise_file_transfer_mode_for (file_transfer (login c) \<noteq> None) (is_remote c) direction path
      else None)"

definition enterprise_file_audit_path :: "transfer_mode \<Rightarrow> string \<Rightarrow> string" where
  "enterprise_file_audit_path mode path =
     (case mode of FileManager \<Rightarrow> truncate_audit_text path 2000 | _ \<Rightarrow> ''Downloads'')"

definition enterprise_file_normalization_path :: "session_env \<Rightarrow> transfer_mode \<Rightarrow> string \<Rightarrow> string" where
  "enterprise_file_normalization_path e mode path =
     (case mode of
        FileManager \<Rightarrow> path
      | RemoteDrop \<Rightarrow>
          (case resolve_remote_drop_downloads_path (downloads_found e) path of
             Inr (Some (c # cs)) \<Rightarrow> last (c # cs)
           | _ \<Rightarrow> [])
      | RemoteDirectDownload \<Rightarrow> [])"

definition set_xfer :: "(transfer_state \<Rightarrow> transfer_state) \<Rightarrow> session_conn \<Rightarrow> session_conn" where
  "set_xfer f c = c\<lparr>xfer := f (xfer c)\<rparr>"

definition remember_enterprise_file_transfer ::
  "session_env \<Rightarrow> i32 \<Rightarrow> file_direction \<Rightarrow> string \<Rightarrow> (string \<times> int) list \<Rightarrow> session_conn \<Rightarrow> session_conn"
where
  "remember_enterprise_file_transfer e job_id direction path files c =
     (case enterprise_file_transfer_mode c direction path of
        None \<Rightarrow> c
      | Some mode \<Rightarrow>
          let pending = \<lparr>pa_direction = direction, pa_mode = mode, pa_path = enterprise_file_audit_path mode path,
                pa_files = normalized_audit_files e (enterprise_file_normalization_path e mode path) files,
                pa_finished = False\<rparr>
          in set_xfer (\<lambda>x. x\<lparr>pending_file_audits := (pending_file_audits x)(job_id \<mapsto> pending)\<rparr>) c)"

text \<open>\<open>str::trim_end_matches\<close>: every copy of the pattern at the end.\<close>

function trim_end_matches :: "string \<Rightarrow> string \<Rightarrow> string" where
  "trim_end_matches p s =
     (if p \<noteq> [] \<and> suffix p s then trim_end_matches p (take (length s - length p) s) else s)"
  by pat_completeness auto
termination by (relation "measure (\<lambda>(_, s). length s)") (auto simp: suffix_def)

declare trim_end_matches.simps [simp del]

definition audit_base :: "session_conn \<Rightarrow> string" where
  "audit_base c =
     (let x = xfer c in
      if blank (audit_file_url x)
      then trim_end_matches ''/'' (trim_end_matches ''/api/audit/conn'' (audit_conn_url x))
      else trim_end_matches ''/'' (trim_end_matches ''/api/audit/file'' (audit_file_url x)))"

fun batches :: "nat \<Rightarrow> (string \<times> int) list \<Rightarrow> (nat \<times> (string \<times> int) list) list" where
  "batches i [] = []"
| "batches i (f # fs) = (i, take 100 (f # fs)) # batches (Suc i) (drop 99 fs)"

definition post_enterprise_file_outcome :: "i32 \<Rightarrow> string \<Rightarrow> session_conn \<Rightarrow> session_conn" where
  "post_enterprise_file_outcome job_id status c0 =
     (case pending_file_audits (xfer c0) job_id of
        None \<Rightarrow> c0
      | Some pending \<Rightarrow>
          let c = set_xfer (\<lambda>x. x\<lparr>pending_file_audits := (pending_file_audits x)(job_id := None)\<rparr>) c0 in
          if \<not> audit_verified c \<or> audit_base c = [] then c
          else
            fold (\<lambda>(i, fs). emit (Audit (File_Outcome pending
                    (if 100 < length (pa_files pending) then Some (i + 1) else None) fs status)))
              (batches 0 (pa_files pending)) c)"

definition post_file_audit :: "file_direction \<Rightarrow> string \<Rightarrow> (string \<times> int) list \<Rightarrow> session_conn \<Rightarrow> session_conn" where
  "post_file_audit direction path files c =
     (if audit_file_url (xfer c) = [] then c
      else if enterprise_file_transfer_mode c direction path \<noteq> None then c
      else emit (Audit (File_Audit direction path (take 10 (sort_key (\<lambda>f. - snd f) files)))) c)"

section \<open>The log of removals\<close>

definition direct_child :: "session_env \<Rightarrow> string \<Rightarrow> string \<Rightarrow> bool" where
  "direct_child e parent child \<longleftrightarrow> path_parent e child = Some parent"

definition on_remove_file :: "session_env \<Rightarrow> i32 \<Rightarrow> string \<Rightarrow> transfer_state \<Rightarrow> transfer_state" where
  "on_remove_file e i path x = x\<lparr>removed_at := at_ms e, removed_files := removed_files x @ [(i, path)]\<rparr>"

definition on_remove_dir :: "session_env \<Rightarrow> i32 \<Rightarrow> string \<Rightarrow> transfer_state \<Rightarrow> transfer_state" where
  "on_remove_dir e i path x =
     (let fs = filter (\<lambda>(_, f). \<not> direct_child e f path) (removed_files x);
          ds = filter (\<lambda>(_, d). \<not> direct_child e path d) (removed_dirs x)
      in x\<lparr>removed_at := at_ms e, removed_files := fs,
           removed_dirs := (if \<exists>(_, d) \<in> set ds. direct_child e d path then ds else ds @ [(i, path)])\<rparr>)"

definition on_remove_timer :: "session_env \<Rightarrow> session_conn \<Rightarrow> session_conn" where
  "on_remove_timer e c =
     (let x = xfer c in
      if at_ms e - removed_at x < 1000 then c
      else set_xfer (\<lambda>x. x\<lparr>removed_files := [], removed_dirs := []\<rparr>)
             (fold (\<lambda>(_, p). emit (Cm (Cm_File_Log ''remove'' p))) (removed_files x @ removed_dirs x) c))"

section \<open>Requests\<close>

definition device_remote_refused :: "file_action \<Rightarrow> session_conn \<Rightarrow> bool" where
  "device_remote_refused fa c \<longleftrightarrow>
     (case fa of
        Receive i path files fnum total_size \<Rightarrow>
          prefix DEVICE_REMOTE_PREFIX path
          \<and> (\<not> authorized (login c) \<or> \<not> is_remote c \<or> \<not> remote_drop_file_transfer_enabled c \<or> \<not> peer_keyboard_enabled c
             \<or> path \<noteq> DEVICE_REMOTE_TARGET \<or> fnum \<noteq> 0 \<or> length files \<noteq> 1 \<or> fe_name (hd files) \<noteq> []
             \<or> total_size = 0 \<or> 64 * 1024 * 1024 < total_size)
      | _ \<Rightarrow> False)"

text \<open>The id and file number of a request to drop something into Downloads.\<close>

definition remote_drop_job :: "file_action \<Rightarrow> (i32 \<times> i32) option" where
  "remote_drop_job fa =
     (case fa of
        Receive i path files fnum total_size \<Rightarrow> if is_remote_drop_downloads_path path then Some (i, fnum) else None
      | Create i path \<Rightarrow> if is_remote_drop_downloads_path path then Some (i, -1) else None
      | _ \<Rightarrow> None)"

text \<open>What the one-way policy of the host forbids.\<close>

definition one_way_job :: "file_action \<Rightarrow> i32 option" where
  "one_way_job fa =
     (case fa of
        Send i path hidden fnum ty \<Rightarrow> Some i
      | RemoveFile i path fnum \<Rightarrow> Some i
      | Rename i path new_name \<Rightarrow> Some i
      | Create i path \<Rightarrow> Some i
      | RemoveDir i path recursive \<Rightarrow> Some i
      | _ \<Rightarrow> None)"

definition can_enable_overwrite_detection :: "i64 \<Rightarrow> bool" where
  "can_enable_overwrite_detection v \<longleftrightarrow> sint (get_version_number ''1.1.10'') \<le> sint v"

definition peer_detects :: "session_conn \<Rightarrow> bool" where
  "peer_detects c \<longleftrightarrow> can_enable_overwrite_detection (get_version_number (lr_version (lr (login c))))"

definition is_printer :: "i32 \<Rightarrow> bool" where
  "is_printer ty \<longleftrightarrow> ty = 1"

definition new_read_job :: "session_env \<Rightarrow> i32 \<Rightarrow> string \<Rightarrow> i32 \<Rightarrow> file_entry list \<Rightarrow> u8 list option \<Rightarrow> bool \<Rightarrow> read_job" where
  "new_read_job e i path fnum files memory od =
     \<lparr>rj_id = i, rj_files = files, rj_base_name = (case path_file_name e path of Some n \<Rightarrow> n | None \<Rightarrow> []),
      rj_file_num = fnum, rj_is_last_job = False, rj_is_resume = False, rj_stream = None, rj_finished = 0,
      rj_transferred = 0, rj_detect = od, rj_confirmed = False, rj_skipped = False, rj_waiting = False,
      rj_strict = False, rj_identities = [], rj_error = None, rj_audit_skipped = False, rj_memory = memory\<rparr>"

text \<open>\<open>FileAction::Send\<close>: the peer fetches files, or the document of a print job.\<close>

definition on_send :: "session_env \<Rightarrow> file_action \<Rightarrow> session_conn \<Rightarrow> session_conn" where
  "on_send e fa c0 =
     (case fa of
        Send i path hidden fnum ty \<Rightarrow>
          let printer = is_printer ty;
              doc = map_option (snd \<circ> snd) (find (\<lambda>d. fst (snd d) = path) (printer_data (xfer c0)))
          in if printer \<and> doc = None then c0
             else
               let memory = (if printer then doc else None);
                   c = (if printer then set_xfer (\<lambda>x. x\<lparr>printer_data := (case find (\<lambda>d. fst (snd d) = path) (printer_data x) of
                              Some d \<Rightarrow> remove1 d (printer_data x) | None \<Rightarrow> printer_data x)\<rparr>) c0 else c0);
                   c = (case read_source e fa memory of
                          Inl err \<Rightarrow> emit (Peer (File_Error i err 0)) c
                        | Inr files \<Rightarrow>
                            let c = emit (Peer (File_Dir i path files)) c;
                                c = set_xfer (\<lambda>x. x\<lparr>read_jobs := read_jobs x @ [new_read_job e i path fnum files memory (peer_detects c)]\<rparr>) c;
                                audit_path = (if printer then ''Remote print'' else path);
                                audit_files = get_files_for_audit printer files;
                                c = remember_enterprise_file_transfer e i Download audit_path audit_files c
                            in post_file_audit Download audit_path audit_files c)
               in set_xfer (\<lambda>x. x\<lparr>file_transferred := True\<rparr>) c
      | _ \<Rightarrow> c0)"

text \<open>\<open>FileAction::Receive\<close>: the peer sends files.\<close>

definition on_receive :: "session_env \<Rightarrow> file_action \<Rightarrow> session_conn \<Rightarrow> session_conn" where
  "on_receive e fa c0 =
     (case fa of
        Receive i path files fnum total_size \<Rightarrow>
          let c = (if path = DEVICE_REMOTE_TARGET
                   then set_xfer (\<lambda>x. x\<lparr>device_remote_jobs := insert i (device_remote_jobs x)\<rparr>) c0 else c0);
              c = emit (Fs (Fs_NewWrite path i fnum (map (\<lambda>f. (fe_name f, fe_modified_time f)) files) (peer_detects c) total_size)) c;
              audit_files = get_files_for_audit False files;
              c = remember_enterprise_file_transfer e i Upload path audit_files c;
              c = post_file_audit Upload path audit_files c;
              c = set_xfer (\<lambda>x. x\<lparr>file_transferred := True\<rparr>) c
          in if is_remote_drop_downloads_path path
             then set_xfer (\<lambda>x. x\<lparr>last_remote_drop_recv_at := Some (at_ms e)\<rparr>) c else c
      | _ \<Rightarrow> c0)"

text \<open>\<open>FileAction::SendConfirm\<close>: a panic in \<open>TransferJob::confirm\<close> aborts the process.\<close>

fun replace_job :: "i32 \<Rightarrow> read_job \<Rightarrow> read_job list \<Rightarrow> read_job list" where
  "replace_job i j' [] = []"
| "replace_job i j' (j # js) = (if rj_id j = i then j' # js else j # replace_job i j' js)"

definition on_confirm :: "session_env \<Rightarrow> i32 \<Rightarrow> i32 \<Rightarrow> confirm_union option \<Rightarrow> session_conn \<Rightarrow> session_conn" where
  "on_confirm e i n answer c =
     (case get_job i (read_jobs (xfer c)) of
        Some j \<Rightarrow>
          (case confirm_file (confirm_io e i) n answer j of
             Some j' \<Rightarrow> set_xfer (\<lambda>x. x\<lparr>read_jobs := replace_job i j' (read_jobs x)\<rparr>) c
           | None \<Rightarrow> emit (Host Process_Aborted) c)
      | None \<Rightarrow> emit (Fs (Fs_SendConfirm i n answer)) c)"

definition on_cancel :: "i32 \<Rightarrow> session_conn \<Rightarrow> session_conn" where
  "on_cancel i c0 =
     (let c = set_xfer (\<lambda>x. x\<lparr>device_remote_jobs := device_remote_jobs x - {i}\<rparr>) c0;
          c = emit (Fs (Fs_CancelWrite i)) c;
          c = (if get_job i (read_jobs (xfer c)) \<noteq> None
               then emit (Cm (Cm_File_Log ''transfer'' [])) (set_xfer (\<lambda>x. x\<lparr>read_jobs := remove_job i (read_jobs x)\<rparr>) c)
               else c)
      in post_enterprise_file_outcome i ''CANCELLED'' c)"

text \<open>The actions themselves, once a request has passed the checks.\<close>

definition perform_file_action :: "session_env \<Rightarrow> file_action \<Rightarrow> session_conn \<Rightarrow> session_conn" where
  "perform_file_action e fa c =
     (case fa of
        ReadEmptyDirs path hidden \<Rightarrow> emit (Fs (Fs_ReadEmptyDirs path hidden)) c
      | ReadDir path hidden \<Rightarrow> emit (Fs (Fs_ReadDir path hidden)) c
      | AllFiles i path hidden \<Rightarrow>
          (case recursive_files e path hidden of
             Inl err \<Rightarrow> emit (Peer (File_Error i err (-1))) c
           | Inr files \<Rightarrow> emit (Peer (File_Dir i path files)) c)
      | Send i path hidden fnum ty \<Rightarrow> on_send e fa c
      | Receive i path files fnum total_size \<Rightarrow> on_receive e fa c
      | RemoveDir i path recursive \<Rightarrow>
          set_xfer (on_remove_dir e i path) (emit (Fs (Fs_RemoveDir path i recursive)) c)
      | RemoveFile i path fnum \<Rightarrow>
          set_xfer (on_remove_file e i path) (emit (Fs (Fs_RemoveFile path i fnum)) c)
      | Create i path \<Rightarrow>
          (let c = emit (Cm (Cm_File_Log ''create_dir'' path)) (emit (Fs (Fs_CreateDir path i)) c)
           in if is_remote_drop_downloads_path path
              then set_xfer (\<lambda>x. x\<lparr>last_remote_drop_recv_at := Some (at_ms e)\<rparr>) c else c)
      | Cancel i \<Rightarrow> on_cancel i c
      | SendConfirm i n answer \<Rightarrow> on_confirm e i n answer c
      | Rename i path new_name \<Rightarrow>
          emit (Cm (Cm_File_Log ''rename'' path)) (emit (Fs (Fs_Rename i path new_name)) c)
      | DirectReceive data \<Rightarrow> c)"

definition file_action_allowed :: "file_action \<Rightarrow> session_conn \<Rightarrow> bool" where
  "file_action_allowed fa c \<longleftrightarrow>
     file_transfer (login c) \<noteq> None \<or> (case fa of Send i path hidden fnum ty \<Rightarrow> is_printer ty | _ \<Rightarrow> False)"

definition on_file_action :: "session_env \<Rightarrow> file_action option \<Rightarrow> session_conn \<Rightarrow> session_conn" where
  "on_file_action e fa_opt c =
     (case fa_opt of
        None \<Rightarrow> c
      | Some fa \<Rightarrow>
          if (case fa of Create i path \<Rightarrow> prefix DEVICE_REMOTE_PREFIX path | _ \<Rightarrow> False)
          then emit (Peer (File_Error (fa_id fa) ''DeviceRemote does not support directory creation'' (-1))) c
          else if device_remote_refused fa c
          then emit (Peer (File_Error (fa_id fa) ''DeviceRemote requires an authorized remote-control session and a valid single executable'' (fa_file_num fa))) c
          else
            let drop_job = (if file_action_allowed fa c then None else remote_drop_job fa) in
            if \<not> file_action_allowed fa c \<and> drop_job = None then c
            else if drop_job \<noteq> None \<and> \<not> remote_drop_file_transfer_enabled c
            then emit (Peer (File_Error (fst (the drop_job)) ''No permission of file transfer'' (snd (the drop_job)))) c
            else if delayed_read_dir (xfer c) \<noteq> None then
              (case fa of
                 ReadDir path hidden \<Rightarrow> set_xfer (\<lambda>x. x\<lparr>delayed_read_dir := Some (path, hidden)\<rparr>) c
               | _ \<Rightarrow> c)
            else if builtin_option e ''one-way-file-transfer'' = ''Y'' \<and> one_way_job fa \<noteq> None
            then emit (Peer (File_Error (the (one_way_job fa)) ''one-way-file-transfer-tip'' 0)) c
            else perform_file_action e fa c)"

section \<open>Answers of the peer\<close>

definition on_done :: "i32 \<Rightarrow> i32 \<Rightarrow> session_conn \<Rightarrow> session_conn" where
  "on_done i n c0 =
     (let c = set_xfer (\<lambda>x. x\<lparr>device_remote_jobs := device_remote_jobs x - {i}\<rparr>) c0 in
      if i \<in> device_remote_jobs (xfer c0)
         \<and> (\<not> authorized (login c) \<or> \<not> is_remote c \<or> \<not> remote_drop_file_transfer_enabled c \<or> \<not> peer_keyboard_enabled c)
      then post_enterprise_file_outcome i ''FAILED''
             (emit (Peer (File_Error i ''DeviceRemote execution permission was revoked'' n)) (emit (Fs (Fs_CancelWrite i)) c))
      else case pending_file_audits (xfer c) i of
             Some pending \<Rightarrow>
               if pa_direction pending = Download
               then (if pa_finished pending then post_enterprise_file_outcome i ''COMPLETED'' c else c)
               else emit (Fs (Fs_WriteDone i n)) c
           | None \<Rightarrow> emit (Fs (Fs_WriteDone i n)) c)"

definition on_error :: "i32 \<Rightarrow> string \<Rightarrow> i32 \<Rightarrow> session_conn \<Rightarrow> session_conn" where
  "on_error i err n c0 =
     (let c = set_xfer (\<lambda>x. x\<lparr>device_remote_jobs := device_remote_jobs x - {i}\<rparr>) c0 in
      if (case pending_file_audits (xfer c) i of Some pending \<Rightarrow> pa_direction pending = Download | None \<Rightarrow> False)
      then post_enterprise_file_outcome i ''FAILED'' (set_xfer (\<lambda>x. x\<lparr>read_jobs := remove_job i (read_jobs x)\<rparr>) c)
      else emit (Fs (Fs_WriteError i n err)) c)"

definition on_file_response :: "file_response option \<Rightarrow> session_conn \<Rightarrow> session_conn" where
  "on_file_response fr c =
     (case fr of
        Some (Block i n data compressed blk) \<Rightarrow> emit (Fs (Fs_WriteBlock i n data compressed)) c
      | Some (Done i n) \<Rightarrow> on_done i n c
      | Some (Digest i n modified bytes resume) \<Rightarrow> emit (Fs (Fs_CheckDigest i n bytes modified resume)) c
      | Some (Error i err n) \<Rightarrow> on_error i err n c
      | _ \<Rightarrow> c)"

text \<open>The timer of the read jobs: the outcome of a finished job is kept until the peer acknowledges it.
  Of the log for the manager the entry of a finished job is modelled, the periodic progress is not.\<close>

definition source_outcome :: "i32 \<times> bool \<Rightarrow> session_conn \<Rightarrow> session_conn" where
  "source_outcome out c =
     (case out of (i, succeeded) \<Rightarrow>
        case pending_file_audits (xfer c) i of
          Some pending \<Rightarrow>
            if pa_direction pending = Download then
              (if succeeded
               then set_xfer (\<lambda>x. x\<lparr>pending_file_audits := (pending_file_audits x)(i \<mapsto> pending\<lparr>pa_finished := True\<rparr>)\<rparr>) c
               else post_enterprise_file_outcome i ''FAILED'' c)
            else c
        | None \<Rightarrow> c)"

definition on_file_timer :: "zstd \<Rightarrow> (i32 \<Rightarrow> read_io) \<Rightarrow> session_conn \<Rightarrow> session_conn \<times> file_message list" where
  "on_file_timer z io c =
     (if read_jobs (xfer c) = [] then (c, [])
      else case handle_read_jobs z io (read_jobs (xfer c)) of
             (js, ms, out) \<Rightarrow>
               let c = set_xfer (\<lambda>x. x\<lparr>read_jobs := js\<rparr>) c in
               ((case out of Some r \<Rightarrow> source_outcome r (emit (Cm (Cm_File_Log ''transfer'' [])) c) | None \<Rightarrow> c), ms))"

text \<open>The manager reports the end of a write.\<close>

definition capture_enterprise_file_outcome_from_cm :: "file_response option \<Rightarrow> session_conn \<Rightarrow> session_conn" where
  "capture_enterprise_file_outcome_from_cm fr c0 =
     (case (case fr of Some (Done i n) \<Rightarrow> Some (i, ''COMPLETED'') | Some (Error i err n) \<Rightarrow> Some (i, ''FAILED'') | _ \<Rightarrow> None) of
        None \<Rightarrow> c0
      | Some (i, status) \<Rightarrow>
          let c = set_xfer (\<lambda>x. x\<lparr>device_remote_jobs := device_remote_jobs x - {i}\<rparr>) c0 in
          if (case pending_file_audits (xfer c) i of Some pending \<Rightarrow> pa_direction pending = Upload | None \<Rightarrow> False)
          then post_enterprise_file_outcome i status c else c)"

definition on_audit_outcome :: "i32 \<Rightarrow> bool \<Rightarrow> session_conn \<Rightarrow> session_conn" where
  "on_audit_outcome i succeeded c =
     (if (case pending_file_audits (xfer c) i of Some pending \<Rightarrow> pa_direction pending = Upload | None \<Rightarrow> False)
      then post_enterprise_file_outcome i (if succeeded then ''COMPLETED'' else ''FAILED'') c else c)"

text \<open>At the end of the session: \<open>ids\<close> are the keys of the table in the order of its iteration.\<close>

definition cancel_unfinished :: "i32 list \<Rightarrow> session_conn \<Rightarrow> session_conn" where
  "cancel_unfinished ids c = fold (\<lambda>i. post_enterprise_file_outcome i ''CANCELLED'') ids c"


section \<open>What a handler adds to the effects\<close>

text \<open>\<open>adds P c c'\<close>: on the way from \<open>c\<close> to \<open>c'\<close> only effects with \<open>P\<close> were added.\<close>

definition adds :: "(effect \<Rightarrow> bool) \<Rightarrow> session_conn \<Rightarrow> session_conn \<Rightarrow> bool" where
  "adds P c c' \<longleftrightarrow> (\<exists>xs. sent c' = sent c @ xs \<and> (\<forall>x \<in> set xs. P x))"

named_theorems adds_intros

lemma set_xfer_sel [simp]:
  "login (set_xfer f c) = login c" "authed_conn_type (set_xfer f c) = authed_conn_type c"
  "perms (set_xfer f c) = perms c" "opts (set_xfer f c) = opts c" "inp (set_xfer f c) = inp c"
  "xfer (set_xfer f c) = f (xfer c)" "sent (set_xfer f c) = sent c" "subs (set_xfer f c) = subs c"
  by (simp_all add: set_xfer_def)

lemma adds_refl [adds_intros]: "adds P c c"
  by (simp add: adds_def)

lemma adds_emit [adds_intros]: "adds P c d \<Longrightarrow> P x \<Longrightarrow> adds P c (emit x d)"
  by (auto simp: adds_def)

lemma adds_xfer [adds_intros]: "adds P c d \<Longrightarrow> adds P c (set_xfer f d)"
  by (simp add: adds_def)

lemma adds_trans: "adds P c d \<Longrightarrow> adds P d d' \<Longrightarrow> adds P c d'"
  by (auto simp: adds_def)

lemma adds_mono: "adds P c d \<Longrightarrow> (\<And>x. P x \<Longrightarrow> Q x) \<Longrightarrow> adds Q c d"
  by (auto simp: adds_def)

lemma adds_fold:
  assumes "\<And>y d. y \<in> set ys \<Longrightarrow> adds P c d \<Longrightarrow> adds P c (f y d)" and "adds P c d"
  shows "adds P c (fold f ys d)"
  using assms by (induction ys arbitrary: d) simp_all

lemma adds_remember [adds_intros]: "adds P c d \<Longrightarrow> adds P c (remember_enterprise_file_transfer e i dir p fs d)"
  by (auto simp: remember_enterprise_file_transfer_def Let_def intro: adds_xfer split: option.splits)

lemma adds_audit [adds_intros]:
  "adds P c d \<Longrightarrow> (\<And>fs. P (Audit (File_Audit dir p fs))) \<Longrightarrow> adds P c (post_file_audit dir p fs d)"
  by (auto simp: post_file_audit_def intro: adds_emit)

lemma adds_outcome [adds_intros]:
  assumes "adds P c d" and "\<And>p n fs. P (Audit (File_Outcome p n fs status))"
  shows "adds P c (post_enterprise_file_outcome i status d)"
proof (cases "pending_file_audits (xfer d) i")
  case None
  then show ?thesis using assms by (simp add: post_enterprise_file_outcome_def)
next
  case (Some pending)
  then show ?thesis using assms
    by (auto simp: post_enterprise_file_outcome_def Let_def split: prod.splits intro!: adds_fold adds_emit adds_xfer)
qed

text \<open>The requests to the manager that a handler added.\<close>

definition new_fs :: "session_conn \<Rightarrow> session_conn \<Rightarrow> fs_request set" where
  "new_fs c c' = {r. Fs r \<in> set (drop (length (sent c)) (sent c'))}"

lemma adds_new_fs: "adds P c c' \<Longrightarrow> r \<in> new_fs c c' \<Longrightarrow> P (Fs r)"
  by (auto simp: adds_def new_fs_def)

section \<open>Requests outside a file-transfer session\<close>

definition drop_request :: "effect \<Rightarrow> bool" where
  "drop_request x \<longleftrightarrow>
     (case x of
        Fs (Fs_NewWrite path i n files od total_size) \<Rightarrow> is_remote_drop_downloads_path path
      | Fs (Fs_CreateDir path i) \<Rightarrow> is_remote_drop_downloads_path path
      | Fs r \<Rightarrow> False
      | _ \<Rightarrow> True)"

lemma drop_request_simps [simp]:
  "drop_request (Peer p)" "drop_request (Audit a)" "drop_request (Cm m)" "drop_request (Host h)"
  "drop_request (Fs (Fs_NewWrite path i n files od total_size)) \<longleftrightarrow> is_remote_drop_downloads_path path"
  "drop_request (Fs (Fs_CreateDir path i)) \<longleftrightarrow> is_remote_drop_downloads_path path"
  by (simp_all add: drop_request_def)

lemma on_send_adds:
  assumes "\<And>p. P (Peer p)" "\<And>dir p fs. P (Audit (File_Audit dir p fs))"
  shows "adds P c (on_send e fa c)"
  unfolding on_send_def
  by (auto simp: Let_def intro!: adds_intros assms split: file_action.splits sum.splits)

lemma on_receive_adds:
  assumes "\<And>i n files od t. P (Fs (Fs_NewWrite path i n files od t))" "\<And>dir p fs. P (Audit (File_Audit dir p fs))"
  shows "adds P c (on_receive e (Receive i path files n t) c)"
proof -
  define b where "b \<longleftrightarrow> path = DEVICE_REMOTE_TARGET"
  show ?thesis
    unfolding on_receive_def b_def [symmetric] by (auto simp: Let_def b_def [symmetric] intro!: adds_intros assms)
qed

lemma perform_drop_adds:
  assumes "file_action_allowed fa c \<Longrightarrow> \<exists>i path hidden n ty. fa = Send i path hidden n ty" and "file_action_allowed fa c \<or> remote_drop_job fa \<noteq> None"
  shows "adds drop_request c (perform_file_action e fa c)"
proof (cases "file_action_allowed fa c")
  case True
  then obtain i path hidden n ty where fa: "fa = Send i path hidden n ty" using assms(1) by auto
  show ?thesis by (simp add: perform_file_action_def fa on_send_adds)
next
  case False
  then consider (receive) i path files n t where "fa = Receive i path files n t" "is_remote_drop_downloads_path path"
    | (create) i path where "fa = Create i path" "is_remote_drop_downloads_path path"
    using assms(2) by (auto simp: remote_drop_job_def split: file_action.splits if_splits)
  then show ?thesis
  proof cases
    case receive
    then show ?thesis by (simp add: perform_file_action_def on_receive_adds)
  next
    case create
    then show ?thesis by (auto simp: perform_file_action_def Let_def intro!: adds_intros)
  qed
qed


lemma on_file_action_cases:
  obtains (unchanged) "on_file_action e fa c = c"
    | (refused) i err n where "on_file_action e fa c = emit (Peer (File_Error i err n)) c"
    | (delayed) d where "on_file_action e fa c = set_xfer (\<lambda>x. x\<lparr>delayed_read_dir := d\<rparr>) c"
    | (performed) a where "fa = Some a" "on_file_action e fa c = perform_file_action e a c"
        "file_action_allowed a c \<or> remote_drop_job a \<noteq> None \<and> remote_drop_file_transfer_enabled c"
        "builtin_option e ''one-way-file-transfer'' = ''Y'' \<Longrightarrow> one_way_job a = None"
proof (cases fa)
  case None
  then show thesis using unchanged by (simp add: on_file_action_def)
next
  case (Some a)
  define directory where "directory \<longleftrightarrow> (case a of Create i path \<Rightarrow> prefix DEVICE_REMOTE_PREFIX path | _ \<Rightarrow> False)"
  define job where "job = (if file_action_allowed a c then None else remote_drop_job a)"
  define late where "late = (case a of ReadDir path hidden \<Rightarrow> set_xfer (\<lambda>x. x\<lparr>delayed_read_dir := Some (path, hidden)\<rparr>) c | _ \<Rightarrow> c)"
  note step = on_file_action_def [of e fa c, unfolded Some option.case Let_def, folded Some directory_def job_def late_def]
  have late: "late = c \<or> (\<exists>d. late = set_xfer (\<lambda>x. x\<lparr>delayed_read_dir := d\<rparr>) c)"
    by (cases a) (auto simp: late_def)
  consider "directory \<or> device_remote_refused a c" | "\<not> directory" "\<not> device_remote_refused a c" by blast
  then show thesis
  proof cases
    case 1
    then show thesis using refused unfolding step by (cases directory) simp_all
  next
    case 2
    consider "\<not> file_action_allowed a c \<and> job = None"
      | "job \<noteq> None \<and> \<not> remote_drop_file_transfer_enabled c"
      | "file_action_allowed a c \<or> remote_drop_job a \<noteq> None \<and> remote_drop_file_transfer_enabled c"
        "\<not> (job \<noteq> None \<and> \<not> remote_drop_file_transfer_enabled c)"
      by (cases "file_action_allowed a c"; cases "remote_drop_job a"; cases "remote_drop_file_transfer_enabled c")
        (simp_all add: job_def)
    then show thesis
    proof cases
      case 1
      then show thesis using 2 unchanged unfolding step by simp
    next
      case 22: 2
      then have "\<not> file_action_allowed a c" by (auto simp: job_def)
      then have "on_file_action e fa c = emit (Peer (File_Error (fst (the job)) ''No permission of file transfer'' (snd (the job)))) c"
        unfolding step using 2 22 by auto
      then show thesis by (rule refused)
    next
      case 3
      have "\<not> (\<not> file_action_allowed a c \<and> job = None)" using 3(1) by (auto simp: job_def)
      with 3(2) have ok: "on_file_action e fa c =
          (if delayed_read_dir (xfer c) \<noteq> None then late
           else if builtin_option e ''one-way-file-transfer'' = ''Y'' \<and> one_way_job a \<noteq> None
           then emit (Peer (File_Error (the (one_way_job a)) ''one-way-file-transfer-tip'' 0)) c
           else perform_file_action e a c)"
        unfolding step using 2 by (simp only: if_False simp_thms)
      show thesis
      proof (cases "delayed_read_dir (xfer c) = None")
        case False
        then have "on_file_action e fa c = late" unfolding ok by simp
        then show thesis using late unchanged delayed by metis
      next
        case True
        show thesis
        proof (cases "builtin_option e ''one-way-file-transfer'' = ''Y'' \<and> one_way_job a \<noteq> None")
          case policy: True
          have "on_file_action e fa c = emit (Peer (File_Error (the (one_way_job a)) ''one-way-file-transfer-tip'' 0)) c"
            unfolding ok using True policy by simp
          then show thesis by (rule refused)
        next
          case policy: False
          have "on_file_action e fa c = perform_file_action e a c" unfolding ok using True policy by auto
          then show thesis by (rule performed [OF Some _ 3(1)]) (use policy in simp)
        qed
      qed
    qed
  qed
qed


section \<open>The one-way policy\<close>

definition keeps_files :: "effect \<Rightarrow> bool" where
  "keeps_files x \<longleftrightarrow>
     (case x of
        Fs (Fs_RemoveDir p i b) \<Rightarrow> False | Fs (Fs_RemoveFile p i n) \<Rightarrow> False
      | Fs (Fs_CreateDir p i) \<Rightarrow> False | Fs (Fs_Rename i p q) \<Rightarrow> False
      | _ \<Rightarrow> True)"

lemma keeps_files_simps [simp]:
  "keeps_files (Peer p)" "keeps_files (Audit a)" "keeps_files (Cm m)" "keeps_files (Host h)"
  "keeps_files (Fs (Fs_NewWrite path i n files od t))" "keeps_files (Fs (Fs_ReadDir path b))"
  "keeps_files (Fs (Fs_ReadEmptyDirs path b))" "keeps_files (Fs (Fs_CancelWrite i))"
  "keeps_files (Fs (Fs_SendConfirm i n ans))"
  by (simp_all add: keeps_files_def)

definition job_ids :: "session_conn \<Rightarrow> i32 set" where
  "job_ids c = rj_id ` set (read_jobs (xfer c))"

lemma job_ids_xfer: "read_jobs (f (xfer c)) = read_jobs (xfer c) \<Longrightarrow> job_ids (set_xfer f c) = job_ids c"
  by (simp add: job_ids_def)

lemma job_ids_emit [simp]: "job_ids (emit x c) = job_ids c"
  by (simp add: job_ids_def)

lemma xfer_fold_emit [simp]: "xfer (fold (\<lambda>(i, fs). emit (g i fs)) ys c) = xfer c"
  by (induction ys arbitrary: c) auto

lemma read_jobs_outcome [simp]: "read_jobs (xfer (post_enterprise_file_outcome i s c)) = read_jobs (xfer c)"
  by (auto simp: post_enterprise_file_outcome_def Let_def split: option.splits)

lemma read_jobs_audit [simp]: "read_jobs (xfer (post_file_audit d p fs c)) = read_jobs (xfer c)"
  by (simp add: post_file_audit_def)

lemma read_jobs_remember [simp]: "read_jobs (xfer (remember_enterprise_file_transfer e i d p fs c)) = read_jobs (xfer c)"
  by (auto simp: remember_enterprise_file_transfer_def Let_def split: option.splits)

lemma remove_job_subset: "set (remove_job i js) \<subseteq> set js"
  by (induction js) auto

lemma replace_job_ids: "rj_id j' = i \<Longrightarrow> rj_id ` set (replace_job i j' js) = rj_id ` set js"
  by (induction js) auto

lemma confirm_file_id: "confirm_file io n a j = Some j' \<Longrightarrow> rj_id j' = rj_id j"
  by (auto simp: confirm_file_def set_file_skipped_def set_file_confirmed_def set_stream_offset_def Let_def
      split: if_splits option.splits confirm_union.splits)

lemma get_job_id: "get_job i js = Some j \<Longrightarrow> rj_id j = i"
  by (auto simp: get_job_def find_Some_iff)

lemma perform_keeps:
  assumes "one_way_job fa = None"
  shows "adds keeps_files c (perform_file_action e fa c) \<and> job_ids (perform_file_action e fa c) \<subseteq> job_ids c"
proof (cases fa)
  case (Receive i path files n t)
  then show ?thesis
    using on_receive_adds [of keeps_files path c e i files n t]
    by (simp add: perform_file_action_def) (simp add: on_receive_def job_ids_def Let_def)
next
  case (Cancel i)
  then show ?thesis
    using remove_job_subset [of i "read_jobs (xfer c)"]
    by (auto simp: perform_file_action_def on_cancel_def Let_def job_ids_def intro!: adds_intros)
next
  case (SendConfirm i n a)
  then show ?thesis
    by (auto simp: perform_file_action_def on_confirm_def job_ids_def intro!: adds_intros
        dest!: get_job_id confirm_file_id simp: replace_job_ids split: option.splits)
      (metis replace_job_ids image_eqI)
qed (use assms in \<open>auto simp: perform_file_action_def one_way_job_def job_ids_def intro!: adds_intros split: sum.splits\<close>)



section \<open>What an audit record contains\<close>

lemma utf16_count_append [simp]: "utf16_count (a @ b) = utf16_count a + utf16_count b"
  by (simp add: utf16_count_def)

lemma utf8_chars_shape: "ch \<in> set (utf8_chars s) \<Longrightarrow> \<exists>c cs. ch = c # cs \<and> (\<forall>d \<in> set cs. continuation d)"
  by (induction s rule: utf8_chars.induct) (auto dest: set_takeWhileD)

lemma continuation_units: "\<forall>d \<in> set cs. continuation d \<Longrightarrow> utf16_count cs = 0"
  by (induction cs) (auto simp: utf16_count_def continuation_def)

lemma len_utf16_bound: "ch \<in> set (utf8_chars s) \<Longrightarrow> utf16_count ch \<le> len_utf16 ch"
proof -
  assume "ch \<in> set (utf8_chars s)"
  then obtain c cs where ch: "ch = c # cs" "\<forall>d \<in> set cs. continuation d" using utf8_chars_shape by blast
  have "utf16_count ch = utf16_count [c]" using utf16_count_append [of "[c]" cs] continuation_units [OF ch(2)] ch(1) by simp
  moreover have "utf16_count [c] \<le> len_utf16 ch" by (simp add: ch(1) utf16_count_def len_utf16_def Let_def)
  ultimately show ?thesis by simp
qed

lemma take_units_bound:
  assumes "\<forall>ch \<in> set chs. utf16_count ch \<le> len_utf16 ch" and "used \<le> limit"
  shows "used + utf16_count (concat (take_units limit used chs)) \<le> limit"
  using assms
proof (induction limit used chs rule: take_units.induct)
  case (2 limit used ch chs)
  show ?case
  proof (cases "limit < used + len_utf16 ch")
    case True
    then show ?thesis using 2 by (simp add: utf16_count_def)
  next
    case False
    then have "used + len_utf16 ch + utf16_count (concat (take_units limit (used + len_utf16 ch) chs)) \<le> limit"
      using 2 by simp
    moreover have "utf16_count ch \<le> len_utf16 ch" using 2 by simp
    ultimately show ?thesis using False by simp
  qed
qed (simp add: utf16_count_def)

lemma truncate_audit_text_bound: "utf16_count (truncate_audit_text v m) \<le> m"
  using take_units_bound [of "utf8_chars v" 0 m] len_utf16_bound by (simp add: truncate_audit_text_def)

lemma take_units_prefix: "prefix (concat (take_units m n chs)) (concat chs)"
  by (induction m n chs rule: take_units.induct) auto

lemma utf8_chars_concat: "concat (utf8_chars s) = s"
  by (induction s rule: utf8_chars.induct) simp_all

lemma truncate_audit_text_prefix: "prefix (truncate_audit_text v m) v"
  using take_units_prefix [of m 0 "utf8_chars v"] by (simp add: truncate_audit_text_def utf8_chars_concat)

lemma normalized_audit_files_clean:
  "normalized_audit_files e path files \<noteq> []
    \<and> (\<forall>(name, n) \<in> set (normalized_audit_files e path files). utf16_count name \<le> 255 \<and> 0 \<le> n)"
  by (auto simp: normalized_audit_files_def Let_def truncate_audit_text_bound split: prod.splits)

text \<open>Audit records.  The record remembered for a transfer names at least one file, every name is cut to
  255 UTF-16 units and every size is not negative, and for everything that is not a file-manager session
  the path in it is the constant Downloads, never what the peer wrote.\<close>

theorem audit_record_clean:
  assumes "pending_file_audits (xfer c) i = None"
    and "pending_file_audits (xfer (remember_enterprise_file_transfer e i dir path files c)) i = Some p"
  shows "pa_files p \<noteq> [] \<and> (\<forall>(name, n) \<in> set (pa_files p). utf16_count name \<le> 255 \<and> 0 \<le> n)
    \<and> (if file_transfer (login c) = None then pa_path p = ''Downloads'' else prefix (pa_path p) path \<and> utf16_count (pa_path p) \<le> 2000)
    \<and> audit_verified c \<and> \<not> pa_finished p"
proof -
  obtain mode where mode: "enterprise_file_transfer_mode c dir path = Some mode"
    using assms by (auto simp: remember_enterprise_file_transfer_def split: option.splits)
  have p: "p = \<lparr>pa_direction = dir, pa_mode = mode, pa_path = enterprise_file_audit_path mode path,
      pa_files = normalized_audit_files e (enterprise_file_normalization_path e mode path) files, pa_finished = False\<rparr>"
    using assms(2) by (simp add: remember_enterprise_file_transfer_def mode Let_def)
  have m: "audit_verified c" "if file_transfer (login c) = None then mode = RemoteDrop else mode = FileManager"
    using mode by (auto simp: enterprise_file_transfer_mode_def enterprise_file_transfer_mode_for_def split: if_splits)
  show ?thesis
    using m normalized_audit_files_clean [of e "enterprise_file_normalization_path e mode path" files]
    by (simp add: p enterprise_file_audit_path_def truncate_audit_text_bound truncate_audit_text_prefix split: if_splits)
qed

section \<open>Outcomes are reported once\<close>

lemma batches_files: "concat (map snd (batches i fs)) = fs"
proof (induction i fs rule: batches.induct)
  case (2 i f fs)
  have "take 100 (f # fs) @ drop 99 fs = f # fs" using append_take_drop_id [of 100 "f # fs"] by simp
  then show ?case using 2 by simp
qed simp

lemma batches_short: "b \<in> set (batches i fs) \<Longrightarrow> snd b \<noteq> [] \<and> length (snd b) \<le> 100"
  by (induction i fs rule: batches.induct) auto

lemma sent_fold_emit: "sent (fold (\<lambda>(i, fs). emit (g i fs)) ys c) = sent c @ map (\<lambda>(i, fs). g i fs) ys"
  by (induction ys arbitrary: c) auto

text \<open>Outcomes.  Reporting the end of a remembered transfer posts its files in order, in batches of at
  most a hundred, each file in exactly one batch, and forgets the transfer: no second outcome of the same
  transfer is ever posted.\<close>

theorem outcome_reported_once:
  assumes "pending_file_audits (xfer c) i = Some p" and "audit_verified c" and "audit_base c \<noteq> []"
    and c'_def: "c' = post_enterprise_file_outcome i status c"
  shows "(\<exists>bs. sent c' = sent c @ map (\<lambda>(n, fs). Audit (File_Outcome p n fs status)) bs
      \<and> concat (map snd bs) = pa_files p \<and> (\<forall>(n, fs) \<in> set bs. fs \<noteq> [] \<and> length fs \<le> 100))
    \<and> post_enterprise_file_outcome i status' c' = c'"
proof -
  let ?c = "set_xfer (\<lambda>x. x\<lparr>pending_file_audits := (pending_file_audits x)(i := None)\<rparr>) c"
  let ?n = "\<lambda>k. if 100 < length (pa_files p) then Some (k + 1) else (None :: nat option)"
  have ok: "audit_verified ?c" "audit_base ?c \<noteq> []" using assms(2,3) by (auto simp: audit_verified_def audit_base_def Let_def)
  have c': "c' = fold (\<lambda>(k, fs). emit (Audit (File_Outcome p (?n k) fs status))) (batches 0 (pa_files p)) ?c"
    unfolding c'_def post_enterprise_file_outcome_def assms(1) option.case Let_def using ok by simp
  let ?bs = "map (\<lambda>(k, fs). (?n k, fs)) (batches 0 (pa_files p))"
  have "sent c' = sent c @ map (\<lambda>(n, fs). Audit (File_Outcome p n fs status)) ?bs"
    unfolding c' sent_fold_emit by (simp add: comp_def case_prod_unfold)
  moreover have "concat (map snd ?bs) = pa_files p"
    using batches_files [of 0 "pa_files p"] by (simp add: comp_def case_prod_unfold)
  moreover have "\<forall>(n, fs) \<in> set ?bs. fs \<noteq> [] \<and> length fs \<le> 100"
    using batches_short by fastforce
  moreover have "xfer c' = xfer ?c" unfolding c' by (rule xfer_fold_emit)
  then have "pending_file_audits (xfer c') i = None" by simp
  then have "post_enterprise_file_outcome i status' c' = c'" by (simp add: post_enterprise_file_outcome_def)
  ultimately show ?thesis by blast
qed

section \<open>A permission that is not checked again\<close>

text \<open>C35 Forgotten DeviceRemote uploads.  Done of a DeviceRemote upload is checked against the current
  permissions only while its id is in \<open>device_remote_jobs\<close>; but any Done or Error that the manager
  answers under that id, as it does for a folder the peer creates, takes the id out.  From then on Done
  completes the upload, which starts the program, whatever the user has revoked.\<close>

theorem device_remote_recheck_bypassed:
  assumes "\<forall>p. pending_file_audits (xfer c) i = Some p \<longrightarrow> pa_direction p = Upload"
    and "xfer c' = xfer (capture_enterprise_file_outcome_from_cm (Some (Done i m)) c)"
  shows "Fs_WriteDone i n \<in> new_fs c' (on_done i n c')"
proof -
  have x: "device_remote_jobs (xfer (post_enterprise_file_outcome i s d)) = device_remote_jobs (xfer d)
      \<and> pending_file_audits (xfer (post_enterprise_file_outcome i s d)) i = None" for s d
    by (auto simp: post_enterprise_file_outcome_def Let_def split: option.splits)
  have "i \<notin> device_remote_jobs (xfer c')" "pending_file_audits (xfer c') i = None"
    unfolding assms(2) using assms(1) by (auto simp: capture_enterprise_file_outcome_from_cm_def Let_def x split: option.splits)
  then show ?thesis by (simp add: on_done_def Let_def new_fs_def)
qed

section \<open>Concrete sessions\<close>

definition drop_session :: session_conn where
  "drop_session = (let c = toy_session Remote in c\<lparr>opts := (opts c)\<lparr>enable_file_transfer := True\<rparr>\<rparr>)"

definition audited_session :: session_conn where
  "audited_session = set_xfer (\<lambda>x. x\<lparr>audit_context := Some (''t'', ''s''), audit_file_url := ''u''\<rparr>) (toy_session FileTransferConn)"

definition upload_of :: "string \<Rightarrow> file_action" where
  "upload_of path = Receive 5 path [plain_file [] 4] 0 4"

lemma drop_session_sel [simp]:
  "file_transfer (login drop_session) = None" "remote_drop_file_transfer_enabled drop_session"
  "authorized (login drop_session)" "is_remote drop_session" "peer_keyboard_enabled drop_session"
  "delayed_read_dir (xfer drop_session) = None" "sent drop_session = []"
  "pending_file_audits (xfer drop_session) = (\<lambda>_. None)" "audit_context (xfer drop_session) = None"
  by (simp_all add: drop_session_def toy_session_def Let_def remote_drop_file_transfer_enabled_def is_remote_def
      peer_keyboard_enabled_def toy_conn_def)

lemma audited_session_sel [simp]:
  "file_transfer (login audited_session) = Some ([], False)" "delayed_read_dir (xfer audited_session) = None"
  "pending_file_audits (xfer audited_session) = (\<lambda>_. None)" "audit_context (xfer audited_session) = Some (''t'', ''s'')"
  "audit_file_url (xfer audited_session) = ''u''" "sent audited_session = []"
  by (simp_all add: audited_session_def toy_session_def)

lemma toy_env_sel [simp]: "builtin_option toy_session_env s = []" "at_ms toy_session_env = 1000"
  by (simp_all add: toy_session_env_def)

lemma strip_one_ascii: "33 \<le> char_code c \<Longrightarrow> char_code c < 128 \<Longrightarrow>
    strip_one ws_chars [c] = None \<and> strip_one (map rev ws_chars) [c] = None"
  by (auto simp: strip_one_def find_None_iff ws_chars_def char_code_def)

lemma not_blank_ascii: "33 \<le> char_code c \<Longrightarrow> char_code c < 128 \<Longrightarrow> \<not> blank [c]"
  using strip_one_ascii [of c] by (simp add: blank_def str_trim_def strip_all.simps [of _ "[c]"])

lemma not_blank_letter [simp]: "\<not> blank ''t''" "\<not> blank ''s''" "\<not> blank ''u''"
  by (simp_all add: not_blank_ascii char_code_def)

lemma audited_verified: "audit_verified audited_session"
  by (simp add: audit_verified_def)



definition one_way_env :: session_env where
  "one_way_env = toy_session_env\<lparr>builtin_option := (\<lambda>_. ''Y''), read_source := (\<lambda>_ _. Inr [plain_file ''a'' 3])\<rparr>"


definition waiting_session :: session_conn where
  "waiting_session = remember_enterprise_file_transfer toy_session_env 5 Upload ''C:'' [(''a'', -3)] audited_session"

definition waiting_record :: pending_audit where
  "waiting_record = \<lparr>pa_direction = Upload, pa_mode = FileManager, pa_path = ''C:'', pa_files = [(''a'', 0)], pa_finished = False\<rparr>"

lemma waiting_session_eq:
  "waiting_session = set_xfer (\<lambda>x. x\<lparr>pending_file_audits := (pending_file_audits x)(5 \<mapsto> waiting_record)\<rparr>) audited_session"
proof -
  have mode: "enterprise_file_transfer_mode audited_session Upload ''C:'' = Some FileManager"
    by (simp add: enterprise_file_transfer_mode_def audited_verified enterprise_file_transfer_mode_for_def)
  have nb: "\<not> blank ''a''" by (simp add: not_blank_ascii char_code_def)
  show ?thesis
    by (simp add: waiting_session_def waiting_record_def remember_enterprise_file_transfer_def mode Let_def
        enterprise_file_audit_path_def truncate_audit_text_def len_utf16_def continuation_def char_code_def
        normalized_audit_files_def enterprise_file_normalization_path_def nb)
qed

theorem audit_record_clean_witness:
  "pending_file_audits (xfer waiting_session) 5 = Some waiting_record \<and> pa_files waiting_record \<noteq> []"
proof -
  have p: "pending_file_audits (xfer waiting_session) 5 = Some waiting_record" by (simp add: waiting_session_eq)
  from audit_record_clean [OF _ p [unfolded waiting_session_def]] show ?thesis using p by simp
qed

theorem outcome_reported_once_witness:
  "post_enterprise_file_outcome 5 ''FAILED'' (post_enterprise_file_outcome 5 ''COMPLETED'' waiting_session)
    = post_enterprise_file_outcome 5 ''COMPLETED'' waiting_session
    \<and> sent (post_enterprise_file_outcome 5 ''COMPLETED'' waiting_session) \<noteq> []"
proof -
  have p: "pending_file_audits (xfer waiting_session) 5 = Some waiting_record" by (simp add: waiting_session_eq)
  have "audit_verified waiting_session" by (simp add: waiting_session_eq audit_verified_def)
  moreover have "audit_base waiting_session = ''u''"
    by (simp add: waiting_session_eq audit_base_def Let_def trim_end_matches.simps suffix_to_prefix)
  ultimately obtain bs where once: "post_enterprise_file_outcome 5 ''FAILED'' (post_enterprise_file_outcome 5 ''COMPLETED'' waiting_session)
      = post_enterprise_file_outcome 5 ''COMPLETED'' waiting_session"
    and posted: "sent (post_enterprise_file_outcome 5 ''COMPLETED'' waiting_session)
      = sent waiting_session @ map (\<lambda>(n, fs). Audit (File_Outcome waiting_record n fs ''COMPLETED'')) bs"
    and files: "concat (map snd bs) = pa_files waiting_record"
    using outcome_reported_once [OF p _ _ refl, where status = "''COMPLETED''" and status' = "''FAILED''"] by auto
  from files have "bs \<noteq> []" by (auto simp: waiting_record_def)
  then show ?thesis using once posted by simp
qed

text \<open>The run: the peer starts a DeviceRemote upload and creates a folder under the same id; the manager
  answers the folder; the user withdraws file transfer; the peer ends the upload.\<close>

definition drop_path :: string where
  "drop_path = REMOTE_DROP_DOWNLOADS_PREFIX @ ''a''"

definition bypass_start :: session_conn where
  "bypass_start = on_file_action toy_session_env (Some (upload_of DEVICE_REMOTE_TARGET)) drop_session"

definition bypass_created :: session_conn where
  "bypass_created = on_file_action toy_session_env (Some (Create 5 drop_path)) bypass_start"

definition bypass_revoked :: "session_conn \<Rightarrow> session_conn" where
  "bypass_revoked c = switch_permission toy_session_env ''file'' False c"

lemma drop_jobs [simp]: "device_remote_jobs (xfer drop_session) = {}"
  by (simp add: drop_session_def toy_session_def Let_def)

lemma no_audit: "audit_context (xfer c) = None \<Longrightarrow> audit_file_url (xfer c) = [] \<Longrightarrow>
    remember_enterprise_file_transfer e i d p fs c = c \<and> post_file_audit d p fs c = c"
  by (simp add: remember_enterprise_file_transfer_def enterprise_file_transfer_mode_def audit_verified_def post_file_audit_def)

lemma device_target: "prefix DEVICE_REMOTE_PREFIX DEVICE_REMOTE_TARGET" "is_remote_drop_downloads_path DEVICE_REMOTE_TARGET"
    "is_remote_drop_downloads_path drop_path" "\<not> prefix DEVICE_REMOTE_PREFIX drop_path"
  by (simp_all add: drop_path_def is_remote_drop_downloads_path_def DEVICE_REMOTE_PREFIX_def DEVICE_REMOTE_TARGET_def REMOTE_DROP_DOWNLOADS_PREFIX_def)

lemma bypass_start_eq:
  "bypass_start = set_xfer (\<lambda>x. x\<lparr>device_remote_jobs := {5}, file_transferred := True, last_remote_drop_recv_at := Some 1000\<rparr>)
     (emit (Fs (Fs_NewWrite DEVICE_REMOTE_TARGET 5 0 [([], 0)] (peer_detects drop_session) 4)) drop_session)"
proof -
  have url: "audit_file_url (xfer drop_session) = []" by (simp add: drop_session_def toy_session_def Let_def)
  have "bypass_start = on_receive toy_session_env (upload_of DEVICE_REMOTE_TARGET) drop_session"
    by (simp add: bypass_start_def on_file_action_def upload_of_def device_remote_refused_def device_target plain_file_def
        file_action_allowed_def remote_drop_job_def perform_file_action_def Let_def)
  then show ?thesis
    by (simp add: on_receive_def upload_of_def Let_def no_audit url device_target plain_file_def set_xfer_def emit_def
        peer_detects_def)
qed

lemma bypass_created_eq:
  "bypass_created = set_xfer (\<lambda>x. x\<lparr>last_remote_drop_recv_at := Some 1000\<rparr>)
     (emit (Cm (Cm_File_Log ''create_dir'' drop_path))
       (emit (Fs (Fs_CreateDir drop_path 5)) bypass_start))"
proof -
  have "file_transfer (login bypass_start) = None" "delayed_read_dir (xfer bypass_start) = None"
      "remote_drop_file_transfer_enabled bypass_start"
    using drop_session_sel(2) by (simp_all add: bypass_start_eq remote_drop_file_transfer_enabled_def)
  then show ?thesis
    by (simp add: bypass_created_def on_file_action_def device_remote_refused_def file_action_allowed_def remote_drop_job_def
        device_target perform_file_action_def Let_def)
qed

lemma bypass_revoked_sel [simp]:
  "xfer (bypass_revoked c) = xfer c" "\<not> remote_drop_file_transfer_enabled (bypass_revoked c)"
  by (simp_all add: bypass_revoked_def switch_permission_def Let_def remote_drop_file_transfer_enabled_def)

lemma drop_enabled_xfer [simp]: "remote_drop_file_transfer_enabled (set_xfer f c) = remote_drop_file_transfer_enabled c"
  by (simp add: remote_drop_file_transfer_enabled_def)

theorem device_remote_recheck_bypassed_witness:
  "(let c = bypass_revoked (capture_enterprise_file_outcome_from_cm (Some (Done 5 0)) bypass_created) in
      \<not> remote_drop_file_transfer_enabled c \<and> Fs_WriteDone 5 0 \<in> new_fs c (on_done 5 0 c))
    \<and> (let c = bypass_revoked bypass_created in Fs_WriteDone 5 0 \<notin> new_fs c (on_done 5 0 c))"
proof -
  have pending: "pending_file_audits (xfer bypass_created) = (\<lambda>_. None)" "device_remote_jobs (xfer bypass_created) = {5}"
    by (simp_all add: bypass_created_eq bypass_start_eq)
  let ?c = "bypass_revoked (capture_enterprise_file_outcome_from_cm (Some (Done 5 0)) bypass_created)"
  let ?d = "bypass_revoked bypass_created"
  have "Fs_WriteDone 5 0 \<in> new_fs ?c (on_done 5 0 ?c)"
    by (rule device_remote_recheck_bypassed [of bypass_created 5 ?c 0]) (simp_all add: pending)
  moreover have "Fs_WriteDone 5 0 \<notin> new_fs ?d (on_done 5 0 ?d)"
    by (simp add: on_done_def Let_def pending post_enterprise_file_outcome_def new_fs_def)
  ultimately show ?thesis by simp
qed

end
