(* ===== verification/Session_Handler.thy ===== *)
theory Session_Handler
  imports Session_Files File_Stream
begin

text \<open>
  The message handler of an authorized connection (\<open>Connection::on_message\<close> in
  \<open>src/server/connection.rs\<close>, Windows host): input, the detection of a paste, clipboards, file
  clipboards, the miscellaneous requests, audio, voice calls, screenshots and terminals, behind the scope
  check of the session.  Files are in \<open>Session_Files\<close>, option updates in \<open>Session_Perms\<close>.

  The choice of displays, the capture of the screen and the terminal service are other components: what
  they are asked for is an effect.
\<close>

section \<open>Input\<close>

datatype keyboard_mode = Legacy | Map | Translate | Auto

definition keyboard_mode_value :: "i32 \<Rightarrow> keyboard_mode option" where
  "keyboard_mode_value n =
     (if n = 0 then Some Legacy else if n = 1 then Some Map else if n = 2 then Some Translate
      else if n = 3 then Some Auto else None)"

definition key_chr :: "key_event \<Rightarrow> u32" where
  "key_chr ke = (case ke_union ke of Some (Chr code) \<Rightarrow> code | _ \<Rightarrow> 0)"

definition key_event_rdev_key :: "session_env \<Rightarrow> key_event \<Rightarrow> rdev_key option" where
  "key_event_rdev_key e ke =
     (case keyboard_mode_value (ke_mode ke) of
        Some Map \<Rightarrow> Some (rdev_of_scancode e (key_chr ke))
      | Some Translate \<Rightarrow>
          (case ke_union ke of Some (Chr code) \<Rightarrow> Some (rdev_of_scancode e (code AND 0xFFFF)) | _ \<Rightarrow> None)
      | _ \<Rightarrow> None)"

definition is_modifier :: "rdev_key \<Rightarrow> bool" where
  "is_modifier k \<longleftrightarrow>
     k \<in> set [ShiftLeft, ShiftRight, ControlLeft, ControlRight, MetaLeft, MetaRight, KeyAlt, KeyAltGr]"

definition set_inp :: "(input_state \<Rightarrow> input_state) \<Rightarrow> session_conn \<Rightarrow> session_conn" where
  "set_inp f c = c\<lparr>inp := f (inp c)\<rparr>"

datatype paste_trigger = Trigger_V | Trigger_Insert

definition latched :: "paste_trigger \<Rightarrow> input_state \<Rightarrow> bool" where
  "latched k s = (case k of Trigger_V \<Rightarrow> v_down s | Trigger_Insert \<Rightarrow> insert_down s)"

definition latch :: "paste_trigger \<Rightarrow> bool \<Rightarrow> input_state \<Rightarrow> input_state" where
  "latch k b s = (case k of Trigger_V \<Rightarrow> s\<lparr>v_down := b\<rparr> | Trigger_Insert \<Rightarrow> s\<lparr>insert_down := b\<rparr>)"

text \<open>\<open>PasteTriggerEdgeState::observe\<close>\<close>

definition observe :: "paste_trigger \<Rightarrow> bool \<Rightarrow> bool \<Rightarrow> input_state \<Rightarrow> bool \<times> input_state" where
  "observe k down press s =
     (if \<not> down \<and> \<not> press then (False, latch k False s)
      else if down then (\<not> latched k s, latch k True s)
      else (\<not> latched k s, s))"

definition CONTROL_KEY_INSERT :: i32 where "CONTROL_KEY_INSERT = 58"

definition is_v :: "session_env \<Rightarrow> key_event \<Rightarrow> bool" where
  "is_v e ke \<longleftrightarrow>
     (if keyboard_mode_value (ke_mode ke) = Some Legacy
      then (case ke_union ke of Some (Chr code) \<Rightarrow> code = 118 \<or> code = 86 | _ \<Rightarrow> False)
      else key_event_rdev_key e ke = Some KeyV)"

definition is_insert :: "session_env \<Rightarrow> key_event \<Rightarrow> bool" where
  "is_insert e ke \<longleftrightarrow>
     (let insert_key = ke_union ke = Some (ControlKey CONTROL_KEY_INSERT)
      in if keyboard_mode_value (ke_mode ke) = Some Legacy then insert_key
         else key_event_rdev_key e ke = Some KeyInsert \<or> insert_key)"

definition paste_trigger_of :: "session_env \<Rightarrow> key_event \<Rightarrow> paste_trigger option" where
  "paste_trigger_of e ke =
     (if is_v e ke then Some Trigger_V else if is_insert e ke then Some Trigger_Insert else None)"

definition held :: "rdev_key set \<Rightarrow> i32 set \<Rightarrow> key_event \<Rightarrow> session_conn \<Rightarrow> bool" where
  "held keys codes ke c \<longleftrightarrow> pressed_modifiers (inp c) \<inter> keys \<noteq> {} \<or> set (ke_modifiers ke) \<inter> codes \<noteq> {}"

definition CLIPBOARD_PASTE_AUDIT_TTL :: int where "CLIPBOARD_PASTE_AUDIT_TTL = 120000"

definition is_paste :: "session_env \<Rightarrow> key_event \<Rightarrow> session_conn \<Rightarrow> bool" where
  "is_paste e ke c \<longleftrightarrow>
     held {ControlLeft, ControlRight} {4, 74} ke c \<and> is_v e ke
     \<or> held {MetaLeft, MetaRight} {23, 64} ke c \<and> is_v e ke
     \<or> held {ShiftLeft, ShiftRight} {29, 73} ke c \<and> is_insert e ke"

definition detect_and_audit_paste :: "session_env \<Rightarrow> key_event \<Rightarrow> session_conn \<Rightarrow> session_conn" where
  "detect_and_audit_paste e ke c0 =
     (case paste_trigger_of e ke of
        None \<Rightarrow> c0
      | Some k \<Rightarrow>
          let (new_edge, s) = observe k (ke_down ke) (ke_press ke) (inp c0);
              c = c0\<lparr>inp := s\<rparr>
          in if \<not> new_edge then c
             else case last_clipboard_audit_for_paste (inp c) of
                    None \<Rightarrow> c
                  | Some (observed_at, cbs) \<Rightarrow>
                      if \<not> clipboard (perms c) then c
                      else if CLIPBOARD_PASTE_AUDIT_TTL < at_ms e - observed_at
                      then set_inp (\<lambda>s. s\<lparr>last_clipboard_audit_for_paste := None\<rparr>) c
                      else if is_paste e ke c then emit (Audit (Clipboard_Audit cbs)) c
                      else c)"

definition on_mouse :: "session_env \<Rightarrow> mouse_event \<Rightarrow> session_conn \<Rightarrow> session_conn" where
  "on_mouse e me c =
     (if is_authed_view_camera_conn c then c
      else update_auto_disconnect_timer e
        (if peer_keyboard_enabled c then emit (Input (Input_Mouse me True (show_my_cursor (opts c)))) c
         else if show_my_cursor (opts c) then emit (Input (Input_Mouse me False True)) c
         else c))"

definition on_pointer :: "session_env \<Rightarrow> u8 list \<Rightarrow> session_conn \<Rightarrow> session_conn" where
  "on_pointer e pde c =
     (if is_authed_view_camera_conn c then c
      else update_auto_disconnect_timer e
        (if peer_keyboard_enabled c then emit (Input (Input_Pointer pde)) c else c))"

definition track_modifier :: "session_env \<Rightarrow> key_event \<Rightarrow> session_conn \<Rightarrow> session_conn" where
  "track_modifier e ke c =
     (case key_event_rdev_key e ke of
        Some k \<Rightarrow>
          if \<not> is_modifier k then c
          else set_inp (\<lambda>s. s\<lparr>pressed_modifiers :=
                 (if ke_down ke \<or> ke_press ke then insert k (pressed_modifiers s) else pressed_modifiers s - {k})\<rparr>) c
      | None \<Rightarrow> c)"

definition on_key :: "session_env \<Rightarrow> key_event \<Rightarrow> session_conn \<Rightarrow> session_conn" where
  "on_key e ke c0 =
     (if is_authed_view_camera_conn c0 then c0
      else update_auto_disconnect_timer e
        (if peer_keyboard_enabled c0 then
           let c = detect_and_audit_paste e ke (track_modifier e ke c0);
               press = (ke_press ke \<and> \<not> (case ke_union ke of Some (Unicode _) \<Rightarrow> True | Some (Seq _) \<Rightarrow> True | _ \<Rightarrow> False))
           in emit (Input (Input_Key ke press)) c
         else c0))"

section \<open>Clipboards\<close>

definition on_clipboards :: "session_env \<Rightarrow> clipboard_msg list \<Rightarrow> session_conn \<Rightarrow> session_conn" where
  "on_clipboards e cbs c =
     (if should_handle_text_clipboard_message c \<and> clipboard_enabled c
      then emit (Host (Update_Clipboard cbs)) (set_inp (\<lambda>s. s\<lparr>last_clipboard_audit_for_paste := Some (at_ms e, cbs)\<rparr>) c)
      else c)"

definition REMOTE_DROP_CLIPRDR_GRACE_MS :: int where "REMOTE_DROP_CLIPRDR_GRACE_MS = 60000"

text \<open>\<open>msg_2_clip\<close>: whether the message is passed to the file clipboard.\<close>

definition msg_2_clip :: "cliprdr \<Rightarrow> bool" where
  "msg_2_clip clip =
     (case clip of
        FileStream f \<Rightarrow>
          fs_request_id f \<noteq> 0 \<and> fs_generation f \<noteq> 0
          \<and> length (fs_data f) \<le> (if fs_kind f = DESCRIPTORS_RESPONSE then 4 + 16384 * 592 else BLOCK_BYTES)
      | Files fs app \<Rightarrow> False
      | _ \<Rightarrow> True)"

definition stream_refused :: "session_env \<Rightarrow> cliprdr \<Rightarrow> session_conn \<Rightarrow> file_stream_msg option" where
  "stream_refused e clip c =
     (case clip of
        FileStream f \<Rightarrow>
          if (fs_kind f = REQUEST \<or> fs_kind f = DESCRIPTORS_REQUEST)
             \<and> (\<not> file_transfer_enabled c \<or> \<not> clipboard_enabled c \<or> builtin_option e ''one-way-file-transfer'' = ''Y'')
          then Some (f\<lparr>fs_kind := ERROR, fs_data := [], fs_compressed := False\<rparr>) else None
      | _ \<Rightarrow> None)"

definition streaming_message :: "cliprdr \<Rightarrow> bool" where
  "streaming_message clip =
     (case clip of
        FileStream f \<Rightarrow> True
      | FormatList fs \<Rightarrow> \<exists>f \<in> set fs. prefix FORMAT_PREFIX (snd f)
      | _ \<Rightarrow> False)"

definition has_file_format :: "cliprdr \<Rightarrow> bool" where
  "has_file_format clip =
     (case clip of
        FormatList fs \<Rightarrow>
          \<exists>f \<in> set fs. find_str ''FileGroupDescriptor'' (snd f) \<noteq> None \<or> find_str ''FileContents'' (snd f) \<noteq> None
      | _ \<Rightarrow> False)"

definition on_cliprdr :: "session_env \<Rightarrow> cliprdr option \<Rightarrow> session_conn \<Rightarrow> session_conn" where
  "on_cliprdr e clip_opt c0 =
     (let in_grace = (case last_remote_drop_recv_at (xfer c0) of
                        Some t \<Rightarrow> at_ms e - t < REMOTE_DROP_CLIPRDR_GRACE_MS | None \<Rightarrow> False) in
      case clip_opt of
        None \<Rightarrow> c0
      | Some clip \<Rightarrow>
          (case stream_refused e clip c0 of
             Some failure \<Rightarrow> emit (Peer (Stream_Refused failure)) c0
           | None \<Rightarrow>
               if in_grace \<and> \<not> streaming_message clip then c0
               else
                 let c = (if has_file_format clip
                          then post_file_audit Upload ''clipboard'' [(''clipboard file transfer'', 0)] c0 else c0)
                 in case clip of
                      Files fs app \<Rightarrow>
                        post_file_audit Upload [] (map (\<lambda>(name, n). (name, sint n)) fs)
                          (emit (Audit (Clipboard_Files_Audit fs app)) c)
                    | _ \<Rightarrow> if msg_2_clip clip then emit (Cm (Cm_Clipboard_File clip)) c else c))"

section \<open>Closing and calls\<close>

definition on_close :: "session_env \<Rightarrow> bool \<Rightarrow> session_conn \<Rightarrow> session_conn" where
  "on_close e lock c0 =
     (if closed c0 then c0
      else
        let c = emit (Host Reset_Voice_Input) (c0\<lparr>closed := True\<rparr>);
            c = (if lock \<and> lock_after_session_end (opts c) \<and> keyboard (perms c) then emit (Host Lock_Screen) c else c);
            c = emit (Cm (Cm_Disconnected (chat_unanswered c \<or> file_transferred (xfer c)))) c
        in c\<lparr>login := (login c)\<lparr>port_forward_socket := False\<rparr>\<rparr>)"

definition close_voice_call :: "session_env \<Rightarrow> session_conn \<Rightarrow> session_conn" where
  "close_voice_call e c0 =
     (let c = (emit (Cm Cm_Close_Voice_Call) (emit (Host Reset_Voice_Input) c0))\<lparr>voice_calling := False\<rparr>
      in if is_authed_view_camera_conn c then subscribe e AUDIO_SERVICE False c else c)"

definition on_voice_call_request :: "session_env \<Rightarrow> bool \<Rightarrow> i64 \<Rightarrow> session_conn \<Rightarrow> session_conn" where
  "on_voice_call_request e is_connect ts c =
     (if is_connect
      then emit (Cm Cm_Voice_Call_Incoming)
             (c\<lparr>voice_call_request_timestamp := Some (if ts \<noteq> 0 then ts else word_of_int (at_ms e))\<rparr>)
      else close_voice_call e c)"

section \<open>Miscellaneous requests\<close>

definition LOG_ANALYSIS :: string where "LOG_ANALYSIS = ''##MDESK_LOG_ANALYSIS_V1##''"
definition WHITEBOARD :: string where "WHITEBOARD = ''##WB##''"

definition on_chat :: "session_env \<Rightarrow> string \<Rightarrow> session_conn \<Rightarrow> session_conn" where
  "on_chat e t c =
     (if prefix LOG_ANALYSIS t
      then (if authed_conn_type c = Some Remote then emit (Host (Log_Analysis t)) c else c)
      else update_auto_disconnect_timer e
        (if prefix WHITEBOARD t
         then (if authed_conn_type c = Some Remote then emit (Host (Whiteboard_Message t)) c else c)
         else (emit (Cm (Cm_Chat t)) c)\<lparr>chat_unanswered := True\<rparr>))"

definition change_resolution :: "u64 option \<Rightarrow> i32 \<Rightarrow> i32 \<Rightarrow> session_conn \<Rightarrow> session_conn" where
  "change_resolution d w h c =
     (if keyboard (perms c)
      then emit (Host (Set_Resolution (case d of Some i \<Rightarrow> i | None \<Rightarrow> display_idx c) w h)) c else c)"

definition is_support_multi_ui_session :: "string \<Rightarrow> bool" where
  "is_support_multi_ui_session v \<longleftrightarrow> sint (get_version_number ''1.2.4'') \<le> sint (get_version_number v)"

text \<open>The effect names the service left, the one joined and whether the first is kept.\<close>

definition switch_display_to :: "u64 \<Rightarrow> session_conn \<Rightarrow> session_conn" where
  "switch_display_to i c =
     (emit (Video (Switch_Service (display_idx c) i (is_support_multi_ui_session (lr_version (lr (login c)))))) c)\<lparr>display_idx := i\<rparr>"

definition handle_switch_display :: "session_env \<Rightarrow> i32 \<Rightarrow> i32 \<Rightarrow> i32 \<Rightarrow> session_conn \<Rightarrow> session_conn" where
  "handle_switch_display e d w h c0 =
     (if display_idx c0 = scast d then c0
      else
        let c = (if server_alive e
                 then let c = switch_display_to (scast d) c0
                      in if \<not> view_camera (login c) \<and> w \<noteq> 0 \<and> h \<noteq> 0 then change_resolution None w h c else c
                 else c0)
        in if display_info e (display_idx c) then emit (Peer (Display_Changed (display_idx c))) c else c)"

definition capture_displays :: "session_env \<Rightarrow> i32 list \<Rightarrow> i32 list \<Rightarrow> i32 list \<Rightarrow> session_conn \<Rightarrow> session_conn" where
  "capture_displays e add sub set_displays c0 =
     (if \<not> server_alive e then c0
      else
        let c = (emit (Video (Capture add sub set_displays)) c0)\<lparr>multi_ui_session := 1 < subbed_displays e\<rparr>
        in if follow_remote_window (opts c) then subscribe e NAME_WINDOW_FOCUS (\<not> multi_ui_session c) c else c)"

definition handle_elevation_request :: "session_env \<Rightarrow> elevation_request \<Rightarrow> session_conn \<Rightarrow> session_conn" where
  "handle_elevation_request e r c =
     (let start = (keyboard (perms c) \<and> \<not> installed e \<and> \<not> portable_running e);
          err = (if \<not> keyboard (perms c) then ''No permission''
                 else if start then portable_error e r else ''No need to elevate'')
      in update_auto_disconnect_timer e
           (emit (Peer (Elevation_Response err)) (if start then emit (Host (Elevate r)) c else c)))"

definition on_selected_sid :: "session_env \<Rightarrow> u32 \<Rightarrow> session_conn \<Rightarrow> bool \<times> session_conn" where
  "on_selected_sid e sid c =
     (case current_process_sid e of
        None \<Rightarrow> (True, c)
      | Some current_sid \<Rightarrow>
          if installed e \<and> share_rdp e \<and> non_port_forward_conn_count e = 1 \<and> 1 < length (available_sids e)
             \<and> current_sid \<noteq> sid \<and> sid \<in> set (available_sids e)
          then (False, emit (Host (Connect_User_Session sid)) c)
          else (True,
            if file_transfer (login c) \<noteq> None then
              (case delayed_read_dir (xfer c) of
                 Some (dir, hidden) \<Rightarrow> emit (Fs (Fs_ReadDir dir hidden)) (set_xfer (\<lambda>x. x\<lparr>delayed_read_dir := None\<rparr>) c)
               | None \<Rightarrow> c)
            else if view_camera (login c) then (if server_alive e then emit (Video Sub_Camera) c else c)
            else if \<not> terminal (login c) then try_sub_monitor_services e (get_auto_disconnect_timeout e) c
            else c))"

definition on_switch_sides_request :: "session_env \<Rightarrow> u8 list \<Rightarrow> session_conn \<Rightarrow> bool \<times> session_conn" where
  "on_switch_sides_request e uuid c =
     (if length uuid = 16 then (False, on_close e False (emit (Host (Run_Switch_Sides uuid)) c)) else (True, c))"

text \<open>The requests about displays and video.\<close>

definition on_video_misc :: "session_env \<Rightarrow> misc \<Rightarrow> session_conn \<Rightarrow> session_conn" where
  "on_video_misc e m c =
     (case m of
        SwitchDisplay d w h \<Rightarrow> handle_switch_display e d w h c
      | CaptureDisplays add sub set_displays \<Rightarrow> capture_displays e add sub set_displays c
      | RefreshVideo r \<Rightarrow> if r \<and> should_handle_render_broadcast_message c then emit (Video (Refresh_Video None)) c else c
      | RefreshVideoDisplay d \<Rightarrow>
          if should_handle_render_broadcast_message c then emit (Video (Refresh_Video (Some d))) c else c
      | VideoReceived b \<Rightarrow> emit (Video Frame_Fetched) c
      | AutoAdjustFps fps \<Rightarrow> emit (Video (User_Auto_Adjust_Fps fps)) c
      | ClientRecordStatus b \<Rightarrow> emit (Video (User_Record b)) c
      | MessageQuery d \<Rightarrow> if display_info e (scast d) then emit (Peer (Display_Changed (scast d))) c else c
      | _ \<Rightarrow> c)"

text \<open>The requests that change the machine.\<close>

definition on_host_misc :: "session_env \<Rightarrow> misc \<Rightarrow> session_conn \<Rightarrow> session_conn" where
  "on_host_misc e m c =
     (case m of
        ToggleVirtualDisplay d on \<Rightarrow> if \<not> view_camera (login c) then emit (Host (Plug_Virtual_Display d on)) c else c
      | TogglePrivacyMode key on \<Rightarrow>
          if \<not> view_camera (login c)
          then emit (Host (if on then Turn_On_Privacy key else Turn_Off_Privacy key)) c else c
      | RestartRemoteDevice b \<Rightarrow> if restart (perms c) then emit (Host Reboot) c else c
      | ElevationRequest (Some r) \<Rightarrow> handle_elevation_request e r c
      | AudioFormat rate channels \<Rightarrow>
          if \<not> disable_audio (opts c)
          then emit (Host (Play_Audio_Format rate channels)) (c\<lparr>audio_sender := True\<rparr>) else c
      | ChangeResolution w h \<Rightarrow> if \<not> view_camera (login c) then change_resolution None w h c else c
      | ChangeDisplayResolution d w h \<Rightarrow> if \<not> view_camera (login c) then change_resolution (Some (scast d)) w h c else c
      | _ \<Rightarrow> c)"

definition on_misc :: "session_env \<Rightarrow> misc \<Rightarrow> session_conn \<Rightarrow> bool \<times> session_conn" where
  "on_misc e m c =
     (case m of
        ChatMessage t \<Rightarrow> (True, on_chat e t c)
      | Option opt \<Rightarrow> (True, on_option e opt c)
      | SelectedSid sid \<Rightarrow> on_selected_sid e sid c
      | SwitchSidesRequest uuid \<Rightarrow> on_switch_sides_request e uuid c
      | _ \<Rightarrow> (True, on_host_misc e m (on_video_misc e m c)))"

definition on_audio_frame :: "u8 list \<Rightarrow> session_conn \<Rightarrow> session_conn" where
  "on_audio_frame frame c =
     (if \<not> disable_audio (opts c) \<and> audio_sender c then emit (Host (Play_Audio frame)) c else c)"

definition on_screenshot :: "i32 \<Rightarrow> string \<Rightarrow> session_conn \<Rightarrow> session_conn" where
  "on_screenshot d sid c = emit (Video (Refresh_Video (Some d))) (emit (Video (Take_Screenshot d sid)) c)"

section \<open>The dispatcher\<close>

definition handle_authorized_scope_violation :: "string \<Rightarrow> session_conn \<Rightarrow> bool \<times> session_conn" where
  "handle_authorized_scope_violation m c =
     (True, c\<lparr>scope_violation_messages := insert m (scope_violation_messages c)\<rparr>)"

definition dispatch :: "session_env \<Rightarrow> message \<Rightarrow> session_conn \<Rightarrow> bool \<times> session_conn" where
  "dispatch e m c =
     (case m of
        MouseEvent me \<Rightarrow> (True, on_mouse e me c)
      | PointerDeviceEvent pde \<Rightarrow> (True, on_pointer e pde c)
      | KeyEvent ke \<Rightarrow> (True, on_key e ke c)
      | Clipboard cb \<Rightarrow> (True, on_clipboards e [cb] c)
      | MultiClipboards cbs \<Rightarrow> (True, on_clipboards e cbs c)
      | Cliprdr clip \<Rightarrow> (True, on_cliprdr e clip c)
      | FileAction fa \<Rightarrow> (True, on_file_action e fa c)
      | FileResponse fr \<Rightarrow> (True, on_file_response fr c)
      | Misc (Some misc) \<Rightarrow> on_misc e misc c
      | AudioFrame frame \<Rightarrow> (True, on_audio_frame frame c)
      | VoiceCallRequest is_connect ts \<Rightarrow> (True, on_voice_call_request e is_connect ts c)
      | ScreenshotRequest d sid \<Rightarrow> (True, on_screenshot d sid c)
      | TerminalAction a \<Rightarrow> (True, emit (Host (Terminal_Request a)) c)
      | _ \<Rightarrow> (True, c))"

text \<open>The rest of the handler, once a closing reason and a second login are out of the way.\<close>

definition on_scoped_message :: "session_env \<Rightarrow> message option \<Rightarrow> session_conn \<Rightarrow> bool \<times> session_conn" where
  "on_scoped_message e msg c =
     (case authorized_scope_violation (authed_conn_type c) msg of
        Some m \<Rightarrow> handle_authorized_scope_violation m c
      | None \<Rightarrow>
          if port_forward_socket (login c) then (True, c)
          else case msg of Some m \<Rightarrow> dispatch e m c | None \<Rightarrow> (True, c))"

text \<open>The measure of the network delay: every test of the host waits for its echo.\<close>

definition on_test_delay :: "session_env \<Rightarrow> bool \<Rightarrow> session_conn \<Rightarrow> session_conn" where
  "on_test_delay e from_client c =
     (if from_client then emit (Peer (Test_Delay True)) c
      else case last_test_delay c of
             Some t \<Rightarrow> emit (Video (Network_Delay (at_ms e - t))) (c\<lparr>last_test_delay := None\<rparr>)
           | None \<Rightarrow> c)"

text \<open>\<open>on_message\<close> of an authorized connection; the boolean tells whether it stays open.  A second
  factor is handled in \<open>Login_Guard\<close>.\<close>

definition on_message :: "session_env \<Rightarrow> message option \<Rightarrow> session_conn \<Rightarrow> bool \<times> session_conn" where
  "on_message e msg c =
     (case msg of
        Some (Misc (Some (CloseReason s))) \<Rightarrow> (False, emit (Host Check_Remove_Session) (on_close e True c))
      | Some LoginRequest \<Rightarrow> (True, c)
      | Some SwitchSidesResponse \<Rightarrow> (True, c)
      | Some (TestDelay from_client) \<Rightarrow> (True, on_test_delay e from_client c)
      | _ \<Rightarrow> on_scoped_message e msg c)"

section \<open>The access policy\<close>

text \<open>The kind a session was authorized for is the one its login asked for.\<close>

definition kind_ok :: "session_conn \<Rightarrow> bool" where
  "kind_ok c \<longleftrightarrow> authed_conn_type c = Some (conn_type_of (login c))"

definition may_host :: "session_conn \<Rightarrow> host_effect \<Rightarrow> bool" where
  "may_host c h =
     (let t = conn_type_of (login c) in
      case h of
        Update_Clipboard cbs \<Rightarrow> t = Remote \<and> clipboard_enabled c
      | Reboot \<Rightarrow> t = Remote \<and> restart (perms c)
      | Elevate r \<Rightarrow> t = Remote \<and> keyboard (perms c)
      | Set_Resolution d w h \<Rightarrow> t = Remote \<and> keyboard (perms c)
      | Play_Audio_Format rate channels \<Rightarrow> t \<in> {Remote, ViewCameraConn} \<and> \<not> disable_audio (opts c)
      | Play_Audio frame \<Rightarrow> t \<in> {Remote, ViewCameraConn} \<and> \<not> disable_audio (opts c)
      | Terminal_Request a \<Rightarrow> t \<in> {Remote, TerminalConn}
      | Set_Service_Persistent s b \<Rightarrow> t \<in> {Remote, TerminalConn} \<and> s = terminal_service_id (login c)
      | Connect_User_Session sid \<Rightarrow> t \<in> {Remote, FileTransferConn, ViewCameraConn}
      | Process_Aborted \<Rightarrow> t = FileTransferConn
      | Lock_Screen \<Rightarrow> keyboard (perms c) \<and> lock_after_session_end (opts c)
      | Reset_Voice_Input \<Rightarrow> True
      | Check_Remove_Session \<Rightarrow> True
      | _ \<Rightarrow> t = Remote)"

definition may_input :: "session_conn \<Rightarrow> input_effect \<Rightarrow> bool" where
  "may_input c i \<longleftrightarrow> conn_type_of (login c) = Remote
     \<and> (case i of
          Input_Block b \<Rightarrow> keyboard (perms c) \<and> block_input (perms c)
        | Input_Mouse me simulate show_cursor \<Rightarrow> (if simulate then peer_keyboard_enabled c else show_my_cursor (opts c))
        | _ \<Rightarrow> peer_keyboard_enabled c)"

definition may_fs :: "session_conn \<Rightarrow> fs_request \<Rightarrow> bool" where
  "may_fs c r \<longleftrightarrow> conn_type_of (login c) = FileTransferConn
     \<or> conn_type_of (login c) = Remote
       \<and> (case r of
            Fs_NewWrite path i n files od t \<Rightarrow> remote_drop_file_transfer_enabled c \<and> is_remote_drop_downloads_path path
          | Fs_CreateDir path i \<Rightarrow> remote_drop_file_transfer_enabled c \<and> is_remote_drop_downloads_path path
          | Fs_WriteBlock i n d z \<Rightarrow> True | Fs_WriteDone i n \<Rightarrow> True | Fs_WriteError i n err \<Rightarrow> True
          | Fs_CheckDigest i n s m res \<Rightarrow> True | Fs_CancelWrite i \<Rightarrow> True
          | _ \<Rightarrow> False)"

definition asks_stream :: "cliprdr \<Rightarrow> bool" where
  "asks_stream clip = (case clip of FileStream f \<Rightarrow> fs_kind f = REQUEST \<or> fs_kind f = DESCRIPTORS_REQUEST | _ \<Rightarrow> False)"

definition may_cm :: "session_env \<Rightarrow> session_conn \<Rightarrow> cm_effect \<Rightarrow> bool" where
  "may_cm e c m =
     (let t = conn_type_of (login c) in
      case m of
        Cm_Clipboard_File_Enabled b \<Rightarrow> t = Remote \<and> (b \<longrightarrow> file_perm (perms c))
      | Cm_Clipboard_File clip \<Rightarrow> t = Remote
          \<and> (asks_stream clip \<longrightarrow> file_transfer_enabled c \<and> clipboard_enabled c \<and> builtin_option e ''one-way-file-transfer'' \<noteq> ''Y'')
      | Cm_Chat s \<Rightarrow> t \<in> {Remote, ViewCameraConn, TerminalConn}
      | Cm_Voice_Call_Incoming \<Rightarrow> t \<in> {Remote, ViewCameraConn}
      | Cm_Start_Voice_Call \<Rightarrow> False
      | Cm_Close_Voice_Call \<Rightarrow> t \<in> {Remote, ViewCameraConn}
      | Cm_File_Log kind path \<Rightarrow> t = FileTransferConn \<or> t = Remote \<and> remote_drop_file_transfer_enabled c
      | Cm_Disconnected b \<Rightarrow> True
      | Cm_Show_Elevation b \<Rightarrow> False)"

text \<open>What a message of the peer may bring about, by the kind of the session, what the user of the
  controlled machine has granted and what the peer has not given up.\<close>

definition may :: "session_env \<Rightarrow> session_conn \<Rightarrow> effect \<Rightarrow> bool" where
  "may e c x =
     (case x of
        Video v \<Rightarrow> conn_type_of (login c) \<in> {Remote, ViewCameraConn} \<or> (\<exists>t. v = Network_Delay t)
      | Input i \<Rightarrow> may_input c i
      | Cm m \<Rightarrow> may_cm e c m
      | Audit a \<Rightarrow> conn_type_of (login c) \<in> {Remote, FileTransferConn}
      | Peer p \<Rightarrow> conn_type_of (login c) \<in> {Remote, FileTransferConn, ViewCameraConn} \<or> p = Test_Delay True
      | Fs r \<Rightarrow> may_fs c r
      | Host h \<Rightarrow> may_host c h)"

lemma may_sel [simp]:
  "may e c (Video v) \<longleftrightarrow> conn_type_of (login c) \<in> {Remote, ViewCameraConn} \<or> (\<exists>t. v = Network_Delay t)"
  "may e c (Input i) \<longleftrightarrow> may_input c i" "may e c (Cm m) \<longleftrightarrow> may_cm e c m"
  "may e c (Audit a) \<longleftrightarrow> conn_type_of (login c) \<in> {Remote, FileTransferConn}"
  "may e c (Peer p) \<longleftrightarrow> conn_type_of (login c) \<in> {Remote, FileTransferConn, ViewCameraConn} \<or> p = Test_Delay True"
  "may e c (Fs r) \<longleftrightarrow> may_fs c r" "may e c (Host h) \<longleftrightarrow> may_host c h"
  by (simp_all add: may_def)

lemma conn_type_flags:
  "conn_type_of l = Remote \<Longrightarrow> file_transfer l = None \<and> \<not> port_forward_socket l \<and> \<not> view_camera l \<and> \<not> terminal l"
  "conn_type_of l = ViewCameraConn \<Longrightarrow> file_transfer l = None \<and> \<not> port_forward_socket l \<and> view_camera l"
  "conn_type_of l = TerminalConn \<Longrightarrow> file_transfer l = None \<and> \<not> port_forward_socket l \<and> \<not> view_camera l \<and> terminal l"
  "conn_type_of l = FileTransferConn \<Longrightarrow> file_transfer l \<noteq> None"
  by (cases "file_transfer l"; simp add: conn_type_of_def split: if_splits)+

section \<open>Each handler keeps the policy\<close>

lemma adds_upd [simp]:
  "adds P c (d\<lparr>inp := i\<rparr>) = adds P c d" "adds P c (d\<lparr>opts := os\<rparr>) = adds P c d" "adds P c (d\<lparr>login := l\<rparr>) = adds P c d"
  "adds P c (d\<lparr>closed := b\<rparr>) = adds P c d" "adds P c (d\<lparr>voice_calling := b\<rparr>) = adds P c d"
  "adds P c (d\<lparr>voice_call_request_timestamp := ts\<rparr>) = adds P c d" "adds P c (d\<lparr>chat_unanswered := b\<rparr>) = adds P c d"
  "adds P c (d\<lparr>audio_sender := b\<rparr>) = adds P c d" "adds P c (d\<lparr>services_subed := b\<rparr>) = adds P c d"
  "adds P c (d\<lparr>auto_disconnect_timer := t, subs := s\<rparr>) = adds P c d"
  "adds P c (d\<lparr>scope_violation_messages := ms\<rparr>) = adds P c d"
  "adds P c (d\<lparr>display_idx := i'\<rparr>) = adds P c d" "adds P c (d\<lparr>multi_ui_session := b\<rparr>) = adds P c d"
  "adds P c (d\<lparr>last_test_delay := td\<rparr>) = adds P c d" "adds P c (d\<lparr>portable := p\<rparr>) = adds P c d"
  "adds P c (d\<lparr>auto_disconnect_timer := tm\<rparr>) = adds P c d"
  "adds P c (update_auto_disconnect_timer e d) = adds P c d" "adds P c (subscribe e n b d) = adds P c d"
  "adds P c (set_inp f d) = adds P c d" "adds P c (set_xfer g d) = adds P c d"
  by (simp_all add: adds_def update_auto_disconnect_timer_def set_inp_def)

lemma adds_self [simp]: "adds P c c"
  by (rule adds_refl)

lemma adds_if [adds_intros]: "(b \<Longrightarrow> adds P c d) \<Longrightarrow> (\<not> b \<Longrightarrow> adds P c d') \<Longrightarrow> adds P c (if b then d else d')"
  by simp

lemma may_remote_input: "conn_type_of (login c) = Remote \<Longrightarrow> peer_keyboard_enabled c \<Longrightarrow>
    may_input c (Input_Key ke p) \<and> may_input c (Input_Pointer q) \<and> may_input c (Input_Mouse me True b)"
  by (simp add: may_input_def)

lemma paste_adds:
  assumes "conn_type_of (login c) = Remote" and "adds (may e c) c d"
  shows "adds (may e c) c (detect_and_audit_paste e ke d)"
  using assms by (auto simp: detect_and_audit_paste_def Let_def split: option.splits prod.splits intro!: adds_emit)

lemma input_adds:
  assumes "kind_ok c" and "conn_type_of (login c) = Remote \<or> conn_type_of (login c) = ViewCameraConn"
  shows "adds (may e c) c (on_mouse e me c)" "adds (may e c) c (on_pointer e pde c)" "adds (may e c) c (on_key e ke c)"
proof -
  have remote: "\<not> is_authed_view_camera_conn c \<Longrightarrow> conn_type_of (login c) = Remote"
    using assms by (auto simp: kind_ok_def is_authed_view_camera_conn_def)
  show "adds (may e c) c (on_mouse e me c)"
    using remote by (auto simp: on_mouse_def may_input_def intro!: adds_emit)
  show "adds (may e c) c (on_pointer e pde c)"
    using remote by (auto simp: on_pointer_def may_input_def intro!: adds_emit)
  have "adds P c (track_modifier e ke c)" for P
    by (auto simp: track_modifier_def split: option.splits)
  then show "adds (may e c) c (on_key e ke c)"
    using remote by (auto simp: on_key_def Let_def may_input_def intro!: adds_emit paste_adds)
qed

lemma clipboards_adds:
  "kind_ok c \<Longrightarrow> adds (may e c) c (on_clipboards e cbs c)"
  by (auto simp: on_clipboards_def should_handle_text_clipboard_message_def kind_ok_def may_host_def intro!: adds_emit)

lemma cliprdr_adds:
  assumes "conn_type_of (login c) = Remote"
  shows "adds (may e c) c (on_cliprdr e clip c)"
proof -
  have stream: "stream_refused e clp c = None \<Longrightarrow> may_cm e c (Cm_Clipboard_File clp)" for clp
    using assms by (auto simp: may_cm_def asks_stream_def stream_refused_def split: cliprdr.splits if_splits)
  show ?thesis
  proof (cases clip)
    case None
    then show ?thesis by (simp add: on_cliprdr_def)
  next
    case (Some clp)
    show ?thesis
    proof (cases "stream_refused e clp c")
      case None
      have "adds (may e c) c (case clp of Files fs app \<Rightarrow> post_file_audit Upload [] (map (\<lambda>(name, n). (name, sint n)) fs)
              (emit (Audit (Clipboard_Files_Audit fs app)) d) | _ \<Rightarrow> if msg_2_clip clp then emit (Cm (Cm_Clipboard_File clp)) d else d)"
        if "adds (may e c) c d" for d
        using that assms stream [OF None] by (cases clp) (auto intro!: adds_audit adds_emit)
      moreover have "adds (may e c) c (if has_file_format clp then post_file_audit Upload ''clipboard'' [(''clipboard file transfer'', 0)] c else c)"
        using assms by (auto intro!: adds_audit)
      ultimately show ?thesis by (simp add: on_cliprdr_def Some None Let_def)
    next
      case refused: (Some f)
      then show ?thesis using assms by (simp add: on_cliprdr_def Some adds_emit)
    qed
  qed
qed

lemma file_action_adds:
  assumes "conn_type_of (login c) = Remote \<or> conn_type_of (login c) = FileTransferConn"
  shows "adds (may e c) c (on_file_action e fa c)"
proof (cases rule: on_file_action_cases [of e fa c])
  case (performed a)
  have peer: "\<And>p. may e c (Peer p)" and audit: "\<And>x. may e c (Audit x)" using assms by auto
  show ?thesis
  proof (cases "conn_type_of (login c) = FileTransferConn")
    case True
    then have fs: "\<And>r. may e c (Fs r)" and cm: "\<And>k p. may e c (Cm (Cm_File_Log k p))" and h: "may e c (Host Process_Aborted)"
      by (simp_all add: may_fs_def may_cm_def may_host_def)
    show ?thesis
      unfolding performed(2)
    proof (cases a)
      case Send
      then show "adds (may e c) c (perform_file_action e a c)"
        by (simp add: perform_file_action_def on_send_adds peer audit del: may_sel)
    next
      case Receive
      then show "adds (may e c) c (perform_file_action e a c)"
        by (simp add: perform_file_action_def on_receive_adds fs audit del: may_sel)
    qed (auto simp: perform_file_action_def on_cancel_def on_confirm_def Let_def peer audit fs cm h simp del: may_sel
        split: sum.splits option.splits intro!: adds_emit adds_outcome)
  next
    case False
    then have t: "conn_type_of (login c) = Remote" using assms by simp
    then have ft: "file_transfer (login c) = None" by (rule conn_type_flags(1) [THEN conjunct1])
    from performed(3) ft consider (printing) i path hidden n ty where "a = Send i path hidden n ty"
      | (receive) i path files n t where "a = Receive i path files n t" "is_remote_drop_downloads_path path" "remote_drop_file_transfer_enabled c"
      | (create) i path where "a = Create i path" "is_remote_drop_downloads_path path" "remote_drop_file_transfer_enabled c"
      by (auto simp: file_action_allowed_def remote_drop_job_def split: file_action.splits if_splits)
    then show ?thesis
      unfolding performed(2)
    proof cases
      case printing
      then show "adds (may e c) c (perform_file_action e a c)"
        by (simp add: perform_file_action_def on_send_adds peer audit del: may_sel)
    next
      case receive
      have "may e c (Fs (Fs_NewWrite path k m fs od tot))" for k m fs od tot using receive t by (simp add: may_fs_def)
      then show "adds (may e c) c (perform_file_action e a c)"
        using receive by (simp add: perform_file_action_def on_receive_adds audit del: may_sel)
    next
      case create
      then show "adds (may e c) c (perform_file_action e a c)"
        using t by (auto simp: perform_file_action_def Let_def may_fs_def may_cm_def intro!: adds_emit)
    qed
  qed
qed (use assms in \<open>auto simp: adds_emit\<close>)

lemma file_response_adds:
  assumes "conn_type_of (login c) = Remote \<or> conn_type_of (login c) = FileTransferConn"
  shows "adds (may e c) c (on_file_response fr c)"
proof -
  have ok: "may e c (Peer p)" "may e c (Audit x)" "may e c (Fs (Fs_WriteBlock i n d z))" "may e c (Fs (Fs_WriteDone i n))"
    "may e c (Fs (Fs_WriteError i n err))" "may e c (Fs (Fs_CheckDigest i n s m res))" "may e c (Fs (Fs_CancelWrite i))"
    for p x i n d z err s m res
    using assms by (auto simp: may_fs_def)
  have "adds (may e c) c (on_done i n c)" for i n
    by (auto simp: on_done_def Let_def ok simp del: may_sel split: option.splits intro!: adds_emit adds_outcome)
  moreover have "adds (may e c) c (on_error i err n c)" for i n err
    by (auto simp: on_error_def Let_def ok simp del: may_sel split: option.splits intro!: adds_emit adds_outcome)
  ultimately show ?thesis
    by (auto simp: on_file_response_def ok simp del: may_sel split: option.splits file_response.splits intro!: adds_emit)
qed

lemma adds_switches [simp]:
  "adds P c (set_lock_after_session_end b d) = adds P c d" "adds P c (set_show_remote_cursor e b d) = adds P c d"
  "adds P c (set_follow_remote_cursor b d) = adds P c d" "adds P c (set_follow_remote_window e b d) = adds P c d"
  "adds P c (set_disable_audio e b d) = adds P c d" "adds P c (set_disable_clipboard e b d) = adds P c d"
  "adds P c (set_disable_keyboard e b d) = adds P c d" "adds P c (options_audio e opt d) = adds P c d"
  by (simp_all add: adds_def set_lock_after_session_end_def set_show_remote_cursor_def set_follow_remote_cursor_def
      set_follow_remote_window_def set_disable_audio_def set_disable_clipboard_def set_disable_keyboard_def
      options_audio_def when_chosen_def Let_def split: option.split)

lemma adds_when_chosen: "(\<And>b. adds P c (f b d)) \<Longrightarrow> adds P c d \<Longrightarrow> adds P c (when_chosen n f d)"
  by (simp add: when_chosen_def split: option.split)

lemma adds_options_video: "(\<And>v. P (Video v)) \<Longrightarrow> adds P c d \<Longrightarrow> adds P c (options_video opt d)"
  by (auto simp: options_video_def Let_def intro!: adds_emit split: option.split)

text \<open>What every message that leaves the connection open leaves alone: the rights of the session, and that
  it is not closed.\<close>

definition disc :: "effect \<Rightarrow> bool" where
  "disc x = (case x of Cm m \<Rightarrow> (case m of Cm_Disconnected b \<Rightarrow> True | _ \<Rightarrow> False) | _ \<Rightarrow> False)"

definition disconnects :: "session_conn \<Rightarrow> nat" where
  "disconnects c = length (filter disc (sent c))"

lemma disc_simps [simp]:
  "\<not> disc (Video v)" "\<not> disc (Input i)" "\<not> disc (Audit a)" "\<not> disc (Peer p)" "\<not> disc (Fs r)" "\<not> disc (Host h)"
  "disc (Cm (Cm_Disconnected b))" "\<not> disc (Cm (Cm_Clipboard_File_Enabled b))" "\<not> disc (Cm (Cm_Clipboard_File clip))"
  "\<not> disc (Cm (Cm_Chat s))" "\<not> disc (Cm Cm_Voice_Call_Incoming)" "\<not> disc (Cm Cm_Start_Voice_Call)"
  "\<not> disc (Cm Cm_Close_Voice_Call)" "\<not> disc (Cm (Cm_File_Log s t))" "\<not> disc (Cm (Cm_Show_Elevation b))"
  by (simp_all add: disc_def)

definition same_rights :: "session_conn \<Rightarrow> session_conn \<Rightarrow> bool" where
  "same_rights c d \<longleftrightarrow> perms d = perms c \<and> authed_conn_type d = authed_conn_type c
     \<and> file_transfer (login d) = file_transfer (login c) \<and> port_forward_socket (login d) = port_forward_socket (login c)
     \<and> view_camera (login d) = view_camera (login c) \<and> terminal (login d) = terminal (login c)
     \<and> terminal_service_id (login d) = terminal_service_id (login c)
     \<and> closed d = closed c \<and> disconnects d = disconnects c"

lemma same_rights_refl [simp]: "same_rights c c"
  by (simp add: same_rights_def)

lemma same_rights_trans: "same_rights c d \<Longrightarrow> same_rights d f \<Longrightarrow> same_rights c f"
  by (simp add: same_rights_def)

lemma same_rights_upd [simp]:
  "same_rights c (d\<lparr>inp := i\<rparr>) = same_rights c d" "same_rights c (d\<lparr>opts := os\<rparr>) = same_rights c d"
  "same_rights c (d\<lparr>voice_calling := b\<rparr>) = same_rights c d"
  "same_rights c (d\<lparr>voice_call_request_timestamp := ts\<rparr>) = same_rights c d"
  "same_rights c (d\<lparr>chat_unanswered := b\<rparr>) = same_rights c d" "same_rights c (d\<lparr>audio_sender := b\<rparr>) = same_rights c d"
  "same_rights c (d\<lparr>services_subed := b\<rparr>) = same_rights c d"
  "same_rights c (d\<lparr>auto_disconnect_timer := t, subs := s\<rparr>) = same_rights c d"
  "same_rights c (d\<lparr>scope_violation_messages := ms\<rparr>) = same_rights c d"
  "same_rights c (d\<lparr>display_idx := i'\<rparr>) = same_rights c d" "same_rights c (d\<lparr>multi_ui_session := b\<rparr>) = same_rights c d"
  "same_rights c (d\<lparr>last_test_delay := td\<rparr>) = same_rights c d" "same_rights c (d\<lparr>portable := p\<rparr>) = same_rights c d"
  "same_rights c (d\<lparr>auto_disconnect_timer := tm\<rparr>) = same_rights c d"
  "same_rights c (update_auto_disconnect_timer e d) = same_rights c d" "same_rights c (subscribe e n b d) = same_rights c d"
  "same_rights c (set_inp f d) = same_rights c d" "same_rights c (set_xfer g d) = same_rights c d"
  by (simp_all add: same_rights_def update_auto_disconnect_timer_def set_inp_def set_xfer_def subscribe_def disconnects_def)

lemma same_rights_emit [simp]: "\<not> disc x \<Longrightarrow> same_rights c (emit x d) = same_rights c d"
  by (simp add: same_rights_def emit_def disconnects_def)

lemma same_rights_chosen:
  "(\<And>b. same_rights c (f b d) = same_rights c d) \<Longrightarrow> same_rights c (when_chosen n f d) = same_rights c d"
  by (simp add: when_chosen_def split: option.split)

lemma same_rights_switches [simp]:
  "same_rights c (set_lock_after_session_end b d) = same_rights c d"
  "same_rights c (set_show_remote_cursor e b d) = same_rights c d"
  "same_rights c (set_follow_remote_cursor b d) = same_rights c d"
  "same_rights c (set_follow_remote_window e b d) = same_rights c d"
  "same_rights c (audio_changed e d) = same_rights c d"
  "same_rights c (set_disable_audio e b d) = same_rights c d"
  "same_rights c (set_disable_clipboard e b d) = same_rights c d"
  "same_rights c (set_disable_keyboard e b d) = same_rights c d"
  "same_rights c (set_enable_file_transfer b d) = same_rights c d"
  "same_rights c (set_show_my_cursor e b d) = same_rights c d"
  by (simp_all add: set_lock_after_session_end_def set_show_remote_cursor_def set_follow_remote_cursor_def
      set_follow_remote_window_def audio_changed_def set_disable_audio_def set_disable_clipboard_def
      set_disable_keyboard_def set_enable_file_transfer_def set_show_my_cursor_def Let_def)

lemma same_rights_persistence [simp]: "same_rights c (update_terminal_persistence b d) = same_rights c d"
  by (simp add: update_terminal_persistence_def) (simp add: same_rights_def disconnects_def)

lemma same_rights_video [simp]: "same_rights c (options_video opt d) = same_rights c d"
  by (simp add: options_video_def Let_def split: option.split)

lemma same_rights_privacy [simp]: "same_rights c (options_privacy opt d) = same_rights c d"
  by (simp add: options_privacy_def Let_def split: option.split bool.split)

lemma same_rights_audio [simp]: "same_rights c (options_audio e opt d) = same_rights c d"
  by (simp add: options_audio_def same_rights_chosen)

lemma same_rights_option [simp]: "same_rights c (update_options e opt d) = same_rights c d"
  by (simp add: update_options_def options_terminal_def options_clipboard_def options_audio_def options_cursor_def
      same_rights_chosen)

lemma options_privacy_adds:
  assumes "conn_type_of (login c) = Remote" and "same_rights c d" and "adds (may e c) c d"
  shows "adds (may e c) c (options_privacy opt d)"
proof -
  have p: "perms d = perms c" using assms(2) by (simp add: same_rights_def)
  show ?thesis using assms
    by (auto simp: options_privacy_def Let_def p may_host_def may_input_def split: option.split bool.split intro!: adds_emit)
qed

lemma update_options_adds:
  assumes "conn_type_of (login c) = Remote"
  shows "adds (may e c) c (update_options e opt c)"
proof -
  have cursor: "adds P c (options_cursor e opt d) = adds P c d" "same_rights c (options_cursor e opt d) = same_rights c d" for P d
    by (simp_all add: options_cursor_def when_chosen_def split: option.split)
  let ?v = "options_audio e opt (options_cursor e opt (options_video opt c))"
  have v: "adds (may e c) c ?v" "same_rights c ?v"
    using assms by (simp_all add: cursor adds_options_video)
  have files: "adds (may e c) c (set_enable_file_transfer b d)" if "adds (may e c) c d" "same_rights c d" for b d
    using that assms by (auto simp: set_enable_file_transfer_def Let_def may_cm_def file_transfer_enabled_def same_rights_def intro!: adds_emit)
  let ?f = "when_chosen (o_enable_file_transfer opt) set_enable_file_transfer ?v"
  have f: "adds (may e c) c ?f" "same_rights c ?f"
    using v files by (simp_all add: adds_when_chosen same_rights_chosen)
  let ?k = "options_clipboard e opt ?v"
  have k: "adds (may e c) c ?k" "same_rights c ?k"
    using f by (simp_all add: options_clipboard_def adds_when_chosen same_rights_chosen)
  let ?p = "options_privacy opt ?k"
  have p: "adds (may e c) c ?p" "same_rights c ?p"
    using options_privacy_adds [OF assms k(2,1)] k(2) by simp_all
  have persistence: "adds (may e c) c (update_terminal_persistence b ?p)" for b
    using p assms by (auto simp: update_terminal_persistence_def same_rights_def may_host_def intro!: adds_emit)
  let ?t = "when_chosen (o_terminal_persistent opt) update_terminal_persistence ?p"
  have t: "adds (may e c) c ?t" using p persistence by (simp add: adds_when_chosen)
  have "adds (may e c) c (set_show_my_cursor e b ?t)" for b
    using t assms by (auto simp: set_show_my_cursor_def Let_def may_host_def intro!: adds_emit)
  then show ?thesis using t by (simp add: update_options_def options_terminal_def adds_when_chosen)
qed

lemma option_adds:
  assumes "kind_ok c"
  shows "adds (may e c) c (on_option e opt c)"
proof -
  have t: "authed_conn_type c = Some (conn_type_of (login c))" using assms by (simp add: kind_ok_def)
  show ?thesis
  proof (cases "conn_type_of (login c)")
    case Remote
    then show ?thesis using t by (simp add: on_option_def update_options_adds)
  next
    case TerminalConn
    then have "may e c (Host (Set_Service_Persistent (terminal_service_id (login c)) b))" for b by (simp add: may_host_def)
    then show ?thesis using t TerminalConn
      by (auto simp: on_option_def scoped_update_option_message_def terminal_filter update_options_terminal
          update_terminal_persistence_def intro!: adds_when_chosen adds_emit)
  next
    case ViewCameraConn
    then show ?thesis using t
      by (auto simp: on_option_def scoped_update_option_message_def camera_filter update_options_camera
          intro!: adds_when_chosen adds_options_video)
  qed (use t in \<open>simp_all add: on_option_def scoped_update_option_message_def\<close>)
qed

lemma close_adds: "adds (may e c) c (on_close e lock c)"
  by (auto simp: on_close_def Let_def may_host_def may_cm_def intro!: adds_emit)

lemma voice_adds:
  assumes "conn_type_of (login c) \<in> {Remote, ViewCameraConn}"
  shows "adds (may e c) c (on_voice_call_request e is_connect ts c)"
  using assms by (auto simp: on_voice_call_request_def close_voice_call_def Let_def may_cm_def may_host_def intro!: adds_emit)

lemma chat_adds:
  assumes "kind_ok c" and "conn_type_of (login c) \<in> {Remote, ViewCameraConn, TerminalConn}"
  shows "adds (may e c) c (on_chat e s c)"
proof -
  have "authed_conn_type c = Some Remote \<longleftrightarrow> conn_type_of (login c) = Remote" using assms(1) by (auto simp: kind_ok_def)
  then show ?thesis using assms(2) by (auto simp: on_chat_def may_host_def may_cm_def intro!: adds_emit)
qed

lemma selected_sid_adds:
  assumes "conn_type_of (login c) \<in> {Remote, FileTransferConn, ViewCameraConn}"
  shows "adds (may e c) c (snd (on_selected_sid e sid c))"
proof -
  have services: "adds P c (try_sub_monitor_services e timeout c)" if "\<And>v. P (Video v)" for P timeout
    using that by (auto simp: try_sub_monitor_services_def Let_def intro!: adds_emit)
  have video: "\<And>v. may e c (Video v)" if "conn_type_of (login c) \<noteq> FileTransferConn" using assms that by auto
  have "conn_type_of (login c) = FileTransferConn \<longleftrightarrow> file_transfer (login c) \<noteq> None" by (simp add: conn_type_of_def)
  then show ?thesis using assms video services
    by (auto simp: on_selected_sid_def may_host_def may_fs_def split: option.splits intro!: adds_emit)
qed

lemma misc_scope:
  assumes "authorized_message_scope_violation t (Some (Misc (Some m))) = None"
  shows "t = Remote \<or> (t = ViewCameraConn \<and> is_view_camera_scoped_misc (Some m)) \<or> (t = FileTransferConn \<and> (\<exists>sid. m = SelectedSid sid))
    \<or> (t = TerminalConn \<and> (\<exists>s. m = ChatMessage s)) \<or> (\<exists>opt. m = Option opt)
    \<or> (\<exists>r. m = RefreshVideo r) \<or> (\<exists>d. m = RefreshVideoDisplay d) \<or> (\<exists>s. m = CloseReason s)"
  using assms
  by (cases t; cases m)
    (simp_all add: authorized_message_scope_violation_def is_connection_housekeeping_message_def
      is_render_broadcast_noop_compat_message_def is_text_clipboard_noop_compat_message_def is_file_transfer_scoped_message_def
      is_file_transfer_scoped_misc_def is_view_camera_scoped_message_def is_terminal_scoped_message_def is_terminal_scoped_misc_def Let_def split: if_splits)

lemma display_adds:
  assumes "conn_type_of (login c) = Remote \<or> conn_type_of (login c) = ViewCameraConn"
  shows "adds (may e c) c (handle_switch_display e d w h c)" "adds (may e c) c (capture_displays e add sub set_displays c)"
proof -
  have "view_camera (login c) \<or> conn_type_of (login c) = Remote" using assms conn_type_flags(2) by blast
  then show "adds (may e c) c (handle_switch_display e d w h c)"
    using assms by (auto simp: handle_switch_display_def switch_display_to_def change_resolution_def may_host_def Let_def intro!: adds_emit)
  show "adds (may e c) c (capture_displays e add sub set_displays c)"
    using assms by (auto simp: capture_displays_def Let_def intro!: adds_emit)
qed

lemma test_delay_adds: "adds (may e c) c (on_test_delay e b c)"
  by (auto simp: on_test_delay_def intro!: adds_emit split: option.split)

lemma remote_misc_adds:
  assumes "conn_type_of (login c) = Remote"
  shows "adds (may e c) c (on_host_misc e m (on_video_misc e m c))"
  using assms
  by (cases m) (auto simp: on_host_misc_def on_video_misc_def handle_elevation_request_def change_resolution_def may_host_def
      display_adds Let_def
      split: option.splits intro!: adds_emit)

lemma camera_misc_adds:
  assumes "conn_type_of (login c) = ViewCameraConn" and "is_view_camera_scoped_misc (Some m)"
  shows "adds (may e c) c (on_host_misc e m (on_video_misc e m c))"
proof -
  have "view_camera (login c)" using conn_type_flags(2) [OF assms(1)] by simp
  then show ?thesis using assms
    by (cases m) (auto simp: on_host_misc_def on_video_misc_def may_host_def is_view_camera_scoped_misc_def display_adds
        intro!: adds_emit)
qed

lemma quiet_misc_adds:
  assumes "kind_ok c" and "(\<exists>r. m = RefreshVideo r) \<or> (\<exists>d. m = RefreshVideoDisplay d) \<or> (\<exists>s. m = CloseReason s)"
  shows "adds (may e c) c (on_host_misc e m (on_video_misc e m c))"
  using assms by (auto simp: on_host_misc_def on_video_misc_def should_handle_render_broadcast_message_def kind_ok_def intro!: adds_emit)

lemma misc_adds:
  assumes "kind_ok c" and "authorized_message_scope_violation (conn_type_of (login c)) (Some (Misc (Some m))) = None"
  shows "adds (may e c) c (snd (on_misc e m c))"
proof -
  have plain: "adds (may e c) c (on_host_misc e m (on_video_misc e m c))"
    if "\<And>s. m \<noteq> ChatMessage s" "\<And>opt. m \<noteq> Option opt" "\<And>sid. m \<noteq> SelectedSid sid"
    using misc_scope [OF assms(2)] that remote_misc_adds camera_misc_adds quiet_misc_adds [OF assms(1)] by metis
  show ?thesis
  proof (cases m)
    case (ChatMessage s)
    then show ?thesis using misc_scope [OF assms(2)] chat_adds [OF assms(1)] by (auto simp: on_misc_def)
  next
    case (Option opt)
    then show ?thesis using option_adds [OF assms(1)] by (simp add: on_misc_def)
  next
    case (SelectedSid sid)
    then show ?thesis using misc_scope [OF assms(2)] selected_sid_adds by (auto simp: on_misc_def)
  next
    case (SwitchSidesRequest uuid)
    then have "conn_type_of (login c) = Remote"
      using misc_scope [OF assms(2)] by (auto simp: is_view_camera_scoped_misc_def)
    then have "adds (may e c) c (on_close e False (emit (Host (Run_Switch_Sides uuid)) c))"
      by (auto simp: on_close_def Let_def may_host_def may_cm_def intro!: adds_emit)
    then show ?thesis by (simp add: SwitchSidesRequest on_misc_def on_switch_sides_request_def)
  qed (use plain in \<open>simp_all add: on_misc_def\<close>)
qed

lemma message_scope:
  assumes "authorized_message_scope_violation t (Some m) = None"
  shows "case m of
      MouseEvent me \<Rightarrow> t \<in> {Remote, ViewCameraConn} | PointerDeviceEvent p \<Rightarrow> t \<in> {Remote, ViewCameraConn}
    | KeyEvent ke \<Rightarrow> t \<in> {Remote, ViewCameraConn} | Cliprdr clip \<Rightarrow> t = Remote
    | FileAction fa \<Rightarrow> t \<in> {Remote, FileTransferConn} | FileResponse fr \<Rightarrow> t \<in> {Remote, FileTransferConn}
    | AudioFrame f \<Rightarrow> t \<in> {Remote, ViewCameraConn} | VoiceCallRequest b ts \<Rightarrow> t \<in> {Remote, ViewCameraConn}
    | ScreenshotRequest d sid \<Rightarrow> t \<in> {Remote, ViewCameraConn} | TerminalAction a \<Rightarrow> t \<in> {Remote, TerminalConn}
    | _ \<Rightarrow> True"
  using assms
  by (cases t; cases m)
    (simp_all add: authorized_message_scope_violation_def is_connection_housekeeping_message_def
      is_render_broadcast_noop_compat_message_def is_text_clipboard_noop_compat_message_def is_file_transfer_scoped_message_def
      is_view_camera_scoped_message_def is_terminal_scoped_message_def Let_def split: if_splits)

lemma dispatch_adds:
  assumes "kind_ok c" and "authorized_message_scope_violation (conn_type_of (login c)) (Some m) = None"
  shows "adds (may e c) c (snd (dispatch e m c))"
proof (cases m)
  case (Misc misc)
  then show ?thesis using misc_adds [OF assms(1)] assms(2) by (cases misc) (auto simp: dispatch_def)
qed (use message_scope [OF assms(2)] assms(1) in
  \<open>auto simp: dispatch_def input_adds clipboards_adds cliprdr_adds file_action_adds file_response_adds voice_adds
      on_audio_frame_def on_screenshot_def may_host_def intro!: adds_emit\<close>)

lemma same_rights_fold:
  assumes "\<And>y d. same_rights c (f y d) = same_rights c d"
  shows "same_rights c (fold f ys d) = same_rights c d"
  by (induction ys arbitrary: d) (simp_all add: assms)

lemma same_rights_records [simp]:
  "same_rights c (remember_enterprise_file_transfer e i dir p fs d) = same_rights c d"
  "same_rights c (post_file_audit dir p fs d) = same_rights c d"
  "same_rights c (post_enterprise_file_outcome i status d) = same_rights c d"
  by (auto simp: remember_enterprise_file_transfer_def post_file_audit_def post_enterprise_file_outcome_def Let_def
      case_prod_unfold same_rights_fold split: option.splits)

lemma same_rights_send [simp]: "same_rights c (on_send e fa c)"
  by (auto simp: on_send_def Let_def split: file_action.splits sum.splits)

lemma same_rights_receive [simp]: "same_rights c (on_receive e fa c)"
  by (simp add: on_receive_def Let_def split: file_action.splits)

lemma same_rights_file_action [simp]: "same_rights c (on_file_action e fa c)"
proof (cases rule: on_file_action_cases [of e fa c])
  case (performed a)
  show ?thesis
    unfolding performed(2)
    by (cases a) (auto simp: perform_file_action_def on_cancel_def on_confirm_def Let_def split: sum.splits option.splits)
qed simp_all

lemma same_rights_file_response [simp]: "same_rights c (on_file_response fr c)"
proof -
  have "same_rights c (on_done i n c)" "same_rights c (on_error i err n c)" for i n err
    by (auto simp: on_done_def on_error_def Let_def split: option.splits)
  then show ?thesis by (simp add: on_file_response_def split: option.splits file_response.splits)
qed

lemma same_rights_input [simp]:
  "same_rights c (on_mouse e me c)" "same_rights c (on_pointer e pde c)" "same_rights c (on_key e ke c)"
proof -
  have "same_rights c (detect_and_audit_paste e ke d) = same_rights c d" for d
    by (simp add: detect_and_audit_paste_def Let_def split: option.splits prod.splits)
  moreover have "same_rights c (track_modifier e ke d) = same_rights c d" for d
    by (simp add: track_modifier_def split: option.splits)
  ultimately show "same_rights c (on_key e ke c)" by (simp add: on_key_def Let_def)
qed (simp_all add: on_mouse_def on_pointer_def)

lemma same_rights_cliprdr [simp]: "same_rights c (on_cliprdr e clip c)"
proof -
  have "same_rights c (case clp of Files fs app \<Rightarrow> post_file_audit Upload [] (map (\<lambda>(name, n). (name, sint n)) fs)
          (emit (Audit (Clipboard_Files_Audit fs app)) d) | _ \<Rightarrow> if msg_2_clip clp then emit (Cm (Cm_Clipboard_File clp)) d else d)
      = same_rights c d" for clp d
    by (cases clp) simp_all
  then show ?thesis by (simp add: on_cliprdr_def Let_def split: option.splits)
qed

lemma same_rights_misc: "on_misc e m c = (True, d) \<Longrightarrow> same_rights c d"
proof -
  assume d: "on_misc e m c = (True, d)"
  have services: "same_rights c (try_sub_monitor_services e timeout c)" for timeout
    by (simp add: try_sub_monitor_services_def Let_def)
  have "same_rights c (handle_switch_display e dd w h c)" "same_rights c (capture_displays e ad su se c)" for dd w h ad su se
    by (auto simp: handle_switch_display_def switch_display_to_def change_resolution_def capture_displays_def Let_def)
  then have "same_rights c (on_host_misc e m (on_video_misc e m c))"
    by (cases m) (auto simp: on_host_misc_def on_video_misc_def handle_elevation_request_def change_resolution_def Let_def split: option.splits)
  moreover have "same_rights c (on_chat e s c)" for s by (simp add: on_chat_def)
  moreover have "same_rights c (on_option e opt c)" for opt by (simp add: on_option_def split: option.split)
  moreover have "same_rights c (snd (on_selected_sid e sid c))" for sid
    by (auto simp: on_selected_sid_def services split: option.splits)
  ultimately show ?thesis
    using d by (cases m) (auto simp: on_misc_def on_switch_sides_request_def prod_eq_iff split: if_splits)
qed

lemma same_rights_dispatch: "dispatch e m c = (True, d) \<Longrightarrow> same_rights c d"
proof (cases m)
  case (Misc misc)
  assume "dispatch e m c = (True, d)"
  then show ?thesis using same_rights_misc by (cases misc) (auto simp: Misc dispatch_def)
qed (auto simp: dispatch_def on_clipboards_def on_audio_frame_def on_voice_call_request_def close_voice_call_def on_screenshot_def Let_def)

lemma on_message_cases:
  obtains (closing) "on_message e msg c = (False, emit (Host Check_Remove_Session) (on_close e True c))"
    | (ignored) "on_message e msg c = (True, c)"
    | (delay) b where "on_message e msg c = (True, on_test_delay e b c)"
    | (refused) m where "on_message e msg c = (True, c\<lparr>scope_violation_messages := insert m (scope_violation_messages c)\<rparr>)"
    | (handled) m where "msg = Some m" "authorized_scope_violation (authed_conn_type c) msg = None"
        "\<not> port_forward_socket (login c)" "on_message e msg c = dispatch e m c"
proof -
  consider "on_message e msg c = (False, emit (Host Check_Remove_Session) (on_close e True c))" | "on_message e msg c = (True, c)"
    | b where "on_message e msg c = (True, on_test_delay e b c)"
    | "on_message e msg c = on_scoped_message e msg c"
  proof (cases msg)
    case (Some m)
    then show ?thesis
    proof (cases m)
      case (Misc misc)
      then show ?thesis
      proof (cases misc)
        case (Some mm)
        with \<open>msg = Some m\<close> Misc that show ?thesis by (cases mm) (simp_all add: on_message_def)
      qed (use Some Misc that in \<open>simp add: on_message_def\<close>)
    qed (use Some that in \<open>simp_all add: on_message_def\<close>)
  qed (use that in \<open>simp add: on_message_def\<close>)
  then show thesis
  proof cases
    case 4
    show thesis
    proof (cases "authorized_scope_violation (authed_conn_type c) msg")
      case None
      then show thesis using 4 ignored handled [OF _ None] by (cases msg) (auto simp: on_scoped_message_def split: if_splits)
    next
      case (Some m)
      then show thesis using 4 refused by (simp add: on_scoped_message_def handle_authorized_scope_violation_def)
    qed
  qed (fact closing ignored delay)+
qed

lemma kind_ok_same: "kind_ok c \<Longrightarrow> same_rights c d \<Longrightarrow> kind_ok d"
  by (simp add: kind_ok_def same_rights_def conn_type_of_def)

lemma scope_of_kind: "kind_ok c \<Longrightarrow> authorized_scope_violation (authed_conn_type c) msg = None \<Longrightarrow>
    authorized_message_scope_violation (conn_type_of (login c)) msg = None"
  by (simp add: kind_ok_def authorized_scope_violation_def)

lemma on_message_adds:
  assumes "kind_ok c"
  shows "adds (may e c) c (snd (on_message e msg c))"
proof (cases rule: on_message_cases [of e msg c])
  case closing
  then show ?thesis by (auto simp: close_adds may_host_def intro!: adds_emit)
next
  case (delay b)
  then show ?thesis by (simp add: test_delay_adds)
next
  case (handled m)
  then show ?thesis using dispatch_adds [OF assms scope_of_kind [OF assms]] by simp
qed simp_all

lemma on_message_rights: "on_message e msg c = (True, d) \<Longrightarrow> same_rights c d"
  by (cases rule: on_message_cases [of e msg c])
    (auto intro: same_rights_dispatch simp: on_test_delay_def split: option.splits)

text \<open>The effects of the end of a session and of the delay test, open to every kind.\<close>

definition housekeeping :: "effect \<Rightarrow> bool" where
  "housekeeping x \<longleftrightarrow>
     (case x of
        Host h \<Rightarrow> h \<in> {Lock_Screen, Reset_Voice_Input, Check_Remove_Session}
      | Cm m \<Rightarrow> (\<exists>b. m = Cm_Disconnected b)
      | Peer p \<Rightarrow> p = Test_Delay True
      | Video v \<Rightarrow> (\<exists>t. v = Network_Delay t)
      | _ \<Rightarrow> False)"

lemma may_port_forward: "conn_type_of (login c) = PortForwardConn \<Longrightarrow> may e c x \<Longrightarrow> housekeeping x"
  by (cases x) (auto simp: may_def may_input_def may_fs_def may_cm_def may_host_def housekeeping_def
      split: host_effect.splits cm_effect.splits)

text \<open>C3 The access policy.  Whatever message an authorized peer sends, everything the handler then does
  towards the desktop, the files, the manager, the peer and the audit is what the policy allows for the kind
  of the session, the permissions the user of the controlled machine granted and the options the peer chose,
  as they stand when the message arrives.  A port-forward session reaches nothing but its own end
  and the delay test.\<close>

theorem handler_respects_policy:
  assumes "kind_ok c" and "on_message e msg c = (stays, d)"
  shows "(\<exists>xs. sent d = sent c @ xs \<and> (\<forall>x \<in> set xs. may e c x))
    \<and> (conn_type_of (login c) = PortForwardConn \<longrightarrow>
        (\<forall>x \<in> set (drop (length (sent c)) (sent d)). housekeeping x))"
proof -
  have a: "adds (may e c) c d" using on_message_adds [OF assms(1), of e msg] assms(2) by simp
  then obtain xs where xs: "sent d = sent c @ xs" "\<forall>x \<in> set xs. may e c x" by (auto simp: adds_def)
  then show ?thesis using may_port_forward by (auto; blast)
qed


section \<open>Concrete sessions\<close>

definition toy_key :: key_event where
  "toy_key = \<lparr>ke_down = True, ke_press = False, ke_union = Some (Chr 97), ke_modifiers = [], ke_mode = 0, ke_hangul = False\<rparr>"

lemma toy_kind [simp]: "conn_type_of (login (toy_session t)) = t" "kind_ok (toy_session t)"
  by (cases t; simp add: kind_ok_def toy_session_def conn_type_of_def toy_conn_def)+

lemma toy_key_paste [simp]: "detect_and_audit_paste e toy_key c = c" "track_modifier e toy_key c = c"
  by (simp_all add: detect_and_audit_paste_def track_modifier_def paste_trigger_of_def is_v_def is_insert_def
      key_event_rdev_key_def keyboard_mode_value_def toy_key_def)

lemma key_message:
  "authed_conn_type c = Some Remote \<Longrightarrow> kind_ok c \<Longrightarrow>
    on_message e (Some (KeyEvent toy_key)) c =
      (True, update_auto_disconnect_timer e (if peer_keyboard_enabled c then emit (Input (Input_Key toy_key False)) c else c))"
  by (auto simp: on_message_def on_scoped_message_def authorized_scope_violation_def authorized_message_scope_violation_def
      is_connection_housekeeping_message_def dispatch_def on_key_def is_authed_view_camera_conn_def kind_ok_def)
    (auto simp: conn_type_of_def toy_key_def split: if_splits)

lemma timer_sent [simp]: "sent (update_auto_disconnect_timer e c) = sent c"
  by (simp add: update_auto_disconnect_timer_def)

lemma toy_keyboard: "peer_keyboard_enabled (toy_session Remote)"
  by (simp add: peer_keyboard_enabled_def toy_session_def)

theorem handler_respects_policy_witness:
  "sent (snd (on_message toy_session_env (Some (KeyEvent toy_key)) (toy_session Remote))) = [Input (Input_Key toy_key False)]
    \<and> may_input (toy_session Remote) (Input_Key toy_key False)"
proof -
  let ?c = "toy_session Remote"
  have m: "on_message toy_session_env (Some (KeyEvent toy_key)) ?c =
      (True, update_auto_disconnect_timer toy_session_env (emit (Input (Input_Key toy_key False)) ?c))"
    using toy_keyboard by (simp add: key_message)
  from handler_respects_policy [OF _ m] show ?thesis by (simp add: m)
qed


end
