(* ===== verification/Session_Loop.thy ===== *)
theory Session_Loop
  imports Session_Handler
begin

text \<open>
  The loop of an authorized connection (\<open>Connection::start\<close> in \<open>src/server/connection.rs\<close>): what it does
  with an event of the connection manager, of the peer, of the services of the host and of its timers, in
  which order it ends, and runs of it.

  An event carries what the channel delivered and whether the socket took what was sent; the environment
  is that of the moment.  Sending of video frames and the relay of a forwarded port are not modelled.
\<close>

section \<open>Events\<close>

datatype cm_event =
    Cm_Authorize
  | Cm_Close
  | Cm_Err string
  | Cm_Chat_Message string
  | Cm_Open_Folder string "string option"
  | Cm_Direct_File string
  | Cm_Switch_Permission string bool
  | Cm_Raw "file_response option"
  | Cm_Audit_Outcome i32 bool
  | Cm_Clipboard_Out clip_file bool
  | Cm_Privacy_State nat string
  | Cm_Request_Start
  | Cm_Switch_Sides_Back
  | Cm_Voice_Answer bool
  | Cm_Voice_Closed

datatype loop_event =
    From_Cm cm_event
  | From_Peer "message option"
  | Peer_Garbled
  | Peer_Error
  | Peer_Reset
  | File_Timer bool
  | Web_Console_Close
  | From_Service host_message int bool
  | Printer_Data "u8 list"
  | Second_Timer
  | Test_Delay_Timer

record session_loop =
  lp_conn :: session_conn
  lp_last_recv :: int

section \<open>The connection manager\<close>

definition send_close_reason_no_retry :: "string \<Rightarrow> session_conn \<Rightarrow> session_conn" where
  "send_close_reason_no_retry reason c =
     emit (Host Check_Remove_Session)
       (emit (Peer (Close_Reason (if reason = [] then ''Closed manually by the peer'' else reason))) c)"

text \<open>The host sends files of its own accord: what the walk over the source found is checked and becomes a
  strict job.\<close>

definition ensure_direct_file_transfer_allowed :: "session_env \<Rightarrow> session_conn \<Rightarrow> bool" where
  "ensure_direct_file_transfer_allowed e c \<longleftrightarrow>
     authorized (login c) \<and> is_remote c \<and> file_transfer_enabled c
     \<and> builtin_option e ''one-way-file-transfer'' \<noteq> ''Y''
     \<and> supports_direct_file_receive (xfer c) \<and> audit_protocol (xfer c) \<noteq> 0 \<and> audit_verified c"

definition new_direct_read :: "session_env \<Rightarrow> i32 \<Rightarrow> direct_manifest \<Rightarrow> read_job option" where
  "new_direct_read e i m =
     (case validate_direct_transfer_layout (lower_case e) (dm_root m) (dm_is_directory m) (dm_files m) (dm_empty_dirs m) (dm_total m) of
        Inl err \<Rightarrow> None
      | Inr u \<Rightarrow>
          if length (dm_identities m) \<noteq> length (dm_files m)
             \<or> (\<exists>(d, f) \<in> set (zip (dm_identities m) (dm_files m)). identity_size e d \<noteq> fe_size f)
          then None
          else Some \<lparr>rj_id = i, rj_files = dm_files m, rj_base_name = [], rj_file_num = 0, rj_is_last_job = False,
                 rj_is_resume = False, rj_stream = None, rj_finished = 0, rj_transferred = 0, rj_detect = False,
                 rj_confirmed = False, rj_skipped = False, rj_waiting = False, rj_strict = True,
                 rj_identities = dm_identities m, rj_error = None, rj_audit_skipped = False, rj_memory = None\<rparr>)"

definition direct_download_audit_basename :: "string \<Rightarrow> string option" where
  "direct_download_audit_basename v =
     (let basename = last (str_split separator v)
      in if blank basename \<or> basename = ''.'' \<or> basename = ''..'' \<or> has_control basename then None else Some basename)"

definition normalized_direct_download_audit_files :: "string \<Rightarrow> (string \<times> int) list \<Rightarrow> (string \<times> int) list" where
  "normalized_direct_download_audit_files root_name files =
     (let named = (\<lambda>v. case direct_download_audit_basename v of Some b \<Rightarrow> b | None \<Rightarrow> ''transferred-file'');
          normalized = map (\<lambda>(name, n). (truncate_audit_text (named (if name = [] then root_name else name)) 255, max n 0)) files
      in if normalized = [] then [(truncate_audit_text (named root_name) 255, 0)] else normalized)"

definition remember_enterprise_direct_download :: "i32 \<Rightarrow> string \<Rightarrow> (string \<times> int) list \<Rightarrow> session_conn \<Rightarrow> session_conn" where
  "remember_enterprise_direct_download i root_name files c =
     (if \<not> audit_verified c then c
      else
        let pending = \<lparr>pa_direction = Download, pa_mode = RemoteDirectDownload, pa_path = ''Downloads'',
              pa_files = normalized_direct_download_audit_files root_name files, pa_finished = False\<rparr>
        in set_xfer (\<lambda>x. x\<lparr>pending_file_audits := (pending_file_audits x)(i \<mapsto> pending)\<rparr>) c)"

definition start_direct_file_transfer :: "session_env \<Rightarrow> string \<Rightarrow> bool \<Rightarrow> session_conn \<Rightarrow> session_conn" where
  "start_direct_file_transfer e path sent_ok c =
     (if \<not> ensure_direct_file_transfer_allowed e c \<or> \<not> path_is_absolute e path then c
      else case direct_source e path of
        None \<Rightarrow> c
      | Some m \<Rightarrow>
          let i = next_direct_id e in
          if get_job i (read_jobs (xfer c)) \<noteq> None \<or> pending_file_audits (xfer c) i \<noteq> None then c
          else case new_direct_read e i m of
            None \<Rightarrow> c
          | Some j \<Rightarrow>
              if \<not> sent_ok then c
              else
                let c = emit (Peer (Direct_Receive i (dm_root m) (dm_is_directory m) (dm_files m) (dm_empty_dirs m) (dm_total m))) c;
                    audit_files = map (\<lambda>f. (if fe_name f = [] then dm_root m else fe_name f, min (uint (fe_size f)) (2 ^ 63 - 1))) (dm_files m);
                    c = remember_enterprise_direct_download i (dm_root m) audit_files c
                in set_xfer (\<lambda>x. x\<lparr>read_jobs := read_jobs x @ [j], file_transferred := True\<rparr>) c)"

text \<open>The answer of the user to a call.\<close>

definition handle_voice_call :: "session_env \<Rightarrow> bool \<Rightarrow> session_conn \<Rightarrow> session_conn" where
  "handle_voice_call e accepted c0 =
     (case voice_call_request_timestamp c0 of
        None \<Rightarrow> c0
      | Some ts \<Rightarrow>
          let c = c0\<lparr>voice_call_request_timestamp := None\<rparr>;
              c = (if accepted then emit (Cm Cm_Start_Voice_Call) (emit (Host Default_Voice_Input) c)
                   else emit (Cm Cm_Close_Voice_Call) c);
              c = (emit (Peer (Voice_Call_Response ts accepted)) c)\<lparr>voice_calling := accepted\<rparr>
          in if is_authed_view_camera_conn c then subscribe e AUDIO_SERVICE (audio_enabled c \<and> accepted) c else c)"

text \<open>The clipboard of the host.\<close>

definition file_related :: "clip_file \<Rightarrow> bool" where
  "file_related clip =
     (case clip of
        CF_Files fs app \<Rightarrow> True | CF_FormatList l \<Rightarrow> True | CF_FormatDataRequest i \<Rightarrow> True
      | CF_FormatDataResponse f d \<Rightarrow> True | CF_FileContentsRequest a b \<Rightarrow> True | CF_FileContentsResponse f s d \<Rightarrow> True
      | _ \<Rightarrow> False)"

definition lists_files :: "(i32 \<times> string) list \<Rightarrow> bool" where
  "lists_files l \<longleftrightarrow>
     (\<exists>f \<in> set l. find_str ''FileGroupDescriptor'' (snd f) \<noteq> None \<or> find_str ''FileContents'' (snd f) \<noteq> None)"

definition on_clipboard_out :: "session_env \<Rightarrow> clip_file \<Rightarrow> bool \<Rightarrow> session_conn \<Rightarrow> session_conn" where
  "on_clipboard_out e clip sent_ok c0 =
     (let in_grace = (case last_remote_drop_recv_at (xfer c0) of
                        Some t \<Rightarrow> at_ms e - t < REMOTE_DROP_CLIPRDR_GRACE_MS | None \<Rightarrow> False);
          advertisement = (case clip of CF_FormatList l \<Rightarrow> generation_of l \<noteq> 0 | _ \<Rightarrow> False) in
      if \<not> is_remote c0 then c0
      else if in_grace \<and> file_related clip \<and> \<not> advertisement then c0
      else
        let c = (case clip of
                   CF_Files fs app \<Rightarrow> post_file_audit Download [] (map (\<lambda>(name, n). (name, sint n)) fs) c0
                 | CF_FormatList l \<Rightarrow>
                     if lists_files l then post_file_audit Download ''clipboard'' [(''clipboard file transfer'', 0)] c0 else c0
                 | _ \<Rightarrow> c0)
        in if \<not> sent_ok then c
           else
             let c = emit (Peer (Clip_To_Peer clip)) c
             in case clip of CF_Files fs app \<Rightarrow> emit (Audit (Clipboard_Files_Synced fs app)) c | _ \<Rightarrow> c)"

definition on_cm_event :: "session_env \<Rightarrow> cm_event \<Rightarrow> session_conn \<Rightarrow> bool \<times> session_conn" where
  "on_cm_event e ev c =
     (case ev of
        Cm_Authorize \<Rightarrow> (\<not> port_forward_socket (login c), c\<lparr>login := (login c)\<lparr>require_2fa := None\<rparr>\<rparr>)
      | Cm_Close \<Rightarrow>
          (let c = set_xfer (\<lambda>x. x\<lparr>file_transferred := False\<rparr>) (c\<lparr>chat_unanswered := False\<rparr>)
           in (False, on_close e True (send_close_reason_no_retry [] c)))
      | Cm_Err err \<Rightarrow> if err \<noteq> ''expected'' then (False, on_close e False c) else (True, c)
      | Cm_Chat_Message t \<Rightarrow> (True, (emit (Peer (Chat_To_Peer t)) c)\<lparr>chat_unanswered := False\<rparr>)
      | Cm_Open_Folder path selected \<Rightarrow>
          (True, emit (Peer (Open_File_Transfer path (case selected of Some s \<Rightarrow> s | None \<Rightarrow> []))) c)
      | Cm_Direct_File path \<Rightarrow> (True, start_direct_file_transfer e path True c)
      | Cm_Switch_Permission name enabled \<Rightarrow> (True, switch_permission e name enabled c)
      | Cm_Raw fr \<Rightarrow> (True, emit (Peer (Raw_To_Peer fr)) (capture_enterprise_file_outcome_from_cm fr c))
      | Cm_Audit_Outcome i succeeded \<Rightarrow> (True, on_audit_outcome i succeeded c)
      | Cm_Clipboard_Out clip sent_ok \<Rightarrow> (True, on_clipboard_out e clip sent_ok c)
      | Cm_Privacy_State n key \<Rightarrow> (True, emit (Peer (Privacy_Mode_State n key)) c)
      | Cm_Request_Start \<Rightarrow> (True, emit (Host Start_Portable) c)
      | Cm_Switch_Sides_Back \<Rightarrow> (True, emit (Peer Switch_Back) c)
      | Cm_Voice_Answer accepted \<Rightarrow> (True, handle_voice_call e accepted c)
      | Cm_Voice_Closed \<Rightarrow> (True, emit (Peer Voice_Call_Ended) (close_voice_call e c)))"

section \<open>The services of the host\<close>

definition on_service_message :: "session_env \<Rightarrow> host_message \<Rightarrow> int \<Rightarrow> bool \<Rightarrow> session_conn \<Rightarrow> bool \<times> session_conn" where
  "on_service_message e m latency sent_ok c0 =
     (if 1000 < latency \<and> (case m of Audio_Out d \<Rightarrow> True | _ \<Rightarrow> False) then (True, c0)
      else if m = Stop_Service then (False, on_close e False (send_close_reason_no_retry [] c0))
      else
        let c = (if m = Peer_Info then emit (Video (Refresh_Video None)) c0 else c0);
            audit = (case m of
                       Clipboard_Out cb \<Rightarrow> Some [cb]
                     | Multi_Clipboards_Out cbs translated \<Rightarrow> Some (case translated of Some t \<Rightarrow> t | None \<Rightarrow> cbs)
                     | _ \<Rightarrow> None)
        in if \<not> sent_ok then (False, on_close e False c)
           else
             let c = emit (Peer (Service_To_Peer m)) c
             in (True, case audit of Some cbs \<Rightarrow> emit (Audit (Clipboard_Synced_Audit cbs)) c | None \<Rightarrow> c))"

definition send_printer_request :: "session_env \<Rightarrow> u8 list \<Rightarrow> session_conn \<Rightarrow> session_conn" where
  "send_printer_request e doc c =
     (let path = ''RustDesk://FsJob//Printer/'' @ time_text e
      in set_xfer (\<lambda>x. x\<lparr>printer_data := filter (\<lambda>(t, p, d). (at_ms e - t) div 1000 < 60) (printer_data x) @ [(at_ms e, path, doc)]\<rparr>)
           (emit (Peer (Printer_Request path)) c))"

section \<open>Timers\<close>

definition note_running :: "bool \<Rightarrow> session_conn \<Rightarrow> session_conn" where
  "note_running running c =
     (if Some running \<noteq> last_running (portable c)
      then emit (Peer (Portable_Running running)) (c\<lparr>portable := (portable c)\<lparr>last_running := Some running\<rparr>\<rparr>) else c)"

definition note_uac :: "bool \<Rightarrow> bool \<Rightarrow> session_conn \<Rightarrow> session_conn" where
  "note_uac running uac c0 =
     (if last_uac (portable c0) = uac then c0
      else
        let c = c0\<lparr>portable := (portable c0)\<lparr>last_uac := uac\<rparr>\<rparr>
        in if \<not> uac \<or> \<not> running then emit (Peer (Uac uac)) c else c)"

definition note_elevated :: "bool \<Rightarrow> bool \<Rightarrow> session_conn \<Rightarrow> session_conn" where
  "note_elevated running elevated c0 =
     (if last_foreground_elevated (portable c0) = elevated then c0
      else
        let c = c0\<lparr>portable := (portable c0)\<lparr>last_foreground_elevated := elevated\<rparr>\<rparr>
        in if \<not> elevated \<or> \<not> running then emit (Peer (Foreground_Elevated elevated)) c else c)"

definition portable_check :: "session_env \<Rightarrow> session_conn \<Rightarrow> session_conn" where
  "portable_check e c0 =
     (if installed e \<or> \<not> is_remote c0 \<or> \<not> keyboard (perms c0) then c0
      else
        let running = portable_running e;
            c = emit (Cm (Cm_Show_Elevation (\<not> running))) c0
        in if \<not> authorized (login c) then c
           else note_elevated running (foreground_elevated e) (note_uac running (uac_running e) (note_running running c)))"

definition sync_auto_disconnect_timer :: "session_env \<Rightarrow> session_conn \<Rightarrow> session_conn" where
  "sync_auto_disconnect_timer e c =
     c\<lparr>auto_disconnect_timer :=
        (case get_auto_disconnect_timeout e of
           None \<Rightarrow> None
         | Some m \<Rightarrow> Some (case auto_disconnect_timer c of Some (t, m') \<Rightarrow> t | None \<Rightarrow> at_ms e, m))\<rparr>"

definition elapsed_secs :: "session_env \<Rightarrow> int \<Rightarrow> nat" where
  "elapsed_secs e t = nat ((at_ms e - t) div 1000)"

definition send_auto_disconnect_status :: "session_env \<Rightarrow> session_conn \<Rightarrow> session_conn" where
  "send_auto_disconnect_status e c =
     emit (Peer (case auto_disconnect_timer c of
                   Some (t, m) \<Rightarrow> Auto_Disconnect_Status True (unat (m * 60) - elapsed_secs e t) (unat (m * 60))
                 | None \<Rightarrow> Auto_Disconnect_Status False 0 0)) c"

definition on_second_timer :: "session_env \<Rightarrow> session_conn \<Rightarrow> bool \<times> session_conn" where
  "on_second_timer e c0 =
     (let c = send_auto_disconnect_status e (sync_auto_disconnect_timer e (portable_check e c0)) in
      if (case auto_disconnect_timer c of Some (t, m) \<Rightarrow> unat (m * 60) \<le> elapsed_secs e t | None \<Rightarrow> False)
      then (False, on_close e True (send_close_reason_no_retry ''Connection failed due to inactivity'' c))
      else (True, on_remove_timer e c))"

definition on_test_delay_timer :: "session_env \<Rightarrow> int \<Rightarrow> session_conn \<Rightarrow> bool \<times> session_conn" where
  "on_test_delay_timer e last_recv c0 =
     (if 30000 \<le> at_ms e - last_recv then (False, on_close e True c0)
      else
        let c = (if last_test_delay c0 = None \<and> \<not> (port_forward_socket (login c0) \<and> authorized (login c0))
                 then emit (Peer (Test_Delay False)) (c0\<lparr>last_test_delay := Some (at_ms e)\<rparr>) else c0)
        in (True,
            if is_authed_remote_conn c \<or> view_camera (login c)
            then (case last_test_delay c of Some t \<Rightarrow> emit (Video (Delay_Response_Elapsed (at_ms e - t))) c | None \<Rightarrow> c)
            else c))"

section \<open>The loop\<close>

definition loop_event :: "session_env \<Rightarrow> loop_event \<Rightarrow> int \<Rightarrow> session_conn \<Rightarrow> bool \<times> session_conn" where
  "loop_event e ev last_recv c =
     (case ev of
        From_Cm ev \<Rightarrow> on_cm_event e ev c
      | From_Peer msg \<Rightarrow>
          (case on_message e msg c of
             (stays, d) \<Rightarrow> (stays \<and> \<not> (port_forward_socket (login d) \<and> authorized (login d) \<and> last_test_delay d = None), d))
      | Peer_Garbled \<Rightarrow> (True, c)
      | Peer_Error \<Rightarrow> (False, on_close e True c)
      | Peer_Reset \<Rightarrow> (False, on_close e True c)
      | File_Timer sent_ok \<Rightarrow>
          if \<not> sent_ok \<and> read_jobs (xfer c) \<noteq> [] then (False, on_close e False c)
          else (case on_file_timer (codec_of_blocks e) (confirm_io e) c of
                  (d, ms) \<Rightarrow> (True, if ms = [] then d else emit (Peer (Job_Messages ms)) d))
      | Web_Console_Close \<Rightarrow> (False, on_close e True (send_close_reason_no_retry ''Closed manually by web console'' c))
      | From_Service m latency sent_ok \<Rightarrow> on_service_message e m latency sent_ok c
      | Printer_Data doc \<Rightarrow>
          (True, if config_bool e ''enable-remote-printer'' then send_printer_request e doc c
                 else emit (Peer Printing_Disallowed) c)
      | Second_Timer \<Rightarrow> on_second_timer e c
      | Test_Delay_Timer \<Rightarrow> on_test_delay_timer e last_recv c)"

definition heard :: "loop_event \<Rightarrow> bool" where
  "heard ev = (case ev of From_Peer m \<Rightarrow> True | Peer_Garbled \<Rightarrow> True | _ \<Rightarrow> False)"

definition loop_step :: "session_env \<Rightarrow> loop_event \<Rightarrow> session_loop \<Rightarrow> bool \<times> session_loop" where
  "loop_step e ev lp =
     (let lp = (if heard ev then lp\<lparr>lp_last_recv := at_ms e\<rparr> else lp) in
      case loop_event e ev (lp_last_recv lp) (lp_conn lp) of (stays, d) \<Rightarrow> (stays, lp\<lparr>lp_conn := d\<rparr>))"

fun loop_run :: "(session_env \<times> loop_event) list \<Rightarrow> session_loop \<Rightarrow> bool \<times> session_loop" where
  "loop_run [] lp = (True, lp)"
| "loop_run ((e, ev) # evs) lp =
     (case loop_step e ev lp of (True, lp') \<Rightarrow> loop_run evs lp' | (False, lp') \<Rightarrow> (False, lp'))"

section \<open>The end\<close>

text \<open>\<open>ids\<close> are the keys of the table of pending audits.\<close>

definition upload_pending :: "i32 list \<Rightarrow> session_conn \<Rightarrow> bool" where
  "upload_pending ids c \<longleftrightarrow>
     (\<exists>i \<in> set ids. case pending_file_audits (xfer c) i of Some p \<Rightarrow> pa_direction p = Upload | None \<Rightarrow> False)"

text \<open>What the manager still delivers before the deadline.\<close>

fun drain :: "i32 list \<Rightarrow> cm_event list \<Rightarrow> session_conn \<Rightarrow> session_conn" where
  "drain ids [] c = c"
| "drain ids (ev # evs) c =
     (if \<not> upload_pending ids c then c
      else drain ids evs
        (case ev of
           Cm_Raw fr \<Rightarrow> capture_enterprise_file_outcome_from_cm fr c
         | Cm_Audit_Outcome i succeeded \<Rightarrow> post_enterprise_file_outcome i (if succeeded then ''COMPLETED'' else ''FAILED'') c
         | _ \<Rightarrow> c))"

definition end_session :: "session_env \<Rightarrow> i32 list \<Rightarrow> cm_event list \<Rightarrow> session_conn \<Rightarrow> session_conn" where
  "end_session e ids late c0 =
     (let c = (if privacy_by_conn e then emit (Host (Turn_Off_Privacy [])) c0 else c0);
          c = emit (Video Frame_Fetched) c;
          c = (if authorized (login c) then emit (Host Update_Temporary_Password) c else c);
          c = (if port_forward_socket (login c)
               then emit (Host Check_Remove_Session) (on_close e False (c\<lparr>login := (login c)\<lparr>port_forward_socket := False\<rparr>\<rparr>)) else c);
          c = (if authorized (login c)
               then emit (Host Conn_Closed_Audit) (cancel_unfinished ids (drain ids late c)) else c);
          c = (if server_alive e then (emit (Host Remove_Connection) c)\<lparr>subs := {}\<rparr> else c)
      in on_close e True c)"

section \<open>What an event leaves alone\<close>

lemma emit_more [simp]:
  "closed (emit x c) = closed c" "auto_disconnect_timer (emit x c) = auto_disconnect_timer c"
  "last_test_delay (emit x c) = last_test_delay c"
  by (simp_all add: emit_def)

lemma same_rights_direct [simp]: "same_rights c (start_direct_file_transfer e path ok c)"
  by (auto simp: start_direct_file_transfer_def remember_enterprise_direct_download_def Let_def split: option.splits)

lemma same_rights_calls [simp]: "same_rights c (handle_voice_call e b c)" "same_rights c (close_voice_call e c)"
  by (auto simp: handle_voice_call_def close_voice_call_def Let_def split: option.splits)

lemma same_rights_clipboard_out [simp]: "same_rights c (on_clipboard_out e clip ok c)"
  by (cases clip) (simp_all add: on_clipboard_out_def Let_def)

lemma same_rights_outcomes [simp]:
  "same_rights c (capture_enterprise_file_outcome_from_cm fr d) = same_rights c d"
  "same_rights c (on_audit_outcome i b d) = same_rights c d"
  by (simp_all add: capture_enterprise_file_outcome_from_cm_def on_audit_outcome_def Let_def split: option.splits)

lemma same_rights_timers [simp]:
  "same_rights c (on_remove_timer e d) = same_rights c d"
  "same_rights c (sync_auto_disconnect_timer e d) = same_rights c d"
  "same_rights c (send_auto_disconnect_status e d) = same_rights c d"
  "same_rights c (send_close_reason_no_retry s d) = same_rights c d"
  "same_rights c (send_printer_request e doc d) = same_rights c d"
  by (simp_all add: on_remove_timer_def sync_auto_disconnect_timer_def send_auto_disconnect_status_def
      send_close_reason_no_retry_def send_printer_request_def Let_def case_prod_unfold same_rights_fold)

lemma same_rights_portable [simp]: "same_rights c (portable_check e d) = same_rights c d"
  by (simp add: portable_check_def note_running_def note_uac_def note_elevated_def Let_def)

lemma same_rights_file_timer: "on_file_timer z io c = (d, ms) \<Longrightarrow> same_rights c d"
  by (auto simp: on_file_timer_def source_outcome_def Let_def split: if_splits prod.splits option.splits)

lemma same_rights_delay_timer: "on_test_delay_timer e r c = (True, d) \<Longrightarrow> same_rights c d"
  by (auto simp: on_test_delay_timer_def Let_def split: if_splits option.splits)

text \<open>A switch of the user changes permissions only.\<close>

lemma switch_frame:
  "authed_conn_type (switch_permission e name b c) = authed_conn_type c" "login (switch_permission e name b c) = login c"
  "closed (switch_permission e name b c) = closed c" "disconnects (switch_permission e name b c) = disconnects c"
  "keyboard (perms (switch_permission e name b c)) = (if name = ''keyboard'' then b else keyboard (perms c))"
  by (simp_all add: switch_permission_def Let_def audio_changed_def disconnects_def emit_def subscribe_def)

definition is_switch :: "loop_event \<Rightarrow> bool" where
  "is_switch ev \<longleftrightarrow> (\<exists>name b. ev = From_Cm (Cm_Switch_Permission name b))"

lemma loop_event_rights:
  assumes "loop_event e ev r c = (True, d)" and "\<not> is_switch ev" and "ev \<noteq> From_Cm Cm_Authorize"
  shows "same_rights c d"
proof (cases ev)
  case (From_Cm cm)
  then show ?thesis using assms
    by (cases cm) (auto simp: loop_event_def on_cm_event_def is_switch_def Let_def split: if_splits)
next
  case (From_Peer msg)
  then show ?thesis using assms on_message_rights
    by (auto simp: loop_event_def split: prod.splits)
next
  case (File_Timer ok)
  then show ?thesis using assms(1) same_rights_file_timer
    by (auto simp: loop_event_def split: if_splits prod.splits)
next
  case (From_Service m lat ok)
  then show ?thesis using assms(1)
    by (auto simp: loop_event_def on_service_message_def Let_def split: if_splits option.splits)
next
  case Second_Timer
  then show ?thesis using assms(1) by (auto simp: loop_event_def on_second_timer_def Let_def split: if_splits)
next
  case Test_Delay_Timer
  then show ?thesis using assms(1) same_rights_delay_timer by (simp add: loop_event_def)
qed (use assms(1) in \<open>auto simp: loop_event_def\<close>)

section \<open>A session ends once\<close>

text \<open>The manager was told of the end exactly when the session is closed.\<close>

definition told_once :: "session_conn \<Rightarrow> bool" where
  "told_once c \<longleftrightarrow> disconnects c = (if closed c then 1 else 0)"

lemma told_once_same: "same_rights c d \<Longrightarrow> told_once d = told_once c"
  by (simp add: told_once_def same_rights_def)

lemma told_once_emit [simp]: "\<not> disc x \<Longrightarrow> told_once (emit x c) = told_once c"
  by (rule told_once_same) simp

lemma told_once_other [simp]:
  "told_once (switch_permission e name b c) = told_once c" "told_once (c\<lparr>login := l\<rparr>) = told_once c"
  by (simp_all add: told_once_def switch_frame) (simp_all add: disconnects_def)

lemma told_once_on_close: "told_once c \<Longrightarrow> told_once (on_close e lock c) \<and> closed (on_close e lock c)"
  by (auto simp: told_once_def on_close_def Let_def disconnects_def emit_def)

lemma told_once_message: "told_once c \<Longrightarrow> on_message e msg c = (stays, d) \<Longrightarrow> told_once d"
proof (cases stays)
  case True
  assume "told_once c" "on_message e msg c = (stays, d)"
  then show ?thesis using on_message_rights [of e msg c d] told_once_same [of c d] True by simp
next
  case False
  assume t: "told_once c" and m: "on_message e msg c = (stays, d)"
  show ?thesis
  proof (cases rule: on_message_cases [of e msg c])
    case closing
    then show ?thesis using t m told_once_on_close by auto
  next
    case (handled mm)
    then obtain misc where misc: "mm = Misc (Some misc)" "on_misc e misc c = (False, d)"
      using m False by (cases mm) (auto simp: dispatch_def split: option.splits)
    then show ?thesis
      using t told_once_on_close
      by (cases misc) (auto simp: on_misc_def on_selected_sid_def on_switch_sides_request_def split: if_splits option.splits)
  qed (use m False in auto)
qed

lemma told_once_event: "told_once c \<Longrightarrow> loop_event e ev r c = (stays, d) \<Longrightarrow> told_once d"
proof (cases "stays \<and> \<not> is_switch ev \<and> ev \<noteq> From_Cm Cm_Authorize")
  case True
  assume "told_once c" "loop_event e ev r c = (stays, d)"
  then show ?thesis using loop_event_rights [of e ev r c d] told_once_same [of c d] True by simp
next
  case False
  assume t: "told_once c" and ev: "loop_event e ev r c = (stays, d)"
  have close: "told_once (on_close e lock c')" if "same_rights c c'" for lock c'
    using that t told_once_on_close told_once_same by blast
  have timer: "\<And>d' ms. on_file_timer z io c = (d', ms) \<Longrightarrow> told_once d'" for z io
    using same_rights_file_timer t told_once_same by blast
  show ?thesis
  proof (cases ev)
    case (From_Cm cm)
    then show ?thesis using ev t False
      by (cases cm) (auto simp: loop_event_def on_cm_event_def is_switch_def Let_def split: if_splits intro!: close)
  next
    case (From_Peer msg)
    then show ?thesis using ev t told_once_message by (auto simp: loop_event_def split: prod.splits)
  next
    case (From_Service m lat ok)
    then show ?thesis using ev False
      by (auto simp: loop_event_def on_service_message_def is_switch_def Let_def split: if_splits option.splits intro!: close)
  next
    case Second_Timer
    then show ?thesis using ev False
      by (auto simp: loop_event_def on_second_timer_def is_switch_def Let_def split: if_splits intro!: close)
  next
    case Test_Delay_Timer
    then show ?thesis using ev False
      by (auto simp: loop_event_def on_test_delay_timer_def is_switch_def Let_def split: if_splits option.splits intro!: close)
  qed (use ev t close timer False in \<open>auto simp: loop_event_def is_switch_def split: if_splits prod.splits\<close>)
qed

lemma told_once_run: "told_once (lp_conn lp) \<Longrightarrow> loop_run evs lp = (b, lp') \<Longrightarrow> told_once (lp_conn lp')"
proof (induction evs arbitrary: lp)
  case (Cons ev evs)
  obtain e v where ev: "ev = (e, v)" by force
  obtain stays lp1 where step: "loop_step e v lp = (stays, lp1)" by force
  have "told_once (lp_conn lp1)"
    using step Cons.prems(1) told_once_event by (auto simp: loop_step_def Let_def split: prod.splits if_splits)
  then show ?case using Cons step by (cases stays) (auto simp: ev)
qed simp

lemma pending_outcome:
  "pending_file_audits (xfer (post_enterprise_file_outcome i s c)) = (pending_file_audits (xfer c))(i := None)"
  by (auto simp: post_enterprise_file_outcome_def Let_def split: option.splits)

lemma pending_capture:
  "dom (pending_file_audits (xfer (capture_enterprise_file_outcome_from_cm fr c))) \<subseteq> dom (pending_file_audits (xfer c))"
  by (auto simp: capture_enterprise_file_outcome_from_cm_def Let_def pending_outcome dom_def split: option.splits if_splits)

lemma pending_drain: "dom (pending_file_audits (xfer (drain ids evs c))) \<subseteq> dom (pending_file_audits (xfer c))"
proof (induction evs arbitrary: c)
  case (Cons ev evs)
  let ?d = "case ev of Cm_Raw fr \<Rightarrow> capture_enterprise_file_outcome_from_cm fr c
      | Cm_Audit_Outcome i b \<Rightarrow> post_enterprise_file_outcome i (if b then ''COMPLETED'' else ''FAILED'') c | _ \<Rightarrow> c"
  have "dom (pending_file_audits (xfer ?d)) \<subseteq> dom (pending_file_audits (xfer c))"
    using pending_capture by (cases ev) (auto simp: pending_outcome)
  then have "dom (pending_file_audits (xfer (drain ids evs ?d))) \<subseteq> dom (pending_file_audits (xfer c))"
    using Cons.IH [of ?d] by (rule order_trans [rotated])
  then show ?case by simp
qed simp

lemma pending_cancel: "pending_file_audits (xfer (cancel_unfinished ids c)) = (\<lambda>i. if i \<in> set ids then None else pending_file_audits (xfer c) i)"
  unfolding cancel_unfinished_def
  by (induction ids arbitrary: c) (auto simp: pending_outcome)

lemma same_rights_drain [simp]: "same_rights c (drain ids evs d) = same_rights c d"
  by (induction evs arbitrary: d) (simp_all split: cm_event.split)

lemma same_rights_cancel [simp]: "same_rights c (cancel_unfinished ids d) = same_rights c d"
  by (simp add: cancel_unfinished_def same_rights_fold)

lemma on_close_sel [simp]: "xfer (on_close e lock c) = xfer c" "subs (on_close e lock c) = subs c"
  by (simp_all add: on_close_def Let_def emit_def)

lemma told_once_closed: "told_once c \<Longrightarrow> closed c \<Longrightarrow> disconnects c = 1"
  by (simp add: told_once_def)


section \<open>Revocation\<close>

text \<open>The effects that act on the machine as its keyboard and mouse would.\<close>

definition takes_control :: "effect \<Rightarrow> bool" where
  "takes_control x \<longleftrightarrow>
     (case x of
        Input i \<Rightarrow> (case i of Input_Mouse me simulate show_cursor \<Rightarrow> simulate | _ \<Rightarrow> True)
      | Host h \<Rightarrow> (case h of Elevate r \<Rightarrow> True | Set_Resolution d w h \<Rightarrow> True | Lock_Screen \<Rightarrow> True | _ \<Rightarrow> False)
      | _ \<Rightarrow> False)"

lemma takes_control_simps [simp]:
  "\<not> takes_control (Video v)" "\<not> takes_control (Cm m)" "\<not> takes_control (Audit a)" "\<not> takes_control (Peer p)"
  "\<not> takes_control (Fs r)" "\<not> takes_control (Host Reset_Voice_Input)" "\<not> takes_control (Host Default_Voice_Input)"
  "\<not> takes_control (Host Check_Remove_Session)" "\<not> takes_control (Host Start_Portable)" "takes_control (Host Lock_Screen)"
  by (simp_all add: takes_control_def)

definition grants :: "string \<Rightarrow> session_env \<times> loop_event \<Rightarrow> bool" where
  "grants name ev \<longleftrightarrow> snd ev = From_Cm (Cm_Switch_Permission name True)"

lemma may_control: "may e c x \<Longrightarrow> takes_control x \<Longrightarrow> keyboard (perms c)"
  by (auto simp: may_def may_input_def may_host_def takes_control_def peer_keyboard_enabled_def Let_def
      split: effect.splits input_effect.splits host_effect.splits if_splits)

abbreviation calm :: "session_conn \<Rightarrow> session_conn \<Rightarrow> bool" where
  "calm \<equiv> adds (\<lambda>x. \<not> takes_control x)"

lemma calm_switch: "calm c (switch_permission e name b c)"
  by (auto simp: adds_def switch_permission_def Let_def audio_changed_def)

lemma calm_close: "calm c d \<Longrightarrow> \<not> keyboard (perms d) \<Longrightarrow> calm c (on_close e lock d)"
  by (auto simp: on_close_def Let_def intro!: adds_emit)

lemma calm_reason: "calm c d \<Longrightarrow> calm c (send_close_reason_no_retry s d)"
  by (simp add: send_close_reason_no_retry_def adds_emit)

lemma calm_events:
  "calm c (capture_enterprise_file_outcome_from_cm fr c)" "calm c (on_audit_outcome i b c)"
  "calm c (start_direct_file_transfer e path ok c)" "calm c (handle_voice_call e accepted c)"
  "calm c (close_voice_call e c)" "calm c (send_printer_request e doc c)"
proof -
  show "calm c (capture_enterprise_file_outcome_from_cm fr c)" "calm c (on_audit_outcome i b c)"
    by (auto simp: capture_enterprise_file_outcome_from_cm_def on_audit_outcome_def Let_def split: option.splits intro!: adds_outcome)
  have remember: "calm c (remember_enterprise_direct_download i root fs d)" if "calm c d" for i root fs d
    using that by (simp add: remember_enterprise_direct_download_def Let_def)
  show "calm c (start_direct_file_transfer e path ok c)"
    by (auto simp: start_direct_file_transfer_def Let_def split: option.split intro!: remember adds_emit)
  show "calm c (handle_voice_call e accepted c)" "calm c (close_voice_call e c)" "calm c (send_printer_request e doc c)"
    by (auto simp: handle_voice_call_def close_voice_call_def send_printer_request_def Let_def split: option.splits intro!: adds_emit)
qed

lemma calm_clipboard_out: "calm c (on_clipboard_out e clip ok c)"
  by (cases clip) (auto simp: on_clipboard_out_def Let_def intro!: adds_emit adds_audit)

lemma calm_remove_timer: "calm c d \<Longrightarrow> calm c (on_remove_timer e d)"
  by (auto simp: on_remove_timer_def Let_def intro!: adds_fold adds_emit split: prod.splits)

lemma calm_file_timer: "on_file_timer z io c = (d, ms) \<Longrightarrow> calm c d"
  by (auto simp: on_file_timer_def source_outcome_def Let_def split: if_splits prod.splits option.splits intro!: adds_outcome adds_emit)

lemma calm_second: "calm c (send_auto_disconnect_status e (sync_auto_disconnect_timer e (portable_check e c)))"
proof -
  have stages: "calm c (note_running r d)" "calm c (note_uac r b d)" "calm c (note_elevated r b d)" if "calm c d" for r b d
    using that by (auto simp: note_running_def note_uac_def note_elevated_def Let_def intro!: adds_emit)
  then have "calm c (portable_check e c)"
    by (auto simp: portable_check_def Let_def intro!: stages adds_emit)
  then show ?thesis by (auto simp: sync_auto_disconnect_timer_def send_auto_disconnect_status_def intro!: adds_emit)
qed

lemma second_perms:
  "perms (send_auto_disconnect_status e (sync_auto_disconnect_timer e (portable_check e c))) = perms c"
  using same_rights_timers(2,3) same_rights_portable by (metis same_rights_def same_rights_refl)

lemma loop_event_calm:
  assumes "kind_ok c" and "\<not> keyboard (perms c)" and "loop_event e ev r c = (stays, d)"
  shows "calm c d"
proof (cases ev)
  case (From_Cm cm)
  have *: "calm c (emit (Peer p) d)" if "calm c d" for p d using that by (simp add: adds_emit)
  show ?thesis
    using assms(2,3) From_Cm calm_events calm_clipboard_out calm_switch
    by (cases cm) (auto simp: loop_event_def on_cm_event_def Let_def intro!: * calm_close calm_reason adds_emit
        simp: send_close_reason_no_retry_def split: if_splits)
next
  case (From_Peer msg)
  have "adds (may e c) c (snd (on_message e msg c))" by (rule on_message_adds) (rule assms(1))
  then have "calm c (snd (on_message e msg c))" by (rule adds_mono) (use may_control assms(2) in blast)
  then show ?thesis using assms(3) From_Peer by (auto simp: loop_event_def split: prod.splits)
next
  case (File_Timer ok)
  then show ?thesis using assms calm_file_timer
    by (auto simp: loop_event_def split: if_splits prod.splits intro!: calm_close adds_emit)
next
  case (From_Service m lat ok)
  then show ?thesis using assms
    by (auto simp: loop_event_def on_service_message_def Let_def send_close_reason_no_retry_def
        split: if_splits option.splits intro!: calm_close adds_emit)
next
  case Second_Timer
  then show ?thesis using assms
    by (auto simp: loop_event_def on_second_timer_def Let_def second_perms send_close_reason_no_retry_def calm_second
        split: if_splits intro!: calm_close calm_remove_timer adds_emit)
next
  case Test_Delay_Timer
  then show ?thesis using assms
    by (auto simp: loop_event_def on_test_delay_timer_def Let_def split: if_splits option.splits intro!: calm_close adds_emit)
qed (use assms calm_events in \<open>auto simp: loop_event_def send_close_reason_no_retry_def split: if_splits intro!: calm_close adds_emit\<close>)

lemma loop_event_revoked:
  assumes "kind_ok c" and "\<not> keyboard (perms c)" and "loop_event e ev r c = (True, d)" and "\<not> grants ''keyboard'' (e, ev)"
  shows "kind_ok d \<and> \<not> keyboard (perms d)"
proof -
  consider (switch) name b where "ev = From_Cm (Cm_Switch_Permission name b)" | (authorize) "ev = From_Cm Cm_Authorize"
    | (other) "\<not> is_switch ev" "ev \<noteq> From_Cm Cm_Authorize"
    by (auto simp: is_switch_def)
  then show ?thesis
  proof cases
    case switch
    then have "d = switch_permission e name b c" using assms(3) by (simp add: loop_event_def on_cm_event_def)
    then show ?thesis using assms(1,2,4) switch by (auto simp: kind_ok_def switch_frame grants_def split: if_splits)
  next
    case authorize
    then show ?thesis using assms(1-3) by (auto simp: loop_event_def on_cm_event_def kind_ok_def conn_type_of_def)
  next
    case other
    have "same_rights c d" using loop_event_rights [OF assms(3) other] .
    then show ?thesis using kind_ok_same assms(1,2) by (auto simp: same_rights_def)
  qed
qed

lemma loop_run_calm:
  assumes "kind_ok (lp_conn lp)" and "\<not> keyboard (perms (lp_conn lp))" and "\<forall>ev \<in> set evs. \<not> grants ''keyboard'' ev"
    and "loop_run evs lp = (b, lp')"
  shows "calm (lp_conn lp) (lp_conn lp')"
  using assms
proof (induction evs arbitrary: lp)
  case (Cons ev evs)
  obtain e v where ev: "ev = (e, v)" by force
  obtain stays lp1 where step: "loop_step e v lp = (stays, lp1)" by force
  obtain r where r: "loop_event e v r (lp_conn lp) = (stays, lp_conn lp1)"
    using step by (auto simp: loop_step_def Let_def split: prod.splits if_splits)
  have c1: "calm (lp_conn lp) (lp_conn lp1)" using loop_event_calm [OF Cons.prems(1,2) r] .
  show ?case
  proof (cases stays)
    case True
    then have "kind_ok (lp_conn lp1) \<and> \<not> keyboard (perms (lp_conn lp1))"
      using loop_event_revoked [OF Cons.prems(1,2)] r Cons.prems(3) by (simp add: ev)
    then have "calm (lp_conn lp1) (lp_conn lp')" using Cons.IH [of lp1] Cons.prems(3,4) True by (simp add: ev step)
    then show ?thesis using c1 by (rule adds_trans [rotated])
  next
    case False
    then show ?thesis using c1 Cons.prems(4) by (simp add: ev step)
  qed
qed simp

text \<open>C8 Revocation.  Once the user has withdrawn the keyboard permission, then until the user grants it
  again no sequence of messages, answers of the manager, messages of the services and timers, however
  ordered, makes the connection press a key, move or click the mouse, block the local input, elevate,
  change a resolution or lock the screen.\<close>

theorem revoked_keyboard_stays_revoked:
  assumes "kind_ok (lp_conn lp)" and "lp' = lp\<lparr>lp_conn := switch_permission e ''keyboard'' False (lp_conn lp)\<rparr>"
    and "\<forall>ev \<in> set evs. \<not> grants ''keyboard'' ev" and "loop_run evs lp' = (b, lp'')"
    and "x \<in> set (drop (length (sent (lp_conn lp))) (sent (lp_conn lp'')))"
  shows "\<not> takes_control x"
proof -
  have c': "lp_conn lp' = switch_permission e ''keyboard'' False (lp_conn lp)" by (simp add: assms(2))
  have "kind_ok (lp_conn lp')" "\<not> keyboard (perms (lp_conn lp'))"
    using assms(1) by (simp_all add: c' kind_ok_def switch_frame)
  then have "calm (lp_conn lp') (lp_conn lp'')" using loop_run_calm assms(3,4) by blast
  moreover have "calm (lp_conn lp) (lp_conn lp')" unfolding c' by (rule calm_switch)
  ultimately have "calm (lp_conn lp) (lp_conn lp'')" by (rule adds_trans [rotated])
  then show ?thesis using assms(5) by (auto simp: adds_def)
qed

section \<open>Idle sessions\<close>

definition is_chat :: "message option \<Rightarrow> bool" where
  "is_chat msg \<longleftrightarrow> (\<exists>s. msg = Some (Misc (Some (ChatMessage s))))"

lemma timer_files [simp]:
  "auto_disconnect_timer (set_xfer f c) = auto_disconnect_timer c"
  "auto_disconnect_timer (remember_enterprise_file_transfer e i dir p fs c) = auto_disconnect_timer c"
  "auto_disconnect_timer (post_file_audit dir p fs c) = auto_disconnect_timer c"
  by (simp_all add: set_xfer_def remember_enterprise_file_transfer_def post_file_audit_def Let_def split: option.split)

lemma timer_fold: "(\<And>y d. auto_disconnect_timer (f y d) = auto_disconnect_timer d) \<Longrightarrow>
    auto_disconnect_timer (fold f ys c) = auto_disconnect_timer c"
  by (induction ys arbitrary: c) simp_all

lemma timer_outcome [simp]: "auto_disconnect_timer (post_enterprise_file_outcome i s c) = auto_disconnect_timer c"
  by (simp add: post_enterprise_file_outcome_def Let_def case_prod_unfold timer_fold split: option.split)

lemma timer_file_action: "auto_disconnect_timer (on_file_action e fa c) = auto_disconnect_timer c"
proof (cases rule: on_file_action_cases [of e fa c])
  case (performed a)
  have "auto_disconnect_timer (on_send e a c) = auto_disconnect_timer c"
    by (auto simp: on_send_def Let_def split: file_action.splits sum.splits)
  moreover have "auto_disconnect_timer (on_receive e a c) = auto_disconnect_timer c"
    by (simp add: on_receive_def Let_def split: file_action.splits)
  ultimately show ?thesis
    unfolding performed(2)
    by (cases a) (auto simp: perform_file_action_def on_cancel_def on_confirm_def Let_def split: sum.splits option.splits)
qed simp_all

lemma timer_file_response: "auto_disconnect_timer (on_file_response fr c) = auto_disconnect_timer c"
  by (auto simp: on_file_response_def on_done_def on_error_def Let_def split: option.splits file_response.splits)

lemma timer_close [simp]: "auto_disconnect_timer (on_close e lock c) = auto_disconnect_timer c"
  by (simp add: on_close_def Let_def)

lemma timer_limited_misc:
  assumes "kind_ok c" and t: "conn_type_of (login c) = FileTransferConn \<or> conn_type_of (login c) = TerminalConn"
    and "authorized_message_scope_violation (conn_type_of (login c)) (Some (Misc (Some m))) = None"
    and "\<And>s. m \<noteq> ChatMessage s"
  shows "auto_disconnect_timer (snd (on_misc e m c)) = auto_disconnect_timer c"
proof -
  have ft: "conn_type_of (login c) = FileTransferConn \<Longrightarrow> file_transfer (login c) \<noteq> None" using conn_type_flags(4) by blast
  have option: "auto_disconnect_timer (on_option e opt c) = auto_disconnect_timer c" for opt
    using assms(1) t
    by (auto simp: on_option_def kind_ok_def scoped_update_option_message_def terminal_filter update_options_terminal
        when_chosen_def update_terminal_persistence_def split: option.splits if_splits)
  have render: "\<not> should_handle_render_broadcast_message c"
    using assms(1) t by (auto simp: should_handle_render_broadcast_message_def kind_ok_def)
  show ?thesis
    using misc_scope [OF assms(3)] t ft assms(4) option render
    by (auto simp: on_misc_def on_host_misc_def on_video_misc_def on_selected_sid_def split: option.split)
qed

lemma timer_limited_message:
  assumes "kind_ok c" and "conn_type_of (login c) = FileTransferConn \<or> conn_type_of (login c) = TerminalConn"
    and "\<not> is_chat msg"
  shows "auto_disconnect_timer (snd (on_message e msg c)) = auto_disconnect_timer c"
proof (cases rule: on_message_cases [of e msg c])
  case (delay b)
  then show ?thesis by (simp add: on_test_delay_def split: option.split)
next
  case (handled m)
  have s: "authorized_message_scope_violation (conn_type_of (login c)) (Some m) = None"
    using scope_of_kind [OF assms(1)] handled by simp
  have plain: "\<not> should_handle_text_clipboard_message c"
    using assms(1,2) by (auto simp: should_handle_text_clipboard_message_def kind_ok_def)
  show ?thesis
  proof (cases m)
    case (Misc misc)
    then show ?thesis
      using timer_limited_misc [OF assms(1,2)] s assms(3) handled
      by (cases misc) (auto simp: dispatch_def is_chat_def)
  qed (use handled message_scope [OF s] assms(2) plain in
      \<open>auto simp: dispatch_def timer_file_action timer_file_response on_clipboards_def\<close>)
qed simp_all

lemma limited_run:
  assumes "kind_ok (lp_conn lp)"
    and "conn_type_of (login (lp_conn lp)) = FileTransferConn \<or> conn_type_of (login (lp_conn lp)) = TerminalConn"
    and "\<forall>(e, ev) \<in> set evs. \<exists>msg. ev = From_Peer msg \<and> \<not> is_chat msg" and "loop_run evs lp = (True, lp')"
  shows "auto_disconnect_timer (lp_conn lp') = auto_disconnect_timer (lp_conn lp)"
  using assms
proof (induction evs arbitrary: lp)
  case (Cons ev evs)
  obtain e msg where ev: "ev = (e, From_Peer msg)" "\<not> is_chat msg" using Cons.prems(3) by force
  obtain lp1 where step: "loop_step e (From_Peer msg) lp = (True, lp1)" and rest: "loop_run evs lp1 = (True, lp')"
    using Cons.prems(4) by (auto simp: ev(1) split: prod.splits bool.splits)
  obtain d where d: "on_message e msg (lp_conn lp) = (True, d)" "lp_conn lp1 = d"
    using step by (auto simp: loop_step_def loop_event_def heard_def Let_def split: prod.splits)
  have r: "same_rights (lp_conn lp) d" using on_message_rights d(1) .
  have "kind_ok d" "conn_type_of (login d) = conn_type_of (login (lp_conn lp))"
    using kind_ok_same [OF Cons.prems(1) r] r by (simp_all add: same_rights_def conn_type_of_def)
  moreover have "auto_disconnect_timer d = auto_disconnect_timer (lp_conn lp)"
    using timer_limited_message [OF Cons.prems(1,2) ev(2), of e] d(1) by simp
  ultimately show ?case using Cons.IH [OF _ _ _ rest] Cons.prems(2,3) d(2) by simp
qed simp

lemma idle_minutes: "get_auto_disconnect_timeout e = Some m \<Longrightarrow> unat m \<in> {10, 20, 30, 40, 50, 60} \<and> unat (m * 60) = unat m * 60"
proof -
  assume "get_auto_disconnect_timeout e = Some m"
  then obtain n where n: "m = of_nat n" "10 \<le> n" "n \<le> 60" "n mod 10 = 0"
    by (auto simp: get_auto_disconnect_timeout_def normalize_auto_disconnect_timeout_def
        DEFAULT_AUTO_DISCONNECT_TIMEOUT_MINUTES_def split: if_splits option.splits intro: that [of 10])
  from n(2-4) have "n = 10 \<or> n = 20 \<or> n = 30 \<or> n = 40 \<or> n = 50 \<or> n = 60" by presburger
  then show ?thesis by (auto simp: n(1))
qed

text \<open>Idle limit.  In a file-transfer or terminal session the idle limit runs from its first tick whatever
  the peer does: after any run of its messages but chat, files transferred and terminal input included, the
  first tick past the configured minutes ends the session for inactivity.\<close>

theorem idle_limit_ignores_activity:
  assumes "kind_ok (lp_conn lp)" and "conn_type_of (login (lp_conn lp)) \<in> {FileTransferConn, TerminalConn}"
    and "auto_disconnect_timer (lp_conn lp) = Some (t, m0)"
    and "\<forall>(e, ev) \<in> set evs. \<exists>msg. ev = From_Peer msg \<and> \<not> is_chat msg" and "loop_run evs lp = (True, lp')"
    and "get_auto_disconnect_timeout e = Some m" and "t + 60000 * uint m \<le> at_ms e"
  shows "\<exists>lp''. loop_step e Second_Timer lp' = (False, lp'') \<and> closed (lp_conn lp'')
    \<and> Peer (Close_Reason ''Connection failed due to inactivity'') \<in> set (sent (lp_conn lp''))"
proof -
  let ?c = "lp_conn lp'"
  have timer: "auto_disconnect_timer ?c = Some (t, m0)" using limited_run [OF assms(1) _ assms(4,5)] assms(2,3) by simp
  let ?d = "send_auto_disconnect_status e (sync_auto_disconnect_timer e (portable_check e ?c))"
  have "auto_disconnect_timer (portable_check e c) = auto_disconnect_timer c" for c
    by (simp add: portable_check_def note_running_def note_uac_def note_elevated_def Let_def)
  then have "auto_disconnect_timer ?d = Some (t, m)"
    using timer assms(6) by (simp add: send_auto_disconnect_status_def sync_auto_disconnect_timer_def)
  moreover have "unat (m * 60) \<le> elapsed_secs e t"
  proof -
    have "unat (m * 60) = unat m * 60" using idle_minutes [OF assms(6)] by (rule conjunct2)
    then have "int (unat (m * 60)) = 60 * uint m" by (simp only: of_nat_mult of_nat_numeral uint_nat mult.commute)
    moreover have "60 * uint m \<le> (at_ms e - t) div 1000"
      using zdiv_mono1 [of "60000 * uint m" "at_ms e - t" 1000] assms(7) by simp
    ultimately have "int (unat (m * 60)) \<le> (at_ms e - t) div 1000" by (simp only:)
    then show ?thesis unfolding elapsed_secs_def by linarith
  qed
  ultimately have step: "on_second_timer e ?c = (False, on_close e True (send_close_reason_no_retry ''Connection failed due to inactivity'' ?d))"
    by (simp add: on_second_timer_def Let_def)
  let ?r = "send_close_reason_no_retry ''Connection failed due to inactivity'' ?d"
  have "Peer (Close_Reason ''Connection failed due to inactivity'') \<in> set (sent ?r)"
    by (simp add: send_close_reason_no_retry_def)
  then have "Peer (Close_Reason ''Connection failed due to inactivity'') \<in> set (sent (on_close e True ?r))"
    by (simp add: on_close_def Let_def)
  moreover have "closed (on_close e True ?r)" by (simp add: on_close_def Let_def)
  moreover have "loop_step e Second_Timer lp' = (False, lp'\<lparr>lp_conn := on_close e True ?r\<rparr>)"
    using step by (simp add: loop_step_def heard_def loop_event_def)
  ultimately show ?thesis by simp
qed

section \<open>Concrete runs\<close>

definition toy_loop :: "session_conn \<Rightarrow> session_loop" where
  "toy_loop c = \<lparr>lp_conn = c, lp_last_recv = 0\<rparr>"

lemma toy_loop_sel [simp]: "lp_conn (toy_loop c) = c" "(toy_loop c)\<lparr>lp_conn := d\<rparr> = toy_loop d"
  by (simp_all add: toy_loop_def)

definition key_events :: "(session_env \<times> loop_event) list" where
  "key_events = [(toy_session_env, From_Peer (Some (KeyEvent toy_key)))]"

lemma key_step:
  assumes "authed_conn_type c = Some Remote" and "kind_ok c" and that: "lp_conn lp = c"
  shows "\<exists>lp'. loop_run key_events lp = (True, lp')
    \<and> sent (lp_conn lp') = sent c @ (if peer_keyboard_enabled c then [Input (Input_Key toy_key False)] else [])"
proof -
  let ?d = "update_auto_disconnect_timer toy_session_env
      (if peer_keyboard_enabled c then emit (Input (Input_Key toy_key False)) c else c)"
  have "conn_type_of (login ?d) = Remote"
    using assms(1,2) by (auto simp: kind_ok_def update_auto_disconnect_timer_def)
  then have "\<not> port_forward_socket (login ?d)" by (rule conn_type_flags(1) [THEN conjunct2, THEN conjunct1])
  then have "loop_run key_events lp = (True, lp\<lparr>lp_last_recv := at_ms toy_session_env, lp_conn := ?d\<rparr>)"
    using key_message [OF assms(1,2), of toy_session_env] that
    by (simp add: key_events_def loop_step_def heard_def loop_event_def Let_def)
  then show ?thesis by simp
qed

theorem revoked_keyboard_stays_revoked_witness:
  "(let c' = switch_permission toy_session_env ''keyboard'' False (toy_session Remote) in
      sent (lp_conn (snd (loop_run key_events (toy_loop c')))) = [Peer (Send_Permission ''keyboard'' False)])
    \<and> \<not> takes_control (Peer (Send_Permission ''keyboard'' False))
    \<and> (\<exists>x \<in> set (sent (lp_conn (snd (loop_run key_events (toy_loop (toy_session Remote)))))). takes_control x)"
proof -
  let ?c = "toy_session Remote"
  let ?c' = "switch_permission toy_session_env ''keyboard'' False ?c"
  have k: "kind_ok ?c'" "authed_conn_type ?c' = Some Remote" using toy_kind(2) [of Remote]
    by (simp_all add: kind_ok_def switch_frame)
  have "\<not> peer_keyboard_enabled ?c'" by (simp add: peer_keyboard_enabled_def switch_frame)
  moreover have "sent ?c' = [Peer (Send_Permission ''keyboard'' False)]" by (simp add: switch_permission_def Let_def)
  ultimately obtain lp' where run: "loop_run key_events (toy_loop ?c') = (True, lp')"
      and s: "sent (lp_conn lp') = [Peer (Send_Permission ''keyboard'' False)]"
    using key_step [OF k(2,1), of "toy_loop ?c'"] by auto
  have "\<not> takes_control (Peer (Send_Permission ''keyboard'' False))"
    by (rule revoked_keyboard_stays_revoked [of "toy_loop ?c" "toy_loop ?c'" toy_session_env key_events True lp'])
      (use run s in \<open>simp_all add: grants_def key_events_def del: loop_run.simps\<close>)
  moreover obtain lp2 where "loop_run key_events (toy_loop ?c) = (True, lp2)"
      and "sent (lp_conn lp2) = [Input (Input_Key toy_key False)]"
    using key_step [of ?c "toy_loop ?c"] toy_keyboard by auto
  ultimately show ?thesis using run s by (simp add: takes_control_def)
qed


definition limited_env :: "int \<Rightarrow> session_env" where
  "limited_env t = toy_session_env\<lparr>at_ms := t, config_option := (\<lambda>k. if k = ''allow-auto-disconnect'' then ''Y'' else [])\<rparr>"

theorem idle_limit_ignores_activity_witness:
  "let c = (toy_session TerminalConn)\<lparr>auto_disconnect_timer := Some (0, 10)\<rparr>;
       lp = snd (loop_run [(limited_env 590000, From_Peer (Some (TerminalAction [])))] (toy_loop c))
   in Host (Terminal_Request []) \<in> set (sent (lp_conn lp)) \<and> \<not> fst (loop_step (limited_env 600000) Second_Timer lp)"
proof -
  let ?c = "(toy_session TerminalConn)\<lparr>auto_disconnect_timer := Some (0, 10)\<rparr>"
  let ?evs = "[(limited_env 590000, From_Peer (Some (TerminalAction [])))]"
  have login: "login ?c = login (toy_session TerminalConn)" by simp
  have k: "kind_ok ?c" "conn_type_of (login ?c) = TerminalConn" using toy_kind [of TerminalConn] by (simp_all add: kind_ok_def)
  have pf: "\<not> port_forward_socket (login ?c)" using conn_type_flags(3) [OF k(2)] by blast
  have m: "on_message (limited_env 590000) (Some (TerminalAction [])) ?c = (True, emit (Host (Terminal_Request [])) ?c)"
    using k pf by (simp add: on_message_def on_scoped_message_def authorized_scope_violation_def
        authorized_message_scope_violation_def is_connection_housekeeping_message_def is_render_broadcast_noop_compat_message_def
        is_text_clipboard_noop_compat_message_def is_terminal_scoped_message_def dispatch_def kind_ok_def)
  obtain lp' where run: "loop_run ?evs (toy_loop ?c) = (True, lp')" and lp': "lp_conn lp' = emit (Host (Terminal_Request [])) ?c"
    using m pf by (simp add: loop_step_def heard_def loop_event_def Let_def)
  have timeout: "get_auto_disconnect_timeout (limited_env 600000) = Some 10"
    by (simp add: get_auto_disconnect_timeout_def normalize_auto_disconnect_timeout_def limited_env_def
        parse_unsigned_def DEFAULT_AUTO_DISCONNECT_TIMEOUT_MINUTES_def)
  have "\<exists>lp''. loop_step (limited_env 600000) Second_Timer lp' = (False, lp'') \<and> closed (lp_conn lp'')
      \<and> Peer (Close_Reason ''Connection failed due to inactivity'') \<in> set (sent (lp_conn lp''))"
    by (rule idle_limit_ignores_activity [OF _ _ _ _ run timeout, of 0 10])
      (use k in \<open>simp_all add: is_chat_def limited_env_def\<close>)
  then show ?thesis using run lp' by (auto simp: Let_def)
qed

end
