(* ===== verification/Server_Services.thy ===== *)
theory Server_Services
  imports Session_Perms
begin

text \<open>
  The services of the host and the table that serves them to connections: \<open>src/server/service.rs\<close>
  (\<open>ServiceInner\<close>, \<open>ServiceTmpl\<close>, \<open>ServiceSwap\<close>, the loops of a service thread), the subscribers of
  \<open>src/server/connection.rs\<close> (\<open>ConnInner\<close>) and \<open>src/server/input_service.rs\<close> (\<open>MouseCursorSub\<close>), and
  \<open>impl Server\<close> of \<open>src/server.rs\<close>, with the part of \<open>Connection::capture_displays\<close> and
  \<open>switch_display_to\<close> that runs under the lock of the server.

  A channel of a connection is what was sent on it, in order: a delivery names the connection, whether
  it took the channel of the video frames, and the message.  Every method of a service takes its lock
  once, so it is one step; the callback of a snapshot holds no lock, and other threads may subscribe and
  unsubscribe between the messages it sends.  The threads of the services appear through the steps they
  take; the cost of starting them is not modelled.
\<close>

section \<open>Subscribers\<close>

datatype service_message =
    Video_Frame bytes
  | Switch_Display bytes
  | Cursor_Data u64 bytes
  | Cursor_Id u64
  | Stop_Message
  | Other_Message bytes

type_synonym delivery = "i32 \<times> bool \<times> service_message"

record conn_inner =
  ci_id :: i32
  ci_tx :: bool
  ci_tx_video :: bool

definition by_video :: "service_message \<Rightarrow> bool" where
  "by_video m = (case m of Video_Frame d \<Rightarrow> True | Switch_Display d \<Rightarrow> True | _ \<Rightarrow> False)"

definition conn_send :: "service_message \<Rightarrow> conn_inner \<Rightarrow> delivery list" where
  "conn_send m c = (if (if by_video m then ci_tx_video c else ci_tx c) then [(ci_id c, by_video m, m)] else [])"

datatype subscriber = Conn_Sub conn_inner | Cursor_Sub conn_inner "(u64, service_message) hmap"

definition sub_inner :: "subscriber \<Rightarrow> conn_inner" where
  "sub_inner s = (case s of Conn_Sub c \<Rightarrow> c | Cursor_Sub c cached \<Rightarrow> c)"

definition sub_id :: "subscriber \<Rightarrow> i32" where
  "sub_id s = ci_id (sub_inner s)"

definition sub_from :: "bool \<Rightarrow> conn_inner \<Rightarrow> subscriber" where
  "sub_from cursor c = (if cursor then Cursor_Sub c [] else Conn_Sub c)"

definition sub_send :: "service_message \<Rightarrow> subscriber \<Rightarrow> subscriber \<times> delivery list" where
  "sub_send m s =
     (case s of
        Conn_Sub c \<Rightarrow> (s, conn_send m c)
      | Cursor_Sub c cached \<Rightarrow>
          (case m of
             Cursor_Data i d \<Rightarrow>
               (case hm_get cached i of
                  Some short \<Rightarrow> (s, conn_send short c)
                | None \<Rightarrow> (Cursor_Sub c (hm_put i (Cursor_Id i) cached), conn_send m c))
           | _ \<Rightarrow> (s, conn_send m c)))"

section \<open>A service\<close>

text \<open>\<open>sv_cursor\<close> tells the type of the subscribers.\<close>

record service =
  sv_name :: string
  sv_cursor :: bool
  subscribes :: "(i32, subscriber) hmap"
  new_subscribes :: "(i32, subscriber) hmap"
  sv_active :: bool
  need_snapshot :: bool
  sv_options :: "(string, string) hmap"

definition service_tmpl_new :: "bool \<Rightarrow> string \<Rightarrow> bool \<Rightarrow> service" where
  "service_tmpl_new cursor nm snap =
     \<lparr>sv_name = nm, sv_cursor = cursor, subscribes = [], new_subscribes = [], sv_active = True,
      need_snapshot = snap, sv_options = []\<rparr>"

definition is_subed :: "service \<Rightarrow> i32 \<Rightarrow> bool" where
  "is_subed s i \<longleftrightarrow> hm_get (subscribes s) i \<noteq> None \<or> hm_get (new_subscribes s) i \<noteq> None"

definition has_subscribes :: "service \<Rightarrow> bool" where
  "has_subscribes s \<longleftrightarrow> subscribes s \<noteq> [] \<or> new_subscribes s \<noteq> []"

definition on_subscribe :: "conn_inner \<Rightarrow> service \<Rightarrow> service" where
  "on_subscribe c s =
     (if hm_get (subscribes s) (ci_id c) \<noteq> None then s
      else if need_snapshot s
      then s\<lparr>new_subscribes := hm_put (ci_id c) (sub_from (sv_cursor s) c) (new_subscribes s)\<rparr>
      else s\<lparr>subscribes := hm_put (ci_id c) (sub_from (sv_cursor s) c) (subscribes s)\<rparr>)"

definition on_unsubscribe :: "i32 \<Rightarrow> service \<Rightarrow> service" where
  "on_unsubscribe i s =
     (if hm_get (subscribes s) i = None then s\<lparr>new_subscribes := hm_del i (new_subscribes s)\<rparr>
      else s\<lparr>subscribes := hm_del i (subscribes s)\<rparr>)"

definition service_join :: "service \<Rightarrow> service" where
  "service_join s = s\<lparr>sv_active := False\<rparr>"

definition service_ok :: "service \<Rightarrow> bool" where
  "service_ok s \<longleftrightarrow> sv_active s \<and> has_subscribes s"

definition get_option :: "string \<Rightarrow> service \<Rightarrow> string option" where
  "get_option opt s = hm_get (sv_options s) opt"

definition set_option :: "string \<Rightarrow> string \<Rightarrow> service \<Rightarrow> service" where
  "set_option opt v s = s\<lparr>sv_options := hm_put opt v (sv_options s)\<rparr>"

definition SERVICE_OPTION_VALUE_TRUE :: string where "SERVICE_OPTION_VALUE_TRUE = ''1''"
definition SERVICE_OPTION_VALUE_FALSE :: string where "SERVICE_OPTION_VALUE_FALSE = ''0''"

definition is_option_true :: "string \<Rightarrow> service \<Rightarrow> bool" where
  "is_option_true opt s \<longleftrightarrow> get_option opt s = Some SERVICE_OPTION_VALUE_TRUE"

definition set_option_bool :: "string \<Rightarrow> bool \<Rightarrow> service \<Rightarrow> service" where
  "set_option_bool opt v s = set_option opt (if v then SERVICE_OPTION_VALUE_TRUE else SERVICE_OPTION_VALUE_FALSE) s"

text \<open>One message to the subscribers that a test selects, in the order of the map.\<close>

fun send_each ::
  "(i32 \<Rightarrow> subscriber \<Rightarrow> bool) \<Rightarrow> service_message \<Rightarrow> (i32, subscriber) hmap \<Rightarrow> (i32, subscriber) hmap \<times> delivery list"
where
  "send_each P m [] = ([], [])"
| "send_each P m ((k, s) # rest) =
     (case (if P k s then sub_send m s else (s, [])) of
        (s', ds) \<Rightarrow> (case send_each P m rest of (rest', ds') \<Rightarrow> ((k, s') # rest', ds @ ds')))"

definition send_where :: "(i32 \<Rightarrow> subscriber \<Rightarrow> bool) \<Rightarrow> service_message \<Rightarrow> service \<Rightarrow> service \<times> delivery list" where
  "send_where P m s = (case send_each P m (subscribes s) of (subs', ds) \<Rightarrow> (s\<lparr>subscribes := subs'\<rparr>, ds))"

definition send_shared :: "service_message \<Rightarrow> service \<Rightarrow> service \<times> delivery list" where
  "send_shared m s = send_where (\<lambda>k u. True) m s"

definition send_to :: "service_message \<Rightarrow> i32 \<Rightarrow> service \<Rightarrow> service \<times> delivery list" where
  "send_to m i s = send_where (\<lambda>k u. k = i) m s"

definition send_to_others :: "service_message \<Rightarrow> i32 \<Rightarrow> service \<Rightarrow> service \<times> delivery list" where
  "send_to_others m i s = send_where (\<lambda>k u. k \<noteq> i) m s"

definition send_without :: "service_message \<Rightarrow> i32 \<Rightarrow> service \<Rightarrow> service \<times> delivery list" where
  "send_without m i s = send_where (\<lambda>k u. sub_id u \<noteq> i) m s"

definition send_video_frame :: "service_message \<Rightarrow> service \<Rightarrow> i32 set \<times> service \<times> delivery list" where
  "send_video_frame m s = ((sub_id \<circ> snd) ` set (subscribes s), send_where (\<lambda>k u. True) m s)"

section \<open>Snapshots\<close>

definition send_new_subscribes :: "service_message \<Rightarrow> service \<Rightarrow> service \<times> delivery list" where
  "send_new_subscribes m s =
     (case send_each (\<lambda>k u. True) m (new_subscribes s) of (subs', ds) \<Rightarrow> (s\<lparr>new_subscribes := subs'\<rparr>, ds))"

definition swap_new_subscribes :: "service \<Rightarrow> service" where
  "swap_new_subscribes s =
     s\<lparr>subscribes := fold (\<lambda>(k, u). hm_put (sub_id u) u) (new_subscribes s) (subscribes s), new_subscribes := []\<rparr>"

text \<open>What happens while the callback of a snapshot runs: it sends, and other threads come between.\<close>

datatype swap_step = Swap_Send service_message | Joins conn_inner | Leaves i32

fun swap_steps :: "swap_step list \<Rightarrow> service \<Rightarrow> service \<times> delivery list" where
  "swap_steps [] s = (s, [])"
| "swap_steps (st # steps) s =
     (case (case st of
              Swap_Send m \<Rightarrow> send_new_subscribes m s
            | Joins c \<Rightarrow> (on_subscribe c s, [])
            | Leaves i \<Rightarrow> (on_unsubscribe i s, [])) of
        (s', ds) \<Rightarrow> (case swap_steps steps s' of (s'', ds') \<Rightarrow> (s'', ds @ ds')))"

text \<open>The value of \<open>ServiceSwap\<close> is dropped when the callback returns, with an error too.  The callback
  is what it does from the state it is called in, and whether it succeeds.\<close>

definition snapshot :: "(service \<Rightarrow> swap_step list \<times> bool) \<Rightarrow> service \<Rightarrow> bool \<times> service \<times> delivery list" where
  "snapshot callback s =
     (if new_subscribes s = [] then (True, s, [])
      else case callback s of
        (steps, succeeds) \<Rightarrow>
          (case swap_steps steps s of (s', ds) \<Rightarrow> (succeeds, swap_new_subscribes s', ds)))"

section \<open>The threads of a service\<close>

definition HIBERNATE_TIMEOUT :: u64 where "HIBERNATE_TIMEOUT = 30"
definition MAX_ERROR_TIMEOUT :: u64 where "MAX_ERROR_TIMEOUT = 1000"

text \<open>\<open>ServiceTmpl::run\<close>: one turn with the result of the callback (the nanoseconds it took, if it failed);
  the waits are in milliseconds.\<close>

definition next_error_timeout :: "nat \<Rightarrow> u64 \<Rightarrow> u64" where
  "next_error_timeout elapsed t =
     (let t = (if elapsed > unat MAX_ERROR_TIMEOUT * 1000000 then HIBERNATE_TIMEOUT else t * 2)
      in if t > MAX_ERROR_TIMEOUT then MAX_ERROR_TIMEOUT else t)"

definition service_turn :: "service \<Rightarrow> nat option \<Rightarrow> u64 \<Rightarrow> u64 \<times> u64 list" where
  "service_turn s failed t =
     (if has_subscribes s then
        (case failed of
           Some elapsed \<Rightarrow> let t = next_error_timeout elapsed t in (t, [t, HIBERNATE_TIMEOUT])
         | None \<Rightarrow> (t, [HIBERNATE_TIMEOUT]))
      else (t, [HIBERNATE_TIMEOUT]))"

fun run_loop :: "(service \<times> nat option) list \<Rightarrow> u64 \<Rightarrow> u64 list" where
  "run_loop [] t = []"
| "run_loop ((s, failed) # turns) t =
     (if sv_active s then case service_turn s failed t of (t', ws) \<Rightarrow> ws @ run_loop turns t' else [])"

text \<open>\<open>ServiceTmpl::repeat\<close>: the state is initialised before the first callback for subscribers and reset
  when the last one is gone.\<close>

datatype repeat_effect = State_Init | Callback | Error_Sleep | State_Reset | Sleep_For nat

definition repeat_turn :: "nat \<Rightarrow> service \<Rightarrow> bool \<Rightarrow> nat \<Rightarrow> bool \<Rightarrow> bool \<times> repeat_effect list" where
  "repeat_turn interval s succeeds elapsed may_reset =
     (let (may_reset', es) =
            (if has_subscribes s then
               (True, (if may_reset then [] else [State_Init]) @ [Callback] @ (if succeeds then [] else [Error_Sleep]))
             else if may_reset then (False, [State_Reset]) else (may_reset, []))
      in (may_reset', es @ (if elapsed < interval then [Sleep_For (interval - elapsed)] else [])))"

fun repeat_loop :: "nat \<Rightarrow> (service \<times> bool \<times> nat) list \<Rightarrow> bool \<Rightarrow> repeat_effect list" where
  "repeat_loop interval [] may_reset = []"
| "repeat_loop interval ((s, succeeds, elapsed) # turns) may_reset =
     (if sv_active s
      then case repeat_turn interval s succeeds elapsed may_reset of
             (may_reset', es) \<Rightarrow> es @ repeat_loop interval turns may_reset'
      else [])"


section \<open>What the server relies on\<close>

text \<open>The trait \<open>Service\<close>: its operations and what they promise of the subscriptions.\<close>

locale service_trait =
  fixes subed :: "'s \<Rightarrow> 'i \<Rightarrow> bool"
    and sub :: "'c \<Rightarrow> 's \<Rightarrow> 's"
    and unsub :: "'i \<Rightarrow> 's \<Rightarrow> 's"
    and nm :: "'s \<Rightarrow> string"
    and cid :: "'c \<Rightarrow> 'i"
    and ok :: "'s \<Rightarrow> bool"
  assumes subed_sub: "ok s \<Longrightarrow> subed (sub c s) i \<longleftrightarrow> i = cid c \<or> subed s i"
    and subed_unsub: "ok s \<Longrightarrow> subed (unsub j s) i \<longleftrightarrow> i \<noteq> j \<and> subed s i"
    and ok_sub: "ok s \<Longrightarrow> ok (sub c s)"
    and ok_unsub: "ok s \<Longrightarrow> ok (unsub j s)"
    and nm_sub: "nm (sub c s) = nm s"
    and nm_unsub: "nm (unsub j s) = nm s"
begin

text \<open>Setting a subscription to a value, as \<open>Server::subscribe\<close> does it.\<close>

lemma subed_toggle:
  "ok s \<Longrightarrow> subed (if subed s (cid c) = b then s else if b then sub c s else unsub (cid c) s) i \<longleftrightarrow>
     (if i = cid c then b else subed s i)"
  by (auto simp: subed_sub subed_unsub)

lemma ok_toggle: "ok s \<Longrightarrow> ok (if subed s (cid c) = b then s else if b then sub c s else unsub (cid c) s)"
  by (simp add: ok_sub ok_unsub)

lemma nm_toggle: "nm (if subed s (cid c) = b then s else if b then sub c s else unsub (cid c) s) = nm s"
  by (simp add: nm_sub nm_unsub)

lemma sub_unsub: "ok s \<Longrightarrow> \<not> subed s (cid c) \<Longrightarrow> subed (unsub (cid c) (sub c s)) i \<longleftrightarrow> subed s i"
  by (auto simp: subed_sub subed_unsub ok_sub)

end

definition hm_keys :: "('k, 'v) hmap \<Rightarrow> 'k set" where
  "hm_keys m = fst ` set m"

lemma hm_keys_simps [simp]:
  "hm_keys [] = {}" "hm_keys (hm_put k v m) = insert k (hm_keys m)" "hm_keys (hm_del k m) = hm_keys m - {k}"
  "hm_get m k = None \<longleftrightarrow> k \<notin> hm_keys m"
  by (auto simp: hm_keys_def hm_put_def hm_del_def hm_get_def map_of_eq_None_iff)

lemma hm_del_Nil [simp]: "hm_del k [] = []"
  by (simp add: hm_del_def)

lemma set_hm_del: "set (hm_del k m) = {p \<in> set m. fst p \<noteq> k}"
  by (auto simp: hm_del_def)

lemma set_hm_put: "set (hm_put k v m) = insert (k, v) {p \<in> set m. fst p \<noteq> k}"
  by (simp add: hm_put_def set_hm_del)

definition keyed :: "bool \<Rightarrow> (i32, subscriber) hmap \<Rightarrow> bool" where
  "keyed cursor m \<longleftrightarrow>
     hm_ok m \<and> (\<forall>(k, u) \<in> set m. sub_id u = k \<and> (case u of Conn_Sub c \<Rightarrow> \<not> cursor | Cursor_Sub c cached \<Rightarrow> cursor))"

definition service_inv :: "service \<Rightarrow> bool" where
  "service_inv s \<longleftrightarrow>
     keyed (sv_cursor s) (subscribes s) \<and> keyed (sv_cursor s) (new_subscribes s)
     \<and> hm_keys (subscribes s) \<inter> hm_keys (new_subscribes s) = {}
     \<and> (new_subscribes s \<noteq> [] \<longrightarrow> need_snapshot s)"

lemma keyed_put: "keyed cursor m \<Longrightarrow> keyed cursor (hm_put (ci_id c) (sub_from cursor c) m)"
  by (auto simp: keyed_def set_hm_put sub_from_def sub_id_def sub_inner_def hm_ok_put)

lemma keyed_del: "keyed cursor m \<Longrightarrow> keyed cursor (hm_del k m)"
  by (auto simp: keyed_def set_hm_del hm.ok_del)

lemma is_subed_iff: "is_subed s i \<longleftrightarrow> i \<in> hm_keys (subscribes s) \<union> hm_keys (new_subscribes s)"
  by (simp add: is_subed_def)

lemma on_subscribe_subed: "is_subed (on_subscribe c s) i \<longleftrightarrow> i = ci_id c \<or> is_subed s i"
  by (auto simp: is_subed_iff on_subscribe_def)

lemma on_unsubscribe_subed:
  "service_inv s \<Longrightarrow> is_subed (on_unsubscribe j s) i \<longleftrightarrow> i \<noteq> j \<and> is_subed s i"
  by (auto simp: is_subed_iff on_unsubscribe_def service_inv_def)

lemma on_subscribe_inv: "service_inv s \<Longrightarrow> service_inv (on_subscribe c s)"
  by (auto simp: service_inv_def on_subscribe_def keyed_put)

lemma on_unsubscribe_inv: "service_inv s \<Longrightarrow> service_inv (on_unsubscribe j s)"
  by (cases "new_subscribes s = []") (auto simp: service_inv_def on_unsubscribe_def keyed_del)

lemma sub_frame [simp]:
  "sv_name (on_subscribe c s) = sv_name s" "sv_name (on_unsubscribe i s) = sv_name s"
  "sv_cursor (on_subscribe c s) = sv_cursor s" "sv_cursor (on_unsubscribe i s) = sv_cursor s"
  "need_snapshot (on_subscribe c s) = need_snapshot s" "need_snapshot (on_unsubscribe i s) = need_snapshot s"
  "sv_options (on_subscribe c s) = sv_options s" "sv_options (on_unsubscribe i s) = sv_options s"
  "sv_active (on_subscribe c s) = sv_active s" "sv_active (on_unsubscribe i s) = sv_active s"
  by (simp_all add: on_subscribe_def on_unsubscribe_def)

interpretation svc: service_trait is_subed on_subscribe on_unsubscribe sv_name ci_id service_inv
  by unfold_locales (simp_all add: on_subscribe_subed on_unsubscribe_subed on_subscribe_inv on_unsubscribe_inv)

lemma service_tmpl_new_inv: "service_inv (service_tmpl_new cursor n snap)"
  by (simp add: service_inv_def service_tmpl_new_def hm_ok_def keyed_def)

text \<open>Sending changes at most what a subscriber remembers.\<close>

lemma sub_send_id [simp]: "sub_id (fst (sub_send m u)) = sub_id u" "sub_inner (fst (sub_send m u)) = sub_inner u"
  by (auto simp: sub_send_def sub_id_def sub_inner_def split: subscriber.splits service_message.splits option.splits)

lemma send_each_keys: "send_each P m us = (us', ds) \<Longrightarrow> map fst us' = map fst us"
  by (induction us arbitrary: us' ds) (auto split: prod.splits)

lemma send_each_keyed: "send_each P m us = (us', ds) \<Longrightarrow> keyed cursor us \<Longrightarrow> keyed cursor us'"
proof (induction us arbitrary: us' ds)
  case (Cons p us)
  obtain k u where p: "p = (k, u)" by (cases p)
  obtain us1 ds1 where r: "send_each P m us = (us1, ds1)" by (cases "send_each P m us")
  have u: "keyed cursor [(k, fst (if P k u then sub_send m u else (u, [])))]"
    using Cons.prems(2) by (auto simp: p keyed_def hm_ok_def sub_send_def sub_id_def sub_inner_def
        split: subscriber.splits service_message.splits option.splits)
  have "keyed cursor us1" using Cons.IH [OF r] Cons.prems(2) by (simp add: keyed_def hm_ok_def)
  moreover have "us' = (k, fst (if P k u then sub_send m u else (u, []))) # us1"
    using Cons.prems(1) by (auto simp: p r split: prod.splits)
  moreover have "hm_ok us'" using Cons.prems send_each_keys [OF Cons.prems(1)] by (simp add: keyed_def hm_ok_def)
  ultimately show ?case using u by (simp add: keyed_def)
qed (simp add: keyed_def)

lemma send_each_hm_keys: "send_each P m us = (us', ds) \<Longrightarrow> hm_keys us' = hm_keys us"
  by (metis hm_keys_def list.set_map send_each_keys)

lemma send_each_Nil_iff: "send_each P m us = (us', ds) \<Longrightarrow> us' = [] \<longleftrightarrow> us = []"
  using send_each_keys by (metis map_is_Nil_conv)

lemma send_where_inv: "service_inv s \<Longrightarrow> send_where P m s = (s', ds) \<Longrightarrow> service_inv s'"
  by (auto simp: service_inv_def send_where_def send_each_keyed send_each_hm_keys split: prod.splits)

lemma send_new_inv: "service_inv s \<Longrightarrow> send_new_subscribes m s = (s', ds) \<Longrightarrow> service_inv s'"
  by (auto simp: service_inv_def send_new_subscribes_def send_each_keyed send_each_hm_keys send_each_Nil_iff
      split: prod.splits)


section \<open>Deliveries\<close>

definition to_conn :: "i32 \<Rightarrow> delivery list \<Rightarrow> delivery list" where
  "to_conn i ds = filter (\<lambda>(j, v, m). j = i) ds"

lemma to_conn_append [simp]: "to_conn i (ds @ ds') = to_conn i ds @ to_conn i ds'" "to_conn i [] = []"
  by (simp_all add: to_conn_def)

lemma to_conn_send: "to_conn i (snd (sub_send m u)) = (if i = sub_id u then snd (sub_send m u) else [])"
  by (auto simp: to_conn_def sub_send_def conn_send_def sub_id_def sub_inner_def
      split: subscriber.splits service_message.splits option.splits)

lemma keyed_Cons:
  "keyed cursor ((k, u) # us) \<longleftrightarrow>
     k \<notin> hm_keys us \<and> sub_id u = k \<and> (case u of Conn_Sub c \<Rightarrow> \<not> cursor | Cursor_Sub c cached \<Rightarrow> cursor) \<and> keyed cursor us"
  by (auto simp: keyed_def hm_ok_def hm_keys_def)

lemma hm_get_Cons: "hm_get ((k, v) # m) i = (if i = k then Some v else hm_get m i)"
  by (simp add: hm_get_def)

lemma send_each_to:
  "keyed cursor us \<Longrightarrow> send_each P m us = (us', ds) \<Longrightarrow>
     to_conn i ds = (case hm_get us i of Some u \<Rightarrow> if P i u then snd (sub_send m u) else [] | None \<Rightarrow> [])
     \<and> hm_get us' i = map_option (\<lambda>u. if P i u then fst (sub_send m u) else u) (hm_get us i)"
proof (induction us arbitrary: us' ds i)
  case Nil
  then show ?case by (simp add: hm_get_def)
next
  case (Cons p us)
  obtain k u where p: "p = (k, u)" by (cases p)
  obtain us1 ds1 where r: "send_each P m us = (us1, ds1)" by (cases "send_each P m us")
  note IH = Cons.IH [OF _ r]
  have k: "sub_id u = k" "hm_get us k = None" "keyed cursor us"
    using Cons.prems(1) by (simp_all add: p keyed_Cons)
  then have IHk: "to_conn k ds1 = []" "hm_get us1 k = None" using IH [of k] by (simp_all del: hm_keys_simps)
  show ?case
    using Cons.prems(2) k IH [of i] IHk to_conn_send [of i m u]
    by (auto simp: p r hm_get_Cons split: prod.splits if_splits simp del: hm_keys_simps)
qed

lemma swap_keyed: "keyed cursor new \<Longrightarrow> keyed cursor us \<Longrightarrow> keyed cursor (fold (\<lambda>(k, u). hm_put (sub_id u) u) new us)"
proof (induction new arbitrary: us)
  case (Cons p new)
  obtain k u where p: "p = (k, u)" by (cases p)
  have "keyed cursor (hm_put (sub_id u) u us)"
    using Cons.prems by (auto simp: p keyed_Cons) (auto simp: keyed_def set_hm_put hm_ok_put)
  then show ?case using Cons by (simp add: p keyed_Cons)
qed simp

lemma swap_get:
  "keyed cursor new \<Longrightarrow>
     hm_get (fold (\<lambda>(k, u). hm_put (sub_id u) u) new us) i =
       (case hm_get new i of Some u \<Rightarrow> Some u | None \<Rightarrow> hm_get us i)"
proof (induction new arbitrary: us)
  case Nil
  then show ?case by (simp add: hm_get_def)
next
  case (Cons p new)
  obtain k u where p: "p = (k, u)" by (cases p)
  have "hm_get new k = None" using Cons.prems by (simp add: p keyed_Cons)
  with Cons show ?case
    by (auto simp: p keyed_Cons hm_get_Cons hm.get_put split: option.splits simp del: hm_keys_simps)
qed

lemma swap_inv: "service_inv s \<Longrightarrow> service_inv (swap_new_subscribes s)"
  by (simp add: service_inv_def swap_new_subscribes_def swap_keyed) (simp add: keyed_def hm_ok_def)

lemma swap_subed: "service_inv s \<Longrightarrow> is_subed (swap_new_subscribes s) i \<longleftrightarrow> is_subed s i"
proof -
  assume "service_inv s"
  then have "keyed (sv_cursor s) (new_subscribes s)" by (simp add: service_inv_def)
  from swap_get [OF this, of "subscribes s" i] show ?thesis
    by (auto simp: is_subed_def swap_new_subscribes_def hm_get_def [of "[]"] simp del: hm_keys_simps split: option.splits)
qed

lemma swap_steps_inv: "service_inv s \<Longrightarrow> swap_steps steps s = (s', ds) \<Longrightarrow> service_inv s'"
proof (induction steps arbitrary: s ds)
  case (Cons st steps)
  show ?case
  proof (cases st)
    case (Swap_Send m)
    then show ?thesis using Cons.prems Cons.IH send_new_inv by (auto split: prod.splits) blast
  next
    case (Joins c)
    then show ?thesis using Cons on_subscribe_inv by (auto split: prod.splits)
  next
    case (Leaves i)
    then show ?thesis using Cons on_unsubscribe_inv by (auto split: prod.splits)
  qed
qed simp

lemma snapshot_inv: "service_inv s \<Longrightarrow> snapshot cb s = (ok, s', ds) \<Longrightarrow> service_inv s'"
  by (auto simp: snapshot_def swap_inv swap_steps_inv split: prod.splits if_splits)

section \<open>Runs of a service\<close>

datatype service_event =
    Ev_Subscribe conn_inner
  | Ev_Unsubscribe i32
  | Ev_Send service_message
  | Ev_Send_To service_message i32
  | Ev_Send_To_Others service_message i32
  | Ev_Send_Without service_message i32
  | Ev_Option string string
  | Ev_Snapshot "service \<Rightarrow> swap_step list \<times> bool"

definition service_step :: "service_event \<Rightarrow> service \<Rightarrow> service \<times> delivery list" where
  "service_step ev s =
     (case ev of
        Ev_Subscribe c \<Rightarrow> (on_subscribe c s, [])
      | Ev_Unsubscribe i \<Rightarrow> (on_unsubscribe i s, [])
      | Ev_Send m \<Rightarrow> send_shared m s
      | Ev_Send_To m i \<Rightarrow> send_to m i s
      | Ev_Send_To_Others m i \<Rightarrow> send_to_others m i s
      | Ev_Send_Without m i \<Rightarrow> send_without m i s
      | Ev_Option opt v \<Rightarrow> (set_option opt v s, [])
      | Ev_Snapshot callback \<Rightarrow> snd (snapshot callback s))"

fun run_service :: "service_event list \<Rightarrow> service \<Rightarrow> service \<times> delivery list" where
  "run_service [] s = (s, [])"
| "run_service (ev # evs) s =
     (case service_step ev s of (s', ds) \<Rightarrow> (case run_service evs s' of (s'', ds') \<Rightarrow> (s'', ds @ ds')))"

lemmas send_defs = send_shared_def send_to_def send_to_others_def send_without_def

lemma service_inv_options [simp]: "service_inv (s\<lparr>sv_options := x\<rparr>) = service_inv s"
  by (simp add: service_inv_def)

lemma service_step_inv:
  assumes "service_inv s" "service_step ev s = (s', ds)"
  shows "service_inv s'"
proof (cases ev)
  case (Ev_Snapshot cb)
  obtain ok s1 ds1 where "snapshot cb s = (ok, s1, ds1)" by (cases "snapshot cb s")
  then show ?thesis using assms snapshot_inv Ev_Snapshot by (simp add: service_step_def)
qed (use assms in \<open>auto simp: service_step_def send_defs set_option_def on_subscribe_inv on_unsubscribe_inv
    intro: send_where_inv\<close>)

lemma run_service_inv: "service_inv s \<Longrightarrow> run_service evs s = (s', ds) \<Longrightarrow> service_inv s'"
  by (induction evs arbitrary: s ds) (auto split: prod.splits dest: service_step_inv)


section \<open>A snapshot comes before everything else\<close>

text \<open>What a fresh subscriber gets of a series of messages: a cursor seen before is its number only.\<close>

fun shown :: "bool \<Rightarrow> u64 set \<Rightarrow> service_message list \<Rightarrow> service_message list" where
  "shown cursor seen [] = []"
| "shown cursor seen (m # ms) =
     (case m of
        Cursor_Data i d \<Rightarrow>
          (if cursor then (if i \<in> seen then Cursor_Id i else m) # shown cursor (insert i seen) ms
           else m # shown cursor seen ms)
      | _ \<Rightarrow> m # shown cursor seen ms)"

text \<open>The messages on their channels.\<close>

definition deliver :: "i32 \<Rightarrow> service_message list \<Rightarrow> delivery list" where
  "deliver i ms = map (\<lambda>m. (i, by_video m, m)) ms"

text \<open>Whether an event is about the subscription of a connection, or a snapshot.\<close>

definition touches :: "i32 \<Rightarrow> service_event \<Rightarrow> bool" where
  "touches i ev =
     (case ev of
        Ev_Subscribe c \<Rightarrow> ci_id c = i
      | Ev_Unsubscribe j \<Rightarrow> j = i
      | Ev_Snapshot callback \<Rightarrow> True
      | _ \<Rightarrow> False)"

definition waits :: "i32 \<Rightarrow> subscriber \<Rightarrow> service \<Rightarrow> bool" where
  "waits i u s \<longleftrightarrow> service_inv s \<and> hm_get (new_subscribes s) i = Some u"

lemma waits_not_subscribed: "waits i u s \<Longrightarrow> hm_get (subscribes s) i = None"
proof -
  assume "waits i u s"
  then have "i \<in> hm_keys (new_subscribes s)" "hm_keys (subscribes s) \<inter> hm_keys (new_subscribes s) = {}"
    by (auto simp: waits_def service_inv_def hm_keys_def dest: hm_get_key)
  then show ?thesis by auto
qed

lemma send_where_waits:
  assumes w: "waits i u s" and r: "send_where P m s = (s', ds)"
  shows "waits i u s' \<and> to_conn i ds = []"
proof -
  obtain us' where us: "send_each P m (subscribes s) = (us', ds)" and s': "s' = s\<lparr>subscribes := us'\<rparr>"
    using r by (auto simp: send_where_def split: prod.splits)
  have "service_inv s" using w by (simp add: waits_def)
  then have k: "keyed (sv_cursor s) (subscribes s)" by (simp add: service_inv_def)
  show ?thesis
    using send_each_to [OF k us, of i] waits_not_subscribed [OF w] send_where_inv [OF \<open>service_inv s\<close> r] w
    by (simp add: s' waits_def del: hm_keys_simps)
qed

lemma step_waits:
  assumes w: "waits i u s" and "\<not> touches i ev" and r: "service_step ev s = (s', ds)"
  shows "waits i u s' \<and> to_conn i ds = []"
proof (cases ev)
  case (Ev_Subscribe c)
  then show ?thesis using assms service_step_inv [OF _ r]
    by (auto simp: service_step_def touches_def waits_def on_subscribe_def hm.get_put simp del: hm_keys_simps)
next
  case (Ev_Unsubscribe j)
  then show ?thesis using assms service_step_inv [OF _ r]
    by (auto simp: service_step_def touches_def waits_def on_unsubscribe_def hm.get_del simp del: hm_keys_simps)
next
  case (Ev_Option opt v)
  then show ?thesis using w r by (auto simp: service_step_def set_option_def waits_def)
next
  case (Ev_Snapshot cb)
  then show ?thesis using assms(2) by (simp add: touches_def)
qed (use r send_where_waits [OF w] in \<open>simp_all add: service_step_def send_defs\<close>)

lemma run_waits:
  "waits i u s \<Longrightarrow> \<forall>ev \<in> set evs. \<not> touches i ev \<Longrightarrow> run_service evs s = (s', ds) \<Longrightarrow>
     waits i u s' \<and> to_conn i ds = []"
proof (induction evs arbitrary: s ds)
  case (Cons ev evs)
  obtain s1 ds1 where 1: "service_step ev s = (s1, ds1)" by (cases "service_step ev s")
  obtain ds2 where 2: "run_service evs s1 = (s', ds2)" and ds: "ds = ds1 @ ds2"
    using Cons.prems(3) by (auto simp: 1 split: prod.splits)
  have s1: "waits i u s1 \<and> to_conn i ds1 = []" using step_waits [OF Cons.prems(1) _ 1] Cons.prems(2) by simp
  then show ?case using Cons.IH [OF _ _ 2] Cons.prems(2) by (simp add: ds)
qed (simp add: waits_def)

text \<open>The messages of the callback reach a waiting subscriber.\<close>

definition after_sends :: "subscriber \<Rightarrow> service_message list \<Rightarrow> subscriber" where
  "after_sends u ms = fold (\<lambda>m u. fst (sub_send m u)) ms u"

fun sends :: "subscriber \<Rightarrow> service_message list \<Rightarrow> delivery list" where
  "sends u [] = []"
| "sends u (m # ms) = snd (sub_send m u) @ sends (fst (sub_send m u)) ms"

lemma swap_sends:
  "waits i u s \<Longrightarrow> sub_id u = i \<Longrightarrow> swap_steps (map Swap_Send ms) s = (s', ds) \<Longrightarrow>
     waits i (after_sends u ms) s' \<and> to_conn i ds = sends u ms"
proof (induction ms arbitrary: s u ds)
  case (Cons m ms)
  obtain s1 ds1 where 1: "send_new_subscribes m s = (s1, ds1)" by (cases "send_new_subscribes m s")
  obtain ds2 where 2: "swap_steps (map Swap_Send ms) s1 = (s', ds2)" and ds: "ds = ds1 @ ds2"
    using Cons.prems(3) by (auto simp: 1 split: prod.splits)
  obtain us' where us: "send_each (\<lambda>k u. True) m (new_subscribes s) = (us', ds1)" and s1: "s1 = s\<lparr>new_subscribes := us'\<rparr>"
    using 1 by (auto simp: send_new_subscribes_def split: prod.splits)
  have inv: "service_inv s" using Cons.prems(1) by (simp add: waits_def)
  then have k: "keyed (sv_cursor s) (new_subscribes s)" by (simp add: service_inv_def)
  have "waits i (fst (sub_send m u)) s1 \<and> to_conn i ds1 = snd (sub_send m u)"
    using send_each_to [OF k us, of i] send_new_inv [OF inv 1] Cons.prems(1) by (simp add: waits_def s1)
  then show ?case
    using Cons.IH [OF _ _ 2, of "fst (sub_send m u)"] Cons.prems(2) by (simp add: ds after_sends_def)
qed (simp add: after_sends_def)

lemma sends_conn: "ci_tx c \<Longrightarrow> ci_tx_video c \<Longrightarrow> sends (Conn_Sub c) ms = deliver (ci_id c) (shown False {} ms)"
  by (induction ms) (auto simp: sub_send_def conn_send_def deliver_def split: service_message.split)

lemma sends_cursor:
  "ci_tx c \<Longrightarrow> ci_tx_video c \<Longrightarrow> \<forall>k m. hm_get cached k = Some m \<longrightarrow> m = Cursor_Id k \<Longrightarrow>
     sends (Cursor_Sub c cached) ms = deliver (ci_id c) (shown True {k. hm_get cached k \<noteq> None} ms)"
proof (induction ms arbitrary: cached)
  case (Cons m ms)
  show ?case
  proof (cases m)
    case (Cursor_Data k d)
    have put: "{j. hm_get (hm_put k (Cursor_Id k) cached) j \<noteq> None} = insert k {j. hm_get cached j \<noteq> None}"
      by (auto simp: hm.get_put simp del: hm_keys_simps)
    have ins: "hm_get cached k = Some x \<Longrightarrow> insert k {j. hm_get cached j \<noteq> None} = {j. hm_get cached j \<noteq> None}" for x
      by (auto simp del: hm_keys_simps)
    show ?thesis
    proof (cases "hm_get cached k")
      case None
      have "sends (Cursor_Sub c (hm_put k (Cursor_Id k) cached)) ms =
          deliver (ci_id c) (shown True (insert k {j. hm_get cached j \<noteq> None}) ms)"
        unfolding put [symmetric] using Cons.prems by (intro Cons.IH) (auto simp: hm.get_put split: if_splits)
      then show ?thesis using Cons.prems None
        by (simp add: Cursor_Data sub_send_def conn_send_def deliver_def by_video_def del: hm_keys_simps)
    next
      case (Some x)
      then show ?thesis using Cons.prems Cons.IH [OF Cons.prems] ins [OF Some]
        by (simp add: Cursor_Data sub_send_def conn_send_def deliver_def by_video_def del: hm_keys_simps)
    qed
  qed (use Cons.prems Cons.IH [OF Cons.prems] in \<open>simp_all add: sub_send_def conn_send_def deliver_def del: hm_keys_simps\<close>)
qed (simp add: deliver_def)

lemma sends_fresh:
  assumes "ci_tx c" "ci_tx_video c"
  shows "sends (sub_from cursor c) ms = deliver (ci_id c) (shown cursor {} ms)"
  using assms sends_conn [of c ms] sends_cursor [of c "[]" ms] by (simp add: sub_from_def hm_get_def)



definition toy_inner :: "i32 \<Rightarrow> conn_inner" where
  "toy_inner i = \<lparr>ci_id = i, ci_tx = True, ci_tx_video = True\<rparr>"


text \<open>Lost snapshots.  A snapshot that has subscribers to serve always empties the list of those that
  wait for one, whether its callback succeeds or not: who joins while the callback runs, after its
  messages, becomes an ordinary subscriber that never gets the snapshot, and no later snapshot does
  anything until somebody else subscribes.\<close>

theorem snapshot_lost:
  assumes "service_inv s" "new_subscribes s \<noteq> []" "\<not> is_subed s (ci_id c)"
    and "callback s = (map Swap_Send ms @ [Joins c], ok)"
    and snap: "snapshot callback s = (ok', s', ds)"
  shows "ok' = ok \<and> to_conn (ci_id c) ds = [] \<and> hm_get (subscribes s') (ci_id c) \<noteq> None
    \<and> (\<forall>callback'. snapshot callback' s' = (True, s', []))"
proof -
  have app: "swap_steps (xs @ ys) r = (case swap_steps xs r of (r1, d1) \<Rightarrow> case swap_steps ys r1 of (r2, d2) \<Rightarrow> (r2, d1 @ d2))"
    for xs ys r by (induction xs arbitrary: r) (auto split: prod.splits)
  obtain s1 where st: "swap_steps (map Swap_Send ms) s = (s1, ds)"
    and s': "s' = swap_new_subscribes (on_subscribe c s1)" and ok: "ok' = ok"
    using snap assms(2,4) by (auto simp: snapshot_def app split: prod.splits)
  have absent: "\<not> is_subed s (ci_id c) \<Longrightarrow> swap_steps (map Swap_Send ms) s = (s1, ds) \<Longrightarrow> service_inv s
      \<Longrightarrow> to_conn (ci_id c) ds = []" for s ds
  proof (induction ms arbitrary: s ds)
    case (Cons m ms)
    obtain r ds1 where 1: "send_new_subscribes m s = (r, ds1)" by (cases "send_new_subscribes m s")
    obtain ds2 where 2: "swap_steps (map Swap_Send ms) r = (s1, ds2)" and ds: "ds = ds1 @ ds2"
      using Cons.prems(2) by (auto simp: 1 split: prod.splits)
    obtain us' where us: "send_each (\<lambda>k u. True) m (new_subscribes s) = (us', ds1)" and r: "r = s\<lparr>new_subscribes := us'\<rparr>"
      using 1 by (auto simp: send_new_subscribes_def split: prod.splits)
    have k: "keyed (sv_cursor s) (new_subscribes s)" using Cons.prems(3) by (simp add: service_inv_def)
    have "\<not> is_subed r (ci_id c) \<and> to_conn (ci_id c) ds1 = []"
      using send_each_to [OF k us, of "ci_id c"] Cons.prems(1) by (simp add: r is_subed_def del: hm_keys_simps)
    then show ?case using Cons.IH [OF _ 2 send_new_inv [OF Cons.prems(3) 1]] by (simp add: ds)
  qed simp
  have inv: "service_inv (on_subscribe c s1)" using swap_steps_inv [OF assms(1) st] by (rule on_subscribe_inv)
  have "is_subed s' (ci_id c)" using swap_subed [OF inv] on_subscribe_subed by (simp add: s')
  then show ?thesis
    using absent [OF assms(3) st assms(1)] ok by (simp add: s' is_subed_iff snapshot_def swap_new_subscribes_def)
qed

lemma snapshot_lost_witness:
  "let s = on_subscribe (toy_inner 1) (service_tmpl_new False ''display'' True);
       (ok, s', ds) = snapshot (\<lambda>s. (map Swap_Send [] @ [Joins (toy_inner 2)], False)) s
   in \<not> ok \<and> hm_get (subscribes s') 2 \<noteq> None \<and> snapshot (\<lambda>s. ([Swap_Send Stop_Message], True)) s' = (True, s', [])"
  using snapshot_lost [of "on_subscribe (toy_inner 1) (service_tmpl_new False ''display'' True)" "toy_inner 2"
      "\<lambda>s. (map Swap_Send [] @ [Joins (toy_inner 2)], False)" "[]" False]
  by (auto simp: service_tmpl_new_inv on_subscribe_inv on_subscribe_subed toy_inner_def split: prod.splits simp del: hm_keys_simps)
     (auto simp: on_subscribe_def service_tmpl_new_def is_subed_def hm_get_def hm_put_def)


text \<open>A service that was made without snapshots never takes one, whatever its thread asks for.\<close>

lemma run_need_snapshot: "run_service evs s = (s', ds) \<Longrightarrow> need_snapshot s' = need_snapshot s"
proof (induction evs arbitrary: s ds)
  case (Cons ev evs)
  obtain s1 ds1 where 1: "service_step ev s = (s1, ds1)" by (cases "service_step ev s")
  have steps: "swap_steps steps r = (r', d) \<Longrightarrow> need_snapshot r' = need_snapshot r" for steps r r' d
    by (induction steps arbitrary: r d)
       (auto simp: send_new_subscribes_def split: prod.splits swap_step.splits)
  have "need_snapshot s1 = need_snapshot s" using 1
    by (auto simp: service_step_def send_defs send_where_def set_option_def snapshot_def swap_new_subscribes_def
        split: service_event.splits prod.splits if_splits dest: steps)
  then show ?case using Cons by (auto simp: 1 split: prod.splits)
qed simp

lemma never_snapshots:
  "\<not> snap \<Longrightarrow> run_service evs (service_tmpl_new cursor n snap) = (s, ds) \<Longrightarrow> snapshot callback s = (True, s, [])"
  using run_service_inv [OF service_tmpl_new_inv] run_need_snapshot [of evs "service_tmpl_new cursor n snap" s ds]
  by (auto simp: snapshot_def service_inv_def service_tmpl_new_def)

section \<open>Cursor numbers\<close>

text \<open>Every number of a cursor is sent after the cursor itself: \<open>seen\<close> holds what connections got before.\<close>

fun resolvable :: "(i32 \<times> u64) set \<Rightarrow> delivery list \<Rightarrow> bool" where
  "resolvable seen [] \<longleftrightarrow> True"
| "resolvable seen ((i, v, m) # ds) \<longleftrightarrow>
     (case m of
        Cursor_Id k \<Rightarrow> (i, k) \<in> seen \<and> resolvable seen ds
      | Cursor_Data k d \<Rightarrow> resolvable (insert (i, k) seen) ds
      | _ \<Rightarrow> resolvable seen ds)"

definition told :: "delivery list \<Rightarrow> (i32 \<times> u64) set" where
  "told ds = {(i, k). \<exists>v d. (i, v, Cursor_Data k d) \<in> set ds}"

lemma told_append [simp]: "told (ds @ ds') = told ds \<union> told ds'" "told [] = {}"
  by (auto simp: told_def)

lemma told_Cons: "told ((i, v, m) # ds) = (case m of Cursor_Data k d \<Rightarrow> insert (i, k) (told ds) | _ \<Rightarrow> told ds)"
  by (auto simp: told_def split: service_message.split)

lemma resolvable_append: "resolvable seen (ds @ ds') \<longleftrightarrow> resolvable seen ds \<and> resolvable (seen \<union> told ds) ds'"
proof (induction ds arbitrary: seen)
  case (Cons x ds)
  obtain i v m where x: "x = (i, v, m)" by (cases x)
  show ?case using Cons by (cases m) (auto simp: x told_Cons)
qed simp

definition cache_ok :: "(i32 \<times> u64) set \<Rightarrow> (i32, subscriber) hmap \<Rightarrow> bool" where
  "cache_ok seen us \<longleftrightarrow>
     (\<forall>(i, u) \<in> set us. \<forall>c cached. u = Cursor_Sub c cached \<longrightarrow>
        (\<forall>(k, m) \<in> set cached. m = Cursor_Id k \<and> (ci_tx c \<longrightarrow> (ci_id c, k) \<in> seen)))"

lemma cache_ok_mono: "cache_ok seen us \<Longrightarrow> seen \<subseteq> seen' \<Longrightarrow> cache_ok seen' us"
  unfolding cache_ok_def by fast

lemma cache_ok_set: "cache_ok seen us \<Longrightarrow> set us' \<subseteq> set us \<Longrightarrow> cache_ok seen us'"
  unfolding cache_ok_def by blast

lemma cache_ok_put: "cache_ok seen us \<Longrightarrow> cache_ok seen [(i, u)] \<Longrightarrow> cache_ok seen (hm_put i u us)"
  by (auto simp: cache_ok_def set_hm_put)

lemma cache_ok_fresh [simp]: "cache_ok seen [(i, sub_from cursor c)]" "cache_ok seen []"
  by (simp_all add: cache_ok_def sub_from_def)

lemma cache_ok_ConsD: "cache_ok seen (p # us) \<Longrightarrow> cache_ok seen [p]" "cache_ok seen (p # us) \<Longrightarrow> cache_ok seen us"
  by (simp_all add: cache_ok_def)

lemma cache_ok_ConsI: "cache_ok seen [p] \<Longrightarrow> cache_ok seen us \<Longrightarrow> cache_ok seen (p # us)"
  by (simp add: cache_ok_def)

definition no_numbers :: "service_message \<Rightarrow> bool" where
  "no_numbers m = (case m of Cursor_Id k \<Rightarrow> False | _ \<Rightarrow> True)"

lemma sub_send_cache:
  assumes "cache_ok seen [(i, u)]" "no_numbers m" and r: "sub_send m u = (u', ds)"
  shows "resolvable seen ds \<and> cache_ok (seen \<union> told ds) [(i, u')]"
proof (cases u)
  case (Conn_Sub c)
  then show ?thesis using r assms(2)
    by (auto simp: sub_send_def conn_send_def cache_ok_def no_numbers_def split: service_message.splits)
next
  case (Cursor_Sub c cached)
  have ok: "\<forall>(k, m) \<in> set cached. m = Cursor_Id k \<and> (ci_tx c \<longrightarrow> (ci_id c, k) \<in> seen)"
    using assms(1) by (simp add: Cursor_Sub cache_ok_def)
  show ?thesis
  proof (cases "\<exists>k d short. m = Cursor_Data k d \<and> hm_get cached k = Some short")
    case True
    then obtain k d short where m: "m = Cursor_Data k d" and s: "hm_get cached k = Some short" by blast
    then have "(k, short) \<in> set cached" by (simp add: hm_get_def map_of_SomeD)
    with ok have "short = Cursor_Id k" "ci_tx c \<longrightarrow> (ci_id c, k) \<in> seen" by auto
    then show ?thesis using r ok
      by (auto simp: m s Cursor_Sub sub_send_def conn_send_def by_video_def cache_ok_def told_Cons simp del: hm_keys_simps)
  next
    case False
    then show ?thesis using r ok assms(2)
      by (auto simp: Cursor_Sub sub_send_def conn_send_def by_video_def cache_ok_def told_Cons no_numbers_def set_hm_put
          simp del: hm_keys_simps split: service_message.splits option.splits)
  qed
qed

lemma send_each_cache:
  "cache_ok seen us \<Longrightarrow> no_numbers m \<Longrightarrow> send_each P m us = (us', ds) \<Longrightarrow>
     resolvable seen ds \<and> cache_ok (seen \<union> told ds) us'"
proof (induction us arbitrary: seen us' ds)
  case (Cons p us)
  obtain k u where p: "p = (k, u)" by (cases p)
  obtain u1 ds1 where 1: "(if P k u then sub_send m u else (u, [])) = (u1, ds1)" by fastforce
  obtain us2 ds2 where 2: "send_each P m us = (us2, ds2)" by (cases "send_each P m us")
  have r: "us' = (k, u1) # us2" "ds = ds1 @ ds2" using Cons.prems(3) by (simp_all add: p 1 2)
  have c: "cache_ok seen [(k, u)]" "cache_ok seen us" using Cons.prems(1) cache_ok_ConsD by (auto simp: p)
  have h: "resolvable seen ds1 \<and> cache_ok (seen \<union> told ds1) [(k, u1)]"
    using 1 sub_send_cache [OF c(1) Cons.prems(2)] c(1) by (auto split: if_splits)
  have "resolvable (seen \<union> told ds1) ds2 \<and> cache_ok (seen \<union> told ds1 \<union> told ds2) us2"
    using Cons.IH [OF cache_ok_mono [OF c(2)] Cons.prems(2) 2] by blast
  then show ?case
    using h cache_ok_mono [of "seen \<union> told ds1" "[(k, u1)]" "seen \<union> told ds1 \<union> told ds2"]
    by (auto simp: r resolvable_append Un_assoc [symmetric] intro!: cache_ok_ConsI)
qed simp

definition caches_ok :: "(i32 \<times> u64) set \<Rightarrow> service \<Rightarrow> bool" where
  "caches_ok seen s \<longleftrightarrow> cache_ok seen (subscribes s) \<and> cache_ok seen (new_subscribes s)"

text \<open>One step keeps the caches in line with what was delivered.\<close>

abbreviation resolves :: "(i32 \<times> u64) set \<Rightarrow> delivery list \<Rightarrow> service \<Rightarrow> bool" where
  "resolves seen ds s \<equiv> resolvable seen ds \<and> caches_ok (seen \<union> told ds) s"

lemma send_resolves:
  assumes "caches_ok seen s" "no_numbers m"
  shows "send_where P m s = (s', ds) \<Longrightarrow> resolves seen ds s'" "send_new_subscribes m s = (s', ds) \<Longrightarrow> resolves seen ds s'"
  using assms send_each_cache cache_ok_mono [of seen _ "seen \<union> told ds"]
  by (auto simp: caches_ok_def send_where_def send_new_subscribes_def split: prod.splits)

lemma sub_caches:
  assumes "caches_ok seen s"
  shows "caches_ok seen (on_subscribe c s)" "caches_ok seen (on_unsubscribe i s)" "caches_ok seen (swap_new_subscribes s)"
proof -
  show "caches_ok seen (on_subscribe c s)"
    using assms by (simp add: caches_ok_def on_subscribe_def cache_ok_put)
  show "caches_ok seen (on_unsubscribe i s)"
    using assms cache_ok_set [of seen _ "hm_del _ _"] by (auto simp: caches_ok_def on_unsubscribe_def set_hm_del)
  have "cache_ok seen us \<Longrightarrow> cache_ok seen new \<Longrightarrow> cache_ok seen (fold (\<lambda>(k, u). hm_put (sub_id u) u) new us)" for us new
  proof (induction new arbitrary: us)
    case (Cons p new)
    obtain k u where p: "p = (k, u)" by (cases p)
    have "cache_ok seen [(sub_id u, u)]" using Cons.prems(2) by (simp add: p cache_ok_def)
    then show ?case using Cons.IH Cons.prems(1) cache_ok_ConsD(2) [OF Cons.prems(2)] by (simp add: p cache_ok_put)
  qed simp
  then show "caches_ok seen (swap_new_subscribes s)" using assms by (simp add: caches_ok_def swap_new_subscribes_def)
qed

text \<open>No service sends a bare number of a cursor.\<close>

definition plain_step :: "swap_step \<Rightarrow> bool" where
  "plain_step st = (case st of Swap_Send m \<Rightarrow> no_numbers m | _ \<Rightarrow> True)"

definition plain_event :: "service_event \<Rightarrow> bool" where
  "plain_event ev =
     (case ev of
        Ev_Send m \<Rightarrow> no_numbers m
      | Ev_Send_To m i \<Rightarrow> no_numbers m
      | Ev_Send_To_Others m i \<Rightarrow> no_numbers m
      | Ev_Send_Without m i \<Rightarrow> no_numbers m
      | Ev_Snapshot callback \<Rightarrow> (\<forall>s. list_all plain_step (fst (callback s)))
      | _ \<Rightarrow> True)"

lemma swap_steps_resolves:
  "caches_ok seen s \<Longrightarrow> list_all plain_step steps \<Longrightarrow> swap_steps steps s = (s', ds) \<Longrightarrow> resolves seen ds s'"
proof (induction steps arbitrary: seen s ds)
  case (Cons st steps)
  show ?case
  proof (cases st)
    case (Swap_Send m)
    obtain s1 ds1 where 1: "send_new_subscribes m s = (s1, ds1)" by (cases "send_new_subscribes m s")
    obtain ds2 where 2: "swap_steps steps s1 = (s', ds2)" and ds: "ds = ds1 @ ds2"
      using Cons.prems(3) by (auto simp: Swap_Send 1 split: prod.splits)
    have "resolves seen ds1 s1" using send_resolves(2) [OF Cons.prems(1) _ 1] Cons.prems(2) by (simp add: Swap_Send plain_step_def)
    then show ?thesis using Cons.IH [OF _ _ 2] Cons.prems(2) by (simp add: ds resolvable_append Un_assoc [symmetric])
  next
    case (Joins c)
    then show ?thesis using Cons.IH [OF sub_caches(1) [OF Cons.prems(1)]] Cons.prems(2,3) by (auto split: prod.splits)
  next
    case (Leaves i)
    then show ?thesis using Cons.IH [OF sub_caches(2) [OF Cons.prems(1)]] Cons.prems(2,3) by (auto split: prod.splits)
  qed
qed simp

lemma step_resolves:
  assumes "caches_ok seen s" "plain_event ev" "service_step ev s = (s', ds)"
  shows "resolves seen ds s'"
proof (cases ev)
  case (Ev_Snapshot cb)
  obtain steps ok where cb: "cb s = (steps, ok)" by (cases "cb s")
  have "list_all plain_step steps" using assms(2) cb by (simp add: plain_event_def Ev_Snapshot) (metis fst_conv)
  then show ?thesis using assms(1,3) cb swap_steps_resolves sub_caches(3)
    by (auto simp: service_step_def Ev_Snapshot snapshot_def split: if_splits prod.splits)
next
  case (Ev_Option opt v)
  then show ?thesis using assms by (auto simp: service_step_def set_option_def caches_ok_def)
qed (use assms sub_caches send_resolves(1) in \<open>auto simp: service_step_def send_defs plain_event_def\<close>)

lemma run_resolves:
  "caches_ok seen s \<Longrightarrow> list_all plain_event evs \<Longrightarrow> run_service evs s = (s', ds) \<Longrightarrow> resolves seen ds s'"
proof (induction evs arbitrary: seen s ds)
  case (Cons ev evs)
  obtain s1 ds1 where 1: "service_step ev s = (s1, ds1)" by (cases "service_step ev s")
  obtain ds2 where 2: "run_service evs s1 = (s', ds2)" and ds: "ds = ds1 @ ds2"
    using Cons.prems(3) by (auto simp: 1 split: prod.splits)
  have "resolves seen ds1 s1" using step_resolves [OF Cons.prems(1) _ 1] Cons.prems(2) by simp
  then show ?case using Cons.IH [OF _ _ 2] Cons.prems(2) by (simp add: ds resolvable_append Un_assoc [symmetric])
qed simp

text \<open>Cursors.  However connections come and go and whatever the cursor service sends and takes
  snapshots of, a connection gets the bare number of a cursor only after it got that cursor's picture.\<close>

theorem cursor_numbers_resolvable:
  assumes "list_all plain_event evs" and "run_service evs (service_tmpl_new cursor n snap) = (s, ds)"
  shows "resolvable {} ds"
  using run_resolves [of "{}" "service_tmpl_new cursor n snap"] assms
  by (simp add: caches_ok_def service_tmpl_new_def)

lemma cursor_numbers_resolvable_witness:
  "\<exists>s ds. run_service [Ev_Subscribe (toy_inner 1), Ev_Send (Cursor_Data 7 [1]), Ev_Send (Cursor_Data 7 [1])]
        (service_tmpl_new True ''mouse_cursor'' False) = (s, ds)
     \<and> ds = [(1, False, Cursor_Data 7 [1]), (1, False, Cursor_Id 7)] \<and> resolvable {} ds"
proof -
  let ?evs = "[Ev_Subscribe (toy_inner 1), Ev_Send (Cursor_Data 7 [1]), Ev_Send (Cursor_Data 7 [1])]"
  obtain s ds where run: "run_service ?evs (service_tmpl_new True ''mouse_cursor'' False) = (s, ds)"
    by (cases "run_service ?evs (service_tmpl_new True ''mouse_cursor'' False)")
  have "resolvable {} ds"
    by (rule cursor_numbers_resolvable [OF _ run]) (simp add: plain_event_def no_numbers_def)
  moreover have "ds = [(1, False, Cursor_Data 7 [1]), (1, False, Cursor_Id 7)]"
    using run by (simp add: service_step_def on_subscribe_def service_tmpl_new_def toy_inner_def send_defs send_where_def
        sub_from_def sub_send_def conn_send_def by_video_def hm_put_def hm_get_def hm_del_def del: hm_keys_simps)
  ultimately show ?thesis using run by blast
qed

section \<open>The pace of the threads\<close>

lemma next_error_timeout_bounds:
  assumes "HIBERNATE_TIMEOUT \<le> t" "t \<le> MAX_ERROR_TIMEOUT"
  shows "HIBERNATE_TIMEOUT \<le> next_error_timeout e t \<and> next_error_timeout e t \<le> MAX_ERROR_TIMEOUT"
proof -
  have t: "30 \<le> unat t" "unat t \<le> 1000" using assms by (simp_all add: HIBERNATE_TIMEOUT_def MAX_ERROR_TIMEOUT_def word_le_nat_alt)
  then have "unat (t * 2) = unat t * 2" by (simp add: unat_word_ariths)
  then show ?thesis using t by (simp add: next_error_timeout_def HIBERNATE_TIMEOUT_def MAX_ERROR_TIMEOUT_def word_le_nat_alt word_less_nat_alt Let_def)
qed

lemma service_turn_paced:
  assumes "HIBERNATE_TIMEOUT \<le> t" "t \<le> MAX_ERROR_TIMEOUT" "service_turn s failed t = (t', ws)"
  shows "t' \<in> {HIBERNATE_TIMEOUT..MAX_ERROR_TIMEOUT} \<and> set ws \<subseteq> {HIBERNATE_TIMEOUT..MAX_ERROR_TIMEOUT}"
proof -
  have "HIBERNATE_TIMEOUT \<le> MAX_ERROR_TIMEOUT" by (simp add: HIBERNATE_TIMEOUT_def MAX_ERROR_TIMEOUT_def)
  then show ?thesis using assms next_error_timeout_bounds [OF assms(1,2)]
    by (auto simp: service_turn_def Let_def split: if_splits option.splits)
qed

lemma run_loop_paced:
  "t \<in> {HIBERNATE_TIMEOUT..MAX_ERROR_TIMEOUT} \<Longrightarrow> set (run_loop turns t) \<subseteq> {HIBERNATE_TIMEOUT..MAX_ERROR_TIMEOUT}"
proof (induction turns t rule: run_loop.induct)
  case (2 s failed turns t)
  obtain t' ws where r: "service_turn s failed t = (t', ws)" by fastforce
  have "t' \<in> {HIBERNATE_TIMEOUT..MAX_ERROR_TIMEOUT} \<and> set ws \<subseteq> {HIBERNATE_TIMEOUT..MAX_ERROR_TIMEOUT}"
    using service_turn_paced [OF _ _ r] "2.prems" by simp
  moreover have "sv_active s \<Longrightarrow> set (run_loop turns t') \<subseteq> {HIBERNATE_TIMEOUT..MAX_ERROR_TIMEOUT}"
    using "2.IH" [OF _ r [symmetric]] calculation by blast
  moreover have "run_loop ((s, failed) # turns) t = (if sv_active s then ws @ run_loop turns t' else [])" by (simp add: r)
  ultimately show ?case by (simp only: set_append Un_subset_iff list.set(1) empty_subsetI split: if_split) blast
qed simp

text \<open>In the loop with a state, callbacks run only between an initialisation and the reset that follows it.\<close>

fun alternates :: "bool \<Rightarrow> repeat_effect list \<Rightarrow> bool" where
  "alternates inside [] \<longleftrightarrow> True"
| "alternates inside (State_Init # es) \<longleftrightarrow> \<not> inside \<and> alternates True es"
| "alternates inside (State_Reset # es) \<longleftrightarrow> inside \<and> alternates False es"
| "alternates inside (Callback # es) \<longleftrightarrow> inside \<and> alternates inside es"
| "alternates inside (Error_Sleep # es) \<longleftrightarrow> inside \<and> alternates inside es"
| "alternates inside (Sleep_For n # es) \<longleftrightarrow> alternates inside es"

lemma repeat_alternates: "alternates may_reset (repeat_loop interval turns may_reset)"
proof (induction turns arbitrary: may_reset)
  case (Cons turn turns)
  obtain s ok el where t: "turn = (s, ok, el)" by (cases turn)
  show ?case using Cons by (auto simp: t repeat_turn_def)
qed simp

text \<open>Pace.  Every pause of a service thread lies between 30 and 1000 milliseconds, however often its
  callback fails, so that a failing service neither spins nor goes to sleep for good; and a thread with a
  state calls back only between an initialisation and the reset that follows it.\<close>

theorem service_threads_paced:
  "set (run_loop turns HIBERNATE_TIMEOUT) \<subseteq> {HIBERNATE_TIMEOUT..MAX_ERROR_TIMEOUT}
    \<and> alternates False (repeat_loop interval turns' False)"
  using run_loop_paced [of HIBERNATE_TIMEOUT turns] repeat_alternates
  by (simp add: HIBERNATE_TIMEOUT_def MAX_ERROR_TIMEOUT_def)

end
