(* ===== verification/Server_Table.thy ===== *)
theory Server_Table
  imports Server_Services Session_Handler
begin

text \<open>
  The table of services of the host and its connections: \<open>impl Server\<close> in \<open>src/server.rs\<close>, and what
  \<open>Connection::capture_displays\<close>, \<open>Connection::switch_display_to\<close> and the end of a connection do to it
  under its lock (\<open>src/server/connection.rs\<close>).

  \<open>serves sv n i\<close> is the abstract content of the table: connection \<open>i\<close> is subscribed to service \<open>n\<close>.  The
  subscriptions that the session model keeps in \<open>subs\<close> are the row of the table for its connection, which
  is the refinement at the end of the theory.
\<close>

section \<open>The server\<close>

record server =
  sr_connections :: "(i32, conn_inner) hmap"
  sr_services :: "(string, service) hmap"
  sr_id_count :: i32

datatype video_source = Monitor | Camera

definition service_name_prefix :: "video_source \<Rightarrow> string" where
  "service_name_prefix source = (case source of Monitor \<Rightarrow> ''monitor'' | Camera \<Rightarrow> ''camera'')"

definition get_service_name :: "video_source \<Rightarrow> u64 \<Rightarrow> string" where
  "get_service_name source idx = service_name_prefix source @ nat_text (unat idx)"

definition video_service_new :: "video_source \<Rightarrow> u64 \<Rightarrow> service" where
  "video_service_new source idx = service_tmpl_new False (get_service_name source idx) True"

definition is_video_service_name :: "string \<Rightarrow> bool" where
  "is_video_service_name n \<longleftrightarrow> prefix (service_name_prefix Monitor) n \<or> prefix (service_name_prefix Camera) n"

definition add_service :: "service \<Rightarrow> server \<Rightarrow> server" where
  "add_service s sv = sv\<lparr>sr_services := hm_put (sv_name s) s (sr_services sv)\<rparr>"

definition contains :: "server \<Rightarrow> string \<Rightarrow> bool" where
  "contains sv n \<longleftrightarrow> hm_get (sr_services sv) n \<noteq> None"

definition add_video_service :: "video_source \<Rightarrow> u64 \<Rightarrow> server \<Rightarrow> server" where
  "add_video_service source idx sv =
     (if contains sv (get_service_name source idx) then sv else add_service (video_service_new source idx) sv)"

definition PRIMARY_CAMERA_IDX :: u64 where "PRIMARY_CAMERA_IDX = 0"

definition try_add_primary_camera_service :: "bool \<Rightarrow> server \<Rightarrow> server" where
  "try_add_primary_camera_service camera_exists sv =
     (if \<not> camera_exists then sv else add_video_service Camera PRIMARY_CAMERA_IDX sv)"

definition try_add_primay_video_service :: "u64 \<Rightarrow> server \<Rightarrow> server" where
  "try_add_primay_video_service primary sv = add_video_service Monitor primary sv"

text \<open>A change of the services in place.\<close>

definition map_services :: "(string \<Rightarrow> service \<Rightarrow> service) \<Rightarrow> server \<Rightarrow> server" where
  "map_services f sv = sv\<lparr>sr_services := map (\<lambda>(n, s). (n, f n s)) (sr_services sv)\<rparr>"

definition add_camera_connection :: "bool \<Rightarrow> conn_inner \<Rightarrow> server \<Rightarrow> server" where
  "add_camera_connection camera_exists c sv =
     (let sv = (if camera_exists
                then map_services (\<lambda>n s. if n = get_service_name Camera PRIMARY_CAMERA_IDX then on_subscribe c s else s) sv
                else sv)
      in sv\<lparr>sr_connections := hm_put (ci_id c) c (sr_connections sv)\<rparr>)"

definition add_connection :: "u64 \<Rightarrow> conn_inner \<Rightarrow> string list \<Rightarrow> server \<Rightarrow> server" where
  "add_connection primary c noperm sv =
     (let sv = map_services
            (\<lambda>n s. if is_video_service_name (sv_name s) \<and> sv_name s \<noteq> get_service_name Monitor primary then s
                   else if sv_name s \<notin> set noperm then on_subscribe c s else s) sv
      in sv\<lparr>sr_connections := hm_put (ci_id c) c (sr_connections sv)\<rparr>)"

definition remove_connection :: "conn_inner \<Rightarrow> server \<Rightarrow> server" where
  "remove_connection c sv =
     (let sv = map_services (\<lambda>n s. on_unsubscribe (ci_id c) s) sv
      in sv\<lparr>sr_connections := hm_del (ci_id c) (sr_connections sv)\<rparr>)"

definition close_connections :: "server \<Rightarrow> delivery list" where
  "close_connections sv = concat (map (\<lambda>(i, c). conn_send Stop_Message c) (sr_connections sv))"

definition set_subscription :: "conn_inner \<Rightarrow> bool \<Rightarrow> service \<Rightarrow> service" where
  "set_subscription c b s =
     (if is_subed s (ci_id c) = b then s else if b then on_subscribe c s else on_unsubscribe (ci_id c) s)"

definition server_subscribe :: "string \<Rightarrow> conn_inner \<Rightarrow> bool \<Rightarrow> server \<Rightarrow> server" where
  "server_subscribe n c b sv = map_services (\<lambda>k s. if k = n then set_subscription c b s else s) sv"

definition get_new_id :: "server \<Rightarrow> i32 \<times> server" where
  "get_new_id sv = (let i = sr_id_count sv + 1 in (i, sv\<lparr>sr_id_count := i\<rparr>))"

definition set_video_service_opt :: "(video_source \<times> u64) option \<Rightarrow> string \<Rightarrow> string \<Rightarrow> server \<Rightarrow> server" where
  "set_video_service_opt display opt v sv =
     map_services
       (\<lambda>k s. if (case display of Some (source, idx) \<Rightarrow> k \<noteq> get_service_name source idx | None \<Rightarrow> False) then s
              else if is_video_service_name k then set_option opt v s else s) sv"

definition get_subbed_displays_count :: "server \<Rightarrow> i32 \<Rightarrow> nat" where
  "get_subbed_displays_count sv i =
     length (filter (\<lambda>(k, s). is_video_service_name k
       \<and> (case hm_get (sr_services sv) k of Some s' \<Rightarrow> is_subed s' i | None \<Rightarrow> False)) (sr_services sv))"

definition capture_one :: "conn_inner \<Rightarrow> string list \<Rightarrow> bool \<Rightarrow> bool \<Rightarrow> string \<Rightarrow> server \<Rightarrow> server" where
  "capture_one c displays include exclude n sv =
     (if is_video_service_name n then
        (if n \<in> set displays then (if include then server_subscribe n c True sv else sv)
         else if exclude then server_subscribe n c False sv else sv)
      else sv)"

definition server_capture_displays ::
  "conn_inner \<Rightarrow> video_source \<Rightarrow> u64 list \<Rightarrow> bool \<Rightarrow> bool \<Rightarrow> server \<Rightarrow> server"
where
  "server_capture_displays c source idxs include exclude sv =
     fold (capture_one c (map (get_service_name source) idxs) include exclude) (map fst (sr_services sv)) sv"

text \<open>The end of the server joins the threads.\<close>

definition server_drop :: "server \<Rightarrow> server" where
  "server_drop sv = map_services (\<lambda>n s. service_join s) sv"

section \<open>What a connection does to the table\<close>

text \<open>\<open>service_name\<close> is the name in the session model.\<close>

definition service_text :: "u64 \<Rightarrow> service_name \<Rightarrow> string" where
  "service_text primary n =
     (case n of
        NAME_CURSOR \<Rightarrow> ''mouse_cursor''
      | NAME_POS \<Rightarrow> ''mouse_pos''
      | NAME_WINDOW_FOCUS \<Rightarrow> ''window_focus''
      | CLIPBOARD_SERVICE \<Rightarrow> ''clipboard''
      | AUDIO_SERVICE \<Rightarrow> ''audio''
      | PRIMARY_VIDEO_SERVICE \<Rightarrow> get_service_name Monitor primary)"

definition conn_capture_displays ::
  "conn_inner \<Rightarrow> video_source \<Rightarrow> bool \<Rightarrow> u64 list \<Rightarrow> u64 list \<Rightarrow> u64 list \<Rightarrow> server \<Rightarrow> bool \<times> server"
where
  "conn_capture_displays c source follow add_idxs sub_idxs set_idxs sv0 =
     (let sv = fold (add_video_service source) set_idxs (fold (add_video_service source) add_idxs sv0);
          sv = (if add_idxs \<noteq> [] then server_capture_displays c source add_idxs True False sv
                else if sub_idxs \<noteq> [] then server_capture_displays c source sub_idxs False True sv
                else server_capture_displays c source set_idxs True True sv);
          multi = get_subbed_displays_count sv (ci_id c) > 1
      in (multi, if follow then server_subscribe ''window_focus'' c (\<not> multi) sv else sv))"

definition conn_switch_display ::
  "conn_inner \<Rightarrow> video_source \<Rightarrow> u64 \<Rightarrow> bool \<Rightarrow> u64 \<Rightarrow> u64 \<Rightarrow> server \<Rightarrow> server"
where
  "conn_switch_display c source primary multi_ui new_idx old_idx sv0 =
     (let sv = (if new_idx \<noteq> primary then add_video_service source new_idx sv0 else sv0);
          sv = (if multi_ui then sv else server_subscribe (get_service_name source old_idx) c False sv)
      in server_subscribe (get_service_name source new_idx) c True sv)"

section \<open>The abstract table\<close>

definition serves :: "server \<Rightarrow> string \<Rightarrow> i32 \<Rightarrow> bool" where
  "serves sv n i \<longleftrightarrow> (case hm_get (sr_services sv) n of Some s \<Rightarrow> is_subed s i | None \<Rightarrow> False)"

definition server_inv :: "server \<Rightarrow> bool" where
  "server_inv sv \<longleftrightarrow> hm_ok (sr_services sv) \<and> (\<forall>(n, s) \<in> set (sr_services sv). sv_name s = n \<and> service_inv s)"

lemma hm_get_in_place: "hm_get (map (\<lambda>(n, s). (n, f n s)) m) k = map_option (f k) (hm_get m k)"
  by (induction m) (auto simp: hm_get_def)

lemma map_fst_map_services: "map fst (sr_services (map_services f sv)) = map fst (sr_services sv)"
  by (simp add: map_services_def comp_def case_prod_unfold)

lemma get_map_services: "hm_get (sr_services (map_services f sv)) n = map_option (f n) (hm_get (sr_services sv) n)"
  by (simp add: map_services_def hm_get_in_place)

lemma contains_map_services [simp]: "contains (map_services f sv) n = contains sv n"
  by (simp add: contains_def get_map_services del: hm_keys_simps)

lemma server_inv_get: "server_inv sv \<Longrightarrow> hm_get (sr_services sv) n = Some s \<Longrightarrow> sv_name s = n \<and> service_inv s"
  by (auto simp: server_inv_def hm_get_def dest!: map_of_SomeD)

lemma server_inv_map:
  assumes "server_inv sv" and "\<And>n s. sv_name s = n \<Longrightarrow> service_inv s \<Longrightarrow> sv_name (f n s) = n \<and> service_inv (f n s)"
  shows "server_inv (map_services f sv)"
proof -
  have "hm_ok (sr_services (map_services f sv))"
    using assms(1) by (simp add: server_inv_def hm_ok_def map_fst_map_services)
  then show ?thesis using assms by (auto simp: server_inv_def map_services_def)
qed

lemma server_inv_add_service: "server_inv sv \<Longrightarrow> service_inv s \<Longrightarrow> server_inv (add_service s sv)"
  by (auto simp: server_inv_def add_service_def set_hm_put hm_ok_put)

lemma serves_map:
  assumes "server_inv sv"
    and "\<And>s. sv_name s = n \<Longrightarrow> service_inv s \<Longrightarrow> hm_get (sr_services sv) n = Some s \<Longrightarrow> is_subed (f n s) i = P (is_subed s i)"
  shows "serves (map_services f sv) n i \<longleftrightarrow> contains sv n \<and> P (serves sv n i)"
  using assms server_inv_get by (auto simp: serves_def get_map_services contains_def split: option.split simp del: hm_keys_simps)

lemma serves_contains: "serves sv n i \<Longrightarrow> contains sv n"
  by (auto simp: serves_def contains_def split: option.splits simp del: hm_keys_simps)

lemma serves_connections [simp]: "serves (sv\<lparr>sr_connections := x\<rparr>) n i = serves sv n i"
  "contains (sv\<lparr>sr_connections := x\<rparr>) n = contains sv n" "server_inv (sv\<lparr>sr_connections := x\<rparr>) = server_inv sv"
  by (simp_all add: serves_def contains_def server_inv_def)

text \<open>The operations on the table, by the laws of a service.\<close>

lemma set_subscription_laws:
  "service_inv s \<Longrightarrow> is_subed (set_subscription c b s) i \<longleftrightarrow> (if i = ci_id c then b else is_subed s i)"
  "service_inv s \<Longrightarrow> service_inv (set_subscription c b s)" "sv_name (set_subscription c b s) = sv_name s"
  unfolding set_subscription_def by (rule svc.subed_toggle, assumption) (rule svc.ok_toggle, assumption, rule svc.nm_toggle)

lemma server_subscribe_inv: "server_inv sv \<Longrightarrow> server_inv (server_subscribe n c b sv)"
  unfolding server_subscribe_def by (rule server_inv_map) (simp_all add: set_subscription_laws)

lemma contains_subscribe [simp]: "contains (server_subscribe n c b sv) k = contains sv k"
  by (simp add: server_subscribe_def)

lemma serves_subscribe:
  assumes "server_inv sv"
  shows "serves (server_subscribe n c b sv) k i \<longleftrightarrow>
    (if k = n \<and> i = ci_id c then b \<and> contains sv n else serves sv k i)"
  using serves_map [OF assms, of k "\<lambda>k s. if k = n then set_subscription c b s else s" i
      "\<lambda>x. if k = n \<and> i = ci_id c then b else x"] serves_contains [of sv k i]
  by (auto simp: server_subscribe_def set_subscription_laws)

lemma add_connection_inv: "server_inv sv \<Longrightarrow> server_inv (add_connection primary c np sv)"
  by (simp add: add_connection_def Let_def) (rule server_inv_map, auto intro: on_subscribe_inv)

lemma serves_add_connection:
  assumes "server_inv sv"
  shows "serves (add_connection primary c np sv) n i \<longleftrightarrow>
    serves sv n i
    \<or> i = ci_id c \<and> contains sv n \<and> n \<notin> set np \<and> (is_video_service_name n \<longrightarrow> n = get_service_name Monitor primary)"
  unfolding add_connection_def Let_def serves_connections
  by (subst serves_map [OF assms, where P = "\<lambda>x. x \<or> i = ci_id c \<and> n \<notin> set np
        \<and> (is_video_service_name n \<longrightarrow> n = get_service_name Monitor primary)"])
     (auto simp: svc.subed_sub dest: serves_contains)

lemma contains_add_connection [simp]: "contains (add_connection primary c np sv) n = contains sv n"
  "contains (remove_connection c sv) n = contains sv n"
  by (simp_all add: add_connection_def remove_connection_def Let_def)

lemma remove_connection_inv: "server_inv sv \<Longrightarrow> server_inv (remove_connection c sv)"
  by (simp add: remove_connection_def Let_def) (rule server_inv_map, auto intro: on_unsubscribe_inv)

lemma serves_remove_connection:
  assumes "server_inv sv"
  shows "serves (remove_connection c sv) n i \<longleftrightarrow> i \<noteq> ci_id c \<and> serves sv n i"
  unfolding remove_connection_def Let_def serves_connections
  by (subst serves_map [OF assms, where P = "\<lambda>x. i \<noteq> ci_id c \<and> x"]) (auto simp: svc.subed_unsub dest: serves_contains)

lemma add_video_service_inv: "server_inv sv \<Longrightarrow> server_inv (add_video_service source idx sv)"
  by (simp add: add_video_service_def server_inv_add_service video_service_new_def service_tmpl_new_inv)

lemma serves_add_video: "serves (add_video_service source idx sv) n i = serves sv n i"
  by (auto simp: add_video_service_def add_service_def serves_def contains_def video_service_new_def service_tmpl_new_def
      hm.get_put is_subed_def simp del: hm_keys_simps split: option.split) (simp_all add: hm_get_def)

lemma contains_add_video: "contains (add_video_service source idx sv) n \<longleftrightarrow> contains sv n \<or> n = get_service_name source idx"
  by (auto simp: add_video_service_def add_service_def contains_def video_service_new_def service_tmpl_new_def)


section \<open>Choosing displays\<close>

definition chosen_by :: "string list \<Rightarrow> bool \<Rightarrow> bool \<Rightarrow> string \<Rightarrow> bool \<Rightarrow> bool" where
  "chosen_by displays include exclude n x \<longleftrightarrow> (if n \<in> set displays then include \<or> x else \<not> exclude \<and> x)"

lemma chosen_by_idem: "chosen_by D inc exc n (chosen_by D inc exc n x) = chosen_by D inc exc n x"
  by (auto simp: chosen_by_def)

lemma capture_one_laws:
  assumes "server_inv sv"
  shows "server_inv (capture_one c D inc exc k sv)" "contains (capture_one c D inc exc k sv) n = contains sv n"
    "serves (capture_one c D inc exc k sv) n i \<longleftrightarrow>
       (if n = k \<and> i = ci_id c \<and> is_video_service_name n \<and> contains sv n then chosen_by D inc exc n (serves sv n i)
        else serves sv n i)"
  using assms serves_contains [of sv n i]
  by (auto simp: capture_one_def chosen_by_def server_subscribe_inv serves_subscribe)

lemma capture_fold:
  "server_inv sv \<Longrightarrow>
     server_inv (fold (capture_one c D inc exc) ks sv)
     \<and> (\<forall>n. contains (fold (capture_one c D inc exc) ks sv) n = contains sv n)
     \<and> (\<forall>n i. serves (fold (capture_one c D inc exc) ks sv) n i \<longleftrightarrow>
          (if n \<in> set ks \<and> i = ci_id c \<and> is_video_service_name n \<and> contains sv n
           then chosen_by D inc exc n (serves sv n i) else serves sv n i))"
proof (induction ks arbitrary: sv)
  case (Cons k ks)
  let ?sv = "capture_one c D inc exc k sv"
  note l = capture_one_laws [OF Cons.prems, of c D inc exc k]
  show ?case unfolding fold_simps o_apply using Cons.IH [OF l(1)] by (simp add: l(2,3) chosen_by_idem)
qed simp

lemma contains_keys: "contains sv n \<longleftrightarrow> n \<in> set (map fst (sr_services sv))"
  by (simp add: contains_def hm_keys_def)

lemma capture_displays_laws:
  assumes "server_inv sv"
  shows "server_inv (server_capture_displays c source idxs inc exc sv)"
    "contains (server_capture_displays c source idxs inc exc sv) n = contains sv n"
    "serves (server_capture_displays c source idxs inc exc sv) n i \<longleftrightarrow>
       (if i = ci_id c \<and> is_video_service_name n \<and> contains sv n
        then chosen_by (map (get_service_name source) idxs) inc exc n (serves sv n i) else serves sv n i)"
  using capture_fold [OF assms, of c "map (get_service_name source) idxs" inc exc "map fst (sr_services sv)"]
  by (simp_all add: server_capture_displays_def contains_keys)

lemma add_videos:
  "server_inv sv \<Longrightarrow>
     server_inv (fold (add_video_service source) idxs sv)
     \<and> (\<forall>n. contains (fold (add_video_service source) idxs sv) n \<longleftrightarrow> contains sv n \<or> n \<in> get_service_name source ` set idxs)
     \<and> (\<forall>n i. serves (fold (add_video_service source) idxs sv) n i = serves sv n i)"
proof (induction idxs arbitrary: sv)
  case (Cons idx idxs)
  show ?case using Cons.IH [OF add_video_service_inv [OF Cons.prems, of source idx]]
    by (auto simp: contains_add_video serves_add_video)
qed simp

lemma video_name [simp]: "is_video_service_name (get_service_name source idx)"
  by (cases source) (simp_all add: is_video_service_name_def get_service_name_def)

lemma not_video_focus [simp]: "\<not> is_video_service_name ''window_focus''"
  by (simp add: is_video_service_name_def service_name_prefix_def)

text \<open>The count of displays is the number of video services that serve the connection.\<close>

definition video_row :: "server \<Rightarrow> i32 \<Rightarrow> string set" where
  "video_row sv i = {n. is_video_service_name n \<and> serves sv n i}"

lemma subbed_count:
  assumes "server_inv sv"
  shows "get_subbed_displays_count sv i = card (video_row sv i)"
proof -
  let ?Q = "\<lambda>(k, s). is_video_service_name k \<and> (case hm_get (sr_services sv) k of Some s' \<Rightarrow> is_subed s' i | None \<Rightarrow> False)"
  have "hm_ok (filter ?Q (sr_services sv))" using assms by (simp add: server_inv_def hm_ok_filter)
  then have "get_subbed_displays_count sv i = card (fst ` set (filter ?Q (sr_services sv)))"
    by (simp add: get_subbed_displays_count_def hm_ok_card del: set_filter)
  also have "fst ` set (filter ?Q (sr_services sv)) = video_row sv i"
    using serves_contains [of sv] by (force simp: video_row_def serves_def contains_keys image_iff)
  finally show ?thesis .
qed

text \<open>The three stages of a request: missing services are registered, displays are chosen, and the window
  focus follows the number of displays.\<close>

lemma conn_displays_stages:
  assumes "server_inv sv"
    and r: "conn_capture_displays c source follow add_idxs sub_idxs set_idxs sv = (multi, sv')"
    and k: "(idxs, inc, exc) = (if add_idxs \<noteq> [] then (add_idxs, True, False)
          else if sub_idxs \<noteq> [] then (sub_idxs, False, True) else (set_idxs, True, True))"
  obtains sv2 where "server_inv sv2" "multi = (card (video_row sv2 (ci_id c)) > 1)"
    "sv' = (if follow then server_subscribe ''window_focus'' c (\<not> multi) sv2 else sv2)"
    "\<And>n i. serves sv2 n i \<longleftrightarrow>
       (if i = ci_id c \<and> is_video_service_name n
           \<and> (contains sv n \<or> n \<in> get_service_name source ` (set add_idxs \<union> set set_idxs))
        then chosen_by (map (get_service_name source) idxs) inc exc n (serves sv n i) else serves sv n i)"
    "\<And>n. contains sv2 n \<longleftrightarrow> contains sv n \<or> n \<in> get_service_name source ` (set add_idxs \<union> set set_idxs)"
proof -
  define sv1 where "sv1 = fold (add_video_service source) set_idxs (fold (add_video_service source) add_idxs sv)"
  have a: "server_inv sv1" "\<And>n i. serves sv1 n i = serves sv n i"
    "\<And>n. contains sv1 n \<longleftrightarrow> contains sv n \<or> n \<in> get_service_name source ` (set add_idxs \<union> set set_idxs)"
    using add_videos [OF assms(1), of source add_idxs] add_videos [of "fold (add_video_service source) add_idxs sv" source set_idxs]
    by (auto simp: sv1_def)
  define sv2 where "sv2 = server_capture_displays c source idxs inc exc sv1"
  note l = capture_displays_laws [OF a(1), of c source idxs inc exc, folded sv2_def]
  have sv2: "sv2 = (if add_idxs \<noteq> [] then server_capture_displays c source add_idxs True False sv1
      else if sub_idxs \<noteq> [] then server_capture_displays c source sub_idxs False True sv1
      else server_capture_displays c source set_idxs True True sv1)"
    using k by (simp add: sv2_def split: if_splits)
  have "multi = (card (video_row sv2 (ci_id c)) > 1)
      \<and> sv' = (if follow then server_subscribe ''window_focus'' c (\<not> multi) sv2 else sv2)"
    using r unfolding conn_capture_displays_def Let_def sv1_def [symmetric] sv2 [symmetric] by (auto simp: subbed_count [OF l(1)])
  then show ?thesis using that [of sv2] l(1) l(3) [unfolded a(2,3)] l(2) [unfolded a(3)] by blast
qed

lemma conn_displays_focus:
  assumes "server_inv sv" "conn_capture_displays c source follow a s t sv = (multi, sv')"
  shows "serves sv' ''window_focus'' (ci_id c) \<longleftrightarrow>
    (if follow then \<not> multi \<and> contains sv ''window_focus'' else serves sv ''window_focus'' (ci_id c))"
proof -
  obtain idxs inc exc where k: "(idxs, inc, exc) = (if a \<noteq> [] then (a, True, False)
      else if s \<noteq> [] then (s, False, True) else (t, True, True))" by (metis surj_pair)
  obtain sv2 where sv2: "server_inv sv2"
    "sv' = (if follow then server_subscribe ''window_focus'' c (\<not> multi) sv2 else sv2)"
    "\<And>n i. serves sv2 n i \<longleftrightarrow>
       (if i = ci_id c \<and> is_video_service_name n \<and> (contains sv n \<or> n \<in> get_service_name source ` (set a \<union> set t))
        then chosen_by (map (get_service_name source) idxs) inc exc n (serves sv n i) else serves sv n i)"
    "\<And>n. contains sv2 n \<longleftrightarrow> contains sv n \<or> n \<in> get_service_name source ` (set a \<union> set t)"
    using conn_displays_stages [OF assms k] by blast
  have "''window_focus'' \<noteq> get_service_name source x" for x using video_name not_video_focus by metis
  then show ?thesis by (auto simp: sv2(2-4) serves_subscribe [OF sv2(1)])
qed

lemma conn_displays_frame:
  assumes "server_inv sv" "conn_capture_displays c source follow a s t sv = (multi, sv')"
  shows "server_inv sv'" "i \<noteq> ci_id c \<Longrightarrow> serves sv' n i = serves sv n i"
    "\<not> is_video_service_name n \<Longrightarrow> n \<noteq> ''window_focus'' \<Longrightarrow> serves sv' n i = serves sv n i"
proof -
  obtain idxs inc exc where k: "(idxs, inc, exc) = (if a \<noteq> [] then (a, True, False)
      else if s \<noteq> [] then (s, False, True) else (t, True, True))" by (metis surj_pair)
  obtain sv2 where sv2: "server_inv sv2" "multi = (card (video_row sv2 (ci_id c)) > 1)"
    "sv' = (if follow then server_subscribe ''window_focus'' c (\<not> multi) sv2 else sv2)"
    "\<And>n i. serves sv2 n i \<longleftrightarrow>
       (if i = ci_id c \<and> is_video_service_name n \<and> (contains sv n \<or> n \<in> get_service_name source ` (set a \<union> set t))
        then chosen_by (map (get_service_name source) idxs) inc exc n (serves sv n i) else serves sv n i)"
    using conn_displays_stages [OF assms k] by blast
  show "server_inv sv'" by (simp add: sv2(1,3) server_subscribe_inv)
  show "i \<noteq> ci_id c \<Longrightarrow> serves sv' n i = serves sv n i"
    "\<not> is_video_service_name n \<Longrightarrow> n \<noteq> ''window_focus'' \<Longrightarrow> serves sv' n i = serves sv n i"
    by (simp_all add: sv2(3,4) serves_subscribe [OF sv2(1)])
qed

text \<open>C28 Choice of displays.  A request of a connection to add displays serves it those and its former
  ones; a request to set them serves it exactly those, of the source of the session; a request with only
  a \<open>sub\<close> list keeps of its displays exactly the listed ones.  The connection counts as a session of several
  windows exactly if it then has more than one display, and no other connection and no other service but
  the window focus of this connection is touched.\<close>

theorem displays_chosen:
  assumes "server_inv sv"
    and r: "conn_capture_displays c source follow add_idxs sub_idxs set_idxs sv = (multi, sv')"
  shows "server_inv sv'
    \<and> video_row sv' (ci_id c) =
        (if add_idxs \<noteq> [] then video_row sv (ci_id c) \<union> get_service_name source ` set add_idxs
         else if sub_idxs \<noteq> [] then video_row sv (ci_id c) \<inter> get_service_name source ` set sub_idxs
         else get_service_name source ` set set_idxs)
    \<and> multi = (card (video_row sv' (ci_id c)) > 1)
    \<and> (\<forall>i. i \<noteq> ci_id c \<longrightarrow> (\<forall>n. serves sv' n i = serves sv n i))
    \<and> (\<forall>n. \<not> is_video_service_name n \<and> n \<noteq> ''window_focus'' \<longrightarrow> serves sv' n (ci_id c) = serves sv n (ci_id c))"
proof -
  obtain idxs inc exc where k: "(idxs, inc, exc) = (if add_idxs \<noteq> [] then (add_idxs, True, False)
      else if sub_idxs \<noteq> [] then (sub_idxs, False, True) else (set_idxs, True, True))" by (metis surj_pair)
  obtain sv2 where sv2: "server_inv sv2" "multi = (card (video_row sv2 (ci_id c)) > 1)"
    "sv' = (if follow then server_subscribe ''window_focus'' c (\<not> multi) sv2 else sv2)"
    "\<And>n i. serves sv2 n i \<longleftrightarrow>
       (if i = ci_id c \<and> is_video_service_name n
           \<and> (contains sv n \<or> n \<in> get_service_name source ` (set add_idxs \<union> set set_idxs))
        then chosen_by (map (get_service_name source) idxs) inc exc n (serves sv n i) else serves sv n i)"
    using conn_displays_stages [OF assms k] by blast
  have "video_row sv' (ci_id c) = video_row sv2 (ci_id c)"
    by (auto simp: sv2(3) video_row_def serves_subscribe [OF sv2(1)])
  moreover have "video_row sv2 (ci_id c) =
      (if add_idxs \<noteq> [] then video_row sv (ci_id c) \<union> get_service_name source ` set add_idxs
       else if sub_idxs \<noteq> [] then video_row sv (ci_id c) \<inter> get_service_name source ` set sub_idxs
       else get_service_name source ` set set_idxs)"
    using k serves_contains [of sv _ "ci_id c"]
    by (auto simp: video_row_def sv2(4) chosen_by_def split: if_splits)
  ultimately show ?thesis using sv2(2) conn_displays_frame [OF assms] by simp
qed

definition toy_server :: server where
  "toy_server = add_service (service_tmpl_new True ''mouse_cursor'' True) (add_service (service_tmpl_new False ''mouse_pos'' False)
     (add_service (service_tmpl_new False ''window_focus'' False) (add_service (service_tmpl_new False ''clipboard'' False)
       (add_service (service_tmpl_new False ''audio'' True) (add_video_service Monitor 0
         \<lparr>sr_connections = [], sr_services = [], sr_id_count = 1000\<rparr>)))))"

lemma toy_server_inv: "server_inv toy_server"
  unfolding toy_server_def
  by (intro server_inv_add_service add_video_service_inv service_tmpl_new_inv) (simp add: server_inv_def hm_ok_def)

lemma displays_chosen_witness:
  "\<exists>multi sv'. conn_capture_displays (toy_inner 5) Monitor False [] [] [0, 1] toy_server = (multi, sv')
     \<and> video_row sv' 5 = {get_service_name Monitor 0, get_service_name Monitor 1}"
proof -
  obtain multi sv' where r: "conn_capture_displays (toy_inner 5) Monitor False [] [] [0, 1] toy_server = (multi, sv')"
    by (cases "conn_capture_displays (toy_inner 5) Monitor False [] [] [0, 1] toy_server")
  then show ?thesis using displays_chosen [OF toy_server_inv r]
    by (auto simp: toy_inner_def)
qed

section \<open>The subscriptions of a session\<close>

text \<open>The row of a connection, under the names of the session model.  Which displays it is served is not in
  \<open>subs\<close> but an effect, so the two are compared on the services that are not video services.\<close>

definition row :: "u64 \<Rightarrow> server \<Rightarrow> i32 \<Rightarrow> service_name set" where
  "row primary sv i = {n. n \<noteq> PRIMARY_VIDEO_SERVICE \<and> serves sv (service_text primary n) i}"

lemma service_text_inj: "service_text p n = service_text p n' \<longleftrightarrow> n = n'"
  by (cases n; cases n') (simp_all add: service_text_def get_service_name_def service_name_prefix_def)

lemma service_text_video: "is_video_service_name (service_text p n) \<longleftrightarrow> n = PRIMARY_VIDEO_SERVICE"
  by (cases n) (simp_all add: service_text_def is_video_service_name_def service_name_prefix_def get_service_name_def)

lemma service_text_primary: "service_text p PRIMARY_VIDEO_SERVICE = get_service_name Monitor p"
  by (simp add: service_text_def)

lemma service_text_focus: "service_text p n = ''window_focus'' \<longleftrightarrow> n = NAME_WINDOW_FOCUS"
  using service_text_inj [of p n NAME_WINDOW_FOCUS] by (simp add: service_text_def)

text \<open>Steps of a session that use the table, and steps that other connections take.\<close>

datatype table_step =
    Own_Subscribe service_name bool
  | Own_Logon "u64 option"
  | Own_Displays video_source "i32 list" "i32 list" "i32 list"
  | Own_Switch video_source u64
  | Own_Leave
  | Foreign_Subscribe conn_inner string bool
  | Foreign_Logon conn_inner "string list"
  | Foreign_Displays conn_inner video_source bool "u64 list" "u64 list" "u64 list"
  | Foreign_Remove conn_inner

text \<open>What the step of the session does to the table, while the server is alive.\<close>

definition own_table :: "session_env \<Rightarrow> u64 \<Rightarrow> conn_inner \<Rightarrow> table_step \<Rightarrow> session_conn \<Rightarrow> server \<Rightarrow> server" where
  "own_table e primary c st conn sv =
     (if \<not> server_alive e then sv
      else case st of
          Own_Subscribe n b \<Rightarrow> server_subscribe (service_text primary n) c b sv
        | Own_Logon t \<Rightarrow>
            if is_remote conn \<and> \<not> services_subed conn
            then add_connection primary c (map (service_text primary) (noperms e (conn\<lparr>services_subed := True\<rparr>)))
                   (try_add_primay_video_service primary sv)
            else sv
        | Own_Displays source a s t \<Rightarrow>
            snd (conn_capture_displays c source (follow_remote_window (opts conn)) (map scast a) (map scast s) (map scast t) sv)
        | Own_Switch source idx \<Rightarrow>
            conn_switch_display c source primary (is_support_multi_ui_session (lr_version (lr (login conn)))) idx (display_idx conn) sv
        | Own_Leave \<Rightarrow> remove_connection c sv
        | _ \<Rightarrow> sv)"

text \<open>What the session model does; the count of displays it asks for is that of the table.\<close>

definition own_session :: "session_env \<Rightarrow> u64 \<Rightarrow> conn_inner \<Rightarrow> table_step \<Rightarrow> session_conn \<Rightarrow> server \<Rightarrow> session_conn" where
  "own_session e primary c st conn sv =
     (case st of
        Own_Subscribe n b \<Rightarrow> subscribe e n b conn
      | Own_Logon t \<Rightarrow> try_sub_monitor_services e t conn
      | Own_Displays source a s t \<Rightarrow>
          capture_displays (e\<lparr>subbed_displays :=
            (if fst (conn_capture_displays c source (follow_remote_window (opts conn)) (map scast a) (map scast s) (map scast t) sv)
             then 2 else 1)\<rparr>) a s t conn
      | Own_Switch source idx \<Rightarrow> if server_alive e then switch_display_to idx conn else conn
      | Own_Leave \<Rightarrow> if server_alive e then conn\<lparr>subs := {}\<rparr> else conn
      | _ \<Rightarrow> conn)"

definition foreign_table :: "u64 \<Rightarrow> table_step \<Rightarrow> server \<Rightarrow> server" where
  "foreign_table primary st sv =
     (case st of
        Foreign_Subscribe d n b \<Rightarrow> server_subscribe n d b sv
      | Foreign_Logon d np \<Rightarrow> add_connection primary d np (try_add_primay_video_service primary sv)
      | Foreign_Displays d source follow a s t \<Rightarrow> snd (conn_capture_displays d source follow a s t sv)
      | Foreign_Remove d \<Rightarrow> remove_connection d sv
      | _ \<Rightarrow> sv)"

definition foreign_id :: "table_step \<Rightarrow> i32 option" where
  "foreign_id st =
     (case st of
        Foreign_Subscribe d n b \<Rightarrow> Some (ci_id d)
      | Foreign_Logon d np \<Rightarrow> Some (ci_id d)
      | Foreign_Displays d source follow a s t \<Rightarrow> Some (ci_id d)
      | Foreign_Remove d \<Rightarrow> Some (ci_id d)
      | _ \<Rightarrow> None)"

fun table_run :: "u64 \<Rightarrow> conn_inner \<Rightarrow> (session_env \<times> table_step) list \<Rightarrow> session_conn \<times> server \<Rightarrow> session_conn \<times> server" where
  "table_run primary c [] w = w"
| "table_run primary c ((e, st) # steps) (conn, sv) =
     table_run primary c steps
       (if foreign_id st = None then (own_session e primary c st conn sv, own_table e primary c st conn sv)
        else (conn, foreign_table primary st sv))"

text \<open>The relation of the simulation: the session's view is its row, and its services are registered.\<close>

definition agrees :: "u64 \<Rightarrow> conn_inner \<Rightarrow> session_conn \<Rightarrow> server \<Rightarrow> bool" where
  "agrees primary c conn sv \<longleftrightarrow>
     server_inv sv \<and> (\<forall>n. n \<noteq> PRIMARY_VIDEO_SERVICE \<longrightarrow> contains sv (service_text primary n))
     \<and> subs conn - {PRIMARY_VIDEO_SERVICE} = row primary sv (ci_id c)"

lemma agreesD:
  assumes "agrees primary c conn sv"
  shows "server_inv sv" "n \<noteq> PRIMARY_VIDEO_SERVICE \<Longrightarrow> contains sv (service_text primary n)"
    "n \<noteq> PRIMARY_VIDEO_SERVICE \<Longrightarrow> n \<in> subs conn \<longleftrightarrow> serves sv (service_text primary n) (ci_id c)"
  using assms by (auto simp: agrees_def row_def)

lemma agreesI:
  assumes "server_inv sv" "\<And>n. n \<noteq> PRIMARY_VIDEO_SERVICE \<Longrightarrow> contains sv (service_text primary n)"
    and "\<And>n. n \<noteq> PRIMARY_VIDEO_SERVICE \<Longrightarrow> n \<in> subs conn \<longleftrightarrow> serves sv (service_text primary n) (ci_id c)"
  shows "agrees primary c conn sv"
  using assms by (auto simp: agrees_def row_def)

lemma displays_contains:
  "server_inv sv \<Longrightarrow> contains sv n \<Longrightarrow> contains (snd (conn_capture_displays c source follow a s t sv)) n"
  using add_videos [of sv source a] add_videos [of "fold (add_video_service source) a sv" source t]
  by (auto simp: conn_capture_displays_def Let_def capture_displays_laws)

lemma subs_try_sub:
  "subs (try_sub_monitor_services e t conn) =
     (if is_remote conn \<and> \<not> services_subed conn \<and> server_alive e
      then subs conn \<union> {n. n \<notin> set (noperms e (conn\<lparr>services_subed := True\<rparr>))} else subs conn)"
proof -
  have "n \<in> set desktop_services" for n by (cases n) (simp_all add: desktop_services_def)
  then show ?thesis by (simp add: try_sub_monitor_services_def Let_def emit_def)
qed

lemma try_add_laws:
  "server_inv sv \<Longrightarrow> server_inv (try_add_primay_video_service p sv)"
  "serves (try_add_primay_video_service p sv) n i = serves sv n i"
  "contains sv n \<Longrightarrow> contains (try_add_primay_video_service p sv) n"
  by (simp_all add: try_add_primay_video_service_def add_video_service_inv serves_add_video contains_add_video)

lemma switch_laws:
  assumes "server_inv sv"
  shows "server_inv (conn_switch_display c source primary m i j sv)"
    "contains sv n \<Longrightarrow> contains (conn_switch_display c source primary m i j sv) n"
    "\<not> is_video_service_name n \<Longrightarrow> serves (conn_switch_display c source primary m i j sv) n k = serves sv n k"
proof -
  have a: "server_inv (add_video_service source i sv)" using assms by (rule add_video_service_inv)
  have v: "\<not> is_video_service_name n \<Longrightarrow> n \<noteq> get_service_name source x" for x by auto
  show "server_inv (conn_switch_display c source primary m i j sv)"
    "contains sv n \<Longrightarrow> contains (conn_switch_display c source primary m i j sv) n"
    "\<not> is_video_service_name n \<Longrightarrow> serves (conn_switch_display c source primary m i j sv) n k = serves sv n k"
    using assms a v
    by (auto simp: conn_switch_display_def Let_def server_subscribe_inv serves_subscribe serves_add_video contains_add_video)
qed

lemma agrees_foreign:
  assumes a: "agrees primary c conn sv" and f: "foreign_id st = Some i" "i \<noteq> ci_id c"
  shows "agrees primary c conn (foreign_table primary st sv)"
proof (rule agreesI)
  note inv = agreesD(1) [OF a]
  note inv' = try_add_laws(1) [OF inv, of primary]
  have d: "conn_capture_displays d source follow x y z sv = (multi, sv') \<Longrightarrow> server_inv sv'
      \<and> (ci_id d \<noteq> ci_id c \<longrightarrow> serves sv' n (ci_id c) = serves sv n (ci_id c))" for d source follow x y z multi sv' n
    using conn_displays_frame(1) [OF inv] conn_displays_frame(2) [OF inv, of d source follow x y z multi sv' "ci_id c" n] by metis
  show "server_inv (foreign_table primary st sv)"
    using inv inv' d by (auto simp: foreign_table_def server_subscribe_inv add_connection_inv remove_connection_inv
        split: table_step.split) (metis prod.collapse)
  fix n :: service_name assume n: "n \<noteq> PRIMARY_VIDEO_SERVICE"
  show "contains (foreign_table primary st sv) (service_text primary n)"
    using agreesD(2) [OF a n] try_add_laws(3) displays_contains [OF inv]
    by (auto simp: foreign_table_def split: table_step.split)
  have "serves (foreign_table primary st sv) (service_text primary n) (ci_id c) = serves sv (service_text primary n) (ci_id c)"
    using f inv inv' d by (auto simp: foreign_table_def foreign_id_def serves_subscribe serves_add_connection try_add_laws
        serves_remove_connection split: table_step.splits) (metis prod.collapse)+
  then show "n \<in> subs conn \<longleftrightarrow> serves (foreign_table primary st sv) (service_text primary n) (ci_id c)"
    using agreesD(3) [OF a n] by simp
qed

lemma agrees_own:
  assumes a: "agrees primary c conn sv" and "foreign_id st = None"
  shows "agrees primary c (own_session e primary c st conn sv) (own_table e primary c st conn sv)"
proof (cases "server_alive e")
  case False
  then show ?thesis using a
    by (auto simp: own_table_def own_session_def agrees_def subscribe_def subs_try_sub capture_displays_def split: table_step.split)
next
  case True
  note inv = agreesD(1) [OF a]
  note inv' = try_add_laws(1) [OF inv, of primary]
  show ?thesis
  proof (cases st)
    case (Own_Subscribe n b)
    then show ?thesis using True agreesD [OF a]
      by (intro agreesI) (auto simp: own_table_def own_session_def subscribe_def server_subscribe_inv serves_subscribe service_text_inj)
  next
    case (Own_Logon t)
    then show ?thesis using True agreesD [OF a] inv'
      by (intro agreesI) (auto simp: own_table_def own_session_def subs_try_sub add_connection_inv serves_add_connection
          try_add_laws service_text_inj service_text_video image_iff)
  next
    case (Own_Displays source x y z)
    let ?f = "follow_remote_window (opts conn)"
    obtain multi sv' where r: "conn_capture_displays c source ?f (map scast x) (map scast y) (map scast z) sv = (multi, sv')"
      by (cases "conn_capture_displays c source ?f (map scast x) (map scast y) (map scast z) sv")
    have focus: "?f \<Longrightarrow> serves sv' ''window_focus'' (ci_id c) \<longleftrightarrow> \<not> multi"
      and still: "\<not> ?f \<Longrightarrow> serves sv' ''window_focus'' (ci_id c) = serves sv ''window_focus'' (ci_id c)"
      using conn_displays_focus [OF inv r] agreesD(2) [OF a, of NAME_WINDOW_FOCUS] by (simp_all add: service_text_def)
    have rT: "fst (conn_capture_displays c source True (map scast x) (map scast y) (map scast z) sv) = multi"
      "snd (conn_capture_displays c source True (map scast x) (map scast y) (map scast z) sv) = sv'" if ?f
      using r that by simp_all
    show ?thesis
    proof (rule agreesI)
      show "server_inv (own_table e primary c st conn sv)"
        using conn_displays_frame(1) [OF inv r] by (simp add: own_table_def Own_Displays True r)
      fix n :: service_name assume n: "n \<noteq> PRIMARY_VIDEO_SERVICE"
      show "contains (own_table e primary c st conn sv) (service_text primary n)"
        using displays_contains [OF inv agreesD(2) [OF a n]] by (simp add: own_table_def Own_Displays True)
      show "n \<in> subs (own_session e primary c st conn sv) \<longleftrightarrow> serves (own_table e primary c st conn sv) (service_text primary n) (ci_id c)"
        using focus still agreesD(3) [OF a n] conn_displays_frame(3) [OF inv r, of "service_text primary n" "ci_id c"] n True
        by (cases "n = NAME_WINDOW_FOCUS")
           (auto simp: own_table_def own_session_def Own_Displays r rT capture_displays_def Let_def subscribe_def emit_def
             service_text_video service_text_focus service_text_def [of primary NAME_WINDOW_FOCUS])
    qed
  next
    case (Own_Switch source idx)
    then show ?thesis using True agreesD [OF a] switch_laws [OF inv]
      by (intro agreesI) (auto simp: own_table_def own_session_def switch_display_to_def emit_def service_text_video)
  next
    case Own_Leave
    then show ?thesis using True agreesD [OF a]
      by (intro agreesI) (auto simp: own_table_def own_session_def remove_connection_inv serves_remove_connection)
  qed (use assms(2) in \<open>simp_all add: foreign_id_def\<close>)
qed

lemma agrees_run:
  "agrees primary c conn sv \<Longrightarrow> \<forall>(e, st) \<in> set steps. foreign_id st \<noteq> Some (ci_id c) \<Longrightarrow>
     table_run primary c steps (conn, sv) = (conn', sv') \<Longrightarrow> agrees primary c conn' sv'"
proof (induction steps arbitrary: conn sv)
  case (Cons x steps)
  obtain e st where x: "x = (e, st)" by (cases x)
  show ?case
  proof (cases "foreign_id st")
    case None
    then show ?thesis using Cons agrees_own [OF Cons.prems(1) None, of e] by (simp add: x)
  next
    case (Some i)
    then show ?thesis using Cons agrees_foreign [OF Cons.prems(1) Some] by (simp add: x)
  qed
qed simp


lemma toy_server_row: "\<not> serves toy_server k i" "n \<noteq> PRIMARY_VIDEO_SERVICE \<Longrightarrow> contains toy_server (service_text 0 n)"
proof -
  have "\<not> serves (add_service (service_tmpl_new b m snap) sv) k i" if "\<not> serves sv k i" for b m snap sv
    using that by (auto simp: serves_def add_service_def service_tmpl_new_def hm.get_put is_subed_def simp del: hm_keys_simps split: option.splits)
      (simp_all add: hm_get_def)
  moreover have "\<not> serves (add_video_service Monitor 0 \<lparr>sr_connections = [], sr_services = [], sr_id_count = 1000\<rparr>) k i"
    by (simp add: serves_add_video) (simp add: serves_def hm_get_def)
  ultimately show "\<not> serves toy_server k i" unfolding toy_server_def by blast
  show "n \<noteq> PRIMARY_VIDEO_SERVICE \<Longrightarrow> contains toy_server (service_text 0 n)"
    by (cases n) (simp_all add: toy_server_def contains_def add_service_def service_tmpl_new_def service_text_def)
qed


end
