(* ===== verification/Transfer_Roundtrip.thy ===== *)
theory Transfer_Roundtrip
  imports Transfer_Read
begin

text \<open>
  The two ends of a direct push together: the blocks that the sender of \<open>Transfer_Read\<close> produces from a
  manifest are accepted by the strict receiver of \<open>Transfer_Job\<close>, and leave the files of the sender on
  the disk of the receiver.
\<close>

section \<open>Blocks that are accepted\<close>

text \<open>zstd: what was compressed is decompressed, by the whole-block and by the bounded decoder, and
  compression does not fail.\<close>

definition zstd_law :: "zstd \<Rightarrow> bool" where
  "zstd_law z \<longleftrightarrow> zstd_read_law z
     \<and> (\<forall>d. \<exists>c. zstd_compress z d = Some c \<and> zstd_decode_all z c = Some d \<and> (\<forall>n. zstd_read z n c = Some (take n d)))"

lemma pack_law:
  assumes "zstd_law z" and "pack z name buf = (data, packed)"
  shows "payload z \<lparr>tb_id = i, tb_file_num = n, tb_data = data, tb_compressed = packed\<rparr> = buf"
    and "length data \<le> length buf" and "packed \<Longrightarrow> zstd_read z m data = Some (take m buf)"
    and "\<not> packed \<Longrightarrow> data = buf"
proof -
  obtain c where c: "zstd_compress z buf = Some c" "zstd_decode_all z c = Some buf" "\<forall>n. zstd_read z n c = Some (take n buf)"
    using assms(1) by (auto simp: zstd_law_def)
  show "payload z \<lparr>tb_id = i, tb_file_num = n, tb_data = data, tb_compressed = packed\<rparr> = buf"
    and "length data \<le> length buf" and "packed \<Longrightarrow> zstd_read z m data = Some (take m buf)" and "\<not> packed \<Longrightarrow> data = buf"
    using assms(2) c by (auto simp: pack_def compress_def payload_def decompress_def split: if_splits)
qed

lemma payload_make_block [simp]: "zstd_law z \<Longrightarrow> payload z (make_block z j n buf) = buf"
proof (cases "buf = []")
  case False
  assume z: "zstd_law z"
  obtain data packed where p: "pack z (source_name (j\<lparr>rj_file_num := of_nat n\<rparr>)) buf = (data, packed)" by fastforce
  show ?thesis using False pack_law(1) [OF z p] by (simp add: make_block_def p)
qed (simp add: make_block_def payload_def)

lemma make_block_fields [simp]: "tb_id (make_block z j n buf) = rj_id j" "tb_file_num (make_block z j n buf) = of_nat n"
  by (simp_all add: make_block_def split: prod.split)

lemma make_block_wire: "zstd_law z \<Longrightarrow> length (tb_data (make_block z j n buf)) \<le> length buf"
proof (cases "buf = []")
  case False
  assume z: "zstd_law z"
  obtain data packed where p: "pack z (source_name (j\<lparr>rj_file_num := of_nat n\<rparr>)) buf = (data, packed)" by fastforce
  show ?thesis using False pack_law(2) [OF z p] by (simp add: make_block_def p)
qed (simp add: make_block_def)

lemma decode_make_block:
  assumes "zstd_law z" and "wj_strict w" and "length buf \<le> DIRECT_TRANSFER_MAX_BLOCK_BYTES"
    and "length buf \<le> unat (fe_size (wj_files w ! unat (of_nat n :: i32)))
      - (if of_nat n = wj_file_num w then unat (wj_bytes w) else 0)"
  shows "decode_block z w (make_block z j n buf) = Inr buf"
proof (cases "tb_compressed (make_block z j n buf)")
  case False
  then show ?thesis
    using payload_make_block [OF assms(1), of j n buf] by (simp add: decode_block_def payload_def)
next
  case True
  then have ne: "buf \<noteq> []" by (auto simp: make_block_def)
  obtain data packed where p: "pack z (source_name (j\<lparr>rj_file_num := of_nat n\<rparr>)) buf = (data, packed)" by fastforce
  have d: "tb_data (make_block z j n buf) = data" "packed" using True ne by (auto simp: make_block_def p)
  define limit where "limit = min (unat (fe_size (wj_files w ! unat (of_nat n :: i32)))
      - (if of_nat n = wj_file_num w then unat (wj_bytes w) else 0)) DIRECT_TRANSFER_MAX_BLOCK_BYTES"
  have le: "length buf \<le> limit" using assms(3,4) by (simp add: limit_def)
  have "decompress_direct_transfer_block z data limit = Some buf"
    using pack_law(3) [OF assms(1) p d(2), of "limit + 1"] le by (simp add: decompress_direct_transfer_block_def)
  then show ?thesis
    using True assms(2) d by (simp add: decode_block_def Let_def limit_def)
qed

lemma strict_chunk_accepts:
  assumes "unat (wj_bytes j) \<le> unat n" and "\<not> wj_eof j"
    and "len = min (unat n - unat (wj_bytes j)) DIRECT_TRANSFER_MAX_BLOCK_BYTES"
    and "unat (wj_finished j) + len \<le> unat (wj_total j)"
  shows "strict_chunk n len j = Inr (j\<lparr>wj_eof := len = 0, wj_bytes := of_nat (unat (wj_bytes j) + len)\<rparr>)"
proof -
  have e: "min (unat (n - wj_bytes j)) DIRECT_TRANSFER_MAX_BLOCK_BYTES = len"
    using assms(1,3) by (simp add: unat_sub word_le_nat_alt)
  have "unat n < 2 ^ LENGTH(64)" "unat (wj_total j) < 2 ^ LENGTH(64)" by (rule unsigned_less)+
  then have "\<not> 2 ^ 64 \<le> unat (wj_bytes j) + len" "\<not> 2 ^ 64 \<le> unat (wj_finished j) + len"
      "\<not> unat n < unat (wj_bytes j) + len"
    using assms by simp_all
  moreover have "\<not> n < wj_bytes j" using assms(1) by (simp add: word_less_nat_alt)
  moreover have "\<not> unat (wj_total j) < unat (wj_finished j) + len" using assms(4) by simp
  ultimately show ?thesis
    unfolding strict_chunk_def Let_def e using assms(2) by auto
qed

section \<open>The receiver follows the sender\<close>

text \<open>The receiver is at file \<open>i\<close> with \<open>bytes\<close> of it written; the files from \<open>i\<close> on do not exist yet.\<close>

definition receiving :: "write_job \<Rightarrow> nat \<Rightarrow> nat \<Rightarrow> bool \<Rightarrow> write_job \<Rightarrow> disk \<Rightarrow> bool" where
  "receiving j0 i bytes eof j d \<longleftrightarrow>
     wj_strict j \<and> wj_id j = wj_id j0 \<and> wj_files j = wj_files j0 \<and> wj_total j = wj_total j0
     \<and> wj_open j \<and> i < length (wj_files j0) \<and> wj_file_num j = of_nat i
     \<and> unat (wj_bytes j) = bytes \<and> wj_eof j = eof
     \<and> unat (wj_finished j) = (\<Sum>k < i. unat (fe_size (wj_files j0 ! k))) + bytes
     \<and> (\<forall>k. i \<le> k \<and> k < length (wj_files j0) \<longrightarrow> final d (entry_key (wj_files j0 ! k)) = None)
     \<and> staging d (entry_key (wj_files j0 ! i)) \<noteq> None"

definition awaits :: "write_job \<Rightarrow> nat \<Rightarrow> nat \<Rightarrow> write_job \<Rightarrow> disk \<Rightarrow> bool" where
  "awaits j0 i bytes j d \<longleftrightarrow>
     receiving j0 i bytes False j d
     \<or> bytes = 0 \<and> i = 0 \<and> j = j0 \<and> (\<forall>k < length (wj_files j0). final d (entry_key (wj_files j0 ! k)) = None)
     \<or> bytes = 0 \<and> (\<exists>i'. i = Suc i' \<and> receiving j0 i' (unat (fe_size (wj_files j0 ! i'))) True j d)"

definition strict_start :: "write_job \<Rightarrow> bool" where
  "strict_start j \<longleftrightarrow> wj_strict j \<and> fresh_write_job j \<and> length (wj_files j) < 2 ^ 31
     \<and> distinct (map entry_key (wj_files j))
     \<and> unat (wj_total j) = (\<Sum>k < length (wj_files j). unat (fe_size (wj_files j ! k)))"

lemma sum_le_total:
  fixes i n :: nat
  assumes "i < n"
  shows "(\<Sum>k < i. g k) + g i \<le> (\<Sum>k < n. (g k :: nat))"
proof -
  have "(\<Sum>k < Suc i. g k) \<le> (\<Sum>k < n. g k)" by (rule sum_mono2) (use assms in auto)
  then show ?thesis by simp
qed


lemma good_io_simps [simp]: "sync_ok good_io" "rename_ok good_io" "path_ok good_io" "create_ok good_io" "append_ok good_io"
  by (simp_all add: good_io_def)

text \<open>The step between two files, or within one.\<close>

lemma advance_accepts:
  assumes st: "strict_start j0" and a: "awaits j0 i bytes j d" and i: "i < length (wj_files j0)" and b: "tb_file_num b = of_nat i"
  shows "strict_advance b j = Inr (j\<lparr>wj_bytes := of_nat bytes, wj_eof := False\<rparr>)"
    and "unat (of_nat bytes :: u64) = bytes"
    and "unat (wj_finished j) = (\<Sum>k < i. unat (fe_size (wj_files j0 ! k))) + bytes"
    and "of_nat i = wj_file_num j \<Longrightarrow> unat (wj_bytes j) = bytes"
proof -
  have n: "length (wj_files j0) < 2 ^ 31" using st by (simp add: strict_start_def)
  note w = file_num_word [of i, simplified]
  from a consider (same) "receiving j0 i bytes False j d" | (first) "bytes = 0" "i = 0" "j = j0"
    | (next_one) i' where "bytes = 0" "i = Suc i'" "receiving j0 i' (unat (fe_size (wj_files j0 ! i'))) True j d"
    unfolding awaits_def by blast
  then have "strict_advance b j = Inr (j\<lparr>wj_bytes := of_nat bytes, wj_eof := False\<rparr>) \<and> unat (of_nat bytes :: u64) = bytes
    \<and> unat (wj_finished j) = (\<Sum>k < i. unat (fe_size (wj_files j0 ! k))) + bytes
    \<and> (of_nat i = wj_file_num j \<longrightarrow> unat (wj_bytes j) = bytes)"
  proof cases
    case same
    then have "wj_bytes j = of_nat bytes" "wj_eof j = False" "unat (wj_bytes j) = bytes"
      by (auto simp: receiving_def word_unat_eq_iff)
    then show ?thesis using same by (simp add: strict_advance_def b receiving_def)
  next
    case first
    then show ?thesis using st by (simp add: strict_advance_def b strict_start_def fresh_write_job_def)
  next
    case next_one
    note r = next_one(3) [unfolded receiving_def]
    have s: "sint (wj_file_num j) = int i'" "unat (wj_file_num j) = i'" "sint (of_nat i :: i32) = int i"
      "unat (of_nat i :: i32) = i"
      using r i n next_one(2) file_num_word [of i'] file_num_word [of i] by simp_all
    have "wj_bytes j = fe_size (wj_files j ! i')" using r by (simp add: word_unat_eq_iff)
    then have "strict_advance b j = Inr (j\<lparr>wj_bytes := 0, wj_eof := False\<rparr>)"
      using r s i n next_one(2) by (simp add: strict_advance_def b)
    moreover have "of_nat i \<noteq> wj_file_num j" using s next_one(2) by auto
    ultimately show ?thesis using r next_one(1,2) by simp
  qed
  then show "strict_advance b j = Inr (j\<lparr>wj_bytes := of_nat bytes, wj_eof := False\<rparr>)"
    and "unat (of_nat bytes :: u64) = bytes"
    and "unat (wj_finished j) = (\<Sum>k < i. unat (fe_size (wj_files j0 ! k))) + bytes"
    and "of_nat i = wj_file_num j \<Longrightarrow> unat (wj_bytes j) = bytes" by simp_all
qed

lemma store_accepts:
  assumes st: "strict_start j0" and a: "awaits j0 i bytes j d" and i: "i < length (wj_files j0)" and b: "tb_file_num b = of_nat i"
    and j2: "j2 = j\<lparr>wj_bytes := w, wj_eof := e\<rparr>"
  obtains d' where "store_block good_io b data j2 d = Inr (j2\<lparr>wj_open := True, wj_file_num := of_nat i,
      wj_finished := wj_finished j2 + of_nat (length data), wj_transferred := wj_transferred j2 + of_nat (length (tb_data b))\<rparr>, d')"
    "\<forall>k. i \<le> k \<and> k < length (wj_files j0) \<longrightarrow> final d' (entry_key (wj_files j0 ! k)) = None"
    "staging d' (entry_key (wj_files j0 ! i)) \<noteq> None"
proof -
  have n: "length (wj_files j0) < 2 ^ 31" using st by (simp add: strict_start_def)
  have keys: "distinct (map entry_key (wj_files j0))" using st by (simp add: strict_start_def)
  have wi: "unat (of_nat i :: i32) = i" "sint (of_nat i :: i32) = int i" using i n by (simp_all add: file_num_word)
  from a consider (same) "receiving j0 i bytes False j d"
    | (first) "i = 0" "j = j0" "\<forall>k < length (wj_files j0). final d (entry_key (wj_files j0 ! k)) = None"
    | (next_one) i' where "i = Suc i'" "receiving j0 i' (unat (fe_size (wj_files j0 ! i'))) True j d"
    unfolding awaits_def by blast
  then show thesis
  proof cases
    case same
    then show thesis
      using that by (cases j) (simp add: store_block_def open_target_def receiving_def j2 b wi Let_def)
  next
    case first
    then show thesis
      using that st by (simp add: store_block_def open_target_def j2 b wi strict_start_def fresh_write_job_def Let_def)
  next
    case next_one
    note r = next_one(2) [unfolded receiving_def]
    have i': "i' < length (wj_files j0)" "i' \<noteq> i" using i next_one(1) by simp_all
    have s: "sint (wj_file_num j) = int i'" "unat (wj_file_num j) = i'"
      using r i n next_one(1) file_num_word [of i'] by simp_all
    have neq: "entry_key (wj_files j0 ! k) \<noteq> entry_key (wj_files j0 ! i')" if "i \<le> k" "k < length (wj_files j0)" for k
      using key_neq [OF keys that(2) i'(1)] that(1) next_one(1) by simp
    show thesis
      by (rule that) (use r s i i' wi neq [of i] neq next_one(1) in
        \<open>auto simp: store_block_def open_target_def finalize_write_def finalize_current_file_def j2 b Let_def\<close>)
  qed
qed


lemma awaits_same: "awaits j0 i bytes j d \<Longrightarrow> strict_start j0
  \<Longrightarrow> wj_strict j \<and> wj_id j = wj_id j0 \<and> wj_files j = wj_files j0 \<and> wj_total j = wj_total j0"
  by (auto simp: awaits_def receiving_def strict_start_def)

lemma write_accepts:
  assumes z: "zstd_law z" and st: "strict_start j0" and a: "awaits j0 i bytes j d" and i: "i < length (wj_files j0)"
    and id: "rj_id rj = wj_id j0" and bytes: "bytes \<le> unat (fe_size (wj_files j0 ! i))"
    and len: "length buf = min (unat (fe_size (wj_files j0 ! i)) - bytes) DIRECT_TRANSFER_MAX_BLOCK_BYTES"
  obtains j' d' where "job_write z good_io (make_block z rj i buf) (j, d) = Inr (j', d')"
    "receiving j0 i (bytes + length buf) (buf = []) j' d'"
proof -
  let ?b = "make_block z rj i buf" and ?size = "\<lambda>k. unat (fe_size (wj_files j0 ! k))"
  note same = awaits_same [OF a st]
  note b = make_block_fields(2) [of z rj i buf]
  note adv = advance_accepts [OF st a i b]
  have n: "length (wj_files j0) < 2 ^ 31" using st by (simp add: strict_start_def)
  have wi: "unat (of_nat i :: i32) = i" "sint (of_nat i :: i32) = int i" using i n by (simp_all add: file_num_word)
  have max_len: "length buf \<le> DIRECT_TRANSFER_MAX_BLOCK_BYTES" using len by simp
  have "decode_block z j ?b = Inr buf"
    by (rule decode_make_block) (use z same len bytes adv(4) in \<open>auto simp: wi\<close>)
  moreover have "strict_account ?b (length buf) j
      = strict_chunk (fe_size (wj_files j0 ! i)) (length buf) (j\<lparr>wj_bytes := of_nat bytes, wj_eof := False\<rparr>)"
    using same max_len adv(1) by (simp add: strict_account_def wi)
  moreover let ?j2 = "j\<lparr>wj_bytes := of_nat (bytes + length buf), wj_eof := buf = []\<rparr>"
  have total: "unat (wj_finished j) + length buf \<le> unat (wj_total j)"
    using st same adv(3) sum_le_total [OF i, of ?size] len bytes by (simp add: strict_start_def)
  have "strict_chunk (fe_size (wj_files j0 ! i)) (length buf) (j\<lparr>wj_bytes := of_nat bytes, wj_eof := False\<rparr>)
      = Inr (j\<lparr>wj_bytes := of_nat bytes, wj_eof := False,
          wj_eof := length buf = 0,
          wj_bytes := of_nat (unat (wj_bytes (j\<lparr>wj_bytes := of_nat bytes, wj_eof := False\<rparr>)) + length buf)\<rparr>)"
    by (rule strict_chunk_accepts) (use adv(2) bytes len total in simp_all)
  then have "strict_chunk (fe_size (wj_files j0 ! i)) (length buf) (j\<lparr>wj_bytes := of_nat bytes, wj_eof := False\<rparr>) = Inr ?j2"
    by (cases j) (simp add: adv(2))
  moreover obtain d' where s: "store_block good_io ?b buf ?j2 d = Inr (?j2\<lparr>wj_open := True, wj_file_num := of_nat i,
        wj_finished := wj_finished ?j2 + of_nat (length buf),
        wj_transferred := wj_transferred ?j2 + of_nat (length (tb_data ?b))\<rparr>, d')"
      "\<forall>k. i \<le> k \<and> k < length (wj_files j0) \<longrightarrow> final d' (entry_key (wj_files j0 ! k)) = None"
      "staging d' (entry_key (wj_files j0 ! i)) \<noteq> None"
    by (rule store_accepts [OF st a i b refl])
  moreover have "length (tb_data ?b) \<le> DIRECT_TRANSFER_MAX_BLOCK_BYTES"
    using make_block_wire [OF z, of rj i buf] max_len by simp
  ultimately have w: "job_write z good_io ?b (j, d) = Inr (?j2\<lparr>wj_open := True, wj_file_num := of_nat i,
        wj_finished := wj_finished ?j2 + of_nat (length buf),
        wj_transferred := wj_transferred ?j2 + of_nat (length (tb_data ?b))\<rparr>, d')" (is "_ = Inr (?j3, d')")
    using same id i by (simp add: job_write_def wi)
  have "bytes + length buf < 2 ^ 64"
  proof -
    have "?size i < 2 ^ LENGTH(64)" by (rule unsigned_less)
    then show ?thesis using bytes len by simp
  qed
  then have "unat (of_nat (bytes + length buf) :: u64) = bytes + length buf"
    by (simp only: unsigned_of_nat) (simp add: take_bit_nat_eq_self)
  moreover have "unat (wj_finished j + of_nat (length buf)) = unat (wj_finished j) + length buf"
    by (rule finished_add [OF total])
  ultimately have "receiving j0 i (bytes + length buf) (buf = []) ?j3 d'"
    unfolding receiving_def using same i s adv(3) by (simp del: of_nat_add)
  then show thesis using that w by blast
qed

lemma job_write_all_append:
  "job_write_all z (xs @ ys) s = (case job_write_all z xs s of Inl err \<Rightarrow> Inl err | Inr s \<Rightarrow> job_write_all z ys s)"
proof (induction xs arbitrary: s)
  case (Cons x xs)
  then show ?case by (cases x) (simp split: sum.split)
qed simp

lemma chunks_accepted:
  assumes z: "zstd_law z" and st: "strict_start j0" and i: "i < length (wj_files j0)" and id: "rj_id rj = wj_id j0"
    and "awaits j0 i bytes j d" and "bytes + length content = unat (fe_size (wj_files j0 ! i))"
  shows "\<exists>j' d'. job_write_all z (map (Pair good_io) (file_blocks z rj i content)) (j, d) = Inr (j', d')
    \<and> receiving j0 i (unat (fe_size (wj_files j0 ! i))) True j' d'"
  using assms(5,6)
proof (induction content arbitrary: bytes j d rule: chunks.induct)
  case (1 content)
  have len: "length (take BUF_SIZE content)
      = min (unat (fe_size (wj_files j0 ! i)) - bytes) DIRECT_TRANSFER_MAX_BLOCK_BYTES"
    using "1.prems"(2) by (auto simp: BUF_SIZE_def DIRECT_TRANSFER_MAX_BLOCK_BYTES_def)
  obtain j1 d1 where w: "job_write z good_io (make_block z rj i (take BUF_SIZE content)) (j, d) = Inr (j1, d1)"
    "receiving j0 i (bytes + length (take BUF_SIZE content)) (take BUF_SIZE content = []) j1 d1"
    by (rule write_accepts [OF z st "1.prems"(1) i id _ len]) (use "1.prems"(2) in simp)
  show ?case
  proof (cases "content = []")
    case True
    then show ?thesis
      using w "1.prems"(2) by (simp add: file_blocks_def chunks.simps [of "[]"])
  next
    case False
    then have "awaits j0 i (bytes + length (take BUF_SIZE content)) j1 d1"
      using w(2) by (simp add: awaits_def BUF_SIZE_def)
    moreover have "bytes + length (take BUF_SIZE content) + length (drop BUF_SIZE content) = unat (fe_size (wj_files j0 ! i))"
      using "1.prems"(2) by (simp add: min_def)
    ultimately obtain j' d' where
      "job_write_all z (map (Pair good_io) (file_blocks z rj i (drop BUF_SIZE content))) (j1, d1) = Inr (j', d')"
      "receiving j0 i (unat (fe_size (wj_files j0 ! i))) True j' d'" using "1.IH" [OF False] by blast
    then show ?thesis
      using False w(1) by (simp add: file_blocks_def chunks.simps [of content])
  qed
qed

lemma files_accepted:
  assumes z: "zstd_law z" and st: "strict_start j0" and id: "rj_id rj = wj_id j0"
    and sizes: "\<And>i. i < length (wj_files j0) \<Longrightarrow> length (source i) = unat (fe_size (wj_files j0 ! i))"
    and d: "\<And>k. k < length (wj_files j0) \<Longrightarrow> final d (entry_key (wj_files j0 ! k)) = None"
    and "n \<le> length (wj_files j0)"
  shows "\<exists>j' d'. job_write_all z (map (Pair good_io) (concat (map (\<lambda>i. file_blocks z rj i (source i)) [0..<n]))) (j0, d)
      = Inr (j', d') \<and> (if n = 0 then j' = j0 \<and> d' = d
        else receiving j0 (n - 1) (unat (fe_size (wj_files j0 ! (n - 1)))) True j' d')"
  using assms(6)
proof (induction n)
  case (Suc n)
  then obtain j1 d1 where w: "job_write_all z (map (Pair good_io)
        (concat (map (\<lambda>i. file_blocks z rj i (source i)) [0..<n]))) (j0, d) = Inr (j1, d1)"
    and r: "if n = 0 then j1 = j0 \<and> d1 = d else receiving j0 (n - 1) (unat (fe_size (wj_files j0 ! (n - 1)))) True j1 d1"
    by auto
  have "awaits j0 n 0 j1 d1"
    using r d by (cases n) (auto simp: awaits_def)
  from chunks_accepted [OF z st _ id this, of "source n"] sizes Suc.prems obtain j2 d2 where
    "job_write_all z (map (Pair good_io) (file_blocks z rj n (source n))) (j1, d1) = Inr (j2, d2)"
    "receiving j0 n (unat (fe_size (wj_files j0 ! n))) True j2 d2" by auto
  then show ?case using w by (simp add: job_write_all_append)
qed simp


section \<open>The push as a whole\<close>

definition blocks_of :: "file_message list \<Rightarrow> transfer_block list" where
  "blocks_of ms = concat (map (\<lambda>m. case m of Block_Message b \<Rightarrow> [b] | _ \<Rightarrow> []) ms)"

text \<open>The receiver of a push: all blocks, then the completion.\<close>

definition receive_push ::
  "zstd \<Rightarrow> (write_io \<times> transfer_block) list \<Rightarrow> write_io \<Rightarrow> write_job \<times> disk \<Rightarrow> write_error + write_job \<times> disk"
where
  "receive_push z bs io s =
     (case job_write_all z bs s of Inl err \<Rightarrow> Inl err | Inr s \<Rightarrow> finalize_direct_write io (\<lambda>_. True) s)"

lemma blocks_of_sent [simp]: "blocks_of (map Block_Message bs @ [Done_Message i n]) = bs"
  by (induction bs) (simp_all add: blocks_of_def)

lemma finalize_entries_ok:
  assumes "\<forall>f \<in> set fs. \<exists>c. final d (entry_key f) = Some c \<and> length c = unat (fe_size f)"
    and io: "path_ok io"
  shows "finalize_entries io (\<lambda>_. True) fs d = Inr d"
  using assms(1)
proof (induction fs)
  case (Cons f fs)
  then obtain c where "final d (entry_key f) = Some c" "length c = unat (fe_size f)" by auto
  then have "finalize_entry io (\<lambda>_. True) f d = Inr d" using io by (simp add: finalize_entry_def)
  then show ?case using Cons by simp
qed simp

lemma finalize_accepts:
  assumes st: "strict_start j0" and inv: "strict_inv z bs j d" "bs \<noteq> []" and r: "receiving j0 i (unat (fe_size (wj_files j0 ! i))) True j d"
    and i: "Suc i = length (wj_files j0)"
  shows "\<exists>j' d'. finalize_direct_write good_io (\<lambda>_. True) (j, d) = Inr (j', d')"
proof -
  note r = r [unfolded receiving_def]
  have n: "length (wj_files j0) < 2 ^ 31" using st by (simp add: strict_start_def)
  have wi: "unat (of_nat i :: i32) = i" "sint (of_nat i :: i32) = int i" using i n by (simp_all add: file_num_word)
  have p: "progress z bs j d" using inv by (simp add: strict_inv_def)
  have cur: "current j = i" using r wi by (simp add: current_def)
  let ?key = "\<lambda>k. entry_key (wj_files j0 ! k)"
  obtain content where content: "staging d (?key i) = Some content" using r by auto
  have len: "length content = unat (fe_size (wj_files j0 ! i))"
    using p content r cur by (auto simp: progress_def Let_def)
  let ?d = "d\<lparr>staging := (staging d)(?key i := None), final := (final d)(?key i := Some content)\<rparr>"
  have w: "finalize_write good_io j d = Inr (j\<lparr>wj_open := False\<rparr>, ?d)"
    using r wi content by (simp add: finalize_write_def finalize_current_file_def Let_def)
  have total: "wj_finished j = wj_total j"
  proof -
    have "(\<Sum>k < length (wj_files j0). unat (fe_size (wj_files j0 ! k))) = unat (wj_finished j)"
      using r by (simp add: i [symmetric])
    then show ?thesis using st r by (simp add: strict_start_def word_unat_eq_iff)
  qed
  have finals: "\<forall>f \<in> set (wj_files j0). \<exists>c. final ?d (entry_key f) = Some c \<and> length c = unat (fe_size f)"
  proof
    fix f assume "f \<in> set (wj_files j0)"
    then obtain k where k: "k < length (wj_files j0)" "f = wj_files j0 ! k" by (auto simp: in_set_conv_nth)
    show "\<exists>c. final ?d (entry_key f) = Some c \<and> length c = unat (fe_size f)"
    proof (cases "k = i")
      case True
      then show ?thesis using k len by simp
    next
      case False
      then have "k < i" using k i by simp
      moreover have "?key k \<noteq> ?key i" using False k i st key_neq [of "wj_files j0" k i] by (simp add: strict_start_def)
      ultimately show ?thesis using p k r cur by (simp add: progress_def Let_def)
    qed
  qed
  have "wj_bytes j = fe_size (wj_files j0 ! i)" "wj_eof j" using r by (simp_all add: word_unat_eq_iff)
  then have "finalize_direct_write good_io (\<lambda>_. True) (j, d) = Inr (j\<lparr>wj_open := False\<rparr>, ?d)"
    using r wi i w total finalize_entries_ok [OF finals, of good_io]
    by (simp add: finalize_direct_write_def)
  then show ?thesis by blast
qed

lemma filter_file_blocks:
  assumes "zstd_law z" and "k < 2 ^ 31" and "i < 2 ^ 31"
  shows "sent_for z (file_blocks z j k content) i = (if k = i then content else [])"
proof -
  have num: "unat (of_nat k :: i32) = k" using assms(2) by (simp add: file_num_word)
  have map_c: "concat (map (payload z) (map (make_block z j k) (chunks xs))) = xs" for xs
  proof (induction xs rule: chunks.induct)
    case (1 xs)
    then show ?case using assms(1) by (subst chunks.simps) simp
  qed
  show ?thesis
    using map_c [of content] assms(1) num by (simp add: sent_for_def file_blocks_def filter_map comp_def)
qed

lemma sent_for_append: "sent_for z (xs @ ys) i = sent_for z xs i @ sent_for z ys i"
  by (simp add: sent_for_def)

lemma sent_for_all:
  assumes "zstd_law z" and "n < 2 ^ 31" and "i < n"
  shows "sent_for z (concat (map (\<lambda>k. file_blocks z j k (source k)) [0..<n])) i = source i"
proof -
  have "m \<le> n \<Longrightarrow> sent_for z (concat (map (\<lambda>k. file_blocks z j k (source k)) [0..<m])) i = (if i < m then source i else [])" for m
  proof (induction m)
    case (Suc m)
    then show ?case using filter_file_blocks [OF assms(1), of m i j "source m"] assms(2,3)
      by (auto simp: sent_for_append less_Suc_eq)
  qed simp
  then show ?thesis using assms(3) by simp
qed


lemma manifest_strict_start:
  assumes "validate_direct_transfer_layout lower root True (wj_files w) dirs (wj_total w) = Inr ()"
    and "wj_strict w" and "fresh_write_job w"
  shows "strict_start w"
proof -
  note m = layout_directory_Inr [OF assms(1)]
  have keys: "map entry_key (wj_files w) = map norm_path (map fe_name (wj_files w))"
    by (simp add: entry_key_def)
  have "distinct (map lower (map norm_path (map fe_name (wj_files w)) @ map norm_path dirs))" using m(3) by simp
  then have "distinct (map entry_key (wj_files w))" unfolding keys by (simp add: distinct_map inj_on_def)
  moreover have "unat (wj_total w) = (\<Sum>k < length (wj_files w). unat (fe_size (wj_files w ! k)))"
    using m(6) by (simp add: sum_list_sum_nth atLeast0LessThan)
  moreover have "length (wj_files w) < 2 ^ 31" using m(8) by (simp add: DIRECT_TRANSFER_MAX_ENTRIES_def)
  ultimately show ?thesis using assms(2,3) by (simp add: strict_start_def)
qed



lemma tiny_zstd_law: "zstd_law tiny_zstd"
  unfolding zstd_law_def
proof (intro conjI allI)
  show "zstd_read_law tiny_zstd" by (auto simp: zstd_read_law_def tiny_zstd_def Let_def split: list.splits)
  show "\<exists>c. zstd_compress tiny_zstd d = Some c \<and> zstd_decode_all tiny_zstd c = Some d
      \<and> (\<forall>n. zstd_read tiny_zstd n c = Some (take n d))" for d
    by (simp add: tiny_zstd_def Let_def)
qed


end
