(* ===== verification/Clip_Stream.thy ===== *)
theory Clip_Stream
  imports Transfer_Roundtrip Clip_Route
begin

text \<open>
  The transport of clipboard files: \<open>libs/clipboard/src/file_stream.rs\<close> (module \<open>windows\<close>), and the handlers
  of \<open>libs/clipboard/src/platform/windows.rs\<close> that answer a request for descriptors and announce a copy.

  \<open>stream_state\<close> is the global \<open>STATE\<close>.  An entry of \<open>sending\<close> is the window that the thread of a sender
  shares with the dispatcher, together with how far the thread is (\<open>sender_phase\<close>); one turn of the thread
  is what it does between two waits.  An entry of \<open>receiving\<close> is shared with the reader that \<open>read\<close> is
  for; its loop is \<open>read_some\<close>, and an entry that \<open>release\<close> has taken out counts as failed.  A wait that
  times out is an argument, and so is a channel that takes no message.  Instants are natural numbers.
\<close>

definition MAX_STREAMS :: nat where "MAX_STREAMS = 8"

type_synonym key = "i32 \<times> u64"

section \<open>State\<close>

record stream_source =
  ss_sequence :: u32
  ss_generation :: u64
  ss_paths :: "string option list"

definition source_default :: stream_source where
  "source_default = \<lparr>ss_sequence = 0, ss_generation = 0, ss_paths = []\<rparr>"

record clip_snapshot =
  sn_paths :: "string option list"
  sn_descriptors :: bytes
  sn_clients :: "i32 list"
  sn_used :: nat

record metadata_wait =
  mw_generation :: u64
  mw_format :: u32
  mw_result :: "bytes option option"

record receive =
  rv_frame :: frame
  rv_consumed :: u64
  rv_received :: u64
  rv_chunks :: "bytes list"
  rv_front :: nat
  rv_ended :: bool
  rv_failed :: bool

datatype sender_phase = Opening string | Streaming string read_job u64 bool

record send_window =
  sw_frame :: frame
  sw_sent :: u64
  sw_acknowledged :: u64
  sw_cancelled :: bool
  sw_phase :: sender_phase

record stream_state =
  st_source :: stream_source
  st_snapshots :: "(u64, clip_snapshot) hmap"
  st_remote :: "(i32, u64) hmap"
  st_receiving :: "(key, receive) hmap"
  st_sending :: "(key, send_window) hmap"
  st_metadata :: "(key, metadata_wait) hmap"

definition stream_state_default :: stream_state where
  "stream_state_default =
     \<lparr>st_source = source_default, st_snapshots = [], st_remote = [], st_receiving = [], st_sending = [], st_metadata = []\<rparr>"

definition frame_default :: frame where
  "frame_default = \<lparr>kind = 0, generation = 0, request_id = 0, index = 0, offset = 0, frame_size = 0, data = [], compressed = False\<rparr>"

text \<open>Everything sent goes to one connection.\<close>

type_synonym sent_clips = "(i32 \<times> clipboard_file) list"

definition emit_frame :: "i32 \<Rightarrow> frame \<Rightarrow> sent_clips" where
  "emit_frame conn f = [(conn, FileStream f)]"

section \<open>The receiving end\<close>

definition receive_new :: "frame \<Rightarrow> receive" where
  "receive_new f =
     \<lparr>rv_frame = f, rv_consumed = offset f, rv_received = offset f, rv_chunks = [], rv_front = 0,
      rv_ended = False, rv_failed = False\<rparr>"

definition block_data :: "zstd \<Rightarrow> frame \<Rightarrow> bytes option" where
  "block_data z f =
     (if data f = [] \<or> BLOCK_BYTES < length (data f) then None
      else if compressed f then decompress_direct_transfer_block z (data f) BLOCK_BYTES else Some (data f))"

definition accept_block :: "zstd \<Rightarrow> frame \<Rightarrow> receive \<Rightarrow> receive option" where
  "accept_block z f r =
     (case block_data z f of
        None \<Rightarrow> None
      | Some d \<Rightarrow>
          (case checked_sub (frame_size (rv_frame r)) (rv_received r) of
             None \<Rightarrow> None
           | Some remaining \<Rightarrow>
               if length d \<noteq> min (unat remaining) BLOCK_BYTES \<or> d = []
                  \<or> rv_received r - rv_consumed r + of_nat (length d) > of_nat WINDOW_BYTES
               then None
               else Some (r\<lparr>rv_received := rv_received r + of_nat (length d), rv_chunks := rv_chunks r @ [d]\<rparr>)))"

definition accept :: "zstd \<Rightarrow> frame \<Rightarrow> receive \<Rightarrow> receive option" where
  "accept z f r =
     (if generation f \<noteq> generation (rv_frame r) \<or> index f \<noteq> index (rv_frame r)
         \<or> frame_size f \<noteq> frame_size (rv_frame r) \<or> offset f \<noteq> rv_received r \<or> rv_ended r \<or> rv_failed r
      then None
      else if kind f = BLOCK then accept_block z f r
      else if kind f = END \<and> data f = [] \<and> \<not> compressed f \<and> rv_received r = frame_size (rv_frame r)
      then Some (r\<lparr>rv_ended := True\<rparr>)
      else None)"

text \<open>What the dispatcher does with a frame for a stream that is received.\<close>

definition receive_frame :: "zstd \<Rightarrow> frame \<Rightarrow> receive \<Rightarrow> receive" where
  "receive_frame z f r =
     (if generation f \<noteq> generation (rv_frame r) \<or> index f \<noteq> index (rv_frame r) \<or> frame_size f \<noteq> frame_size (rv_frame r)
      then r
      else case accept z f r of Some r' \<Rightarrow> r' | None \<Rightarrow> r\<lparr>rv_failed := True\<rparr>)"

text \<open>One turn of the loop in \<open>read\<close>: at most \<open>wanted\<close> bytes of the first chunk, and the credit that is due
  when the chunk is used up.\<close>

definition read_some :: "nat \<Rightarrow> receive \<Rightarrow> (bytes \<times> receive \<times> frame option) option" where
  "read_some wanted r =
     (if rv_failed r then None
      else case rv_chunks r of
             [] \<Rightarrow> None
           | front # rest \<Rightarrow>
               let count = min (length front - rv_front r) wanted;
                   out = take count (drop (rv_front r) front);
                   r = r\<lparr>rv_front := rv_front r + count, rv_consumed := rv_consumed r + of_nat count\<rparr>
               in if rv_front r = length front
                  then let r = r\<lparr>rv_chunks := rest, rv_front := 0\<rparr>
                       in Some (out, r, Some ((rv_frame r)\<lparr>kind := CREDIT, offset := rv_consumed r\<rparr>))
                  else Some (out, r, None))"

section \<open>The sending end\<close>

definition send_window_new :: "frame \<Rightarrow> string \<Rightarrow> send_window" where
  "send_window_new f path =
     \<lparr>sw_frame = f, sw_sent = offset f, sw_acknowledged = offset f, sw_cancelled = False, sw_phase = Opening path\<rparr>"

definition window_frame :: "frame \<Rightarrow> send_window \<Rightarrow> send_window" where
  "window_frame f w =
     (if generation f \<noteq> generation (sw_frame w) \<or> index f \<noteq> index (sw_frame w) \<or> frame_size f \<noteq> frame_size (sw_frame w)
      then w
      else if kind f = CANCEL \<or> data f \<noteq> [] \<or> compressed f \<or> offset f < sw_acknowledged w \<or> sw_sent w < offset f
      then w\<lparr>sw_cancelled := True\<rparr>
      else w\<lparr>sw_acknowledged := offset f\<rparr>)"

text \<open>\<open>TransferJob::from_clipboard_file\<close>\<close>

definition from_clipboard_file :: "string \<Rightarrow> bytes \<Rightarrow> u64 \<Rightarrow> read_job option" where
  "from_clipboard_file name content off =
     (if unat off > length content then None
      else Some \<lparr>rj_id = 0,
        rj_files = [\<lparr>fe_type = 0, fe_name = name, fe_hidden = False, fe_size = of_nat (length content), fe_modified_time = 0\<rparr>],
        rj_base_name = ''clipboard.bin'', rj_file_num = 0, rj_is_last_job = False, rj_is_resume = False,
        rj_stream = Some (drop (unat off) content), rj_finished = off, rj_transferred = 0, rj_detect = False,
        rj_confirmed = True, rj_skipped = False, rj_waiting = False, rj_strict = False, rj_identities = [],
        rj_error = None, rj_audit_skipped = False, rj_memory = None\<rparr>)"

text \<open>A turn of the thread of a sender goes on, or ends the thread; what it sends goes to its connection.\<close>

datatype turn = Goes_On send_window | Ends

definition sender_error :: "frame \<Rightarrow> turn \<times> clipboard_file list" where
  "sender_error f = (Ends, [FileStream (f\<lparr>kind := ERROR\<rparr>)])"

text \<open>What the thread finds when it opens its path: the bytes of a file, if it is one, and the file's name.\<close>

definition sender_open :: "(bytes \<times> string) option \<Rightarrow> send_window \<Rightarrow> turn \<times> clipboard_file list" where
  "sender_open found w =
     (let f = sw_frame w in
      case sw_phase w of
        Streaming path j off audit \<Rightarrow> (Goes_On w, [])
      | Opening path \<Rightarrow>
          if sw_cancelled w then sender_error f
          else case found of
                 None \<Rightarrow> sender_error f
               | Some (content, name) \<Rightarrow>
                   if length content \<noteq> unat (frame_size f) then sender_error f
                   else case from_clipboard_file name content (offset f) of
                          None \<Rightarrow> sender_error f
                        | Some j \<Rightarrow> (Goes_On (w\<lparr>sw_phase := Streaming path j (offset f) False\<rparr>), []))"

definition needed :: "frame \<Rightarrow> u64 \<Rightarrow> u64" where
  "needed f off = min (frame_size f - off) (of_nat BLOCK_BYTES)"

text \<open>The wait for credit: the thread sleeps while this holds.\<close>

definition no_credit :: "send_window \<Rightarrow> u64 \<Rightarrow> bool" where
  "no_credit w off \<longleftrightarrow>
     \<not> sw_cancelled w \<and> sw_sent w - sw_acknowledged w + needed (sw_frame w) off > of_nat WINDOW_BYTES"

definition send_block :: "zstd \<Rightarrow> read_io \<Rightarrow> bool \<Rightarrow> send_window \<Rightarrow> turn \<times> clipboard_file list" where
  "send_block z io sent_ok w =
     (let f = sw_frame w in
      case sw_phase w of
        Opening path \<Rightarrow> (Goes_On w, [])
      | Streaming path j off audit \<Rightarrow>
          (case read_block z io j of
             (j', Inr (Some b)) \<Rightarrow>
               if tb_data b = [] then sender_error f
               else if sat_sub (rj_finished j') (rj_finished j) \<noteq> needed f off then sender_error f
               else
                 let files = (if audit then [] else [Files [(path, frame_size f)] 0]);
                     w' = w\<lparr>sw_sent := sw_sent w + needed f off, sw_phase := Streaming path j' (off + needed f off) True\<rparr>
                 in if \<not> sent_ok then (Ends, files @ [FileStream (f\<lparr>kind := ERROR\<rparr>)])
                    else (Goes_On w', files @ [FileStream (f\<lparr>kind := BLOCK, offset := off, data := tb_data b, compressed := tb_compressed b\<rparr>)])
           | _ \<Rightarrow> sender_error f))"

definition sender_turn :: "zstd \<Rightarrow> read_io \<Rightarrow> (bytes \<times> string) option \<Rightarrow> bool \<Rightarrow> bool \<Rightarrow> send_window \<Rightarrow> turn \<times> clipboard_file list" where
  "sender_turn z io found timed_out sent_ok w =
     (let f = sw_frame w in
      case sw_phase w of
        Opening path \<Rightarrow> sender_open found w
      | Streaming path j off audit \<Rightarrow>
          if off < frame_size f then
            (if no_credit w off then if timed_out then sender_error f else (Goes_On w, [])
             else if sw_cancelled w then sender_error f
             else send_block z io sent_ok w)
          else if sent_ok then (Ends, [FileStream (f\<lparr>kind := END, offset := off\<rparr>)])
          else sender_error f)"


section \<open>A stream between two machines\<close>

text \<open>The sender's window and thread (\<open>None\<close> when the thread has ended), the receiver, the frames under way to
  it, the credits under way back, and what the reader has got.\<close>

record flow =
  fl_window :: "send_window option"
  fl_receive :: receive
  fl_data :: "frame list"
  fl_ctrl :: "frame list"
  fl_out :: bytes

definition flow_start :: "frame \<Rightarrow> string \<Rightarrow> flow" where
  "flow_start req path =
     \<lparr>fl_window = Some (send_window_new req path), fl_receive = receive_new req, fl_data = [], fl_ctrl = [], fl_out = []\<rparr>"

definition frames_of :: "clipboard_file list \<Rightarrow> frame list" where
  "frames_of ms = concat (map (\<lambda>m. case m of FileStream f \<Rightarrow> [f] | _ \<Rightarrow> []) ms)"

definition turn_window :: "turn \<Rightarrow> send_window option" where
  "turn_window t = (case t of Goes_On w \<Rightarrow> Some w | Ends \<Rightarrow> None)"

text \<open>The source can be read, in pieces of any size, no wait times out and no channel breaks; apart from
  that the four activities interleave freely.\<close>

inductive flow_step :: "zstd \<Rightarrow> bytes \<Rightarrow> string \<Rightarrow> flow \<Rightarrow> flow \<Rightarrow> bool" for z content name where
  sender: "fl_window s = Some w \<Longrightarrow> (\<And>i. read_sizes io i \<noteq> None) \<Longrightarrow>
    sender_turn z io (Some (content, name)) False True w = (t, ms) \<Longrightarrow> t \<noteq> Goes_On w \<Longrightarrow>
    flow_step z content name s (s\<lparr>fl_window := turn_window t, fl_data := fl_data s @ frames_of ms\<rparr>)"
| deliver: "fl_data s = f # fs \<Longrightarrow>
    flow_step z content name s (s\<lparr>fl_receive := receive_frame z f (fl_receive s), fl_data := fs\<rparr>)"
| reader: "0 < n \<Longrightarrow> read_some n (fl_receive s) = Some (out, r, credit) \<Longrightarrow>
    flow_step z content name s
      (s\<lparr>fl_receive := r, fl_out := fl_out s @ out, fl_ctrl := fl_ctrl s @ (case credit of Some c \<Rightarrow> [c] | None \<Rightarrow> [])\<rparr>)"
| control: "fl_ctrl s = c # cs \<Longrightarrow>
    flow_step z content name s (s\<lparr>fl_window := map_option (window_frame c) (fl_window s), fl_ctrl := cs\<rparr>)"

inductive_cases flow_stepE: "flow_step z content name s s'"

section \<open>The invariant of a stream\<close>

text \<open>A frame belongs to the request; the frames under way continue the file from where the receiver is.\<close>

definition of_request :: "frame \<Rightarrow> frame \<Rightarrow> bool" where
  "of_request req f \<longleftrightarrow> generation f = generation req \<and> index f = index req \<and> frame_size f = frame_size req"

definition next_piece :: "bytes \<Rightarrow> nat \<Rightarrow> bytes" where
  "next_piece content p = take BLOCK_BYTES (drop p content)"

fun flight :: "zstd \<Rightarrow> bytes \<Rightarrow> frame \<Rightarrow> nat \<Rightarrow> frame list \<Rightarrow> nat \<Rightarrow> bool \<Rightarrow> bool" where
  "flight z content req r [] p e \<longleftrightarrow> r = p \<and> \<not> e"
| "flight z content req r (f # fs) p e \<longleftrightarrow>
     of_request req f \<and> unat (offset f) = r \<and>
     (kind f = BLOCK \<and> r < length content \<and> block_data z f = Some (next_piece content r)
        \<and> flight z content req (r + length (next_piece content r)) fs p e
      \<or> kind f = END \<and> data f = [] \<and> \<not> compressed f \<and> fs = [] \<and> e \<and> r = p \<and> p = length content)"

fun credits :: "frame \<Rightarrow> nat \<Rightarrow> frame list \<Rightarrow> nat \<Rightarrow> bool" where
  "credits req a [] l \<longleftrightarrow> a = l"
| "credits req a (c # cs) l \<longleftrightarrow>
     of_request req c \<and> kind c = CREDIT \<and> data c = [] \<and> \<not> compressed c \<and> a \<le> unat (offset c)
     \<and> credits req (unat (offset c)) cs l"

definition job_at :: "bytes \<Rightarrow> nat \<Rightarrow> read_job \<Rightarrow> bool" where
  "job_at content p j \<longleftrightarrow>
     length (rj_files j) = 1 \<and> rj_file_num j = 0 \<and> rj_stream j = Some (drop p content) \<and> rj_finished j = of_nat p
     \<and> \<not> rj_detect j \<and> rj_memory j = None"

definition window_at :: "bytes \<Rightarrow> frame \<Rightarrow> nat \<Rightarrow> nat \<Rightarrow> send_window \<Rightarrow> bool" where
  "window_at content req p a w \<longleftrightarrow>
     sw_frame w = req \<and> \<not> sw_cancelled w \<and> sw_sent w = of_nat p \<and> sw_acknowledged w = of_nat a
     \<and> (case sw_phase w of
          Opening path \<Rightarrow> p = unat (offset req)
        | Streaming path j off audit \<Rightarrow> off = of_nat p \<and> job_at content p j)"

definition receive_at :: "bytes \<Rightarrow> frame \<Rightarrow> nat \<Rightarrow> nat \<Rightarrow> receive \<Rightarrow> bool" where
  "receive_at content req c r v \<longleftrightarrow>
     rv_frame v = req \<and> \<not> rv_failed v \<and> rv_received v = of_nat r \<and> rv_consumed v = of_nat c
     \<and> drop (rv_front v) (concat (rv_chunks v)) = take (r - c) (drop c content)
     \<and> [] \<notin> set (rv_chunks v)
     \<and> (case rv_chunks v of [] \<Rightarrow> rv_front v = 0 | front # rest \<Rightarrow> rv_front v < length front)
     \<and> (rv_ended v \<longrightarrow> r = length content)"

text \<open>\<open>a\<close>, \<open>c\<close>, \<open>r\<close> and \<open>p\<close> are how far the acknowledgement, the reader, the receiver and the sender are; \<open>e\<close>
  tells that the end is under way.\<close>

definition flow_at :: "zstd \<Rightarrow> bytes \<Rightarrow> frame \<Rightarrow> flow \<Rightarrow> nat \<Rightarrow> nat \<Rightarrow> nat \<Rightarrow> nat \<Rightarrow> bool \<Rightarrow> bool" where
  "flow_at z content req s a c r p e \<longleftrightarrow>
     a \<le> c \<and> c \<le> r \<and> r \<le> p \<and> p \<le> length content \<and> p \<le> a + WINDOW_BYTES \<and> unat (offset req) \<le> c
     \<and> fl_out s = take (c - unat (offset req)) (drop (unat (offset req)) content)
     \<and> receive_at content req c r (fl_receive s)
     \<and> flight z content req r (fl_data s) p e
     \<and> (rv_ended (fl_receive s) \<longrightarrow> fl_data s = [])
     \<and> credits req a (fl_ctrl s) (c - rv_front (fl_receive s)) \<and> rv_front (fl_receive s) \<le> c
     \<and> (case fl_window s of
          None \<Rightarrow> p = length content \<and> (e \<or> rv_ended (fl_receive s))
        | Some w \<Rightarrow> window_at content req p a w \<and> \<not> e \<and> \<not> rv_ended (fl_receive s))"

definition flow_inv :: "zstd \<Rightarrow> bytes \<Rightarrow> frame \<Rightarrow> flow \<Rightarrow> bool" where
  "flow_inv z content req s \<longleftrightarrow> (\<exists>a c r p e. flow_at z content req s a c r p e)"

text \<open>A request as \<open>read\<close> makes it, for a file of this content.\<close>

definition good_request :: "bytes \<Rightarrow> frame \<Rightarrow> bool" where
  "good_request content req \<longleftrightarrow>
     length content < 2 ^ 64 \<and> frame_size req = of_nat (length content) \<and> unat (offset req) \<le> length content
     \<and> data req = [] \<and> \<not> compressed req"

text \<open>What is asked of zstd: what it compresses it gives back, and it never compresses to nothing.\<close>

definition zstd_stream_law :: "zstd \<Rightarrow> bool" where
  "zstd_stream_law z \<longleftrightarrow> zstd_law z \<and> (\<forall>d. zstd_compress z d \<noteq> Some [])"

lemma flow_start_inv: "good_request content req \<Longrightarrow> flow_inv z content req (flow_start req path)"
  unfolding flow_inv_def
  by (rule exI [of _ "unat (offset req)"], rule exI [of _ "unat (offset req)"], rule exI [of _ "unat (offset req)"],
      rule exI [of _ "unat (offset req)"], rule exI [of _ False])
     (simp add: flow_at_def flow_start_def receive_at_def receive_new_def window_at_def send_window_new_def good_request_def)


section \<open>The sender\<close>

lemma next_piece_length: "length (next_piece content p) = min (length content - p) BLOCK_BYTES"
  by (simp add: next_piece_def min.commute)

lemma next_piece_not_Nil: "p < length content \<Longrightarrow> next_piece content p \<noteq> []"
  by (simp add: next_piece_def BLOCK_BYTES_def)

lemma needed_at:
  assumes "good_request content req" "p \<le> length content"
  shows "needed req (of_nat p) = of_nat (length (next_piece content p))"
    "unat (needed req (of_nat p)) = length (next_piece content p)"
proof -
  have "unat (frame_size req - of_nat p) = length content - p"
    using assms by (simp add: good_request_def unat_diff_le word_le_nat_alt unat_of_nat)
  moreover have "unat (of_nat BLOCK_BYTES :: u64) = BLOCK_BYTES" by (simp add: BLOCK_BYTES_def)
  ultimately show u: "unat (needed req (of_nat p)) = length (next_piece content p)"
    by (simp add: needed_def next_piece_length min_def word_le_nat_alt)
  show "needed req (of_nat p) = of_nat (length (next_piece content p))"
    by (simp flip: u)
qed

lemma read_block_at:
  assumes "job_at content p j" "p < length content" "length content < 2 ^ 64" "\<And>i. read_sizes io i \<noteq> None"
  shows "\<exists>j' b nm. read_block z io j = (j', Inr (Some b)) \<and> job_at content (p + length (next_piece content p)) j'
    \<and> (tb_data b, tb_compressed b) = pack z nm (next_piece content p)"
proof -
  have j: "\<not> rj_detect j" "rj_memory j = None" "rj_stream j = Some (drop p content)" "\<not> past_end j"
    using assms(1) by (simp_all add: job_at_def past_end_def)
  have f: "fill (read_sizes io) 0 [] (drop p content) = Some (next_piece content p, drop BLOCK_BYTES (drop p content))"
    using fill_general [of "read_sizes io" "[]" "drop p content" 0] assms(4)
    by (simp add: BUF_SIZE_def BLOCK_BYTES_def next_piece_def)
  obtain dt pk where pk: "pack z (source_name j) (next_piece content p) = (dt, pk)" by fastforce
  have "drop BLOCK_BYTES (drop p content) = drop (p + length (next_piece content p)) content"
    by (simp add: next_piece_length min_def add.commute)
  then show ?thesis
    using assms(1) next_piece_not_Nil [OF assms(2)]
    by (auto simp: read_block_def j f pk job_at_def intro!: exI [of _ "source_name j"])
qed

lemma block_data_pack:
  assumes "zstd_stream_law z" "pack z nm piece = (dt, pk)" "piece \<noteq> []" "length piece \<le> BLOCK_BYTES"
  shows "dt \<noteq> []" "block_data z (f\<lparr>kind := BLOCK, offset := off, data := dt, compressed := pk\<rparr>) = Some piece"
proof -
  have law: "zstd_law z" and ne: "\<And>d. zstd_compress z d \<noteq> Some []" using assms(1) by (simp_all add: zstd_stream_law_def)
  obtain c where c: "zstd_compress z piece = Some c" using law by (auto simp: zstd_law_def)
  show dt: "dt \<noteq> []" using assms(2,3) c ne [of piece] by (auto simp: pack_def compress_def split: if_splits)
  have "length dt \<le> BLOCK_BYTES" using pack_law(2) [OF law assms(2)] assms(4) by simp
  then show "block_data z (f\<lparr>kind := BLOCK, offset := off, data := dt, compressed := pk\<rparr>) = Some piece"
    using pack_law(3) [OF law assms(2), of "BLOCK_BYTES + 1"] pack_law(4) [OF law assms(2)] dt assms(4)
    by (auto simp: block_data_def decompress_direct_transfer_block_def)
qed

lemma send_block_at:
  assumes law: "zstd_stream_law z" and req: "good_request content req"
    and w: "window_at content req p a w" "sw_phase w = Streaming path j off audit" and p: "p < length content"
    and io: "\<And>i. read_sizes io i \<noteq> None" and r: "send_block z io True w = (t, ms)"
  shows "\<exists>w' f. t = Goes_On w' \<and> frames_of ms = [f] \<and> of_request req f \<and> unat (offset f) = p \<and> kind f = BLOCK
    \<and> block_data z f = Some (next_piece content p) \<and> window_at content req (p + length (next_piece content p)) a w'
    \<and> sw_sent w' \<noteq> sw_sent w"
proof -
  let ?k = "length (next_piece content p)"
  have N: "length content < 2 ^ 64" using req by (simp add: good_request_def)
  have j: "off = of_nat p" "job_at content p j" and f: "sw_frame w = req" and s: "sw_sent w = of_nat p"
    using w by (simp_all add: window_at_def)
  obtain j' b nm where rb: "read_block z io j = (j', Inr (Some b))" and j': "job_at content (p + ?k) j'"
    and pk: "(tb_data b, tb_compressed b) = pack z nm (next_piece content p)"
    using read_block_at [OF j(2) p N io] by blast
  have k: "0 < ?k" "p + ?k \<le> length content" "?k \<le> BLOCK_BYTES"
    using p by (simp_all add: next_piece_length BLOCK_BYTES_def)
  have piece: "tb_data b \<noteq> []"
    "block_data z (req\<lparr>kind := BLOCK, offset := of_nat p, data := tb_data b, compressed := tb_compressed b\<rparr>) = Some (next_piece content p)"
    using block_data_pack [OF law pk [symmetric] next_piece_not_Nil [OF p] k(3)] by blast+
  have nd: "needed req off = of_nat ?k" using needed_at(1) [OF req] p j(1) by simp
  have "\<not> of_nat (p + ?k) < (of_nat p :: u64)" using k(2) N by (simp add: word_less_nat_alt unat_of_nat del: of_nat_add)
  then have "sat_sub (of_nat (p + ?k)) (of_nat p :: u64) = of_nat ?k" by (simp add: sat_sub_def)
  then have "sat_sub (rj_finished j') (rj_finished j) = needed req off"
    using j j' unfolding job_at_def nd by (simp only:)
  then have "t = Goes_On (w\<lparr>sw_sent := sw_sent w + needed req off, sw_phase := Streaming path j' (off + needed req off) True\<rparr>)"
    and fr: "frames_of ms = [req\<lparr>kind := BLOCK, offset := off, data := tb_data b, compressed := tb_compressed b\<rparr>]"
    using r rb piece(1) w(2) f by (auto simp: send_block_def Let_def frames_of_def split: if_splits)
  moreover have "sw_sent w + needed req off \<noteq> sw_sent w"
  proof -
    have "unat (of_nat ?k :: u64) = ?k" using k(2) N by (simp add: unat_of_nat)
    then show ?thesis using k(1) by (auto simp: nd)
  qed
  ultimately show ?thesis using w(1) j' piece(2) p N
    by (auto simp: window_at_def nd [unfolded j(1)] j(1) s f of_request_def unat_of_nat)
qed

section \<open>The receiver\<close>

lemma accept_block_at:
  assumes req: "good_request content req" and v: "receive_at content req c r v" and ne: "\<not> rv_ended v"
    and le: "c \<le> r" "r < length content" and win: "r + length (next_piece content r) \<le> c + WINDOW_BYTES"
    and f: "of_request req f" "unat (offset f) = r" "kind f = BLOCK" "block_data z f = Some (next_piece content r)"
  shows "receive_frame z f v = v\<lparr>rv_received := of_nat (r + length (next_piece content r)),
      rv_chunks := rv_chunks v @ [next_piece content r]\<rparr>"
proof -
  let ?k = "length (next_piece content r)"
  have N: "length content < 2 ^ 64" "frame_size req = of_nat (length content)" using req by (simp_all add: good_request_def)
  have off: "offset f = of_nat r" by (simp flip: f(2))
  have k: "?k = min (length content - r) BLOCK_BYTES" by (rule next_piece_length)
  have cs: "checked_sub (frame_size req) (of_nat r) = Some (of_nat (length content - r))"
    using N le by (simp add: checked_sub_def word_less_nat_alt unat_of_nat)
  have rest: "unat (of_nat (length content) - of_nat r :: u64) = length content - r"
    using N le by (simp add: unat_diff_le word_le_nat_alt unat_of_nat)
  have win': "\<not> of_nat r - of_nat c + of_nat ?k > (of_nat WINDOW_BYTES :: u64)"
  proof -
    have e: "of_nat r - of_nat c + (of_nat ?k :: u64) = of_nat (r - c + ?k)" using le by simp
    moreover have "r - c + ?k \<le> WINDOW_BYTES" using win le by simp
    moreover have "WINDOW_BYTES < 2 ^ 64" by (simp add: WINDOW_BYTES_def BLOCK_BYTES_def)
    ultimately show ?thesis unfolding e by (simp add: word_less_nat_alt unat_of_nat not_less del: of_nat_add of_nat_diff)
  qed
  have "accept z f v = Some (v\<lparr>rv_received := of_nat r + of_nat ?k, rv_chunks := rv_chunks v @ [next_piece content r]\<rparr>)"
    using v f ne off cs win' rest next_piece_not_Nil [OF le(2)] N le
    by (simp add: accept_def accept_block_def receive_at_def of_request_def k unat_of_nat)
  then show ?thesis using f v by (simp add: receive_frame_def of_request_def receive_at_def)
qed

lemma accept_end_at:
  assumes "good_request content req" "receive_at content req c (length content) v" "\<not> rv_ended v"
    and "of_request req f" "unat (offset f) = length content" "kind f = END" "data f = []" "\<not> compressed f"
  shows "receive_frame z f v = v\<lparr>rv_ended := True\<rparr>"
proof -
  have "offset f = of_nat (length content)" by (simp flip: assms(5))
  then have "accept z f v = Some (v\<lparr>rv_ended := True\<rparr>)"
    using assms by (simp add: accept_def receive_at_def of_request_def good_request_def)
  then show ?thesis using assms by (simp add: receive_frame_def of_request_def receive_at_def)
qed

lemma receive_at_more:
  assumes v: "receive_at content req c r v" and ne: "\<not> rv_ended v" and le: "c \<le> r" "r < length content"
  shows "receive_at content req c (r + length (next_piece content r))
    (v\<lparr>rv_received := of_nat (r + length (next_piece content r)), rv_chunks := rv_chunks v @ [next_piece content r]\<rparr>)"
proof -
  let ?k = "length (next_piece content r)"
  have pos: "0 < ?k" using next_piece_not_Nil [OF le(2)] by simp
  have "rv_front v \<le> length (concat (rv_chunks v))"
    using v by (auto simp: receive_at_def split: list.splits)
  then have "drop (rv_front v) (concat (rv_chunks v) @ next_piece content r) = take (r - c) (drop c content) @ next_piece content r"
    using v by (simp add: receive_at_def)
  also have "\<dots> = take (r + ?k - c) (drop c content)"
  proof -
    have "next_piece content r = take ?k (drop r content)" by (simp add: next_piece_def min_def)
    moreover have "drop (r - c) (drop c content) = drop r content" using le by simp
    moreover have "r + ?k - c = r - c + ?k" using le by simp
    ultimately show ?thesis by (metis take_add)
  qed
  finally have "drop (rv_front v) (concat (rv_chunks v @ [next_piece content r])) = take (r + ?k - c) (drop c content)" by simp
  then show ?thesis using v ne pos by (auto simp: receive_at_def split: list.splits)
qed

section \<open>The reader\<close>

lemma read_some_at:
  assumes v: "receive_at content req c r v" and le: "c \<le> r" "r \<le> length content" and n: "0 < n"
    and rd: "read_some n v = Some (out, v', credit)"
  shows "\<exists>k. 0 < k \<and> c + k \<le> r \<and> out = take k (drop c content) \<and> receive_at content req (c + k) r v'
    \<and> rv_ended v' = rv_ended v
    \<and> (case credit of
         None \<Rightarrow> rv_front v' = rv_front v + k
       | Some f \<Rightarrow> rv_front v' = 0 \<and> f = req\<lparr>kind := CREDIT, offset := of_nat (c + k)\<rparr>)"
proof -
  obtain front rest where ch: "rv_chunks v = front # rest"
    using rd by (auto simp: read_some_def split: if_splits list.splits)
  have fl: "rv_front v < length front" "[] \<notin> set rest" and fr: "rv_frame v = req" "\<not> rv_failed v"
    using v by (simp_all add: receive_at_def ch)
  define k where "k = min (length front - rv_front v) n"
  have k: "0 < k" "rv_front v + k \<le> length front" using fl(1) n by (auto simp: k_def)
  have rem: "drop (rv_front v) front @ concat rest = take (r - c) (drop c content)"
    using v fl(1) by (simp add: receive_at_def ch)
  have "length (drop (rv_front v) front @ concat rest) = r - c" using le by (simp add: rem)
  then have kr: "c + k \<le> r" using k(2) le(1) by simp
  have out: "take k (drop (rv_front v) front) = take k (drop c content)"
  proof -
    have "take k (drop (rv_front v) front) = take k (drop (rv_front v) front @ concat rest)" using k(2) by simp
    also have "\<dots> = take k (drop c content)" unfolding rem using kr by (simp add: min_def)
    finally show ?thesis .
  qed
  have left: "drop (rv_front v + k) front @ concat rest = take (r - (c + k)) (drop (c + k) content)"
  proof -
    have "drop k (drop (rv_front v) front @ concat rest) = drop (rv_front v + k) front @ concat rest"
      using k(2) by (simp add: add.commute)
    then show ?thesis unfolding rem by (simp add: drop_take add.commute)
  qed
  show ?thesis
  proof (cases "rv_front v + k = length front")
    case True
    then have "out = take k (drop c content)" "credit = Some (req\<lparr>kind := CREDIT, offset := of_nat (c + k)\<rparr>)"
      and "v' = v\<lparr>rv_consumed := of_nat (c + k), rv_chunks := rest, rv_front := 0\<rparr>"
      using rd out fr v by (simp_all add: read_some_def ch Let_def k_def [symmetric] receive_at_def)
    moreover have "concat rest = take (r - (c + k)) (drop (c + k) content)" using left True by simp
    ultimately show ?thesis using v k(1) kr fl(2)
      by (intro exI [of _ k]) (auto simp: receive_at_def split: list.split)
  next
    case False
    then have "out = take k (drop c content)" "credit = None"
      and "v' = v\<lparr>rv_front := rv_front v + k, rv_consumed := of_nat (c + k)\<rparr>"
      using rd out fr v by (simp_all add: read_some_def ch Let_def k_def [symmetric] receive_at_def)
    then show ?thesis using v k kr False left by (intro exI [of _ k]) (simp add: receive_at_def ch)
  qed
qed

section \<open>The steps of a stream\<close>

lemma flight_le: "flight z content req r fs p e \<Longrightarrow> r \<le> p"
  by (induction fs arbitrary: r) fastforce+

lemma flight_block:
  "flight z content req r fs p False \<Longrightarrow> of_request req f \<Longrightarrow> unat (offset f) = p \<Longrightarrow> kind f = BLOCK \<Longrightarrow> p < length content
   \<Longrightarrow> block_data z f = Some (next_piece content p)
   \<Longrightarrow> flight z content req r (fs @ [f]) (p + length (next_piece content p)) False"
  by (induction fs arbitrary: r) auto

lemma flight_end:
  "flight z content req r fs p False \<Longrightarrow> of_request req f \<Longrightarrow> unat (offset f) = p \<Longrightarrow> kind f = END \<Longrightarrow> data f = []
   \<Longrightarrow> \<not> compressed f \<Longrightarrow> p = length content \<Longrightarrow> flight z content req r (fs @ [f]) p True"
  by (induction fs arbitrary: r) auto

lemma credits_le: "credits req a cs l \<Longrightarrow> a \<le> l"
  by (induction cs arbitrary: a) fastforce+

lemma credits_snoc:
  "credits req a cs l \<Longrightarrow> of_request req c \<Longrightarrow> kind c = CREDIT \<Longrightarrow> data c = [] \<Longrightarrow> \<not> compressed c \<Longrightarrow> l \<le> unat (offset c)
   \<Longrightarrow> credits req a (cs @ [c]) (unat (offset c))"
  by (induction cs arbitrary: a) auto

lemma window_fits: "WINDOW_BYTES < 2 ^ 64"
  by (simp add: WINDOW_BYTES_def BLOCK_BYTES_def)

lemma no_credit_at:
  assumes req: "good_request content req" and w: "window_at content req p a w" and le: "a \<le> p" "p \<le> length content" "p \<le> a + WINDOW_BYTES"
  shows "no_credit w (of_nat p) \<longleftrightarrow> WINDOW_BYTES < p - a + length (next_piece content p)"
proof -
  let ?k = "length (next_piece content p)"
  have e: "sw_sent w - sw_acknowledged w + needed (sw_frame w) (of_nat p) = of_nat (p - a + ?k)"
    using w needed_at(1) [OF req le(2)] le(1) by (simp add: window_at_def)
  have "p - a + ?k \<le> 2 * WINDOW_BYTES" using le by (simp add: next_piece_length WINDOW_BYTES_def)
  then have "p - a + ?k < 2 ^ 64" by (simp add: WINDOW_BYTES_def BLOCK_BYTES_def)
  then show ?thesis using w window_fits
    unfolding no_credit_def e by (simp add: window_at_def word_less_nat_alt unat_of_nat del: of_nat_add of_nat_diff)
qed

lemma sender_opens:
  assumes req: "good_request content req" and w: "window_at content req p a w" "sw_phase w = Opening path"
    and r: "sender_open (Some (content, name)) w = (t, ms)"
  shows "\<exists>j. ms = [] \<and> t = Goes_On (w\<lparr>sw_phase := Streaming path j (of_nat p) False\<rparr>)
    \<and> window_at content req p a (w\<lparr>sw_phase := Streaming path j (of_nat p) False\<rparr>)"
proof -
  have p: "p = unat (offset req)" "p \<le> length content" and f: "sw_frame w = req" "\<not> sw_cancelled w"
    and sz: "unat (frame_size req) = length content"
    using req w by (auto simp: good_request_def window_at_def unat_of_nat)
  have off: "offset req = of_nat p" by (simp add: p(1))
  obtain j where j: "from_clipboard_file name content (offset req) = Some j" "job_at content p j"
    using p by (simp add: from_clipboard_file_def job_at_def)
  then show ?thesis using r w by (auto simp: sender_open_def f sz off window_at_def)
qed

lemma sender_turn_at:
  assumes law: "zstd_stream_law z" and req: "good_request content req" and w: "window_at content req p a w"
    and le: "a \<le> p" "p \<le> length content" "p \<le> a + WINDOW_BYTES" and io: "\<And>i. read_sizes io i \<noteq> None"
    and r: "sender_turn z io (Some (content, name)) False True w = (t, ms)" and moved: "t \<noteq> Goes_On w"
  obtains (opened) path j where "ms = []" "sw_phase w = Opening path"
      "t = Goes_On (w\<lparr>sw_phase := Streaming path j (of_nat p) False\<rparr>)"
      "window_at content req p a (w\<lparr>sw_phase := Streaming path j (of_nat p) False\<rparr>)"
    | (sent) w' f path j off audit where "t = Goes_On w'" "frames_of ms = [f]" "of_request req f" "unat (offset f) = p"
      "kind f = BLOCK" "block_data z f = Some (next_piece content p)"
      "window_at content req (p + length (next_piece content p)) a w'"
      "p + length (next_piece content p) \<le> a + WINDOW_BYTES" "p < length content"
      "sw_phase w = Streaming path j off audit"
    | (finished) f path j off audit where "t = Ends" "frames_of ms = [f]" "of_request req f" "unat (offset f) = p"
      "kind f = END" "data f = []" "\<not> compressed f" "p = length content" "sw_phase w = Streaming path j off audit"
proof (cases "sw_phase w")
  case (Opening path)
  then have "sender_open (Some (content, name)) w = (t, ms)" using r by (simp add: sender_turn_def)
  from sender_opens [OF req w Opening this] show ?thesis using that(1) [OF _ Opening] by blast
next
  case (Streaming path j off audit)
  have f: "sw_frame w = req" "\<not> sw_cancelled w" and off: "off = of_nat p" using w Streaming by (simp_all add: window_at_def)
  have N: "length content < 2 ^ 64" "frame_size req = of_nat (length content)" "data req = []" "\<not> compressed req"
    using req by (simp_all add: good_request_def)
  have more: "off < frame_size req \<longleftrightarrow> p < length content"
    using N le by (simp add: off word_less_nat_alt unat_of_nat)
  show ?thesis
  proof (cases "p < length content")
    case True
    then have "\<not> no_credit w off" and b: "send_block z io True w = (t, ms)"
      using r moved f Streaming more by (auto simp: sender_turn_def split: if_splits)
    then have "p + length (next_piece content p) \<le> a + WINDOW_BYTES"
      using no_credit_at [OF req w le] le(1) by (simp add: off)
    then show ?thesis using send_block_at [OF law req w Streaming True io b] True Streaming that(2) by blast
  next
    case False
    then have "p = length content" "t = Ends" "frames_of ms = [req\<lparr>kind := END, offset := off\<rparr>]"
      using r f Streaming more le by (auto simp: sender_turn_def frames_of_def)
    then show ?thesis using N Streaming
      by (intro that(3) [of "req\<lparr>kind := END, offset := off\<rparr>"]) (simp_all add: of_request_def off unat_of_nat)
  qed
qed

lemma flow_sender:
  assumes law: "zstd_stream_law z" and req: "good_request content req" and s: "flow_at z content req s a c r p e"
    and w: "fl_window s = Some w" and io: "\<And>i. read_sizes io i \<noteq> None"
    and t: "sender_turn z io (Some (content, name)) False True w = (t, ms)" "t \<noteq> Goes_On w"
  shows "flow_inv z content req (s\<lparr>fl_window := turn_window t, fl_data := fl_data s @ frames_of ms\<rparr>)"
proof -
  have at: "window_at content req p a w" "\<not> e" "\<not> rv_ended (fl_receive s)" and le: "a \<le> p" "p \<le> length content" "p \<le> a + WINDOW_BYTES"
    and fl: "flight z content req r (fl_data s) p False"
    using s w by (auto simp: flow_at_def)
  let ?k = "length (next_piece content p)"
  from law req at(1) le io t show ?thesis
  proof (cases rule: sender_turn_at)
    case (opened path j)
    then have "flow_at z content req (s\<lparr>fl_window := turn_window t, fl_data := fl_data s @ frames_of ms\<rparr>) a c r p e"
      using s at by (simp add: flow_at_def turn_window_def frames_of_def)
    then show ?thesis unfolding flow_inv_def by blast
  next
    case (sent w' f path j off audit)
    have "p + ?k \<le> length content" using le(2) by (simp add: next_piece_length)
    then have "flow_at z content req (s\<lparr>fl_window := turn_window t, fl_data := fl_data s @ frames_of ms\<rparr>) a c r (p + ?k) False"
      using s at sent flight_block [OF fl] by (simp add: flow_at_def turn_window_def)
    then show ?thesis unfolding flow_inv_def by blast
  next
    case (finished f path j off audit)
    then have "flow_at z content req (s\<lparr>fl_window := turn_window t, fl_data := fl_data s @ frames_of ms\<rparr>) a c r p True"
      using s at flight_end [OF fl] by (simp add: flow_at_def turn_window_def)
    then show ?thesis unfolding flow_inv_def by blast
  qed
qed

lemma flow_deliver:
  assumes req: "good_request content req" and s: "flow_at z content req s a c r p e" and d: "fl_data s = f # fs"
  shows "flow_inv z content req (s\<lparr>fl_receive := receive_frame z f (fl_receive s), fl_data := fs\<rparr>)"
proof -
  let ?v = "fl_receive s" and ?k = "length (next_piece content r)"
  have v: "receive_at content req c r ?v" "\<not> rv_ended ?v" "c \<le> r" and f: "of_request req f" "unat (offset f) = r"
    and fl: "flight z content req r (f # fs) p e" and win: "p \<le> a + WINDOW_BYTES" "a \<le> c"
    using s d by (auto simp: flow_at_def)
  from fl consider (block) "kind f = BLOCK" "r < length content" "block_data z f = Some (next_piece content r)"
      "flight z content req (r + ?k) fs p e"
    | (finish) "kind f = END" "data f = []" "\<not> compressed f" "fs = []" e "r = p" "p = length content" by auto
  then show ?thesis
  proof cases
    case block
    have "r + ?k \<le> p" using block(4) by (rule flight_le)
    then have "receive_frame z f ?v = ?v\<lparr>rv_received := of_nat (r + ?k), rv_chunks := rv_chunks ?v @ [next_piece content r]\<rparr>"
      using accept_block_at [OF req v(1,2,3) block(2) _ f block(1,3)] win by simp
    then have "flow_at z content req (s\<lparr>fl_receive := receive_frame z f ?v, fl_data := fs\<rparr>) a c (r + ?k) p e"
      using s receive_at_more [OF v block(2)] v(2,3) \<open>r + ?k \<le> p\<close> block(4)
      by (simp add: flow_at_def split: option.splits del: of_nat_add)
    then show ?thesis unfolding flow_inv_def by blast
  next
    case finish
    then have "receive_frame z f ?v = ?v\<lparr>rv_ended := True\<rparr>"
      using accept_end_at [OF req _ v(2) f(1)] v(1) f(2) by simp
    then have "flow_at z content req (s\<lparr>fl_receive := receive_frame z f ?v, fl_data := fs\<rparr>) a c r p False"
      using s finish v(1) by (auto simp: flow_at_def receive_at_def split: option.splits list.splits)
    then show ?thesis unfolding flow_inv_def by blast
  qed
qed

lemma flow_reader:
  assumes req: "good_request content req" and s: "flow_at z content req s a c r p e" and n: "0 < n"
    and rd: "read_some n (fl_receive s) = Some (out, v', credit)"
  shows "flow_inv z content req (s\<lparr>fl_receive := v', fl_out := fl_out s @ out,
    fl_ctrl := fl_ctrl s @ (case credit of Some f \<Rightarrow> [f] | None \<Rightarrow> [])\<rparr>)"
proof -
  let ?o = "unat (offset req)"
  have le: "c \<le> r" "r \<le> p" "p \<le> length content" "?o \<le> c" "rv_front (fl_receive s) \<le> c" and v: "receive_at content req c r (fl_receive s)"
    and cr: "credits req a (fl_ctrl s) (c - rv_front (fl_receive s))"
    and o: "fl_out s = take (c - ?o) (drop ?o content)"
    using s by (auto simp: flow_at_def)
  have rN: "r \<le> length content" using le by simp
  obtain k where k: "0 < k" "c + k \<le> r" "out = take k (drop c content)" "receive_at content req (c + k) r v'"
    "rv_ended v' = rv_ended (fl_receive s)" "case credit of
         None \<Rightarrow> rv_front v' = rv_front (fl_receive s) + k
       | Some f \<Rightarrow> rv_front v' = 0 \<and> f = req\<lparr>kind := CREDIT, offset := of_nat (c + k)\<rparr>"
    using read_some_at [OF v le(1) rN n rd] by blast
  have "fl_out s @ out = take (c - ?o) (drop ?o content) @ take k (drop (c - ?o) (drop ?o content))"
    using o k(3) le(4) by simp
  also have "\<dots> = take (c - ?o + k) (drop ?o content)" by (rule take_add [symmetric])
  also have "c - ?o + k = c + k - ?o" using le(4) by simp
  finally have out: "fl_out s @ out = take (c + k - ?o) (drop ?o content)" .
  have "c + k < 2 ^ 64" using req k(2) rN by (simp add: good_request_def)
  then have u: "unat (of_nat (c + k) :: u64) = c + k" by (simp add: unat_of_nat del: of_nat_add)
  have "credits req a (fl_ctrl s @ (case credit of Some f \<Rightarrow> [f] | None \<Rightarrow> [])) (c + k - rv_front v') \<and> rv_front v' \<le> c + k"
  proof (cases credit)
    case None then show ?thesis using cr k(6) le(5) by simp
  next
    case (Some f)
    then show ?thesis using credits_snoc [OF cr, of f] k(6) req u by (simp add: of_request_def good_request_def del: of_nat_add)
  qed
  then have "flow_at z content req (s\<lparr>fl_receive := v', fl_out := fl_out s @ out,
    fl_ctrl := fl_ctrl s @ (case credit of Some f \<Rightarrow> [f] | None \<Rightarrow> [])\<rparr>) a (c + k) r p e"
    using s out k(2,4,5) le by (simp add: flow_at_def split: option.splits)
  then show ?thesis unfolding flow_inv_def by blast
qed

lemma flow_control:
  assumes s: "flow_at z content req s a c r p e" and cs: "fl_ctrl s = f # cs" and N: "length content < 2 ^ 64"
  shows "flow_inv z content req (s\<lparr>fl_window := map_option (window_frame f) (fl_window s), fl_ctrl := cs\<rparr>)"
proof -
  let ?a = "unat (offset f)"
  have f: "of_request req f" "kind f = CREDIT" "data f = []" "\<not> compressed f" "a \<le> ?a"
    and cr: "credits req ?a cs (c - rv_front (fl_receive s))" and le: "c \<le> r" "r \<le> p" "p \<le> length content"
    using s cs by (auto simp: flow_at_def)
  have ac: "?a \<le> c" using credits_le [OF cr] by simp
  have "window_at content req p ?a (window_frame f w)" if w: "window_at content req p a w" for w
  proof -
    have "window_frame f w = w\<lparr>sw_acknowledged := offset f\<rparr>"
      using w f ac le N by (auto simp: window_frame_def window_at_def of_request_def word_less_nat_alt unat_of_nat)
    then show ?thesis using w by (simp add: window_at_def)
  qed
  then have "flow_at z content req (s\<lparr>fl_window := map_option (window_frame f) (fl_window s), fl_ctrl := cs\<rparr>) ?a c r p e"
    using s cr ac f(5) by (auto simp: flow_at_def split: option.splits)
  then show ?thesis unfolding flow_inv_def by blast
qed

lemma flow_inv_step:
  assumes "flow_step z content name s s'" "flow_inv z content req s" "zstd_stream_law z" "good_request content req"
  shows "flow_inv z content req s'"
proof -
  obtain a c r p e where at: "flow_at z content req s a c r p e" using assms(2) by (auto simp: flow_inv_def)
  have N: "length content < 2 ^ 64" using assms(4) by (simp add: good_request_def)
  from assms(1) show ?thesis
  proof (cases rule: flow_step.cases)
    case (sender w io t ms)
    from flow_sender [OF assms(3,4) at sender(2,3,4,5)] show ?thesis unfolding sender(1) .
  next
    case (deliver f fs)
    from flow_deliver [OF assms(4) at deliver(2)] show ?thesis unfolding deliver(1) .
  next
    case (reader n out v credit)
    from flow_reader [OF assms(4) at reader(2,3)] show ?thesis unfolding reader(1) .
  next
    case (control f cs)
    from flow_control [OF at control(2) N] show ?thesis unfolding control(1) .
  qed
qed

lemma flow_inv_reachable:
  assumes "(flow_step z content name)\<^sup>*\<^sup>* (flow_start req path) s" "zstd_stream_law z" "good_request content req"
  shows "flow_inv z content req s"
  using assms(1) by (induction rule: rtranclp_induct) (use flow_start_inv [OF assms(3)] flow_inv_step assms(2,3) in blast)+

section \<open>What a stream delivers\<close>

text \<open>C15 A reader of a clipboard file gets the file: in every state that the sender, the receiver, the reader and
  the two channels can reach together, what has been read is the part of the file after the requested
  offset, in order and without a gap, no frame has been refused, and neither what the sender has
  sent and the reader has not acknowledged nor what the receiver holds exceeds the window of eight blocks.\<close>

theorem stream_reads_file:
  assumes "zstd_stream_law z" "good_request content req" "(flow_step z content name)\<^sup>*\<^sup>* (flow_start req path) s"
  shows "fl_out s = take (length (fl_out s)) (drop (unat (offset req)) content)
    \<and> \<not> rv_failed (fl_receive s)
    \<and> (case fl_window s of None \<Rightarrow> True | Some w \<Rightarrow>
         \<not> sw_cancelled w \<and> unat (sw_acknowledged w) \<le> unat (sw_sent w)
         \<and> unat (sw_sent w) - unat (sw_acknowledged w) \<le> WINDOW_BYTES)
    \<and> length (concat (rv_chunks (fl_receive s))) - rv_front (fl_receive s) \<le> WINDOW_BYTES"
proof (intro conjI)
  obtain a c r p e where at: "flow_at z content req s a c r p e"
    using flow_inv_reachable [OF assms(3,1,2)] by (auto simp: flow_inv_def)
  have N: "length content < 2 ^ 64" using assms(2) by (simp add: good_request_def)
  show "fl_out s = take (length (fl_out s)) (drop (unat (offset req)) content)" "\<not> rv_failed (fl_receive s)"
    using at by (simp_all add: flow_at_def receive_at_def min_def)
  show "case fl_window s of None \<Rightarrow> True | Some w \<Rightarrow>
      \<not> sw_cancelled w \<and> unat (sw_acknowledged w) \<le> unat (sw_sent w) \<and> unat (sw_sent w) - unat (sw_acknowledged w) \<le> WINDOW_BYTES"
    using at N by (auto simp: flow_at_def window_at_def unat_of_nat split: option.split)
  have "length (drop (rv_front (fl_receive s)) (concat (rv_chunks (fl_receive s)))) \<le> r - c"
    using at by (simp add: flow_at_def receive_at_def)
  also have "\<dots> \<le> WINDOW_BYTES"
  proof -
    have "a \<le> c" "r \<le> p" "p \<le> a + WINDOW_BYTES" using at by (simp_all add: flow_at_def)
    then show ?thesis by linarith
  qed
  finally show "length (concat (rv_chunks (fl_receive s))) - rv_front (fl_receive s) \<le> WINDOW_BYTES" by simp
qed

text \<open>A stream comes to its end: every step makes \<open>flow_measure\<close> smaller, and a state in which nothing can
  happen is one in which everything has been read.\<close>

definition flow_measure :: "bytes \<Rightarrow> frame \<Rightarrow> flow \<Rightarrow> nat" where
  "flow_measure content req s =
     (case fl_window s of
        None \<Rightarrow> 0
      | Some w \<Rightarrow> 2 * (length content - unat (sw_sent w)) + (case sw_phase w of Opening p \<Rightarrow> 4 | Streaming p j off audit \<Rightarrow> 2))
     + length (fl_data s) + 2 * (length content - (unat (offset req) + length (fl_out s))) + length (fl_ctrl s)"

lemma window_frame_keeps [simp]: "sw_sent (window_frame f w) = sw_sent w" "sw_phase (window_frame f w) = sw_phase w"
  by (simp_all add: window_frame_def)

lemma measure_sender:
  assumes law: "zstd_stream_law z" and req: "good_request content req" and s: "flow_at z content req s a c r p e"
    and w: "fl_window s = Some w" and io: "\<And>i. read_sizes io i \<noteq> None"
    and t: "sender_turn z io (Some (content, name)) False True w = (t, ms)" "t \<noteq> Goes_On w"
  shows "flow_measure content req (s\<lparr>fl_window := turn_window t, fl_data := fl_data s @ frames_of ms\<rparr>) < flow_measure content req s"
proof -
  have at: "window_at content req p a w" and le: "a \<le> p" "p \<le> length content" "p \<le> a + WINDOW_BYTES"
    and N: "length content < 2 ^ 64"
    using s w req by (auto simp: flow_at_def good_request_def)
  let ?k = "length (next_piece content p)"
  have sent: "unat (sw_sent w) = p" using at le N by (simp add: window_at_def unat_of_nat)
  from law req at le io t show ?thesis
  proof (cases rule: sender_turn_at)
    case (opened path j)
    then show ?thesis using w by (simp add: flow_measure_def turn_window_def frames_of_def)
  next
    case (sent w' f path j off audit)
    have k: "0 < ?k" "p + ?k \<le> length content" using sent(9) by (simp_all add: next_piece_length BLOCK_BYTES_def)
    then have "unat (sw_sent w') = p + ?k" using sent(7) N by (simp add: window_at_def unat_of_nat del: of_nat_add)
    moreover obtain path' j' off' audit' where "sw_phase w' = Streaming path' j' off' audit'"
    proof (cases "sw_phase w'")
      case (Opening path)
      then have "p + ?k = unat (offset req)" using sent(7) by (simp add: window_at_def)
      moreover have "unat (offset req) \<le> c" "c \<le> r" "r \<le> p" using s by (simp_all add: flow_at_def)
      ultimately show ?thesis using k(1) by linarith
    qed
    moreover have "2 * (length content - (p + ?k)) + 1 < 2 * (length content - p)" using k by linarith
    ultimately show ?thesis using w sent(1,2,10) \<open>unat (sw_sent w) = p\<close> by (simp add: flow_measure_def turn_window_def)
  next
    case (finished f path j off audit)
    then show ?thesis using w by (simp add: flow_measure_def turn_window_def)
  qed
qed

lemma measure_step:
  assumes step: "flow_step z content name s s'" and inv: "flow_inv z content req s" and law: "zstd_stream_law z" "good_request content req"
  shows "flow_measure content req s' < flow_measure content req s"
proof -
  obtain a c r p e where at: "flow_at z content req s a c r p e" using inv by (auto simp: flow_inv_def)
  from step show ?thesis
  proof (cases rule: flow_step.cases)
    case (sender w io t ms)
    from measure_sender [OF law at sender(2,3,4,5)] show ?thesis unfolding sender(1) .
  next
    case (deliver f fs)
    then show ?thesis by (simp add: flow_measure_def)
  next
    case (reader n out v credit)
    have v: "receive_at content req c r (fl_receive s)" "c \<le> r" "r \<le> length content" and l: "length (fl_out s) = c - unat (offset req)"
      "unat (offset req) \<le> c"
      using at by (auto simp: flow_at_def)
    obtain k where "0 < k" "c + k \<le> r" "out = take k (drop c content)"
      using read_some_at [OF v reader(2,3)] by blast
    then show ?thesis using v(2,3) l by (auto simp: reader(1) flow_measure_def split: option.split)
  next
    case (control f cs)
    then show ?thesis by (simp add: flow_measure_def split: option.split)
  qed
qed

lemma flow_run_measure:
  assumes "zstd_stream_law z" "good_request content req"
  shows "(flow_step z content name ^^ n) (flow_start req path) s
    \<Longrightarrow> flow_inv z content req s \<and> n + flow_measure content req s \<le> flow_measure content req (flow_start req path)"
proof (induction n arbitrary: s)
  case 0
  then show ?case using flow_start_inv [OF assms(2)] by auto
next
  case (Suc n)
  obtain u where u: "(flow_step z content name ^^ n) (flow_start req path) u" "flow_step z content name u s"
    using Suc.prems by auto
  then show ?case using Suc.IH [OF u(1)] flow_inv_step [OF u(2) _ assms] measure_step [OF u(2) _ assms] by fastforce
qed

definition steady_io :: read_io where
  "steady_io =
     \<lparr>source_valid = True, opened = None, source_still_valid = True, source_identity = None, source_digest = None,
      read_sizes = (\<lambda>_. Some 1), resume_from = None\<rparr>"

lemma steady_io_reads: "read_sizes steady_io i \<noteq> None"
  by (simp add: steady_io_def)

text \<open>The thread of a sender goes on as long as the reader has read everything.\<close>

lemma sender_not_stuck:
  assumes law: "zstd_stream_law z" and req: "good_request content req" and w: "window_at content req p p w" and p: "p \<le> length content"
  shows "fst (sender_turn z steady_io (Some (content, name)) False True w) \<noteq> Goes_On w"
proof (cases "sw_phase w")
  case (Opening path)
  obtain t ms where r: "sender_open (Some (content, name)) w = (t, ms)" by fastforce
  have "w\<lparr>sw_phase := Streaming path j (of_nat p) False\<rparr> \<noteq> w" for j
  proof
    assume "w\<lparr>sw_phase := Streaming path j (of_nat p) False\<rparr> = w"
    from arg_cong [OF this, of sw_phase] show False by (simp add: Opening)
  qed
  then show ?thesis using sender_opens [OF req w Opening r] Opening r by (auto simp: sender_turn_def)
next
  case (Streaming path j off audit)
  have f: "sw_frame w = req" "\<not> sw_cancelled w" and off: "off = of_nat p" using w Streaming by (simp_all add: window_at_def)
  have N: "length content < 2 ^ 64" "frame_size req = of_nat (length content)" using req by (simp_all add: good_request_def)
  show ?thesis
  proof (cases "p < length content")
    case True
    have "\<not> no_credit w off"
      using no_credit_at [OF req w _ p] by (simp add: off next_piece_length WINDOW_BYTES_def)
    moreover obtain t ms where b: "send_block z steady_io True w = (t, ms)" by fastforce
    moreover have "off < frame_size req" using N True by (simp add: off word_less_nat_alt unat_of_nat)
    ultimately have "sender_turn z steady_io (Some (content, name)) False True w = (t, ms)"
      using Streaming f by (simp add: sender_turn_def)
    then show ?thesis using send_block_at [OF law req w Streaming True steady_io_reads b] by auto
  next
    case False
    then show ?thesis using p N Streaming f by (simp add: sender_turn_def off)
  qed
qed

lemma stuck_read_all:
  assumes law: "zstd_stream_law z" and req: "good_request content req" and at: "flow_at z content req s a c r p e"
    and stuck: "\<nexists>s'. flow_step z content name s s'"
  shows "fl_window s = None \<and> rv_ended (fl_receive s) \<and> fl_out s = drop (unat (offset req)) content"
proof -
  have ctrl: "fl_ctrl s = []" and dt: "fl_data s = []"
    using stuck flow_step.control flow_step.deliver by (metis neq_Nil_conv)+
  have v: "receive_at content req c r (fl_receive s)" and le: "c \<le> r" "r \<le> p" "p \<le> length content"
    and fl: "r = p" "\<not> e" and l: "a = c - rv_front (fl_receive s)"
    using at by (auto simp: flow_at_def ctrl dt)
  have ch: "rv_chunks (fl_receive s) = []"
  proof (rule ccontr)
    assume "rv_chunks (fl_receive s) \<noteq> []"
    then have "read_some 1 (fl_receive s) \<noteq> None"
      using v by (auto simp: read_some_def receive_at_def Let_def split: list.split)
    then show False using stuck flow_step.reader [of 1 s] by fastforce
  qed
  have c: "c = r" "a = c"
    using v le l by (auto simp: receive_at_def ch dest!: arg_cong [of _ _ length])
  have w: "fl_window s = None"
  proof (cases "fl_window s")
    case (Some w)
    obtain t ms where t: "sender_turn z steady_io (Some (content, name)) False True w = (t, ms)" by fastforce
    have "window_at content req p p w" using at Some c fl by (simp add: flow_at_def)
    from sender_not_stuck [OF law req this le(3), of name] have "t \<noteq> Goes_On w" by (simp add: t)
    then show ?thesis using stuck flow_step.sender [OF Some steady_io_reads t] by blast
  qed simp
  then have "p = length content" "rv_ended (fl_receive s)" using at fl by (simp_all add: flow_at_def)
  then show ?thesis using at w c fl by (simp add: flow_at_def)
qed

text \<open>C20 A stream comes to its end, and what it ends with is the file: however the activities interleave, at most
  four steps for each byte that was asked for and four more are possible, and when none is possible any
  more the reader has had every byte after the requested offset, the end mark has arrived and the sender's
  thread has ended.\<close>

theorem stream_completes:
  assumes "zstd_stream_law z" "good_request content req" "(flow_step z content name ^^ n) (flow_start req path) s"
  shows "n \<le> 4 * (length content - unat (offset req)) + 4
    \<and> ((\<nexists>s'. flow_step z content name s s') \<longrightarrow>
         fl_out s = drop (unat (offset req)) content \<and> rv_ended (fl_receive s) \<and> fl_window s = None)"
proof (intro conjI impI)
  have m: "flow_inv z content req s" "n + flow_measure content req s \<le> flow_measure content req (flow_start req path)"
    using flow_run_measure [OF assms] by simp_all
  have "flow_measure content req (flow_start req path) = 4 * (length content - unat (offset req)) + 4"
    by (simp add: flow_measure_def flow_start_def send_window_new_def)
  then show "n \<le> 4 * (length content - unat (offset req)) + 4" using m(2) by linarith
  assume stuck: "\<nexists>s'. flow_step z content name s s'"
  obtain a c r p e where "flow_at z content req s a c r p e" using m(1) by (auto simp: flow_inv_def)
  from stuck_read_all [OF assms(1,2) this stuck]
  show "fl_out s = drop (unat (offset req)) content" "rv_ended (fl_receive s)" "fl_window s = None" by simp_all
qed

lemma flow_stops:
  assumes "zstd_stream_law z" "good_request content req"
  shows "flow_inv z content req s \<Longrightarrow> \<exists>n u. (flow_step z content name ^^ n) s u \<and> (\<nexists>s'. flow_step z content name u s')"
proof (induction "flow_measure content req s" arbitrary: s rule: less_induct)
  case less
  show ?case
  proof (cases "\<exists>s'. flow_step z content name s s'")
    case True
    then obtain s' where s': "flow_step z content name s s'" by blast
    obtain n u where "(flow_step z content name ^^ n) s' u" "\<nexists>v. flow_step z content name u v"
      using less.hyps [OF measure_step [OF s' less.prems assms] flow_inv_step [OF s' less.prems assms]] by blast
    then show ?thesis using relpowp_Suc_I2 [of "flow_step z content name", OF s'] by blast
  next
    case False
    then show ?thesis by (intro exI [of _ 0] exI [of _ s]) simp
  qed
qed

definition toy_request :: frame where
  "toy_request = frame_default\<lparr>kind := REQUEST, generation := 7, request_id := 9, frame_size := 3, offset := 1\<rparr>"

lemma toy_request_good: "good_request [4, 5, 6] toy_request"
  by (simp add: good_request_def toy_request_def frame_default_def)

lemma tiny_zstd_stream_law: "zstd_stream_law tiny_zstd"
  by (simp add: zstd_stream_law_def tiny_zstd_law) (simp add: tiny_zstd_def Let_def)

lemma toy_stream_stops:
  "\<exists>n s. (flow_step tiny_zstd [4, 5, 6] ''a'' ^^ n) (flow_start toy_request ''C:/a'') s
    \<and> (\<nexists>s'. flow_step tiny_zstd [4, 5, 6] ''a'' s s')"
  by (rule flow_stops [OF tiny_zstd_stream_law toy_request_good flow_start_inv [OF toy_request_good]])

lemma toy_request_offset: "unat (offset toy_request) = 1"
  by (simp add: toy_request_def frame_default_def)

theorem stream_completes_witness:
  "\<exists>n s. (flow_step tiny_zstd [4, 5, 6] ''a'' ^^ n) (flow_start toy_request ''C:/a'') s \<and> n \<le> 12 \<and> fl_out s = [5, 6]"
proof -
  obtain n s where r: "(flow_step tiny_zstd [4, 5, 6] ''a'' ^^ n) (flow_start toy_request ''C:/a'') s"
    and stuck: "\<nexists>s'. flow_step tiny_zstd [4, 5, 6] ''a'' s s'"
    using toy_stream_stops by blast
  show ?thesis using r stream_completes [OF tiny_zstd_stream_law toy_request_good r] stuck
    by (intro exI [of _ n] exI [of _ s]) (simp add: toy_request_offset)
qed

theorem stream_reads_file_witness:
  "\<exists>s. (flow_step tiny_zstd [4, 5, 6] ''a'')\<^sup>*\<^sup>* (flow_start toy_request ''C:/a'') s \<and> fl_out s = [5, 6] \<and> \<not> rv_failed (fl_receive s)"
proof -
  obtain n s where r: "(flow_step tiny_zstd [4, 5, 6] ''a'' ^^ n) (flow_start toy_request ''C:/a'') s"
    and stuck: "\<nexists>s'. flow_step tiny_zstd [4, 5, 6] ''a'' s s'"
    using toy_stream_stops by blast
  have inv: "flow_inv tiny_zstd [4, 5, 6] toy_request s"
    using flow_run_measure [OF tiny_zstd_stream_law toy_request_good r] by simp
  then have "fl_out s = [5, 6]"
    using stuck_read_all [OF tiny_zstd_stream_law toy_request_good _ stuck] by (auto simp: flow_inv_def toy_request_offset)
  then show ?thesis
    using stream_reads_file [OF tiny_zstd_stream_law toy_request_good relpowp_imp_rtranclp [OF r]] relpowp_imp_rtranclp [OF r]
    by blast
qed

end
