(* ===== verification/Clip_Transport.thy ===== *)
theory Clip_Transport
  imports Clip_Stream
begin

text \<open>
  The operations of \<open>libs/clipboard/src/file_stream.rs\<close> on the global \<open>STATE\<close>, and the callers of
  \<open>libs/clipboard/src/platform/windows.rs\<close>: the copies that are offered and the snapshots of their files, the
  requests for descriptors, the dispatcher of frames, the reader's calls, and what is dropped with a connection.

  A call that blocks is split where it sleeps: \<open>descriptors\<close> into what is before and after the wait, \<open>read\<close> into
  its opening and one step for each turn of its loop.  Random numbers, instants, what a thread finds when it
  opens a file and what the clipboard of the system answers are arguments.  \<open>clip_step\<close> is one such event, and
  \<open>clip_run\<close> a sequence of them, with a log of everything sent, the newest first.
\<close>

definition MAX_PATHS :: nat where "MAX_PATHS = 16384"

definition METADATA_BYTES :: nat where "METADATA_BYTES = 4 + 16384 * 592"

section \<open>Copies that are offered\<close>

definition stream_announce :: "u32 \<Rightarrow> bool \<Rightarrow> u64 \<Rightarrow> stream_state \<Rightarrow> u64 \<times> stream_state" where
  "stream_announce sequence local_files fresh st =
     (if \<not> local_files then (0, st\<lparr>st_source := source_default\<rparr>)
      else let st = (if ss_sequence (st_source st) \<noteq> sequence \<or> ss_generation (st_source st) = 0
                     then st\<lparr>st_source := \<lparr>ss_sequence = sequence, ss_generation = max fresh 1, ss_paths = []\<rparr>\<rparr>
                     else st)
           in (ss_generation (st_source st), st))"

definition stream_snapshot :: "u32 \<Rightarrow> string option list \<Rightarrow> stream_state \<Rightarrow> stream_state" where
  "stream_snapshot sequence paths st =
     (if ss_sequence (st_source st) = sequence \<and> length paths \<le> MAX_PATHS
      then st\<lparr>st_source := (st_source st)\<lparr>ss_paths := paths\<rparr>\<rparr> else st)"

text \<open>\<open>min_by_key\<close>: the first of the entries with the earliest instant.\<close>

fun least_used :: "(u64, clip_snapshot) hmap \<Rightarrow> (u64 \<times> nat) option" where
  "least_used [] = None"
| "least_used ((g, s) # m) =
     (case least_used m of
        None \<Rightarrow> Some (g, sn_used s)
      | Some (g', u) \<Rightarrow> if sn_used s \<le> u then Some (g, sn_used s) else Some (g', u))"

definition being_sent :: "u64 \<Rightarrow> stream_state \<Rightarrow> bool" where
  "being_sent g st \<longleftrightarrow> (\<exists>(key, w) \<in> set (st_sending st). generation (sw_frame w) = g)"

definition make_room :: "u64 \<Rightarrow> stream_state \<Rightarrow> (u64, clip_snapshot) hmap" where
  "make_room gen st =
     (if 32 \<le> length (st_snapshots st) \<and> hm_get (st_snapshots st) gen = None
      then case least_used (filter (\<lambda>(g, s). \<not> being_sent g st) (st_snapshots st)) of
             None \<Rightarrow> st_snapshots st
           | Some (g, u) \<Rightarrow> hm_del g (st_snapshots st)
      else st_snapshots st)"

definition remember_metadata :: "nat \<Rightarrow> i32 \<Rightarrow> u64 \<Rightarrow> bytes \<Rightarrow> stream_state \<Rightarrow> stream_state" where
  "remember_metadata now conn gen d st =
     (if ss_generation (st_source st) \<noteq> gen \<or> METADATA_BYTES < length d then st
      else let snaps = make_room gen st;
               sn = (case hm_get snaps gen of
                       Some sn \<Rightarrow> sn
                     | None \<Rightarrow> \<lparr>sn_paths = ss_paths (st_source st), sn_descriptors = d, sn_clients = [], sn_used = now\<rparr>)
           in st\<lparr>st_snapshots := hm_put gen (sn\<lparr>sn_clients := List.insert conn (sn_clients sn), sn_used := now\<rparr>) snaps\<rparr>)"

definition cached_metadata :: "nat \<Rightarrow> i32 \<Rightarrow> u64 \<Rightarrow> stream_state \<Rightarrow> bytes option \<times> stream_state" where
  "cached_metadata now conn gen st =
     (case hm_get (st_snapshots st) gen of
        None \<Rightarrow> (None, st)
      | Some sn \<Rightarrow>
          if conn \<notin> set (sn_clients sn) then (None, st)
          else (Some (sn_descriptors sn), st\<lparr>st_snapshots := hm_put gen (sn\<lparr>sn_used := now\<rparr>) (st_snapshots st)\<rparr>))"

definition set_remote_generation :: "i32 \<Rightarrow> u64 \<Rightarrow> stream_state \<Rightarrow> stream_state" where
  "set_remote_generation conn gen st = st\<lparr>st_remote := hm_put conn gen (st_remote st)\<rparr>"

definition remote_generation :: "i32 \<Rightarrow> stream_state \<Rightarrow> u64" where
  "remote_generation conn st = (case hm_get (st_remote st) conn of Some g \<Rightarrow> g | None \<Rightarrow> 0)"

definition source_is_current :: "u64 \<Rightarrow> u32 \<Rightarrow> stream_state \<Rightarrow> bool" where
  "source_is_current gen sequence st \<longleftrightarrow>
     gen \<noteq> 0 \<and> ss_generation (st_source st) = gen \<and> ss_sequence (st_source st) = sequence"

section \<open>Requests for descriptors\<close>

definition descriptors_frame :: "u32 \<Rightarrow> u64 \<Rightarrow> u64 \<Rightarrow> u32 \<Rightarrow> frame" where
  "descriptors_frame k gen i format = frame_default\<lparr>kind := k, generation := gen, request_id := i, index := format\<rparr>"

text \<open>Before the wait: the number of the request, unless there are too many.\<close>

definition descriptors_begin :: "i32 \<Rightarrow> u64 \<Rightarrow> u32 \<Rightarrow> u64 \<Rightarrow> stream_state \<Rightarrow> u64 option \<times> stream_state \<times> sent_clips" where
  "descriptors_begin conn gen format fresh st =
     (let i = max fresh 1 in
      if MAX_STREAMS \<le> length (st_metadata st) \<or> hm_get (st_metadata st) (conn, i) \<noteq> None then (None, st, [])
      else (Some i,
            st\<lparr>st_metadata := hm_put (conn, i) \<lparr>mw_generation = gen, mw_format = format, mw_result = None\<rparr> (st_metadata st)\<rparr>,
            emit_frame conn (descriptors_frame DESCRIPTORS_REQUEST gen i format)))"

text \<open>After it: the result if there is one (\<open>sent_ok\<close> tells that the request could be sent).\<close>

definition descriptors_end :: "i32 \<Rightarrow> u64 \<Rightarrow> u32 \<Rightarrow> u64 \<Rightarrow> bool \<Rightarrow> stream_state \<Rightarrow> bytes option \<times> stream_state \<times> sent_clips" where
  "descriptors_end conn gen format i sent_ok st =
     (let result = (if sent_ok
                    then case hm_get (st_metadata st) (conn, i) of
                           Some w \<Rightarrow> (case mw_result w of Some r \<Rightarrow> r | None \<Rightarrow> None)
                         | None \<Rightarrow> None
                    else None)
      in (result, st\<lparr>st_metadata := hm_del (conn, i) (st_metadata st)\<rparr>,
          if result = None then emit_frame conn (descriptors_frame CANCEL gen i format) else []))"

definition descriptors_ready :: "key \<Rightarrow> stream_state \<Rightarrow> bool" where
  "descriptors_ready key st \<longleftrightarrow>
     (case hm_get (st_metadata st) key of Some w \<Rightarrow> mw_result w \<noteq> None | None \<Rightarrow> False)"

section \<open>Senders\<close>

definition stream_reject :: "i32 \<Rightarrow> clipboard_file \<Rightarrow> sent_clips" where
  "stream_reject conn clip =
     (case clip of
        FileStream f \<Rightarrow>
          if kind f = REQUEST \<or> kind f = DESCRIPTORS_REQUEST
          then emit_frame conn (f\<lparr>kind := ERROR, data := [], compressed := False\<rparr>) else []
      | _ \<Rightarrow> [])"

definition start_send :: "nat \<Rightarrow> bool \<Rightarrow> i32 \<Rightarrow> frame \<Rightarrow> stream_state \<Rightarrow> bool \<times> stream_state \<times> sent_clips" where
  "start_send now spawned conn f st =
     (if request_id f = 0 \<or> frame_size f < offset f \<or> data f \<noteq> [] \<or> compressed f then (False, st, [])
      else if MAX_STREAMS \<le> length (st_sending st) \<or> hm_get (st_sending st) (conn, request_id f) \<noteq> None \<or> generation f = 0
      then (False, st, [])
      else case hm_get (st_snapshots st) (generation f) of
             None \<Rightarrow> (False, st, [])
           | Some sn \<Rightarrow>
               if conn \<notin> set (sn_clients sn) then (False, st, [])
               else
                 let st = st\<lparr>st_snapshots := hm_put (generation f) (sn\<lparr>sn_used := now\<rparr>) (st_snapshots st)\<rparr> in
                 case (if unat (index f) < length (sn_paths sn) then sn_paths sn ! unat (index f) else None) of
                   None \<Rightarrow> (False, st, [])
                 | Some path \<Rightarrow>
                     if spawned
                     then (True, st\<lparr>st_sending := hm_put (conn, request_id f) (send_window_new f path) (st_sending st)\<rparr>, [])
                     else (False, st, emit_frame conn (f\<lparr>kind := ERROR\<rparr>)))"

definition sender_step :: "zstd \<Rightarrow> read_io \<Rightarrow> (bytes \<times> string) option \<Rightarrow> bool \<Rightarrow> bool \<Rightarrow> key \<Rightarrow> stream_state \<Rightarrow> stream_state \<times> sent_clips" where
  "sender_step z io found timed_out sent_ok key st =
     (case hm_get (st_sending st) key of
        None \<Rightarrow> (st, [])
      | Some w \<Rightarrow>
          (case sender_turn z io found timed_out sent_ok w of
             (Goes_On w', ms) \<Rightarrow> (st\<lparr>st_sending := hm_put key w' (st_sending st)\<rparr>, map (Pair (fst key)) ms)
           | (Ends, ms) \<Rightarrow> (st\<lparr>st_sending := hm_del key (st_sending st)\<rparr>, map (Pair (fst key)) ms)))"

section \<open>The dispatcher of frames\<close>

definition release_stream :: "i32 \<Rightarrow> u64 \<Rightarrow> stream_state \<Rightarrow> stream_state \<times> sent_clips" where
  "release_stream conn i st =
     (case hm_get (st_receiving st) (conn, i) of
        None \<Rightarrow> (st, [])
      | Some r \<Rightarrow>
          (st\<lparr>st_receiving := hm_del (conn, i) (st_receiving st)\<rparr>,
           emit_frame conn ((rv_frame r)\<lparr>kind := CANCEL, offset := rv_consumed r\<rparr>)))"

definition metadata_answer :: "frame \<Rightarrow> metadata_wait \<Rightarrow> metadata_wait" where
  "metadata_answer f w =
     (if mw_generation w = generation f \<and> mw_format w = index f \<and> offset f = 0 \<and> frame_size f = 0 \<and> mw_result w = None
      then w\<lparr>mw_result := Some (if kind f = DESCRIPTORS_RESPONSE \<and> \<not> compressed f \<and> 4 \<le> length (data f)
                                   \<and> length (data f) \<le> METADATA_BYTES
                                then Some (data f) else None)\<rparr>
      else w)"

definition stream_handle :: "zstd \<Rightarrow> nat \<Rightarrow> bool \<Rightarrow> i32 \<Rightarrow> frame \<Rightarrow> stream_state \<Rightarrow> stream_state \<times> sent_clips" where
  "stream_handle z now spawned conn f st =
     (let key = (conn, request_id f) in
      case (if kind f = DESCRIPTORS_RESPONSE \<or> kind f = ERROR then hm_get (st_metadata st) key else None) of
        Some w \<Rightarrow> (st\<lparr>st_metadata := hm_put key (metadata_answer f w) (st_metadata st)\<rparr>, [])
      | None \<Rightarrow>
          if kind f = REQUEST
          then (case start_send now spawned conn f st of
                  (started, st, ms) \<Rightarrow>
                    (st, if started then ms else ms @ emit_frame conn (f\<lparr>kind := ERROR, data := [], compressed := False\<rparr>)))
          else if kind f = BLOCK \<or> kind f = END \<or> kind f = ERROR
          then (case hm_get (st_receiving st) key of
                  None \<Rightarrow> (st, [])
                | Some r \<Rightarrow> (st\<lparr>st_receiving := hm_put key (receive_frame z f r) (st_receiving st)\<rparr>, []))
          else if kind f = CREDIT \<or> kind f = CANCEL
          then (case hm_get (st_sending st) key of
                  None \<Rightarrow> (st, [])
                | Some w \<Rightarrow> (st\<lparr>st_sending := hm_put key (window_frame f w) (st_sending st)\<rparr>, []))
          else (st, []))"

text \<open>\<open>client_format_data_response\<close> while a request for descriptors is being answered: the connection the
  clipboard of the system names, whether it has descriptors, and them.\<close>

definition format_data_response :: "nat \<Rightarrow> frame \<Rightarrow> i32 \<times> bool \<times> bytes \<Rightarrow> stream_state \<Rightarrow> stream_state \<times> sent_clips" where
  "format_data_response now f answer st =
     (case answer of (conn, ok, d) \<Rightarrow>
        (if ok then remember_metadata now conn (generation f) d st else st,
         emit_frame conn (f\<lparr>kind := if ok then DESCRIPTORS_RESPONSE else ERROR, data := d\<rparr>)))"

text \<open>\<open>server_clip_file\<close> for a frame: \<open>format\<close> is the number of the format of descriptors, \<open>sequence\<close> that of the clipboard,
  and \<open>answer\<close> what the clipboard of the system answers, if it does, when it is asked for the descriptors.\<close>

definition clip_frame_in :: "zstd \<Rightarrow> nat \<Rightarrow> bool \<Rightarrow> u32 \<Rightarrow> u32 \<Rightarrow> (i32 \<times> bool \<times> bytes) option \<Rightarrow> i32 \<Rightarrow> frame \<Rightarrow> stream_state
    \<Rightarrow> stream_state \<times> sent_clips" where
  "clip_frame_in z now spawned format sequence answer conn f st =
     (if kind f = DESCRIPTORS_REQUEST then
        if request_id f = 0 \<or> generation f = 0 \<or> data f \<noteq> [] \<or> compressed f \<or> index f \<noteq> format
        then (st, stream_reject conn (FileStream f))
        else (case cached_metadata now conn (generation f) st of
                (Some d, st) \<Rightarrow> (st, emit_frame conn (f\<lparr>kind := DESCRIPTORS_RESPONSE, data := d, compressed := False\<rparr>))
              | (None, st) \<Rightarrow>
                  if \<not> source_is_current (generation f) sequence st
                  then (st, emit_frame conn (f\<lparr>kind := ERROR, data := []\<rparr>))
                  else (case answer of None \<Rightarrow> (st, []) | Some a \<Rightarrow> format_data_response now f a st))
      else stream_handle z now spawned conn f st)"

text \<open>A list of formats going out names the generation of the copied files, in sixteen hexadecimal digits; one
  coming in is stripped of it.\<close>

definition hex_digit :: "nat \<Rightarrow> char" where
  "hex_digit d = (if d < 10 then char_of (48 + d) else char_of (87 + d))"

fun hex_digits :: "nat \<Rightarrow> nat \<Rightarrow> string" where
  "hex_digits 0 n = []"
| "hex_digits (Suc k) n = hex_digits k (n div 16) @ [hex_digit (n mod 16)]"

definition client_format_list :: "u32 \<Rightarrow> bool \<Rightarrow> u64 \<Rightarrow> (i32 \<times> string) list \<Rightarrow> stream_state \<Rightarrow> (i32 \<times> string) list \<times> stream_state" where
  "client_format_list sequence local_files fresh formats st =
     (case stream_announce sequence local_files fresh st of
        (g, st) \<Rightarrow> (formats @ (if g \<noteq> 0 then [(0, FORMAT_PREFIX @ hex_digits 16 (unat g))] else []), st))"

definition server_format_list :: "i32 \<Rightarrow> (i32 \<times> string) list \<Rightarrow> stream_state \<Rightarrow> (i32 \<times> string) list \<times> stream_state" where
  "server_format_list conn formats st =
     (filter (\<lambda>(i, name). \<not> prefix FORMAT_PREFIX name) formats, set_remote_generation conn (generation_of formats) st)"

section \<open>The end of a connection\<close>

definition forget_client :: "i32 \<Rightarrow> (u64, clip_snapshot) hmap \<Rightarrow> (u64, clip_snapshot) hmap" where
  "forget_client conn m =
     filter (\<lambda>(g, sn). sn_clients sn \<noteq> []) (map (\<lambda>(g, sn). (g, sn\<lparr>sn_clients := filter (\<lambda>c. c \<noteq> conn) (sn_clients sn)\<rparr>)) m)"

definition fail_metadata :: "i32 \<Rightarrow> (key, metadata_wait) hmap \<Rightarrow> (key, metadata_wait) hmap" where
  "fail_metadata conn m = map (\<lambda>(key, w). (key, if fst key = conn then w\<lparr>mw_result := Some None\<rparr> else w)) m"

definition cancel_senders :: "i32 \<Rightarrow> (key, send_window) hmap \<Rightarrow> (key, send_window) hmap" where
  "cancel_senders conn m = map (\<lambda>(key, w). (key, if fst key = conn then w\<lparr>sw_cancelled := True\<rparr> else w)) m"

fun release_all :: "i32 \<Rightarrow> u64 list \<Rightarrow> stream_state \<Rightarrow> stream_state \<times> sent_clips" where
  "release_all conn [] st = (st, [])"
| "release_all conn (i # is) st =
     (case release_stream conn i st of (st, ms) \<Rightarrow> case release_all conn is st of (st, ms') \<Rightarrow> (st, ms @ ms'))"

definition stream_disconnect :: "i32 \<Rightarrow> stream_state \<Rightarrow> stream_state \<times> sent_clips" where
  "stream_disconnect conn st =
     (let st = st\<lparr>st_remote := hm_del conn (st_remote st), st_snapshots := forget_client conn (st_snapshots st),
                  st_metadata := fail_metadata conn (st_metadata st)\<rparr>;
          receivers = map snd (filter (\<lambda>key. fst key = conn) (map fst (st_receiving st)))
      in case release_all conn receivers st of
           (st, ms) \<Rightarrow> (st\<lparr>st_sending := cancel_senders conn (st_sending st)\<rparr>, ms))"

section \<open>Calls of the reader\<close>

datatype read_begun = Read_Refused | Read_Nothing | Read_From u64

definition new_stream :: "i32 \<Rightarrow> u64 \<Rightarrow> u32 \<Rightarrow> u64 \<Rightarrow> u64 \<Rightarrow> u64 \<Rightarrow> bool \<Rightarrow> stream_state \<Rightarrow> read_begun \<times> stream_state \<times> sent_clips" where
  "new_stream conn gen ix sz off i sent_ok st =
     (let f = frame_default\<lparr>kind := REQUEST, generation := gen, request_id := i, index := ix, offset := off, frame_size := sz\<rparr>;
          st = st\<lparr>st_receiving := hm_put (conn, i) (receive_new f) (st_receiving st)\<rparr>
      in if sent_ok then (Read_From i, st, emit_frame conn f)
         else case release_stream conn i st of (st, ms) \<Rightarrow> (Read_Refused, st, emit_frame conn f @ ms))"

text \<open>The stream that a read goes on with, after a seek a new one; \<open>ids\<close> are the random numbers the code draws
  until one is free.\<close>

definition read_begin :: "i32 \<Rightarrow> u64 \<Rightarrow> u32 \<Rightarrow> u64 \<Rightarrow> u64 \<Rightarrow> nat \<Rightarrow> u64 \<Rightarrow> u64 list \<Rightarrow> bool \<Rightarrow> stream_state
    \<Rightarrow> read_begun \<times> stream_state \<times> sent_clips" where
  "read_begin conn gen ix sz off len token ids sent_ok st =
     (if gen = 0 \<or> sz < off then (Read_Refused, st, [])
      else if len = 0 \<or> off = sz then (Read_Nothing, st, [])
      else
        let found = hm_get (st_receiving st) (conn, token);
            fits = (case found of
                      None \<Rightarrow> False
                    | Some r \<Rightarrow> rv_consumed r = off \<and> generation (rv_frame r) = gen \<and> index (rv_frame r) = ix
                                \<and> frame_size (rv_frame r) = sz)
        in if fits then (Read_From token, st, [])
           else case (if found = None then (st, []) else release_stream conn token st) of
             (st, ms) \<Rightarrow>
               if MAX_STREAMS \<le> length (st_receiving st) then (Read_Refused, st, ms)
               else (case find (\<lambda>i. hm_get (st_receiving st) (conn, i) = None) (map (\<lambda>i. max i 1) ids) of
                       None \<Rightarrow> (Read_Refused, st, ms)
                     | Some i \<Rightarrow>
                         (case new_stream conn gen ix sz off i sent_ok st of (b, st, ms') \<Rightarrow> (b, st, ms @ ms'))))"

text \<open>A read that is refused is released by \<open>mdesk_clipboard_stream_read\<close>.\<close>

definition read_open :: "i32 \<Rightarrow> u64 \<Rightarrow> u32 \<Rightarrow> u64 \<Rightarrow> u64 \<Rightarrow> nat \<Rightarrow> u64 \<Rightarrow> u64 list \<Rightarrow> bool \<Rightarrow> stream_state
    \<Rightarrow> read_begun \<times> stream_state \<times> sent_clips" where
  "read_open conn gen ix sz off len token ids sent_ok st =
     (case read_begin conn gen ix sz off len token ids sent_ok st of
        (Read_Refused, st, ms) \<Rightarrow> (case release_stream conn token st of (st, ms') \<Rightarrow> (Read_Refused, st, ms @ ms'))
      | res \<Rightarrow> res)"

text \<open>A call that is in its loop, and one turn of it.\<close>

record reader =
  rd_conn :: i32
  rd_token :: u64
  rd_offset :: u64
  rd_size :: u64
  rd_wanted :: nat
  rd_done :: nat
  rd_output :: bytes

datatype read_turned = Read_Sleeps | Read_Goes_On reader | Read_Done bytes u64 | Read_Broken

definition read_turn :: "bool \<Rightarrow> bool \<Rightarrow> reader \<Rightarrow> stream_state \<Rightarrow> read_turned \<times> stream_state \<times> sent_clips" where
  "read_turn timed_out sent_ok rd st =
     (let key = (rd_conn rd, rd_token rd) in
      case hm_get (st_receiving st) key of
        None \<Rightarrow> (Read_Broken, st, [])
      | Some r \<Rightarrow>
          if rv_chunks r = [] \<and> \<not> rv_failed r \<and> \<not> rv_ended r
          then (if timed_out then Read_Broken else Read_Sleeps, st, [])
          else case read_some (rd_wanted rd - rd_done rd) r of
                 None \<Rightarrow> (Read_Broken, st, [])
               | Some (out, r', credit) \<Rightarrow>
                   let st = st\<lparr>st_receiving := hm_put key r' (st_receiving st)\<rparr>;
                       rd = rd\<lparr>rd_done := rd_done rd + length out, rd_output := rd_output rd @ out\<rparr>
                   in case credit of
                        None \<Rightarrow> (Read_Goes_On rd, st, [])
                      | Some c \<Rightarrow> (if sent_ok then Read_Goes_On rd else Read_Broken, st, emit_frame (rd_conn rd) c))"

definition read_close :: "bool \<Rightarrow> reader \<Rightarrow> stream_state \<Rightarrow> read_turned \<times> stream_state \<times> sent_clips" where
  "read_close timed_out rd st =
     (if rd_offset rd + of_nat (rd_done rd) \<noteq> rd_size rd then (Read_Done (rd_output rd) (rd_token rd), st, [])
      else case hm_get (st_receiving st) (rd_conn rd, rd_token rd) of
             None \<Rightarrow> (Read_Broken, st, [])
           | Some r \<Rightarrow>
               if \<not> rv_ended r \<and> \<not> rv_failed r then (if timed_out then Read_Broken else Read_Sleeps, st, [])
               else if rv_failed r then (Read_Broken, st, [])
               else case release_stream (rd_conn rd) (rd_token rd) st of (st, ms) \<Rightarrow> (Read_Done (rd_output rd) 0, st, ms))"

text \<open>A read that breaks is released by \<open>mdesk_clipboard_stream_read\<close>.\<close>

definition read_step :: "bool \<Rightarrow> bool \<Rightarrow> reader \<Rightarrow> stream_state \<Rightarrow> read_turned \<times> stream_state \<times> sent_clips" where
  "read_step timed_out sent_ok rd st =
     (case (if rd_done rd < rd_wanted rd then read_turn timed_out sent_ok rd st else read_close timed_out rd st) of
        (Read_Broken, st, ms) \<Rightarrow>
          (case release_stream (rd_conn rd) (rd_token rd) st of (st, ms') \<Rightarrow> (Read_Broken, st, ms @ ms'))
      | res \<Rightarrow> res)"

definition read_start :: "i32 \<Rightarrow> u64 \<Rightarrow> u64 \<Rightarrow> u64 \<Rightarrow> nat \<Rightarrow> reader" where
  "read_start conn token sz off len =
     \<lparr>rd_conn = conn, rd_token = token, rd_offset = off, rd_size = sz, rd_wanted = min len (unat (sz - off)),
      rd_done = 0, rd_output = []\<rparr>"


section \<open>Sequences of events\<close>

datatype clip_event =
    Format_List_Out u32 bool u64 "(i32 \<times> string) list"
  | Paths_Known u32 "string option list"
  | Format_List_In i32 "(i32 \<times> string) list"
  | Frame_In nat bool u32 u32 "(i32 \<times> bool \<times> bytes) option" i32 frame
  | Sender_Turn read_io "(bytes \<times> string) option" bool bool key
  | Descriptors_Begin i32 u64 u32 u64
  | Descriptors_End i32 u64 u32 u64 bool
  | Read_Open i32 u64 u32 u64 u64 nat u64 "u64 list" bool
  | Read_Step bool bool reader
  | Release i32 u64
  | Disconnect i32

text \<open>The log has what was sent and which connections ended.\<close>

datatype clip_entry = Sent i32 clipboard_file | Ended i32

definition clip_step :: "zstd \<Rightarrow> clip_event \<Rightarrow> stream_state \<Rightarrow> stream_state \<times> sent_clips" where
  "clip_step z ev st =
     (case ev of
        Format_List_Out sequence local_files fresh formats \<Rightarrow> (snd (client_format_list sequence local_files fresh formats st), [])
      | Paths_Known sequence paths \<Rightarrow> (stream_snapshot sequence paths st, [])
      | Format_List_In conn formats \<Rightarrow> (snd (server_format_list conn formats st), [])
      | Frame_In now spawned format sequence answer conn f \<Rightarrow> clip_frame_in z now spawned format sequence answer conn f st
      | Sender_Turn io found timed_out sent_ok key \<Rightarrow> sender_step z io found timed_out sent_ok key st
      | Descriptors_Begin conn gen format fresh \<Rightarrow> snd (descriptors_begin conn gen format fresh st)
      | Descriptors_End conn gen format i sent_ok \<Rightarrow> snd (descriptors_end conn gen format i sent_ok st)
      | Read_Open conn gen ix sz off len token ids sent_ok \<Rightarrow> snd (read_open conn gen ix sz off len token ids sent_ok st)
      | Read_Step timed_out sent_ok rd \<Rightarrow> snd (read_step timed_out sent_ok rd st)
      | Release conn i \<Rightarrow> release_stream conn i st
      | Disconnect conn \<Rightarrow> stream_disconnect conn st)"

definition logged :: "clip_event \<Rightarrow> sent_clips \<Rightarrow> clip_entry list" where
  "logged ev ms = (case ev of Disconnect conn \<Rightarrow> [Ended conn] | _ \<Rightarrow> []) @ rev (map (\<lambda>(c, m). Sent c m) ms)"

fun clip_run :: "zstd \<Rightarrow> clip_event list \<Rightarrow> stream_state \<times> clip_entry list \<Rightarrow> stream_state \<times> clip_entry list" where
  "clip_run z [] s = s"
| "clip_run z (ev # evs) (st, log) =
     (case clip_step z ev st of (st', ms) \<Rightarrow> clip_run z evs (st', logged ev ms @ log))"

lemma clip_run_snoc: "clip_run z (evs @ [ev]) s =
    (case clip_run z evs s of (st, log) \<Rightarrow> case clip_step z ev st of (st', ms) \<Rightarrow> (st', logged ev ms @ log))"
  by (induction evs arbitrary: s) (auto split: prod.split)

section \<open>The tables stay small\<close>

definition source_ok :: "stream_source \<Rightarrow> bool" where
  "source_ok s \<longleftrightarrow> length (ss_paths s) \<le> MAX_PATHS"

definition snapshot_ok :: "clip_snapshot \<Rightarrow> bool" where
  "snapshot_ok sn \<longleftrightarrow> length (sn_paths sn) \<le> MAX_PATHS \<and> length (sn_descriptors sn) \<le> METADATA_BYTES
     \<and> distinct (sn_clients sn) \<and> sn_clients sn \<noteq> []"

definition stream_tables_ok :: "stream_state \<Rightarrow> bool" where
  "stream_tables_ok st \<longleftrightarrow>
     hm_ok (st_snapshots st) \<and> hm_ok (st_receiving st) \<and> hm_ok (st_sending st) \<and> hm_ok (st_metadata st) \<and> hm_ok (st_remote st)
     \<and> length (st_receiving st) \<le> MAX_STREAMS \<and> length (st_sending st) \<le> MAX_STREAMS \<and> length (st_metadata st) \<le> MAX_STREAMS
     \<and> length (st_snapshots st) \<le> 32"

definition contents_ok :: "stream_state \<Rightarrow> bool" where
  "contents_ok st \<longleftrightarrow> source_ok (st_source st) \<and> (\<forall>g sn. hm_get (st_snapshots st) g = Some sn \<longrightarrow> snapshot_ok sn)"

lemma least_used_key: "least_used m = Some (g, u) \<Longrightarrow> g \<in> fst ` set m"
  by (induction m arbitrary: g u rule: least_used.induct) (auto split: option.splits if_splits)

lemma least_used_None: "least_used m = None \<longleftrightarrow> m = []"
  by (induction m rule: least_used.induct) (auto split: option.splits)

lemma hm_ok_in_place: "hm_ok (map (\<lambda>(k, v). (k, f k v)) m) = hm_ok m"
proof -
  have "map (fst \<circ> (\<lambda>(k, v). (k, f k v))) m = map fst m" by (induction m) auto
  then show ?thesis unfolding hm_ok_def map_map by (rule arg_cong)
qed

lemma key_in: "g \<in> fst ` set m \<Longrightarrow> hm_get m g \<noteq> None"
  by (metis hm_get_def image_set map_of_eq_None_iff)

lemma hm_del_shrinks: "hm_ok m \<Longrightarrow> hm_get m k \<noteq> None \<Longrightarrow> Suc (length (hm_del k m)) = length m"
  unfolding hm_ok_def hm_get_def hm_del_def by (rule length_hm_del_present)

text \<open>There is always a snapshot that no sender reads.\<close>

lemma unused_exists:
  assumes "hm_ok (st_snapshots st)" "length (st_sending st) \<le> MAX_STREAMS" "32 \<le> length (st_snapshots st)"
  shows "filter (\<lambda>(g, s). \<not> being_sent g st) (st_snapshots st) \<noteq> []"
proof
  assume e: "filter (\<lambda>(g, s). \<not> being_sent g st) (st_snapshots st) = []"
  have "g \<in> (\<lambda>(key, w). generation (sw_frame w)) ` set (st_sending st)" if g: "(g, sn) \<in> set (st_snapshots st)" for g sn
  proof -
    have "being_sent g st" using e g by (auto simp: filter_empty_conv)
    then show ?thesis by (force simp: being_sent_def)
  qed
  then have "fst ` set (st_snapshots st) \<subseteq> (\<lambda>(key, w). generation (sw_frame w)) ` set (st_sending st)" by auto
  then have "card (fst ` set (st_snapshots st)) \<le> length (st_sending st)"
    by (meson List.finite_set card_image_le card_length card_mono finite_imageI le_trans)
  then show False using assms hm_ok_card [OF assms(1)] by (simp add: MAX_STREAMS_def)
qed

lemma make_room_keeps: "hm_ok (st_snapshots st) \<Longrightarrow> hm_ok (make_room gen st)"
  "hm_get (make_room gen st) g = Some sn \<Longrightarrow> hm_get (st_snapshots st) g = Some sn"
  by (auto simp: make_room_def hm.ok_del hm.get_del split: option.splits if_splits)

lemma make_room_length:
  assumes "stream_tables_ok st"
  shows "length (hm_put gen sn (make_room gen st)) \<le> 32"
proof (cases "32 \<le> length (st_snapshots st) \<and> hm_get (st_snapshots st) gen = None")
  case False
  then have m: "make_room gen st = st_snapshots st" and c: "length (st_snapshots st) < 32 \<or> hm_get (st_snapshots st) gen \<noteq> None"
    by (auto simp: make_room_def)
  have "hm_ok (st_snapshots st)" "length (st_snapshots st) \<le> 32" using assms by (simp_all add: stream_tables_ok_def)
  with c show ?thesis unfolding m by (auto simp: hm.len_put)
next
  case True
  have ok: "hm_ok (st_snapshots st)" using assms by (simp add: stream_tables_ok_def)
  have "filter (\<lambda>(g, s). \<not> being_sent g st) (st_snapshots st) \<noteq> []"
    using assms True by (intro unused_exists) (simp_all add: stream_tables_ok_def)
  then have "least_used (filter (\<lambda>(g, s). \<not> being_sent g st) (st_snapshots st)) \<noteq> None"
    unfolding least_used_None .
  then obtain g u where g: "least_used (filter (\<lambda>(g, s). \<not> being_sent g st) (st_snapshots st)) = Some (g, u)"
    by fast
  have "hm_get (st_snapshots st) g \<noteq> None"
    by (rule key_in [OF subsetD [OF image_mono [OF filter_is_subset] least_used_key [OF g]]])
  then have "Suc (length (hm_del g (st_snapshots st))) = length (st_snapshots st)" by (rule hm_del_shrinks [OF ok])
  moreover have "make_room gen st = hm_del g (st_snapshots st)" using True g by (simp add: make_room_def)
  ultimately show ?thesis using assms hm.len_put_le [OF hm.ok_del [OF ok], of gen sn g] by (simp add: stream_tables_ok_def)
qed

lemma forget_client_keeps: "hm_ok m \<Longrightarrow> hm_ok (forget_client conn m)" "length (forget_client conn m) \<le> length m"
  unfolding forget_client_def
  using length_filter_le [of _ "map (\<lambda>(g, sn). (g, sn\<lparr>sn_clients := filter (\<lambda>c. c \<noteq> conn) (sn_clients sn)\<rparr>)) m"]
  by (simp_all add: hm_ok_filter hm_ok_in_place [of "\<lambda>g sn. sn\<lparr>sn_clients := filter (\<lambda>c. c \<noteq> conn) (sn_clients sn)\<rparr>"])

lemma release_stream_tables: "stream_tables_ok st \<Longrightarrow> release_stream conn i st = (st', ms) \<Longrightarrow> stream_tables_ok st'"
  by (auto simp: release_stream_def stream_tables_ok_def hm.ok_del hm.capped_del split: option.splits)

lemma release_all_tables: "stream_tables_ok st \<Longrightarrow> release_all conn is st = (st', ms) \<Longrightarrow> stream_tables_ok st'"
  by (induction conn "is" st arbitrary: st' ms rule: release_all.induct)
     (auto split: prod.splits dest: release_stream_tables)

lemma remember_metadata_tables: "stream_tables_ok st \<Longrightarrow> stream_tables_ok (remember_metadata now conn gen d st)"
  using make_room_length [of st gen] make_room_keeps(1) [of st gen]
  by (auto simp: remember_metadata_def Let_def) (simp add: stream_tables_ok_def hm.ok_put)

lemma cached_metadata_tables: "stream_tables_ok st \<Longrightarrow> cached_metadata now conn gen st = (x, st') \<Longrightarrow> stream_tables_ok st'"
  by (auto simp: cached_metadata_def stream_tables_ok_def hm.ok_put hm.len_put split: option.splits if_splits)

lemma start_send_tables: "stream_tables_ok st \<Longrightarrow> start_send now spawned conn f st = (x, st', ms) \<Longrightarrow> stream_tables_ok st'"
  by (auto simp: start_send_def stream_tables_ok_def hm.ok_put hm.len_put Let_def split: option.splits if_splits)

lemma stream_handle_tables: "stream_tables_ok st \<Longrightarrow> stream_handle z now spawned conn f st = (st', ms) \<Longrightarrow> stream_tables_ok st'"
  using start_send_tables [of st now spawned conn f]
  by (auto simp: stream_handle_def stream_tables_ok_def hm.ok_put hm.len_put Let_def split: option.splits if_splits prod.splits)

lemma clip_frame_in_tables:
  assumes "stream_tables_ok st" "clip_frame_in z now spawned format sequence answer conn f st = (st', ms)"
  shows "stream_tables_ok st'"
  using assms cached_metadata_tables [OF assms(1), of now conn "generation f"] stream_handle_tables [OF assms(1)]
  by (auto simp: clip_frame_in_def format_data_response_def remember_metadata_tables split: if_splits prod.splits option.splits)

lemma new_stream_tables:
  assumes "stream_tables_ok st" "length (st_receiving st) < MAX_STREAMS" "new_stream conn gen ix sz off i sent_ok st = (b, st', ms)"
  shows "stream_tables_ok st'"
proof -
  have "stream_tables_ok (st\<lparr>st_receiving := hm_put (conn, i) r (st_receiving st)\<rparr>)" for r
    using assms(1,2) by (simp add: stream_tables_ok_def hm.ok_put hm.capped_put)
  then show ?thesis using assms(3) by (auto simp: new_stream_def Let_def split: if_splits prod.splits intro: release_stream_tables)
qed

lemma read_begin_tables:
  assumes "stream_tables_ok st" "read_begin conn gen ix sz off len token ids sent_ok st = (b, st', ms)"
  shows "stream_tables_ok st'"
  using assms release_stream_tables [OF assms(1), of conn token]
  by (auto simp: read_begin_def Let_def not_le split: if_splits prod.splits option.splits intro: new_stream_tables)

lemma read_open_tables: "stream_tables_ok st \<Longrightarrow> read_open conn gen ix sz off len token ids sent_ok st = (b, st', ms) \<Longrightarrow> stream_tables_ok st'"
  by (auto simp: read_open_def split: read_begun.splits prod.splits dest: read_begin_tables release_stream_tables)

lemma read_turn_tables: "stream_tables_ok st \<Longrightarrow> read_turn timed_out sent_ok rd st = (b, st', ms) \<Longrightarrow> stream_tables_ok st'"
  by (auto simp: read_turn_def Let_def stream_tables_ok_def hm.ok_put hm.len_put split: if_splits prod.splits option.splits)

lemma read_close_tables: "stream_tables_ok st \<Longrightarrow> read_close timed_out rd st = (b, st', ms) \<Longrightarrow> stream_tables_ok st'"
  by (auto simp: read_close_def Let_def split: if_splits prod.splits option.splits intro: release_stream_tables)

lemma read_step_tables:
  assumes "stream_tables_ok st" "read_step timed_out sent_ok rd st = (b, st', ms)"
  shows "stream_tables_ok st'"
  using assms
  by (auto simp: read_step_def split: if_splits prod.splits read_turned.splits
      dest!: read_turn_tables [OF assms(1)] read_close_tables [OF assms(1)] dest: release_stream_tables)

lemma sender_step_tables: "stream_tables_ok st \<Longrightarrow> sender_step z io found timed_out sent_ok key st = (st', ms) \<Longrightarrow> stream_tables_ok st'"
  by (auto simp: sender_step_def stream_tables_ok_def hm.ok_put hm.ok_del hm.len_put hm.capped_del
      split: option.splits prod.splits turn.splits)

lemma stream_disconnect_tables:
  assumes "stream_tables_ok st" "stream_disconnect conn st = (st', ms)"
  shows "stream_tables_ok st'"
proof -
  let ?st = "st\<lparr>st_remote := hm_del conn (st_remote st), st_snapshots := forget_client conn (st_snapshots st),
    st_metadata := fail_metadata conn (st_metadata st)\<rparr>"
  have "stream_tables_ok ?st"
    using assms(1) forget_client_keeps(1) [of "st_snapshots st" conn] forget_client_keeps(2) [of conn "st_snapshots st"]
    by (auto simp: stream_tables_ok_def hm.ok_del fail_metadata_def
        hm_ok_in_place [of "\<lambda>key w. if fst key = conn then w\<lparr>mw_result := Some None\<rparr> else w"])
  moreover obtain st1 where "release_all conn (map snd (filter (\<lambda>key. fst key = conn) (map fst (st_receiving st)))) ?st = (st1, ms)"
    and "st' = st1\<lparr>st_sending := cancel_senders conn (st_sending st1)\<rparr>"
    using assms(2) by (auto simp: stream_disconnect_def Let_def split: prod.splits)
  ultimately show ?thesis
    using release_all_tables [of ?st conn]
    by (auto simp: stream_tables_ok_def cancel_senders_def
        hm_ok_in_place [of "\<lambda>key w. if fst key = conn then w\<lparr>sw_cancelled := True\<rparr> else w"])
qed

lemma descriptors_tables:
  "stream_tables_ok st \<Longrightarrow> descriptors_begin conn gen format fresh st = (x, st', ms) \<Longrightarrow> stream_tables_ok st'"
  "stream_tables_ok st \<Longrightarrow> descriptors_end conn gen format i sent_ok st = (y, st', ms) \<Longrightarrow> stream_tables_ok st'"
  by (auto simp: descriptors_begin_def descriptors_end_def stream_tables_ok_def Let_def hm.ok_put hm.ok_del hm.capped_put hm.capped_del
      split: if_splits)

lemma format_list_tables:
  "stream_tables_ok st \<Longrightarrow> client_format_list sequence local_files fresh formats st = (x, st') \<Longrightarrow> stream_tables_ok st'"
  "stream_tables_ok st \<Longrightarrow> server_format_list conn formats st = (x, st') \<Longrightarrow> stream_tables_ok st'"
  "stream_tables_ok st \<Longrightarrow> stream_tables_ok (stream_snapshot sequence paths st)"
  by (auto simp: client_format_list_def stream_announce_def server_format_list_def set_remote_generation_def stream_snapshot_def
      stream_tables_ok_def Let_def hm.ok_put split: if_splits)

lemma clip_step_tables: "stream_tables_ok st \<Longrightarrow> clip_step z ev st = (st', ms) \<Longrightarrow> stream_tables_ok st'"
  by (cases ev) (auto simp: clip_step_def snd_def format_list_tables(3) split: prod.splits
      dest: format_list_tables(1,2) clip_frame_in_tables sender_step_tables descriptors_tables read_open_tables read_step_tables release_stream_tables
        stream_disconnect_tables)

lemma contents_room: "contents_ok st \<Longrightarrow> hm_get (make_room gen st) g = Some sn \<Longrightarrow> snapshot_ok sn"
  unfolding contents_ok_def by (blast dest: make_room_keeps(2))

lemma remember_metadata_contents:
  assumes "contents_ok st"
  shows "contents_ok (remember_metadata now conn gen d st)"
proof (cases "ss_generation (st_source st) \<noteq> gen \<or> METADATA_BYTES < length d")
  case False
  let ?sn = "case hm_get (make_room gen st) gen of Some sn \<Rightarrow> sn
    | None \<Rightarrow> \<lparr>sn_paths = ss_paths (st_source st), sn_descriptors = d, sn_clients = [], sn_used = now\<rparr>"
  have "length (sn_paths ?sn) \<le> MAX_PATHS \<and> length (sn_descriptors ?sn) \<le> METADATA_BYTES \<and> distinct (sn_clients ?sn)"
    using assms False contents_room [OF assms]
    by (auto simp: contents_ok_def source_ok_def snapshot_ok_def split: option.split)
  then have "snapshot_ok (?sn\<lparr>sn_clients := List.insert conn (sn_clients ?sn), sn_used := now\<rparr>)"
    by (auto simp: snapshot_ok_def) (metis insert_not_empty set_empty set_insert)
  then show ?thesis
    using assms False contents_room [OF assms]
    by (auto simp: remember_metadata_def contents_ok_def Let_def hm.get_put)
qed (use assms in \<open>simp add: remember_metadata_def\<close>)

lemma contents_put:
  "contents_ok st \<Longrightarrow> hm_get (st_snapshots st) g = Some sn \<Longrightarrow> contents_ok (st\<lparr>st_snapshots := hm_put g (sn\<lparr>sn_used := now\<rparr>) (st_snapshots st)\<rparr>)"
  by (auto simp: contents_ok_def snapshot_ok_def hm.get_put)

lemma contents_other [simp]:
  "contents_ok (st\<lparr>st_receiving := x\<rparr>) = contents_ok st" "contents_ok (st\<lparr>st_sending := y\<rparr>) = contents_ok st"
  "contents_ok (st\<lparr>st_metadata := v\<rparr>) = contents_ok st" "contents_ok (st\<lparr>st_remote := w\<rparr>) = contents_ok st"
  by (simp_all add: contents_ok_def)

lemma contents_source: "contents_ok st \<Longrightarrow> length (ss_paths s) \<le> MAX_PATHS \<Longrightarrow> contents_ok (st\<lparr>st_source := s\<rparr>)"
  by (simp add: contents_ok_def source_ok_def)

lemma cached_metadata_contents: "contents_ok st \<Longrightarrow> cached_metadata now conn gen st = (x, st') \<Longrightarrow> contents_ok st'"
  by (auto simp: cached_metadata_def contents_put split: option.splits if_splits)

lemma start_send_contents: "contents_ok st \<Longrightarrow> start_send now spawned conn f st = (x, st', ms) \<Longrightarrow> contents_ok st'"
  by (auto simp: start_send_def Let_def contents_put split: option.splits if_splits)

lemma stream_handle_contents: "contents_ok st \<Longrightarrow> stream_handle z now spawned conn f st = (st', ms) \<Longrightarrow> contents_ok st'"
  by (auto simp: stream_handle_def Let_def split: option.splits if_splits prod.splits dest: start_send_contents)

lemma clip_frame_in_contents:
  assumes "contents_ok st" "clip_frame_in z now spawned format sequence answer conn f st = (st', ms)"
  shows "contents_ok st'"
  using assms cached_metadata_contents [OF assms(1), of now conn "generation f"] stream_handle_contents [OF assms(1)]
  by (auto simp: clip_frame_in_def format_data_response_def remember_metadata_contents split: if_splits prod.splits option.splits)

lemma release_stream_snapshots:
  "release_stream conn i st = (st', ms) \<Longrightarrow> st_snapshots st' = st_snapshots st \<and> st_source st' = st_source st
    \<and> st_sending st' = st_sending st \<and> st_metadata st' = st_metadata st \<and> st_remote st' = st_remote st"
  by (auto simp: release_stream_def split: option.splits)

lemma release_all_snapshots:
  "release_all conn is st = (st', ms) \<Longrightarrow> st_snapshots st' = st_snapshots st \<and> st_source st' = st_source st
    \<and> st_sending st' = st_sending st \<and> st_metadata st' = st_metadata st \<and> st_remote st' = st_remote st"
proof (induction "is" arbitrary: st ms)
  case (Cons i "is")
  obtain st1 ms1 ms2 where "release_stream conn i st = (st1, ms1)" "release_all conn is st1 = (st', ms2)"
    using Cons.prems by (auto split: prod.splits)
  then show ?case using Cons.IH release_stream_snapshots by metis
qed simp

text \<open>The reader's calls and the sender's turns leave the snapshots and the other tables alone.\<close>

lemma read_begin_snapshots:
  "read_begin conn gen ix sz off len token ids sent_ok st = (b, st', ms) \<Longrightarrow> st_snapshots st' = st_snapshots st \<and> st_source st' = st_source st
    \<and> st_sending st' = st_sending st"
  by (auto simp: read_begin_def new_stream_def Let_def split: if_splits prod.splits option.splits dest!: release_stream_snapshots)

lemma read_open_snapshots: "read_open conn gen ix sz off len token ids sent_ok st = (b, st', ms) \<Longrightarrow> st_snapshots st' = st_snapshots st \<and> st_source st' = st_source st
    \<and> st_sending st' = st_sending st"
  by (auto simp: read_open_def split: read_begun.splits prod.splits dest!: read_begin_snapshots release_stream_snapshots)

lemma read_turn_snapshots:
  "read_turn timed_out sent_ok rd st = (b, st', ms) \<Longrightarrow> st_snapshots st' = st_snapshots st \<and> st_source st' = st_source st
    \<and> st_sending st' = st_sending st"
  by (auto simp: read_turn_def Let_def split: if_splits prod.splits option.splits)

lemma read_close_snapshots:
  "read_close timed_out rd st = (b, st', ms) \<Longrightarrow> st_snapshots st' = st_snapshots st \<and> st_source st' = st_source st
    \<and> st_sending st' = st_sending st"
  by (auto simp: read_close_def split: if_splits prod.splits option.splits dest!: release_stream_snapshots)

lemma read_step_snapshots:
  "read_step timed_out sent_ok rd st = (b, st', ms) \<Longrightarrow> st_snapshots st' = st_snapshots st \<and> st_source st' = st_source st
    \<and> st_sending st' = st_sending st"
  by (auto simp: read_step_def split: if_splits prod.splits read_turned.splits
      dest!: read_turn_snapshots read_close_snapshots release_stream_snapshots)

lemma contents_same: "contents_ok st \<Longrightarrow> st_snapshots st' = st_snapshots st \<Longrightarrow> st_source st' = st_source st \<Longrightarrow> contents_ok st'"
  by (simp add: contents_ok_def)

lemma forget_client_get:
  assumes "hm_ok m" "hm_get (forget_client conn m) g = Some sn"
  shows "\<exists>sn'. hm_get m g = Some sn' \<and> sn = sn'\<lparr>sn_clients := filter (\<lambda>c. c \<noteq> conn) (sn_clients sn')\<rparr> \<and> sn_clients sn \<noteq> []"
proof -
  let ?m = "map (\<lambda>(g, sn). (g, sn\<lparr>sn_clients := filter (\<lambda>c. c \<noteq> conn) (sn_clients sn)\<rparr>)) m"
  have "hm_ok ?m" using assms(1) by (simp add: hm_ok_in_place [of "\<lambda>g sn. sn\<lparr>sn_clients := filter (\<lambda>c. c \<noteq> conn) (sn_clients sn)\<rparr>"])
  then have "hm_get ?m g = Some sn" "sn_clients sn \<noteq> []"
    using assms(2) by (auto simp: forget_client_def hm_get_def hm_ok_def map_of_filter_distinct split: option.splits if_splits)
  then show ?thesis by (auto simp: hm_get_def map_of_map)
qed

lemma disconnect_contents:
  assumes "contents_ok st" "hm_ok (st_snapshots st)" "stream_disconnect conn st = (st', ms)"
  shows "contents_ok st'"
proof -
  have s: "st_snapshots st' = forget_client conn (st_snapshots st)" "st_source st' = st_source st"
    using assms(3) by (auto simp: stream_disconnect_def Let_def split: prod.splits dest!: release_all_snapshots)
  show ?thesis
    using assms(1) by (auto simp: contents_ok_def s snapshot_ok_def dest!: forget_client_get [OF assms(2)])
qed

lemma clip_step_contents:
  assumes "contents_ok st" "stream_tables_ok st" "clip_step z ev st = (st', ms)"
  shows "contents_ok st'"
proof -
  have ok: "hm_ok (st_snapshots st)" using assms(2) by (simp add: stream_tables_ok_def)
  show ?thesis
  proof (cases ev)
    case (Frame_In now spawned format sequence answer conn f)
    then show ?thesis using assms(1,3) by (auto simp: clip_step_def dest: clip_frame_in_contents)
  next
    case (Disconnect conn)
    then show ?thesis using assms(1,3) ok by (auto simp: clip_step_def dest: disconnect_contents)
  qed (use assms(1,3) in \<open>auto simp: clip_step_def snd_def client_format_list_def stream_announce_def server_format_list_def set_remote_generation_def
      stream_snapshot_def sender_step_def descriptors_begin_def descriptors_end_def Let_def source_default_def source_ok_def
      split: prod.splits if_splits option.splits turn.splits
      dest!: read_open_snapshots read_step_snapshots release_stream_snapshots intro: contents_same contents_source\<close>)
qed

end
