(* ===== verification/Clip_Access.thy ===== *)
theory Clip_Access
  imports Clip_Transport
begin

text \<open>
  What holds in every run of the clipboard transport, whatever the peers send: the tables and the buffers stay
  within their limits, the bytes of a file go only to a connection that has been given the descriptors
  of the same copy since it was last closed, and the generation that one side announces is the one the
  other side reads.
\<close>

section \<open>What the receivers hold\<close>

definition buffered :: "receive \<Rightarrow> nat" where
  "buffered r = length (concat (rv_chunks r)) - rv_front r"

definition buffer_ok :: "receive \<Rightarrow> bool" where
  "buffer_ok r \<longleftrightarrow>
     (case rv_chunks r of [] \<Rightarrow> rv_front r = 0 | front # rest \<Rightarrow> rv_front r \<le> length front)
     \<and> rv_received r - rv_consumed r = of_nat (buffered r) \<and> buffered r \<le> WINDOW_BYTES"

lemma front_in_chunks: "buffer_ok r \<Longrightarrow> rv_front r \<le> length (concat (rv_chunks r))"
  by (auto simp: buffer_ok_def split: list.splits)

lemma accept_block_buffer:
  assumes r: "buffer_ok r" and a: "accept_block z f r = Some r'"
  shows "buffer_ok r'"
proof -
  obtain d n where n: "length d = min n BLOCK_BYTES" and d2: "\<not> of_nat WINDOW_BYTES < rv_received r - rv_consumed r + of_nat (length d)"
    and r': "r' = r\<lparr>rv_received := rv_received r + of_nat (length d), rv_chunks := rv_chunks r @ [d]\<rparr>"
    using a by (auto simp: accept_block_def split: option.splits if_splits)
  have d: "length d \<le> BLOCK_BYTES" using n by simp
  have b: "buffered r' = buffered r + length d"
    using front_in_chunks [OF r] by (simp add: buffered_def r')
  have "rv_received r' - rv_consumed r' = of_nat (buffered r')"
    using r by (simp add: buffer_ok_def r' b [unfolded r'] add_diff_eq diff_add_eq)
  moreover have "buffered r + length d \<le> WINDOW_BYTES"
  proof -
    have e: "rv_received r - rv_consumed r + of_nat (length d) = of_nat (buffered r + length d)" using r by (simp add: buffer_ok_def)
    have "buffered r + length d \<le> 2 * WINDOW_BYTES" using r d by (simp add: buffer_ok_def WINDOW_BYTES_def)
    then have "buffered r + length d < 2 ^ 64" by (simp add: WINDOW_BYTES_def BLOCK_BYTES_def)
    then show ?thesis using d2 window_fits unfolding e
      by (simp add: word_less_nat_alt unat_of_nat not_less del: of_nat_add)
  qed
  moreover have "case rv_chunks r' of [] \<Rightarrow> rv_front r' = 0 | front # rest \<Rightarrow> rv_front r' \<le> length front"
    using r by (auto simp: buffer_ok_def r' split: list.splits)
  ultimately show ?thesis by (simp add: buffer_ok_def b)
qed

lemma receive_frame_buffer: "buffer_ok r \<Longrightarrow> buffer_ok (receive_frame z f r)"
proof -
  assume r: "buffer_ok r"
  have same: "buffer_ok (r\<lparr>rv_failed := x\<rparr>)" "buffer_ok (r\<lparr>rv_ended := x\<rparr>)" for x
    using r by (auto simp: buffer_ok_def buffered_def split: list.splits)
  have "buffer_ok r'" if "accept z f r = Some r'" for r'
    using that same(2) accept_block_buffer [OF r] by (auto simp: accept_def split: if_splits)
  then show ?thesis using r same(1) by (auto simp: receive_frame_def split: option.split)
qed

lemma read_some_buffer:
  assumes r: "buffer_ok r" and rd: "read_some n r = Some (out, r', credit)"
  shows "buffer_ok r'"
proof -
  obtain front rest where ch: "rv_chunks r = front # rest" using rd by (auto simp: read_some_def split: if_splits list.splits)
  define k where "k = min (length front - rv_front r) n"
  have f: "rv_front r \<le> length front" using r by (simp add: buffer_ok_def ch)
  then have k: "rv_front r + k \<le> length front" by (simp add: k_def)
  have r': "rv_chunks r' = (if rv_front r + k = length front then rest else rv_chunks r)"
    "rv_front r' = (if rv_front r + k = length front then 0 else rv_front r + k)"
    "rv_received r' = rv_received r" "rv_consumed r' = rv_consumed r + of_nat k"
    using rd by (auto simp: read_some_def ch Let_def k_def [symmetric] split: if_splits)
  have b: "buffered r = buffered r' + k" using k by (auto simp: buffered_def r' ch)
  have "rv_received r' - rv_consumed r' = of_nat (buffered r')"
    using r by (simp add: buffer_ok_def r'(3,4) b algebra_simps)
  then show ?thesis using r k b by (auto simp: buffer_ok_def r' ch split: list.splits)
qed

definition receives_ok :: "stream_state \<Rightarrow> bool" where
  "receives_ok st \<longleftrightarrow> (\<forall>key r. hm_get (st_receiving st) key = Some r \<longrightarrow> buffer_ok r)"

lemma receives_get: "receives_ok st \<Longrightarrow> hm_get (st_receiving st) key = Some r \<Longrightarrow> buffer_ok r"
  unfolding receives_ok_def by blast

lemma receives_put: "receives_ok st \<Longrightarrow> buffer_ok r \<Longrightarrow> receives_ok (st\<lparr>st_receiving := hm_put key r (st_receiving st)\<rparr>)"
  by (simp add: receives_ok_def hm.get_put)

lemma receives_same: "receives_ok st \<Longrightarrow> st_receiving st' = st_receiving st \<Longrightarrow> receives_ok st'"
  by (simp add: receives_ok_def)

lemma release_receives: "receives_ok st \<Longrightarrow> release_stream conn i st = (st', ms) \<Longrightarrow> receives_ok st'"
  by (auto simp: release_stream_def receives_ok_def hm.get_del split: option.splits if_splits)

lemma release_all_receives: "receives_ok st \<Longrightarrow> release_all conn is st = (st', ms) \<Longrightarrow> receives_ok st'"
  by (induction conn "is" st arbitrary: st' ms rule: release_all.induct) (auto split: prod.splits dest: release_receives)

lemma start_send_receives: "start_send now spawned conn f st = (x, st', ms) \<Longrightarrow> st_receiving st' = st_receiving st"
  by (auto simp: start_send_def Let_def split: if_splits option.splits)

lemma receive_frame_receives:
  "receives_ok st \<Longrightarrow> hm_get (st_receiving st) key = Some r
   \<Longrightarrow> receives_ok (st\<lparr>st_receiving := hm_put key (receive_frame z f r) (st_receiving st)\<rparr>)"
  by (intro receives_put receive_frame_buffer) (assumption | rule receives_get)+

lemma stream_handle_receives: "receives_ok st \<Longrightarrow> stream_handle z now spawned conn f st = (st', ms) \<Longrightarrow> receives_ok st'"
  by (auto simp: stream_handle_def Let_def split: if_splits option.splits prod.splits
      dest!: start_send_receives intro: receives_same receive_frame_receives)

lemma clip_frame_in_receives:
  "receives_ok st \<Longrightarrow> clip_frame_in z now spawned format sequence answer conn f st = (st', ms) \<Longrightarrow> receives_ok st'"
  by (auto simp: clip_frame_in_def format_data_response_def remember_metadata_def cached_metadata_def Let_def
      split: if_splits option.splits prod.splits dest: stream_handle_receives intro: receives_same)

lemma new_stream_receives: "receives_ok st \<Longrightarrow> new_stream conn gen ix sz off i sent_ok st = (b, st', ms) \<Longrightarrow> receives_ok st'"
proof -
  have n: "buffer_ok (receive_new f)" for f by (simp add: buffer_ok_def buffered_def receive_new_def)
  show "receives_ok st \<Longrightarrow> new_stream conn gen ix sz off i sent_ok st = (b, st', ms) \<Longrightarrow> receives_ok st'"
    by (auto simp: new_stream_def Let_def split: if_splits prod.splits intro: receives_put [OF _ n]
        dest: release_receives [OF receives_put [OF _ n]])
qed

lemma read_begin_receives:
  "receives_ok st \<Longrightarrow> read_begin conn gen ix sz off len token ids sent_ok st = (b, st', ms) \<Longrightarrow> receives_ok st'"
  by (auto simp: read_begin_def Let_def split: if_splits prod.splits option.splits dest: release_receives new_stream_receives)

lemma read_open_receives: "receives_ok st \<Longrightarrow> read_open conn gen ix sz off len token ids sent_ok st = (b, st', ms) \<Longrightarrow> receives_ok st'"
  by (auto simp: read_open_def split: read_begun.splits prod.splits dest: read_begin_receives release_receives)

lemma read_turn_receives: "receives_ok st \<Longrightarrow> read_turn timed_out sent_ok rd st = (b, st', ms) \<Longrightarrow> receives_ok st'"
  by (auto simp: read_turn_def Let_def split: if_splits prod.splits option.splits
      intro!: receives_put intro: read_some_buffer receives_get)

lemma read_close_receives: "receives_ok st \<Longrightarrow> read_close timed_out rd st = (b, st', ms) \<Longrightarrow> receives_ok st'"
  by (auto simp: read_close_def split: if_splits prod.splits option.splits dest: release_receives)

lemma read_step_receives: "receives_ok st \<Longrightarrow> read_step timed_out sent_ok rd st = (b, st', ms) \<Longrightarrow> receives_ok st'"
  by (auto simp: read_step_def split: if_splits prod.splits read_turned.splits
      dest: read_turn_receives read_close_receives release_receives)

lemma disconnect_receives: "receives_ok st \<Longrightarrow> stream_disconnect conn st = (st', ms) \<Longrightarrow> receives_ok st'"
  unfolding stream_disconnect_def Let_def
  by (auto split: prod.splits intro: receives_same dest!: release_all_receives [rotated])

lemma clip_step_receives:
  assumes "receives_ok st" "clip_step z ev st = (st', ms)"
  shows "receives_ok st'"
proof (cases ev)
  case (Frame_In now spawned format sequence answer conn f)
  then show ?thesis using assms by (auto simp: clip_step_def dest: clip_frame_in_receives)
next
  case (Read_Open conn gen ix sz off len token ids sent_ok)
  then show ?thesis using assms by (auto simp: clip_step_def snd_def split: prod.splits dest: read_open_receives)
next
  case (Read_Step timed_out sent_ok rd)
  then show ?thesis using assms by (auto simp: clip_step_def snd_def split: prod.splits dest: read_step_receives)
next
  case (Release conn i)
  then show ?thesis using assms by (auto simp: clip_step_def dest: release_receives)
next
  case (Disconnect conn)
  then show ?thesis using assms by (auto simp: clip_step_def dest: disconnect_receives)
qed (use assms in \<open>auto simp: clip_step_def snd_def client_format_list_def stream_announce_def server_format_list_def
    set_remote_generation_def stream_snapshot_def sender_step_def descriptors_begin_def descriptors_end_def Let_def
    split: prod.splits if_splits option.splits turn.splits intro: receives_same\<close>)

section \<open>The limits\<close>

lemma clip_run_induct:
  assumes start: "P stream_state_default []"
    and step: "\<And>ev st log st' ms. P st log \<Longrightarrow> clip_step z ev st = (st', ms) \<Longrightarrow> P st' (logged ev ms @ log)"
  shows "case clip_run z evs (stream_state_default, []) of (st, log) \<Rightarrow> P st log"
  by (induction evs rule: rev_induct) (auto simp: start clip_run_snoc split: prod.splits intro: step)

lemma get_member: "hm_ok m \<Longrightarrow> (k, v) \<in> set m \<Longrightarrow> hm_get m k = Some v"
  by (simp add: hm_ok_def hm_get_def)

text \<open>C31 Whatever peers and readers do, the transport holds at most eight streams each way, eight requests for
  descriptors and thirty-two snapshots, a snapshot has at most 16384 paths and the bytes of as many
  descriptors, and a stream that is received holds at most one megabyte.\<close>

theorem transport_bounded:
  "case clip_run z evs (stream_state_default, []) of (st, log) \<Rightarrow>
     length (st_receiving st) \<le> 8 \<and> length (st_sending st) \<le> 8 \<and> length (st_metadata st) \<le> 8 \<and> length (st_snapshots st) \<le> 32
     \<and> list_all (\<lambda>(g, sn). length (sn_paths sn) \<le> 16384 \<and> length (sn_descriptors sn) \<le> 4 + 16384 * 592) (st_snapshots st)
     \<and> list_all (\<lambda>(key, r). length (concat (rv_chunks r)) - rv_front r \<le> 8 * 128 * 1024) (st_receiving st)"
proof -
  have "case clip_run z evs (stream_state_default, []) of (st, log) \<Rightarrow> stream_tables_ok st \<and> contents_ok st \<and> receives_ok st"
  proof (rule clip_run_induct, goal_cases)
    case 1
    show ?case by (simp add: stream_state_default_def stream_tables_ok_def contents_ok_def receives_ok_def hm_ok_def hm_get_def
        source_ok_def source_default_def)
  next
    case (2 ev st log st' ms)
    then show ?case using clip_step_tables clip_step_contents clip_step_receives by blast
  qed
  then obtain st log where r: "clip_run z evs (stream_state_default, []) = (st, log)"
    and ok: "stream_tables_ok st" "contents_ok st" "receives_ok st" by (auto split: prod.splits)
  have "list_all (\<lambda>(g, sn). length (sn_paths sn) \<le> 16384 \<and> length (sn_descriptors sn) \<le> 4 + 16384 * 592) (st_snapshots st)"
    using ok(1,2) by (auto simp: list_all_iff stream_tables_ok_def contents_ok_def snapshot_ok_def MAX_PATHS_def METADATA_BYTES_def
        dest!: get_member)
  moreover have "list_all (\<lambda>(key, r). length (concat (rv_chunks r)) - rv_front r \<le> 8 * 128 * 1024) (st_receiving st)"
    using ok(1,3) by (auto simp: list_all_iff stream_tables_ok_def receives_ok_def buffer_ok_def buffered_def WINDOW_BYTES_def
        BLOCK_BYTES_def dest!: get_member)
  ultimately show ?thesis using ok(1) by (simp add: r stream_tables_ok_def MAX_STREAMS_def)
qed

section \<open>Who is sent the files\<close>

text \<open>Whether a connection has been sent the descriptors of a copy since it last ended; the log has the newest entry first.\<close>

fun offered :: "i32 \<Rightarrow> u64 \<Rightarrow> clip_entry list \<Rightarrow> bool" where
  "offered conn g [] = False"
| "offered conn g (Ended c # log) = (c \<noteq> conn \<and> offered conn g log)"
| "offered conn g (Sent c (FileStream f) # log) =
     (c = conn \<and> kind f = DESCRIPTORS_RESPONSE \<and> generation f = g \<or> offered conn g log)"
| "offered conn g (Sent c m # log) = offered conn g log"

text \<open>Every block of a file was sent to a connection that had been offered the copy before.\<close>

fun blocks_offered :: "clip_entry list \<Rightarrow> bool" where
  "blocks_offered [] = True"
| "blocks_offered (Sent c (FileStream f) # log) = ((kind f = BLOCK \<longrightarrow> offered c (generation f) log) \<and> blocks_offered log)"
| "blocks_offered (e # log) = blocks_offered log"

definition without_blocks :: "sent_clips \<Rightarrow> bool" where
  "without_blocks ms \<longleftrightarrow> list_all (\<lambda>(c, m). case m of FileStream f \<Rightarrow> kind f \<noteq> BLOCK | _ \<Rightarrow> True) ms"

abbreviation sent_log :: "sent_clips \<Rightarrow> clip_entry list" where
  "sent_log ms \<equiv> rev (map (\<lambda>(c, m). Sent c m) ms)"

lemma offered_sent: "offered conn g (Sent c m # log) \<longleftrightarrow>
    (c = conn \<and> (case m of FileStream f \<Rightarrow> kind f = DESCRIPTORS_RESPONSE \<and> generation f = g | _ \<Rightarrow> False)) \<or> offered conn g log"
  by (cases m) auto

lemma blocks_offered_sent: "blocks_offered (Sent c m # log) \<longleftrightarrow>
    (case m of FileStream f \<Rightarrow> kind f = BLOCK \<longrightarrow> offered c (generation f) log | _ \<Rightarrow> True) \<and> blocks_offered log"
  by (cases m) auto

lemma offered_more: "offered conn g log \<Longrightarrow> offered conn g (sent_log ms @ log)"
  by (induction ms rule: rev_induct) (auto simp: offered_sent)

lemma offered_message: "(conn, FileStream f) \<in> set ms \<Longrightarrow> kind f = DESCRIPTORS_RESPONSE \<Longrightarrow> offered conn (generation f) (sent_log ms @ log)"
  by (induction ms rule: rev_induct) (auto simp: offered_sent)

lemma blocks_offered_without: "without_blocks ms \<Longrightarrow> blocks_offered (sent_log ms @ log) = blocks_offered log"
  by (induction ms rule: rev_induct) (auto simp: without_blocks_def blocks_offered_sent split: clipboard_file.splits)

lemma blocks_offered_turn:
  assumes "blocks_offered log" "offered conn g log"
    and "list_all (\<lambda>m. case m of FileStream f \<Rightarrow> kind f = BLOCK \<longrightarrow> generation f = g | _ \<Rightarrow> True) ms"
  shows "blocks_offered (sent_log (map (Pair conn) ms) @ log)"
  using assms(3)
proof (induction ms rule: rev_induct)
  case (snoc m ms)
  then show ?case using offered_more [OF assms(2), of "map (Pair conn) ms"]
    by (cases m) (auto simp del: map_map)
qed (simp add: assms(1))

lemma without_blocks_simps [simp]:
  "without_blocks []" "without_blocks (ms @ ms') = (without_blocks ms \<and> without_blocks ms')"
  "without_blocks (emit_frame conn f) = (kind f \<noteq> BLOCK)"
  by (simp_all add: without_blocks_def emit_frame_def)

subsection \<open>Messages of the operations\<close>

lemma release_without: "release_stream conn i st = (st', ms) \<Longrightarrow> without_blocks ms"
  by (auto simp: release_stream_def split: option.splits)

lemma release_all_without: "release_all conn is st = (st', ms) \<Longrightarrow> without_blocks ms"
  by (induction conn "is" st arbitrary: st' ms rule: release_all.induct) (auto split: prod.splits dest: release_without)

lemma disconnect_without: "stream_disconnect conn st = (st', ms) \<Longrightarrow> without_blocks ms"
  by (auto simp: stream_disconnect_def Let_def split: prod.splits dest: release_all_without)

lemma descriptors_without:
  "descriptors_begin conn gen format fresh st = (x, st', ms) \<Longrightarrow> without_blocks ms"
  "descriptors_end conn gen format i sent_ok st = (y, st', ms) \<Longrightarrow> without_blocks ms"
  by (auto simp: descriptors_begin_def descriptors_end_def descriptors_frame_def Let_def split: if_splits)

lemma stream_handle_without: "stream_handle z now spawned conn f st = (st', ms) \<Longrightarrow> without_blocks ms"
  by (auto simp: stream_handle_def start_send_def Let_def split: if_splits option.splits prod.splits)

lemma clip_frame_in_without: "clip_frame_in z now spawned format sequence answer conn f st = (st', ms) \<Longrightarrow> without_blocks ms"
  by (auto simp: clip_frame_in_def stream_reject_def format_data_response_def split: if_splits option.splits prod.splits
      dest: stream_handle_without)

lemma read_begin_without: "read_begin conn gen ix sz off len token ids sent_ok st = (b, st', ms) \<Longrightarrow> without_blocks ms"
  by (auto simp: read_begin_def new_stream_def Let_def frame_default_def split: if_splits prod.splits option.splits dest: release_without)

lemma read_open_without: "read_open conn gen ix sz off len token ids sent_ok st = (b, st', ms) \<Longrightarrow> without_blocks ms"
  by (auto simp: read_open_def split: read_begun.splits prod.splits dest: read_begin_without release_without)

lemma read_turn_without: "read_turn timed_out sent_ok rd st = (b, st', ms) \<Longrightarrow> without_blocks ms"
  by (auto simp: read_turn_def read_some_def Let_def split: if_splits prod.splits option.splits list.splits)

lemma read_close_without: "read_close timed_out rd st = (b, st', ms) \<Longrightarrow> without_blocks ms"
  by (auto simp: read_close_def split: if_splits prod.splits option.splits dest: release_without)

lemma read_step_without: "read_step timed_out sent_ok rd st = (b, st', ms) \<Longrightarrow> without_blocks ms"
  by (auto simp: read_step_def split: if_splits prod.splits read_turned.splits
      dest: read_turn_without read_close_without release_without)

lemma clip_step_without: "clip_step z ev st = (st', ms) \<Longrightarrow> (\<forall>io found timed_out sent_ok key. ev \<noteq> Sender_Turn io found timed_out sent_ok key) \<Longrightarrow> without_blocks ms"
  by (cases ev) (auto simp: clip_step_def snd_def split: prod.splits dest: clip_frame_in_without descriptors_without read_open_without
      read_step_without release_without disconnect_without)

subsection \<open>The turns of a sender\<close>

lemma sender_turn_frame: "sender_turn z io found timed_out sent_ok w = (Goes_On w', ms) \<Longrightarrow>
    sw_frame w' = sw_frame w \<and> sw_cancelled w' = sw_cancelled w"
  by (auto simp: sender_turn_def sender_open_def send_block_def sender_error_def Let_def
      split: sender_phase.splits option.splits if_splits prod.splits sum.splits)

lemma open_without: "sender_open found w = (t, ms) \<Longrightarrow> list_all (\<lambda>m. case m of FileStream f \<Rightarrow> kind f \<noteq> BLOCK | _ \<Rightarrow> True) ms"
  by (auto simp: sender_open_def sender_error_def Let_def split: sender_phase.splits option.splits if_splits prod.splits)

lemma send_block_kinds: "send_block z io sent_ok w = (t, ms) \<Longrightarrow>
    list_all (\<lambda>m. case m of FileStream f \<Rightarrow> kind f = BLOCK \<longrightarrow> generation f = generation (sw_frame w) | _ \<Rightarrow> True) ms"
  by (auto simp: send_block_def sender_error_def Let_def split: sender_phase.splits option.splits if_splits prod.splits sum.splits)

text \<open>A sender sends blocks of its own copy only, and none once it is cancelled.\<close>

lemma sender_turn_kinds:
  assumes "sender_turn z io found timed_out sent_ok w = (t, ms)"
  shows "list_all (\<lambda>m. case m of FileStream f \<Rightarrow> kind f = BLOCK \<longrightarrow> generation f = generation (sw_frame w) \<and> \<not> sw_cancelled w | _ \<Rightarrow> True) ms"
proof -
  have "list_all (\<lambda>m. case m of FileStream f \<Rightarrow> kind f \<noteq> BLOCK | _ \<Rightarrow> True) ms
    \<or> \<not> sw_cancelled w \<and> send_block z io sent_ok w = (t, ms)"
    using assms open_without [of found w t ms]
    by (auto simp: sender_turn_def sender_error_def Let_def split: sender_phase.splits if_splits)
  then show ?thesis
  proof
    assume "list_all (\<lambda>m. case m of FileStream f \<Rightarrow> kind f \<noteq> BLOCK | _ \<Rightarrow> True) ms"
    then show ?thesis by (rule list.pred_mono_strong) (auto split: clipboard_file.splits)
  next
    assume "\<not> sw_cancelled w \<and> send_block z io sent_ok w = (t, ms)"
    then show ?thesis using send_block_kinds [of z io sent_ok w t ms]
      by (auto elim!: list.pred_mono_strong split: clipboard_file.splits)
  qed
qed

definition clients_offered :: "stream_state \<Rightarrow> clip_entry list \<Rightarrow> bool" where
  "clients_offered st log \<longleftrightarrow> (\<forall>g sn c. hm_get (st_snapshots st) g = Some sn \<longrightarrow> c \<in> set (sn_clients sn) \<longrightarrow> offered c g log)"

definition senders_offered :: "stream_state \<Rightarrow> clip_entry list \<Rightarrow> bool" where
  "senders_offered st log \<longleftrightarrow> (\<forall>conn i w. hm_get (st_sending st) (conn, i) = Some w
      \<longrightarrow> sw_cancelled w \<or> offered conn (generation (sw_frame w)) log)"

lemma clients_other [simp]:
  "clients_offered (st\<lparr>st_receiving := a\<rparr>) log = clients_offered st log" "clients_offered (st\<lparr>st_sending := b\<rparr>) log = clients_offered st log"
  "clients_offered (st\<lparr>st_metadata := c\<rparr>) log = clients_offered st log" "clients_offered (st\<lparr>st_remote := d\<rparr>) log = clients_offered st log"
  "clients_offered (st\<lparr>st_source := e\<rparr>) log = clients_offered st log"
  by (simp_all add: clients_offered_def)

lemma senders_other [simp]:
  "senders_offered (st\<lparr>st_receiving := a\<rparr>) log = senders_offered st log" "senders_offered (st\<lparr>st_snapshots := b\<rparr>) log = senders_offered st log"
  "senders_offered (st\<lparr>st_metadata := c\<rparr>) log = senders_offered st log" "senders_offered (st\<lparr>st_remote := d\<rparr>) log = senders_offered st log"
  "senders_offered (st\<lparr>st_source := e\<rparr>) log = senders_offered st log"
  by (simp_all add: senders_offered_def)

lemma senders_get:
  "senders_offered st log \<Longrightarrow> hm_get (st_sending st) (conn, i) = Some w \<Longrightarrow> sw_cancelled w \<or> offered conn (generation (sw_frame w)) log"
  unfolding senders_offered_def by blast

lemma senders_put:
  "senders_offered st log \<Longrightarrow> sw_cancelled w \<or> offered conn (generation (sw_frame w)) log
   \<Longrightarrow> senders_offered (st\<lparr>st_sending := hm_put (conn, i) w (st_sending st)\<rparr>) log"
  unfolding senders_offered_def by (simp add: hm.get_put)

lemma senders_del: "senders_offered st log \<Longrightarrow> senders_offered (st\<lparr>st_sending := hm_del key (st_sending st)\<rparr>) log"
  unfolding senders_offered_def by (simp add: hm.get_del)

lemma senders_same: "senders_offered st log \<Longrightarrow> st_sending st' = st_sending st \<Longrightarrow> senders_offered st' log"
  by (simp add: senders_offered_def)

lemma clients_more: "clients_offered st log \<Longrightarrow> st_snapshots st' = st_snapshots st \<Longrightarrow> clients_offered st' (sent_log ms @ log)"
  using offered_more by (fastforce simp: clients_offered_def)

lemma senders_more: "senders_offered st log \<Longrightarrow> st_sending st' = st_sending st \<Longrightarrow> senders_offered st' (sent_log ms @ log)"
  using offered_more by (fastforce simp: senders_offered_def)

lemma sender_step_access:
  assumes "clients_offered st log" "senders_offered st log" "blocks_offered log"
    and "sender_step z io found timed_out sent_ok key st = (st', ms)"
  shows "clients_offered st' (sent_log ms @ log) \<and> senders_offered st' (sent_log ms @ log) \<and> blocks_offered (sent_log ms @ log)"
proof (cases "hm_get (st_sending st) key")
  case None
  then show ?thesis using assms by (simp add: sender_step_def)
next
  case (Some w)
  obtain conn i where key: "key = (conn, i)" by fastforce
  obtain t ms' where t: "sender_turn z io found timed_out sent_ok w = (t, ms')" by fastforce
  have ms: "ms = map (Pair conn) ms'" and st': "st' = st\<lparr>st_sending := (case t of Goes_On w' \<Rightarrow> hm_put key w' (st_sending st) | Ends \<Rightarrow> hm_del key (st_sending st))\<rparr>"
    using assms(4) by (auto simp: sender_step_def Some [unfolded key] t key split: turn.splits)
  have w: "sw_cancelled w \<or> offered conn (generation (sw_frame w)) log"
    by (rule senders_get [OF assms(2) Some [unfolded key]])
  have "blocks_offered (sent_log ms @ log)"
  proof (cases "sw_cancelled w")
    case True
    then have "without_blocks ms" using sender_turn_kinds [OF t]
      by (auto simp: ms without_blocks_def list_all_iff split: clipboard_file.splits)
    then show ?thesis using assms(3) blocks_offered_without by simp
  next
    case False
    have "list_all (\<lambda>m. case m of FileStream f \<Rightarrow> kind f = BLOCK \<longrightarrow> generation f = generation (sw_frame w) | _ \<Rightarrow> True) ms'"
      using sender_turn_kinds [OF t] by (rule list.pred_mono_strong) (auto split: clipboard_file.splits)
    then show ?thesis unfolding ms using blocks_offered_turn [OF assms(3)] w False by blast
  qed
  moreover have "senders_offered st' log"
  proof (cases t)
    case (Goes_On w')
    then show ?thesis using senders_put [OF assms(2), of w' conn i] w sender_turn_frame [OF t [unfolded Goes_On]] by (simp add: st' key)
  next
    case Ends
    then show ?thesis using senders_del [OF assms(2)] by (simp add: st')
  qed
  then have "senders_offered st' (sent_log ms @ log)" by (rule senders_more) simp
  ultimately show ?thesis using clients_more [OF assms(1)] st' by simp
qed

subsection \<open>The other operations\<close>

lemma clients_sent: "clients_offered st log \<Longrightarrow> clients_offered st (sent_log ms @ log)"
  by (rule clients_more) simp_all

lemma clients_touch:
  "clients_offered st log \<Longrightarrow> hm_get (st_snapshots st) g = Some sn
   \<Longrightarrow> clients_offered (st\<lparr>st_snapshots := hm_put g (sn\<lparr>sn_used := now\<rparr>) (st_snapshots st)\<rparr>) log"
  by (auto simp: clients_offered_def hm.get_put)

lemma remember_metadata_clients:
  assumes "clients_offered st log" and "offered conn gen log"
  shows "clients_offered (remember_metadata now conn gen d st) log"
proof (cases "ss_generation (st_source st) \<noteq> gen \<or> METADATA_BYTES < length d")
  case False
  have room: "offered c g log" if "hm_get (make_room gen st) g = Some sn" "c \<in> set (sn_clients sn)" for g sn c
    using assms(1) make_room_keeps(2) [OF that(1)] that(2) unfolding clients_offered_def by blast
  let ?sn = "case hm_get (make_room gen st) gen of Some sn \<Rightarrow> sn
    | None \<Rightarrow> \<lparr>sn_paths = ss_paths (st_source st), sn_descriptors = d, sn_clients = [], sn_used = now\<rparr>"
  have new: "offered c gen log" if "c \<in> set (List.insert conn (sn_clients ?sn))" for c
    using that room [of gen] assms(2) by (cases "hm_get (make_room gen st) gen") auto
  have "offered c g log" if "hm_get (hm_put gen (?sn\<lparr>sn_clients := List.insert conn (sn_clients ?sn), sn_used := now\<rparr>) (make_room gen st)) g = Some sn"
    and "c \<in> set (sn_clients sn)" for g sn c
    using that new room by (cases "g = gen") (auto simp: hm.get_put simp del: set_insert)
  then have "clients_offered (st\<lparr>st_snapshots := hm_put gen (?sn\<lparr>sn_clients := List.insert conn (sn_clients ?sn), sn_used := now\<rparr>) (make_room gen st)\<rparr>) log"
    unfolding clients_offered_def by simp
  then show ?thesis using False by (simp add: remember_metadata_def Let_def)
qed (use assms in \<open>simp add: remember_metadata_def\<close>)

lemma remember_metadata_sending: "st_sending (remember_metadata now conn gen d st) = st_sending st"
  by (simp add: remember_metadata_def Let_def)

lemma cached_metadata_clients:
  "clients_offered st log \<Longrightarrow> cached_metadata now conn gen st = (x, st') \<Longrightarrow> clients_offered st' log \<and> st_sending st' = st_sending st"
  by (auto simp: cached_metadata_def clients_touch split: option.splits if_splits)

lemma start_send_access:
  assumes c: "clients_offered st log" and sd: "senders_offered st log" and r: "start_send now spawned conn f st = (x, st', ms)"
  shows "clients_offered st' log \<and> senders_offered st' log"
proof -
  have new: "sw_cancelled (send_window_new f path) \<or> offered conn (generation (sw_frame (send_window_new f path))) log"
    if "hm_get (st_snapshots st) (generation f) = Some sn" "conn \<in> set (sn_clients sn)" for path sn
    using c that unfolding clients_offered_def by (simp add: send_window_new_def)
  show ?thesis using r c sd new
    by (auto simp: start_send_def Let_def split: if_splits option.splits
        intro: clients_touch senders_put [of "st\<lparr>st_snapshots := _\<rparr>", simplified])
qed

lemma window_frame_access: "sw_frame (window_frame f w) = sw_frame w" "sw_cancelled w \<Longrightarrow> sw_cancelled (window_frame f w)"
  by (simp_all add: window_frame_def)

lemma window_frame_senders:
  "senders_offered st log \<Longrightarrow> hm_get (st_sending st) (conn, i) = Some w
   \<Longrightarrow> senders_offered (st\<lparr>st_sending := hm_put (conn, i) (window_frame f w) (st_sending st)\<rparr>) log"
  by (rule senders_put) (auto simp: window_frame_access dest: senders_get)

lemma stream_handle_access:
  assumes "clients_offered st log" "senders_offered st log" "stream_handle z now spawned conn f st = (st', ms)"
  shows "clients_offered st' log \<and> senders_offered st' log"
  using assms window_frame_senders
  by (auto simp: stream_handle_def Let_def split: if_splits option.splits prod.splits dest: start_send_access)

definition access_ok :: "stream_state \<Rightarrow> clip_entry list \<Rightarrow> bool" where
  "access_ok st log \<longleftrightarrow> clients_offered st log \<and> senders_offered st log"

lemma access_more: "access_ok st log \<Longrightarrow> access_ok st (sent_log ms @ log)"
  unfolding access_ok_def by (blast intro: clients_more senders_more)

lemma access_same:
  "access_ok st log \<Longrightarrow> st_snapshots st' = st_snapshots st \<Longrightarrow> st_sending st' = st_sending st \<Longrightarrow> access_ok st' (sent_log ms @ log)"
  unfolding access_ok_def by (blast intro: clients_more senders_more)

lemma response_access:
  assumes "access_ok st log" "format_data_response now f answer st = (st', ms)"
  shows "access_ok st' (sent_log ms @ log)"
proof -
  obtain conn ok d where a: "answer = (conn, ok, d)" by (cases answer) auto
  show ?thesis
  proof (cases ok)
    case False
    then show ?thesis using assms by (auto simp: format_data_response_def a intro: access_same)
  next
    case True
    have s: "st' = remember_metadata now conn (generation f) d st"
      and ms: "ms = [(conn, FileStream (f\<lparr>kind := DESCRIPTORS_RESPONSE, data := d\<rparr>))]"
      using assms(2) True by (simp_all add: format_data_response_def a emit_frame_def)
    have "clients_offered st (sent_log ms @ log)" "senders_offered st (sent_log ms @ log)"
      using access_more [OF assms(1)] by (simp_all only: access_ok_def)
    moreover have "offered conn (generation f) (sent_log ms @ log)" by (simp add: ms)
    ultimately show ?thesis unfolding access_ok_def s
      by (simp only: remember_metadata_clients senders_offered_def remember_metadata_sending simp_thms)
  qed
qed

lemma cached_access: "access_ok st log \<Longrightarrow> cached_metadata now conn gen st = (x, st') \<Longrightarrow> access_ok st' log"
  unfolding access_ok_def by (metis cached_metadata_clients senders_same)

lemma handle_access: "access_ok st log \<Longrightarrow> stream_handle z now spawned conn f st = (st', ms) \<Longrightarrow> access_ok st' (sent_log ms @ log)"
  by (rule access_more) (auto simp: access_ok_def dest: stream_handle_access)

lemma clip_frame_in_access:
  assumes a: "access_ok st log" and r: "clip_frame_in z now spawned format sequence answer conn f st = (st', ms)"
  shows "access_ok st' (sent_log ms @ log)"
proof (cases "kind f = DESCRIPTORS_REQUEST \<and> \<not> (request_id f = 0 \<or> generation f = 0 \<or> data f \<noteq> [] \<or> compressed f \<or> index f \<noteq> format)")
  case False
  then have "(st', ms) = (st, stream_reject conn (FileStream f)) \<or> stream_handle z now spawned conn f st = (st', ms)"
    using r by (auto simp: clip_frame_in_def split: if_splits)
  then show ?thesis using access_more [OF a] handle_access [OF a] by auto
next
  case True
  obtain x st1 where c: "cached_metadata now conn (generation f) st = (x, st1)" by fastforce
  have a1: "access_ok st1 log" by (rule cached_access [OF a c])
  have "st' = st1 \<or> (\<exists>an. format_data_response now f an st1 = (st', ms))"
    using r True c by (auto simp: clip_frame_in_def split: option.splits if_splits)
  then show ?thesis using access_more [OF a1] response_access [OF a1] by auto
qed

lemma disconnect_access:
  assumes a: "access_ok st log" and ok: "hm_ok (st_snapshots st)" and r: "stream_disconnect conn st = (st', ms)"
  shows "access_ok st' (Ended conn # sent_log ms @ log)"
proof -
  have sn: "st_snapshots st' = forget_client conn (st_snapshots st)" and sd: "st_sending st' = cancel_senders conn (st_sending st)"
    using r by (auto simp: stream_disconnect_def Let_def split: prod.splits dest!: release_all_snapshots)
  have m: "clients_offered st (sent_log ms @ log)" "senders_offered st (sent_log ms @ log)"
    using access_more [OF a] by (simp_all only: access_ok_def)
  have "clients_offered st' (Ended conn # sent_log ms @ log)"
    using m(1) by (auto simp: clients_offered_def sn dest!: forget_client_get [OF ok])
  moreover have get: "hm_get (cancel_senders conn s) (c, i) = map_option (\<lambda>w. if c = conn then w\<lparr>sw_cancelled := True\<rparr> else w) (hm_get s (c, i))" for c i s
    by (induction s) (auto simp: cancel_senders_def hm_get_def)
  have "senders_offered st' (Ended conn # sent_log ms @ log)"
    unfolding senders_offered_def
  proof (intro allI impI)
    fix c i w
    assume "hm_get (st_sending st') (c, i) = Some w"
    then obtain w0 where w0: "hm_get (st_sending st) (c, i) = Some w0" and w: "w = (if c = conn then w0\<lparr>sw_cancelled := True\<rparr> else w0)"
      by (auto simp: sd get)
    show "sw_cancelled w \<or> offered c (generation (sw_frame w)) (Ended conn # sent_log ms @ log)"
      using senders_get [OF m(2) w0] by (simp add: w)
  qed
  ultimately show ?thesis by (simp add: access_ok_def)
qed

lemma clip_step_access:
  assumes a: "access_ok st log" "blocks_offered log" and ok: "hm_ok (st_snapshots st)" and r: "clip_step z ev st = (st', ms)"
  shows "access_ok st' (logged ev ms @ log) \<and> blocks_offered (logged ev ms @ log)"
proof (cases "\<exists>io found timed_out sent_ok key. ev = Sender_Turn io found timed_out sent_ok key")
  case True
  then show ?thesis using sender_step_access a r by (auto simp: clip_step_def logged_def access_ok_def)
next
  case other: False
  then have b: "blocks_offered (logged ev ms @ log)"
    using clip_step_without [OF r] a(2) by (cases ev) (auto simp: logged_def blocks_offered_without)
  have "access_ok st' (logged ev ms @ log)"
  proof (cases ev)
    case (Frame_In now spawned format sequence answer conn f)
    then show ?thesis using clip_frame_in_access [OF a(1)] r by (simp add: clip_step_def logged_def)
  next
    case (Disconnect conn)
    then show ?thesis using disconnect_access [OF a(1) ok] r by (simp add: clip_step_def logged_def)
  next
    case (Read_Open conn gen ix sz off len token ids sent_ok)
    then show ?thesis using r by (auto simp: clip_step_def logged_def snd_def split: prod.splits dest!: read_open_snapshots intro: access_same [OF a(1)])
  next
    case (Read_Step timed_out sent_ok rd)
    then show ?thesis using r by (auto simp: clip_step_def logged_def snd_def split: prod.splits dest!: read_step_snapshots intro: access_same [OF a(1)])
  next
    case (Release conn i)
    then show ?thesis using r by (auto simp: clip_step_def logged_def dest!: release_stream_snapshots intro: access_same [OF a(1)])
  next
    case (Sender_Turn io found timed_out sent_ok key)
    then show ?thesis using other by blast
  qed (use r access_same [OF a(1), of _ "[]"] access_same [OF a(1)] in \<open>auto simp: clip_step_def logged_def client_format_list_def stream_announce_def
      server_format_list_def set_remote_generation_def stream_snapshot_def descriptors_begin_def descriptors_end_def Let_def
      split: prod.splits if_splits option.splits\<close>)
  with b show ?thesis by blast
qed


section \<open>The generation that is announced\<close>

lemma hex_digit_cases: "d < 16 \<Longrightarrow> digit_value 16 (hex_digit d) = Some d \<and> hex_digit d \<noteq> CHR ''+''"
proof -
  assume d: "d < 16"
  from d have "d = 0 \<or> d = 1 \<or> d = 2 \<or> d = 3 \<or> d = 4 \<or> d = 5 \<or> d = 6 \<or> d = 7 \<or> d = 8 \<or> d = 9
    \<or> d = 10 \<or> d = 11 \<or> d = 12 \<or> d = 13 \<or> d = 14 \<or> d = 15" by presburger
  then have "digit_value 16 (hex_digit d) = Some d"
    by (elim disjE) (simp_all add: hex_digit_def digit_value_def char_code_def Let_def)
  moreover have "digit_value 16 CHR ''+'' = None" by (simp add: digit_value_def char_code_def Let_def)
  ultimately show ?thesis by auto
qed

lemma parse_hex_digits: "n < 16 ^ k \<Longrightarrow> parse_digits 16 0 (hex_digits k n) = Some n"
proof (induction k arbitrary: n)
  case (Suc k)
  have "n div 16 < 16 ^ k" using Suc.prems by (simp add: less_mult_imp_div_less mult.commute)
  then show ?case using Suc.IH hex_digit_cases [of "n mod 16"] by (simp add: parse_digits_append)
qed simp

lemma length_hex_digits: "length (hex_digits k n) = k"
  by (induction k arbitrary: n) simp_all

lemma hex_digits_plain: "c \<in> set (hex_digits k n) \<Longrightarrow> c \<noteq> CHR ''+''"
proof (induction k arbitrary: n)
  case (Suc k)
  then show ?case using hex_digit_cases [of "n mod 16"] by auto
qed simp

lemma announced_format: "g \<noteq> 0 \<Longrightarrow> format_generation (FORMAT_PREFIX @ hex_digits 16 (unat g)) = Some g" for g :: u64
proof -
  assume g: "g \<noteq> 0"
  let ?h = "hex_digits 16 (unat g)"
  have n: "unat g < 16 ^ 16" using unsigned_less [of g, where 'a = nat] by simp
  obtain c cs where h: "?h = c # cs" "c \<noteq> CHR ''+''"
    using hex_digits_plain [of _ 16 "unat g"] length_hex_digits [of 16 "unat g"] by (cases ?h) auto
  have "parse_unsigned 64 16 ?h = Some (unat g)"
    using parse_hex_digits [OF n] n h by (simp add: parse_unsigned_def Let_def del: hex_digits.simps)
  moreover have "length ?h = 16" by (rule length_hex_digits)
  ultimately show ?thesis using g
    by (simp add: format_generation_def strip_prefix_def unat_eq_0 del: hex_digits.simps)
qed

lemma generation_of_append:
  "list_all (\<lambda>(i, name). format_generation name = None) fs \<Longrightarrow> generation_of (fs @ gs) = generation_of gs"
  by (induction fs rule: generation_of.induct) auto

text \<open>What one side announces with a copy is what the other side asks for: after a list of formats with copied files has
  gone from one machine to another, the generation the receiver has for the connection is the one of the sender's
  source, it is not zero, and the receiver's clipboard is given the list as it was before.\<close>

theorem announced_generation_read:
  assumes "list_all (\<lambda>(i, name). format_generation name = None \<and> \<not> prefix FORMAT_PREFIX name) formats"
    and "client_format_list sequence True fresh formats st = (sent, st')"
    and "server_format_list conn sent other = (shown, other')"
  shows "remote_generation conn other' = ss_generation (st_source st') \<and> ss_generation (st_source st') \<noteq> 0
    \<and> source_is_current (remote_generation conn other') sequence st' \<and> shown = formats"
proof -
  let ?g = "ss_generation (st_source st')"
  have "max fresh 1 \<noteq> (0 :: u64)"
  proof
    assume "max fresh 1 = 0"
    then have "(1 :: u64) \<le> 0" by (metis max.cobounded2)
    then show False by simp
  qed
  then have g: "?g \<noteq> 0" and seq: "ss_sequence (st_source st') = sequence"
    and s: "sent = formats @ [(0, FORMAT_PREFIX @ hex_digits 16 (unat ?g))]"
    using assms(2) by (auto simp: client_format_list_def stream_announce_def Let_def simp del: hex_digits.simps split: if_splits)
  have f: "list_all (\<lambda>(i, name). format_generation name = None) formats" "filter (\<lambda>(i, name). \<not> prefix FORMAT_PREFIX name) formats = formats"
    using assms(1) by (auto simp: list_all_iff filter_id_conv)
  have "generation_of sent = ?g"
    using g by (simp add: s generation_of_append [OF f(1)] announced_format del: hex_digits.simps)
  then show ?thesis
    using assms(3) g seq f(2)
    by (auto simp: server_format_list_def set_remote_generation_def remote_generation_def source_is_current_def s simp del: hex_digits.simps)
qed

theorem announced_generation_read_witness:
  "remote_generation 3 (snd (server_format_list 3 (fst (client_format_list 5 True 255 [(49160, ''FileNameW'')] stream_state_default)) stream_state_default)) = 255"
proof -
  let ?out = "client_format_list 5 True 255 [(49160, ''FileNameW'')] stream_state_default"
  have g: "ss_generation (st_source (snd ?out)) = 255"
    by (simp add: client_format_list_def stream_announce_def stream_state_default_def source_default_def Let_def del: hex_digits.simps)
  have l: "list_all (\<lambda>(i :: i32, name). format_generation name = None \<and> \<not> prefix FORMAT_PREFIX name) [(49160, ''FileNameW'')]"
    by (simp add: format_generation_def strip_prefix_def FORMAT_PREFIX_def)
  obtain sent st' where o: "?out = (sent, st')" by fastforce
  obtain shown other' where p: "server_format_list 3 sent stream_state_default = (shown, other')" by fastforce
  show ?thesis using announced_generation_read [OF l o p] g by (simp add: o p)
qed

end
