(* ===== verification/Ebml.thy ===== *)
theory Ebml
  imports MDesk_Prelude
begin

text \<open>
  The elements of a WebM file, as \<open>src/recording_note.rs\<close> reads and builds them: sizes of one to eight bytes that
  carry their own width, elements of an identifier, a size and a payload, and padding.  Positions are
  natural numbers; each error message of the code is a constructor of \<open>note_error\<close>.
\<close>

datatype note_error =
    No_Size | Bad_Size | Cut_Size | Too_Long | No_Room | No_Padding | Bad_Id | Cut_Id | Too_Big
  | No_Info | Bad_Info | Not_Webm | No_Segment | Bad_Segment | No_Seek_Head | Bad_Seek_Head | No_Spare_Room | No_Reserve
  | Bad_Info_Position | Bad_Tags_Position | Seek_Head_Full | Bad_Seek_Head_Size | Io_Failed

text \<open>The operator \<open>?\<close>.\<close>

definition and_then :: "'e + 'a \<Rightarrow> ('a \<Rightarrow> 'e + 'b) \<Rightarrow> 'e + 'b" where
  "and_then r f = (case r of Inl e \<Rightarrow> Inl e | Inr x \<Rightarrow> f x)"

lemma and_then_simps [simp]: "and_then (Inl e) f = Inl e" "and_then (Inr x) f = f x"
  by (simp_all add: and_then_def)

lemma and_then_Inr: "and_then r f = Inr y \<longleftrightarrow> (\<exists>x. r = Inr x \<and> f x = Inr y)"
  by (cases r) simp_all

definition byte_slice :: "nat \<Rightarrow> nat \<Rightarrow> bytes \<Rightarrow> bytes" where
  "byte_slice a b bs = take (b - a) (drop a bs)"

section \<open>Sizes\<close>

fun be_digits :: "nat \<Rightarrow> nat \<Rightarrow> bytes" where
  "be_digits 0 n = []"
| "be_digits (Suc k) n = be_digits k (n div 256) @ [of_nat n]"

definition to_be_bytes :: "u64 \<Rightarrow> bytes" where
  "to_be_bytes v = be_digits 8 (unat v)"

definition leading_zeros :: "u8 \<Rightarrow> nat" where
  "leading_zeros b =
     (if 0x80 \<le> b then 0 else if 0x40 \<le> b then 1 else if 0x20 \<le> b then 2 else if 0x10 \<le> b then 3
      else if 0x08 \<le> b then 4 else if 0x04 \<le> b then 5 else if 0x02 \<le> b then 6 else if 0x01 \<le> b then 7 else 8)"

definition unknown_size :: "nat \<Rightarrow> u64" where
  "unknown_size width = push_bit (7 * width) 1 - 1"

definition size_mask :: "nat \<Rightarrow> u8" where
  "size_mask width = (if width = 8 then 0 else drop_bit width 0xFF)"

definition decode_ebml_size :: "bytes \<Rightarrow> note_error + u64 \<times> nat \<times> bool" where
  "decode_ebml_size bs =
     (case bs of
        [] \<Rightarrow> Inl No_Size
      | first # rest \<Rightarrow>
          if first = 0 then Inl Bad_Size
          else let width = leading_zeros first + 1 in
            if 8 < width \<or> length bs < width then Inl Cut_Size
            else let value = foldl (\<lambda>v b. push_bit 8 v OR ucast b) (ucast (first AND size_mask width)) (take (width - 1) rest)
                 in Inr (value, width, value = unknown_size width))"

definition encode_ebml_size :: "u64 \<Rightarrow> nat option \<Rightarrow> note_error + bytes" where
  "encode_ebml_size value requested =
     and_then
       (case requested of
          Some w \<Rightarrow> Inr w
        | None \<Rightarrow> (case find (\<lambda>w. value < unknown_size w) [1..<9] of Some w \<Rightarrow> Inr w | None \<Rightarrow> Inl Too_Long))
       (\<lambda>width.
          if \<not> (1 \<le> width \<and> width \<le> 8) \<or> unknown_size width \<le> value then Inl No_Room
          else let encoded = drop (8 - width) (to_be_bytes value)
               in Inr (encoded[0 := hd encoded OR push_bit (8 - width) 1]))"

definition encode_ebml_uint :: "u64 \<Rightarrow> bytes" where
  "encode_ebml_uint value =
     (let bs = to_be_bytes value; zeros = length (takeWhile (\<lambda>b. b = 0) bs)
      in drop (min zeros (length bs - 1)) bs)"

section \<open>Elements\<close>

record ebml_element =
  el_id :: bytes
  el_payload_start :: nat
  el_payload_end :: nat
  el_end :: nat

definition parse_ebml_element :: "bytes \<Rightarrow> nat \<Rightarrow> note_error + ebml_element option" where
  "parse_ebml_element bs start =
     (if length bs \<le> start then Inr None
      else let first = bs ! start in
        if first = 0 then Inl Bad_Id
        else let id_width = leading_zeros first + 1 in
          if 4 < id_width \<or> length bs \<le> start + id_width then Inl Cut_Id
          else let size_start = start + id_width in
            and_then (decode_ebml_size (drop size_start bs)) (\<lambda>(payload_size, size_width, unknown).
              if unknown then Inr None
              else let payload_start = size_start + size_width; payload_end = payload_start + unat payload_size in
                if 2 ^ 64 \<le> payload_end then Inl Too_Big
                else if length bs < payload_end then Inr None
                else Inr (Some \<lparr>el_id = byte_slice start size_start bs, el_payload_start = payload_start,
                                el_payload_end = payload_end, el_end = payload_end\<rparr>)))"

definition build_ebml_element :: "bytes \<Rightarrow> bytes \<Rightarrow> note_error + bytes" where
  "build_ebml_element i payload =
     and_then (encode_ebml_size (of_nat (length payload)) None) (\<lambda>size_bytes. Inr (i @ size_bytes @ payload))"

text \<open>The widths are tried in turn; \<open>resize\<close> fills with zeros.\<close>

fun void_of_width :: "nat list \<Rightarrow> nat \<Rightarrow> note_error + bytes" where
  "void_of_width [] n = Inl No_Padding"
| "void_of_width (w # ws) n =
     (if n < 1 + w then void_of_width ws n
      else case encode_ebml_size (of_nat (n - (1 + w))) (Some w) of
             Inr size_bytes \<Rightarrow>
               let result = 0xEC # size_bytes in Inr (take n result @ replicate (n - length result) 0)
           | Inl e \<Rightarrow> void_of_width ws n)"

definition build_ebml_void :: "nat \<Rightarrow> note_error + bytes" where
  "build_ebml_void n = (if n = 0 then Inr [] else void_of_width [1..<9] n)"

section \<open>Sizes round trip\<close>

lemma length_be_digits [simp]: "length (be_digits k n) = k"
  by (induction k arbitrary: n) simp_all

lemma drop_be_digits: "w \<le> k \<Longrightarrow> drop (k - w) (be_digits k n) = be_digits w n"
proof (induction k arbitrary: w n)
  case (Suc k)
  show ?case
  proof (cases w)
    case (Suc w')
    then show ?thesis using Suc.IH [of w' "n div 256"] Suc.prems by simp
  qed simp
qed simp

lemma be_digits_Cons: "be_digits (Suc k) n = of_nat (n div 256 ^ k) # be_digits k n"
proof (induction k arbitrary: n)
  case (Suc k)
  have "be_digits (Suc (Suc k)) n = be_digits (Suc k) (n div 256) @ [of_nat n]" by simp
  also have "\<dots> = of_nat (n div 256 div 256 ^ k) # be_digits (Suc k) n" by (subst Suc.IH) simp
  finally show ?case by (simp add: div_mult2_eq mult.commute)
qed simp

lemma or_low_byte: "push_bit 8 v OR ucast b = v * 256 + ucast b" for v :: u64 and b :: u8
proof -
  have "push_bit 8 v OR ucast b = push_bit 8 v + ucast b"
    by (rule disjunctive_add [symmetric]) (auto simp: bit_simps dest: bit_imp_le_length)
  then show ?thesis by (simp add: push_bit_eq_mult)
qed

lemma fold_be_digits_mult:
  "foldl (\<lambda>v b. v * 256 + ucast b) acc (be_digits k n) = (acc * 256 ^ k + of_nat (n mod 256 ^ k) :: u64)"
proof (induction k arbitrary: n)
  case (Suc k)
  have "(ucast (of_nat n :: u8) :: u64) = of_nat (n mod 256)"
    by (simp add: unsigned_of_nat take_bit_eq_mod)
  then have "foldl (\<lambda>v b. v * 256 + ucast b) acc (be_digits (Suc k) n)
      = (acc * 256 ^ k + of_nat (n div 256 mod 256 ^ k)) * 256 + of_nat (n mod 256)"
    by (simp only: be_digits.simps foldl_append Suc.IH foldl.simps)
  also have "\<dots> = acc * 256 ^ Suc k + of_nat (256 * (n div 256 mod 256 ^ k) + n mod 256)"
    by (simp add: algebra_simps)
  also have "256 * (n div 256 mod 256 ^ k) + n mod 256 = n mod 256 ^ Suc k"
    by (simp add: mod_mult2_eq)
  finally show ?case .
qed simp

lemma fold_be_digits:
  "foldl (\<lambda>v b. push_bit 8 v OR ucast b) acc (be_digits k n) = (acc * 256 ^ k + of_nat (n mod 256 ^ k) :: u64)"
proof -
  have "(\<lambda>v b. push_bit 8 v OR ucast b) = (\<lambda>(v :: u64) (b :: u8). v * 256 + ucast b)" by (intro ext or_low_byte)
  then show ?thesis by (simp only: fold_be_digits_mult)
qed

lemma first_byte_or:
  assumes "m \<le> 7" "h < 2 ^ m"
  shows "unat (of_nat h OR push_bit m 1 :: u8) = h + 2 ^ m"
proof -
  have lt: "h < 256" using assms power_increasing [of m 7 "2 :: nat"] by simp
  have "\<not> bit (of_nat h :: u8) n \<or> \<not> bit (push_bit m 1 :: u8) n" for n
  proof (cases "n = m")
    case True
    have "\<not> bit h m" using assms(2) by (simp add: bit_iff_odd)
    then show ?thesis using True by (simp add: bit_of_nat_iff)
  qed (simp add: bit_simps)
  then have "of_nat h OR push_bit m 1 = (of_nat h + push_bit m 1 :: u8)" by (intro disjunctive_add [symmetric])
  also have "\<dots> = of_nat (h + 2 ^ m)" by (simp add: push_bit_eq_mult)
  finally have e: "of_nat h OR push_bit m 1 = (of_nat (h + 2 ^ m) :: u8)" .
  have "h + 2 ^ m < 2 * 2 ^ m" using assms(2) by simp
  also have "\<dots> \<le> 2 ^ 8" using assms(1) power_increasing [of "Suc m" 8 "2 :: nat"] by simp
  finally show ?thesis unfolding e by (simp add: unat_of_nat del: of_nat_add)
qed

lemma first_byte:
  assumes "m \<le> 7" "h < 2 ^ m"
  defines "first \<equiv> of_nat h OR push_bit m 1 :: u8"
  shows "first \<noteq> 0" "leading_zeros first = 7 - m" "first AND size_mask (8 - m) = of_nat h"
proof -
  have u: "unat first = h + 2 ^ m" unfolding first_def by (rule first_byte_or [OF assms(1,2)])
  then show "first \<noteq> 0" by auto
  have "m = 0 \<or> m = 1 \<or> m = 2 \<or> m = 3 \<or> m = 4 \<or> m = 5 \<or> m = 6 \<or> m = 7" using assms(1) by linarith
  then show "leading_zeros first = 7 - m"
    using assms(2) u by (elim disjE) (simp_all add: leading_zeros_def word_le_nat_alt)
  have mask: "size_mask (8 - m) = mask m"
    using \<open>m = 0 \<or> _\<close> by (elim disjE) (simp_all add: size_mask_def mask_eq_exp_minus_1)
  have "take_bit m (of_nat h :: u8) = of_nat h"
    using assms(2) by (simp add: take_bit_of_nat take_bit_nat_eq_self)
  then show "first AND size_mask (8 - m) = of_nat h"
    unfolding mask first_def take_bit_eq_mask [symmetric] take_bit_or
    by (simp only: take_bit_push_bit) simp
qed

lemma unknown_size_nat: "w \<le> 8 \<Longrightarrow> unat (unknown_size w) = 2 ^ (7 * w) - 1"
proof -
  assume w: "w \<le> 8"
  then have lt: "(2 :: nat) ^ (7 * w) < 2 ^ 64" by (intro power_strict_increasing) simp_all
  have "unknown_size w = of_nat (2 ^ (7 * w) - 1)" by (simp add: unknown_size_def push_bit_eq_mult)
  moreover have "unat (of_nat (2 ^ (7 * w) - 1) :: u64) = 2 ^ (7 * w) - 1"
    using lt by (simp add: unat_of_nat del: of_nat_diff)
  ultimately show ?thesis by simp
qed

lemma encode_size_Inr:
  assumes "encode_ebml_size v req = Inr bs"
  obtains w where "1 \<le> w" "w \<le> 8" "length bs = w" "unat v < 2 ^ (7 * w) - 1" "\<forall>w'. req = Some w' \<longrightarrow> w = w'"
    "bs = (be_digits w (unat v))[0 := of_nat (unat v div 256 ^ (w - 1)) OR push_bit (8 - w) 1]"
proof -
  obtain w where w: "1 \<le> w" "w \<le> 8" "\<not> unknown_size w \<le> v" "\<forall>w'. req = Some w' \<longrightarrow> w = w'"
    and bs: "bs = (drop (8 - w) (to_be_bytes v))[0 := hd (drop (8 - w) (to_be_bytes v)) OR push_bit (8 - w) 1]"
    using assms by (auto simp: encode_ebml_size_def and_then_Inr Let_def split: if_splits option.splits)
  have d: "drop (8 - w) (to_be_bytes v) = be_digits w (unat v)" using drop_be_digits [OF w(2)] by (simp add: to_be_bytes_def)
  moreover have "hd (be_digits w (unat v)) = of_nat (unat v div 256 ^ (w - 1))"
    using w(1) be_digits_Cons [of "w - 1" "unat v"] by simp
  moreover have "unat v < 2 ^ (7 * w) - 1" using w(2,3) by (simp add: word_le_nat_alt unknown_size_nat not_le)
  ultimately show ?thesis using that w bs by simp
qed

theorem ebml_size_roundtrip:
  assumes "encode_ebml_size v req = Inr bs"
  shows "decode_ebml_size (bs @ rest) = Inr (v, length bs, False)"
proof -
  obtain w where w: "1 \<le> w" "w \<le> 8" "length bs = w" "unat v < 2 ^ (7 * w) - 1"
    and bs: "bs = (be_digits w (unat v))[0 := of_nat (unat v div 256 ^ (w - 1)) OR push_bit (8 - w) 1]"
    using assms by (rule encode_size_Inr)
  define h where "h = unat v div 256 ^ (w - 1)"
  obtain k where k: "w = Suc k" using w(1) by (cases w) auto
  have b: "bs = (of_nat h OR push_bit (8 - w) 1) # be_digits k (unat v)"
    by (simp add: bs k be_digits_Cons h_def del: be_digits.simps)
  have p: "(2 :: nat) ^ (7 * w) = 2 ^ (8 - w) * 256 ^ k"
  proof -
    have "(256 :: nat) ^ k = 2 ^ (8 * k)" by (simp add: power_mult)
    moreover have "7 * w = 8 - w + 8 * k" using w(2) k by simp
    ultimately show ?thesis by (simp add: power_add [symmetric])
  qed
  have h: "h < 2 ^ (8 - w)"
  proof -
    have "unat v < 2 ^ (8 - w) * 256 ^ k" using w(4) unfolding p by linarith
    then have "unat v div 256 ^ k < 2 ^ (8 - w)" by (rule less_mult_imp_div_less)
    then show ?thesis by (simp add: h_def k)
  qed
  note first = first_byte [of "8 - w" h, OF _ h]
  have width: "7 - (8 - w) = k" "8 - (8 - w) = w" "8 - w \<le> 7" using w(1,2) k by simp_all
  have "h * 256 ^ k + unat v mod 256 ^ k = unat v" unfolding h_def k diff_Suc_1 by (rule div_mult_mod_eq)
  then have "(of_nat (h * 256 ^ k + unat v mod 256 ^ k) :: u64) = of_nat (unat v)" by (simp only:)
  then have "of_nat h * 256 ^ k + of_nat (unat v mod 256 ^ k) = v"
    by (simp only: of_nat_add of_nat_mult of_nat_power of_nat_numeral) simp
  moreover have "(ucast (of_nat h :: u8) :: u64) = of_nat h"
  proof -
    have "8 - w \<le> 7" using w(1) by simp
    then have "h < 256" using h power_increasing [of "8 - w" 7 "2 :: nat"] by simp
    then show ?thesis by (simp add: unsigned_of_nat take_bit_nat_eq_self)
  qed
  moreover have "v \<noteq> unknown_size w" using w(2,4) unknown_size_nat [of w] by auto
  ultimately show ?thesis
    using first [unfolded width] w(2)
    by (simp add: decode_ebml_size_def b Let_def fold_be_digits k del: push_bit_of_1)
qed

section \<open>Elements round trip\<close>

definition ebml_id :: "bytes \<Rightarrow> bool" where
  "ebml_id i \<longleftrightarrow> i \<noteq> [] \<and> hd i \<noteq> 0 \<and> length i = leading_zeros (hd i) + 1 \<and> length i \<le> 4"

lemma encode_size_not_Nil: "encode_ebml_size v req = Inr bs \<Longrightarrow> bs \<noteq> [] \<and> length bs \<le> 8"
proof -
  assume "encode_ebml_size v req = Inr bs"
  then obtain w where "1 \<le> w" "w \<le> 8" "length bs = w" by (rule encode_size_Inr)
  then show ?thesis by auto
qed

lemma byte_slice_middle: "byte_slice (length pre) (length pre + length mid) (pre @ mid @ post) = mid"
  by (simp add: byte_slice_def)

lemma parse_element:
  assumes i: "ebml_id i" and s: "encode_ebml_size (of_nat (length payload)) req = Inr sz"
    and len: "length (pre @ i @ sz @ payload @ post) < 2 ^ 64"
  shows "parse_ebml_element (pre @ i @ sz @ payload @ post) (length pre) =
    Inr (Some \<lparr>el_id = i, el_payload_start = length pre + length i + length sz,
      el_payload_end = length pre + length i + length sz + length payload,
      el_end = length pre + length i + length sz + length payload\<rparr>)"
proof -
  let ?bs = "pre @ i @ sz @ payload @ post"
  have hd: "?bs ! length pre = hd i" using i by (simp add: ebml_id_def nth_append hd_conv_nth)
  have d: "decode_ebml_size (drop (length pre + (leading_zeros (hd i) + 1)) ?bs) = Inr (of_nat (length payload), length sz, False)"
    using ebml_size_roundtrip [OF s, of "payload @ post"] i by (simp add: ebml_id_def)
  have u: "unat (of_nat (length payload) :: u64) = length payload" using len by (simp add: unat_of_nat)
  have sl: "byte_slice (length pre) (length pre + length i) ?bs = i" by (rule byte_slice_middle)
  have n: "sz \<noteq> []" using encode_size_not_Nil [OF s] by simp
  show ?thesis
    using i len n d sl u by (simp add: parse_ebml_element_def hd Let_def ebml_id_def not_le add.assoc)
qed

lemma build_element_Inr:
  "build_ebml_element i payload = Inr e \<longleftrightarrow> (\<exists>sz. encode_ebml_size (of_nat (length payload)) None = Inr sz \<and> e = i @ sz @ payload)"
  by (auto simp: build_ebml_element_def and_then_Inr)

text \<open>An element that was built is parsed as what it was built from, wherever it stands.\<close>

lemma parse_built:
  assumes i: "ebml_id i" and b: "build_ebml_element i payload = Inr e" and len: "length (pre @ e @ post) < 2 ^ 64"
  shows "\<exists>el. parse_ebml_element (pre @ e @ post) (length pre) = Inr (Some el) \<and> el_id el = i
    \<and> byte_slice (el_payload_start el) (el_payload_end el) (pre @ e @ post) = payload \<and> el_end el = length pre + length e
    \<and> el_payload_end el = el_end el \<and> length pre < el_payload_start el"
proof -
  obtain sz where sz: "encode_ebml_size (of_nat (length payload)) None = Inr sz" and e: "e = i @ sz @ payload"
    using b by (auto simp: build_element_Inr)
  have "byte_slice (length pre + length i + length sz) (length pre + length i + length sz + length payload) (pre @ e @ post) = payload"
    by (simp add: byte_slice_def e)
  then show ?thesis
    using parse_element [OF i sz, of pre post] len i by (auto simp: e ebml_id_def)
qed

lemma void_of_width_Inr:
  assumes "void_of_width ws n = Inr e" "set ws \<subseteq> {1..8}"
  shows "\<exists>w sz. encode_ebml_size (of_nat (n - (1 + w))) (Some w) = Inr sz \<and> length sz = w \<and> 1 + w \<le> n
    \<and> e = [0xEC] @ sz @ replicate (n - (1 + w)) 0"
  using assms
proof (induction ws n rule: void_of_width.induct)
  case (2 w ws n)
  show ?case
  proof (cases "n < 1 + w")
    case False
    show ?thesis
    proof (cases "encode_ebml_size (of_nat (n - (1 + w))) (Some w)")
      case (Inr sz)
      have l: "length sz = w" using Inr by (rule encode_size_Inr) auto
      then have "e = 0xEC # sz @ replicate (n - Suc (length sz)) 0"
        using 2(3) False Inr by (simp add: Let_def)
      then show ?thesis using Inr l False by (intro exI [of _ w] exI [of _ sz]) simp
    qed (use 2 False in auto)
  qed (use 2 in auto)
qed simp

lemma build_void_Inr:
  assumes "build_ebml_void n = Inr e" "n \<noteq> 0"
  obtains w sz where "encode_ebml_size (of_nat (n - (1 + w))) (Some w) = Inr sz" "length sz = w" "1 + w \<le> n"
    "e = [0xEC] @ sz @ replicate (n - (1 + w)) 0"
proof -
  have "void_of_width [1..<9] n = Inr e" using assms by (simp add: build_ebml_void_def)
  from void_of_width_Inr [OF this] show ?thesis using that by fastforce
qed

lemma build_void_length: "build_ebml_void n = Inr e \<Longrightarrow> length e = n"
proof (cases "n = 0")
  case False
  assume "build_ebml_void n = Inr e"
  from build_void_Inr [OF this False] obtain w sz where "length sz = w" "1 + w \<le> n" "e = [0xEC] @ sz @ replicate (n - (1 + w)) (0 :: u8)"
    by metis
  then show ?thesis by simp
qed (simp add: build_ebml_void_def)

lemma parse_void:
  assumes b: "build_ebml_void n = Inr e" and n: "n \<noteq> 0" and len: "length (pre @ e @ post) < 2 ^ 64"
  shows "\<exists>el. parse_ebml_element (pre @ e @ post) (length pre) = Inr (Some el) \<and> el_id el = [0xEC] \<and> el_end el = length pre + n"
proof -
  obtain w sz where sz: "encode_ebml_size (of_nat (n - (1 + w))) (Some w) = Inr sz" "length sz = w" "1 + w \<le> n"
    and e: "e = [0xEC] @ sz @ replicate (n - (1 + w)) 0"
    using b n by (rule build_void_Inr)
  have i: "ebml_id [0xEC]" by (simp add: ebml_id_def leading_zeros_def)
  have s: "encode_ebml_size (of_nat (length (replicate (n - (1 + w)) (0 :: u8)))) (Some w) = Inr sz" using sz(1) by simp
  show ?thesis using parse_element [OF i s, of pre post] len sz(2,3) by (auto simp: e)
qed

text \<open>Any room of two bytes or more can be padded.\<close>

lemma encode_size_fits: "1 \<le> w \<Longrightarrow> w \<le> 8 \<Longrightarrow> unat v < 2 ^ (7 * w) - 1 \<Longrightarrow> \<exists>bs. encode_ebml_size v (Some w) = Inr bs"
  by (auto simp: encode_ebml_size_def word_le_nat_alt unknown_size_nat Let_def)

lemma void_of_width_some:
  "w \<in> set ws \<Longrightarrow> 1 + w \<le> n \<Longrightarrow> encode_ebml_size (of_nat (n - (1 + w))) (Some w) = Inr sz \<Longrightarrow> \<exists>e. void_of_width ws n = Inr e"
  by (induction ws) (auto simp: Let_def split: sum.split)

lemma build_void_exists:
  assumes "2 \<le> n" "n < 2 ^ 56"
  shows "\<exists>e. build_ebml_void n = Inr e"
proof -
  have u: "unat (of_nat (n - (1 + w)) :: u64) = n - (1 + w)" for w
    using assms(2) by (simp add: unat_of_nat del: of_nat_diff)
  consider "n - 2 < 2 ^ 7 - 1" | "9 \<le> n" by fastforce
  then obtain w where w: "w \<in> set [1..<9]" "1 + w \<le> n" "n - (1 + w) < 2 ^ (7 * w) - 1"
  proof cases
    case 1
    then show ?thesis using assms(1) by (intro that [of 1]) auto
  next
    case 2
    then show ?thesis using assms(2) by (intro that [of 8]) auto
  qed
  have "1 \<le> w" "w \<le> 8" using w(1) by simp_all
  moreover have "unat (of_nat (n - (1 + w)) :: u64) < 2 ^ (7 * w) - 1" unfolding u by (rule w(3))
  ultimately obtain sz where "encode_ebml_size (of_nat (n - (1 + w))) (Some w) = Inr sz"
    using encode_size_fits by blast
  then show ?thesis using void_of_width_some [OF w(1,2)] assms(1) by (auto simp: build_ebml_void_def)
qed

end
