(* ===== verification/Recording_Note.thy ===== *)
theory Recording_Note
  imports Ebml
begin

text \<open>
  Notes in recordings (\<open>src/recording_note.rs\<close>): the title and the comment of a recording are appended to the WebM
  file as new Info and Tags elements, and the seek head at its front is pointed at them.

  \<open>append_plan\<close> is \<open>append_webm_metadata\<close> up to its writes: the code reads the file before it writes to
  it, so the writes are a list, with the error that ends it, if one does.  \<open>append_webm_metadata\<close> performs
  them; a write that fails has written some of its bytes.  Strings are their UTF-8 bytes, except where the
  code looks at characters.
\<close>

definition METADATA_RETRY_COUNT :: nat where "METADATA_RETRY_COUNT = 20"

definition SEGMENT_ID :: bytes where "SEGMENT_ID = [0x18, 0x53, 0x80, 0x67]"
definition SEEK_HEAD_ID :: bytes where "SEEK_HEAD_ID = [0x11, 0x4D, 0x9B, 0x74]"
definition SEEK_ID :: bytes where "SEEK_ID = [0x4D, 0xBB]"
definition SEEK_TARGET_ID :: bytes where "SEEK_TARGET_ID = [0x53, 0xAB]"
definition SEEK_POSITION_ID :: bytes where "SEEK_POSITION_ID = [0x53, 0xAC]"
definition INFO_ID :: bytes where "INFO_ID = [0x15, 0x49, 0xA9, 0x66]"
definition TAGS_ID :: bytes where "TAGS_ID = [0x12, 0x54, 0xC3, 0x67]"
definition TITLE_ID :: bytes where "TITLE_ID = [0x7B, 0xA9]"
definition TARGETS_ID :: bytes where "TARGETS_ID = [0x63, 0xC0]"

section \<open>Building the metadata\<close>

definition build_seek_entry :: "bytes \<Rightarrow> u64 \<Rightarrow> note_error + bytes" where
  "build_seek_entry target position =
     and_then (build_ebml_element SEEK_TARGET_ID target) (\<lambda>a.
     and_then (build_ebml_element SEEK_POSITION_ID (encode_ebml_uint position)) (\<lambda>b.
     build_ebml_element SEEK_ID (a @ b)))"

definition build_simple_tag :: "bytes \<Rightarrow> bytes \<Rightarrow> note_error + bytes" where
  "build_simple_tag name value =
     and_then (build_ebml_element [0x45, 0xA3] name) (\<lambda>a.
     and_then (build_ebml_element [0x44, 0x87] value) (\<lambda>b.
     build_ebml_element [0x67, 0xC8] (a @ b)))"

definition build_webm_tags :: "bytes \<Rightarrow> bytes \<Rightarrow> note_error + bytes" where
  "build_webm_tags title comment =
     and_then (build_ebml_element TARGETS_ID []) (\<lambda>a.
     and_then (build_simple_tag (to_bytes ''TITLE'') title) (\<lambda>b.
     and_then (build_simple_tag (to_bytes ''COMMENT'') comment) (\<lambda>c.
     and_then (build_ebml_element [0x73, 0x73] (a @ b @ c)) (\<lambda>tag.
     build_ebml_element [0x12, 0x54, 0xC3, 0x67] tag))))"

lemma parse_progress:
  assumes "parse_ebml_element bs start = Inr (Some el)"
  shows "start < el_payload_start el \<and> el_payload_start el \<le> el_payload_end el \<and> el_payload_end el = el_end el
    \<and> el_end el \<le> length bs"
  using assms by (auto simp: parse_ebml_element_def Let_def and_then_Inr split: if_splits prod.splits)

lemma parse_end: "parse_ebml_element bs start = Inr (Some el) \<Longrightarrow> start < el_end el \<and> el_end el \<le> length bs"
  using parse_progress by fastforce

function find_info :: "bytes \<Rightarrow> nat \<Rightarrow> note_error + ebml_element option" where
  "find_info bs cursor =
     (if cursor < length bs
      then (case parse_ebml_element bs cursor of
              Inl e \<Rightarrow> Inl e
            | Inr None \<Rightarrow> Inr None
            | Inr (Some el) \<Rightarrow> if el_id el = INFO_ID then Inr (Some el) else find_info bs (el_end el))
      else Inr None)"
  by pat_completeness auto
termination
  by (relation "measure (\<lambda>(bs, cursor). length bs - cursor)") (auto dest: parse_end)

function kept_children :: "bytes \<Rightarrow> nat \<Rightarrow> nat \<Rightarrow> note_error + bytes" where
  "kept_children bs cursor stop =
     (if cursor < stop
      then (case parse_ebml_element bs cursor of
              Inl e \<Rightarrow> Inl e
            | Inr None \<Rightarrow> Inl Bad_Info
            | Inr (Some el) \<Rightarrow>
                (case kept_children bs (el_end el) stop of
                   Inl e \<Rightarrow> Inl e
                 | Inr rest \<Rightarrow> Inr ((if el_id el \<noteq> TITLE_ID then byte_slice cursor (el_end el) bs else []) @ rest)))
      else Inr [])"
  by pat_completeness auto
termination
  by (relation "measure (\<lambda>(bs, cursor, stop). stop - cursor)") (auto dest: parse_end)

declare find_info.simps [simp del] kept_children.simps [simp del]

definition build_webm_info_with_title :: "bytes \<Rightarrow> nat \<Rightarrow> bytes \<Rightarrow> note_error + bytes" where
  "build_webm_info_with_title header start title =
     and_then (find_info header start) (\<lambda>info.
       case info of
         None \<Rightarrow> Inl No_Info
       | Some el \<Rightarrow>
           and_then (kept_children header (el_payload_start el) (el_payload_end el)) (\<lambda>payload.
           and_then (build_ebml_element TITLE_ID title) (\<lambda>t.
           build_ebml_element INFO_ID (payload @ t))))"

section \<open>The seek head\<close>

text \<open>\<open>windows(n).position(..)\<close>\<close>

fun find_window :: "bytes \<Rightarrow> bytes \<Rightarrow> nat option" where
  "find_window p [] = None"
| "find_window p (x # xs) = (if take (length p) (x # xs) = p then Some 0 else map_option Suc (find_window p xs))"

function seek_target :: "bytes \<Rightarrow> nat \<Rightarrow> nat \<Rightarrow> bytes option \<Rightarrow> note_error + bytes option" where
  "seek_target bs cursor stop target =
     (if cursor < stop
      then (case parse_ebml_element bs cursor of
              Inl e \<Rightarrow> Inl e
            | Inr None \<Rightarrow> Inr target
            | Inr (Some el) \<Rightarrow>
                seek_target bs (el_end el) stop
                  (if el_id el = SEEK_TARGET_ID then Some (byte_slice (el_payload_start el) (el_payload_end el) bs) else target))
      else Inr target)"
  by pat_completeness auto
termination
  by (relation "measure (\<lambda>(bs, cursor, stop, target). stop - cursor)") (auto dest: parse_end)

text \<open>What becomes of one element of the seek head: whether it was the entry for Info, for Tags, and its bytes.\<close>

definition seek_entry :: "bytes \<Rightarrow> nat \<Rightarrow> ebml_element \<Rightarrow> u64 \<Rightarrow> u64 \<Rightarrow> note_error + bool \<times> bool \<times> bytes" where
  "seek_entry bs cursor el info_position tags_position =
     (if el_id el \<noteq> SEEK_ID then Inr (False, False, byte_slice cursor (el_end el) bs)
      else and_then (seek_target bs (el_payload_start el) (el_payload_end el) None) (\<lambda>target.
        if target = Some INFO_ID then and_then (build_seek_entry INFO_ID info_position) (\<lambda>b. Inr (True, False, b))
        else if target = Some TAGS_ID then and_then (build_seek_entry TAGS_ID tags_position) (\<lambda>b. Inr (False, True, b))
        else Inr (False, False, byte_slice cursor (el_end el) bs)))"

function seek_entries :: "bytes \<Rightarrow> nat \<Rightarrow> nat \<Rightarrow> u64 \<Rightarrow> u64 \<Rightarrow> note_error + bool \<times> bool \<times> bytes" where
  "seek_entries bs cursor stop info_position tags_position =
     (if cursor < stop
      then (case parse_ebml_element bs cursor of
              Inl e \<Rightarrow> Inl e
            | Inr None \<Rightarrow> Inr (False, False, [])
            | Inr (Some el) \<Rightarrow>
                (case seek_entry bs cursor el info_position tags_position of
                   Inl e \<Rightarrow> Inl e
                 | Inr (i, t, b) \<Rightarrow>
                     (case seek_entries bs (el_end el) stop info_position tags_position of
                        Inl e \<Rightarrow> Inl e
                      | Inr (i', t', rest) \<Rightarrow> Inr (i \<or> i', t \<or> t', b @ rest))))
      else Inr (False, False, []))"
  by pat_completeness auto
termination
  by (relation "measure (\<lambda>(bs, cursor, stop, i, t). stop - cursor)") (auto dest: parse_end)

declare seek_target.simps [simp del] seek_entries.simps [simp del]

type_synonym writes = "(nat \<times> bytes) list"

text \<open>The payload of the new seek head: the entries it had, with those for Info and Tags renewed or added.\<close>

definition new_seek_payload :: "bytes \<Rightarrow> ebml_element \<Rightarrow> u64 \<Rightarrow> u64 \<Rightarrow> note_error + bytes" where
  "new_seek_payload header seek_head info_position tags_position =
     and_then (seek_entries header (el_payload_start seek_head) (el_payload_end seek_head) info_position tags_position)
       (\<lambda>(found_info, found_tags, payload).
         and_then (if found_info then Inr [] else build_seek_entry INFO_ID info_position) (\<lambda>a.
         and_then (if found_tags then Inr [] else build_seek_entry TAGS_ID tags_position) (\<lambda>b.
         Inr (payload @ a @ b))))"

definition fill_seek_head :: "bytes \<Rightarrow> nat \<Rightarrow> ebml_element \<Rightarrow> ebml_element \<Rightarrow> bytes \<Rightarrow> note_error + writes" where
  "fill_seek_head header seek_head_start seek_head void payload =
     (let available = (el_payload_end seek_head - el_payload_start seek_head) + (el_end void - el_end seek_head) in
      if available < length payload then Inl Seek_Head_Full
      else and_then (build_ebml_void (available - length payload)) (\<lambda>remainder.
        let size_start = seek_head_start + length SEEK_HEAD_ID in
        and_then (decode_ebml_size (drop size_start header)) (\<lambda>(sz, size_width, unknown).
          if unknown then Inl Bad_Seek_Head_Size
          else and_then (encode_ebml_size (of_nat (length payload)) (Some size_width)) (\<lambda>encoded_size.
            Inr [(el_payload_start seek_head, payload), (el_payload_start seek_head + length payload, remainder),
                 (size_start, encoded_size)]))))"

text \<open>The seek head and the padding behind it.\<close>

definition find_seek_head :: "bytes \<Rightarrow> nat \<Rightarrow> note_error + nat \<times> ebml_element \<times> ebml_element" where
  "find_seek_head header start =
     (if length header \<le> start then Inl No_Seek_Head
      else case find_window SEEK_HEAD_ID (drop start header) of
             None \<Rightarrow> Inl No_Seek_Head
           | Some relative \<Rightarrow>
               let seek_head_start = start + relative in
               and_then (parse_ebml_element header seek_head_start) (\<lambda>sh.
                 case sh of
                   None \<Rightarrow> Inl Bad_Seek_Head
                 | Some seek_head \<Rightarrow>
                     and_then (parse_ebml_element header (el_end seek_head)) (\<lambda>v.
                       case v of
                         None \<Rightarrow> Inl No_Spare_Room
                       | Some void \<Rightarrow>
                           if el_id seek_head \<noteq> SEEK_HEAD_ID \<or> el_id void \<noteq> [0xEC] then Inl No_Reserve
                           else Inr (seek_head_start, seek_head, void))))"

definition rewrite_metadata_seek_positions :: "bytes \<Rightarrow> nat \<Rightarrow> nat \<Rightarrow> nat \<Rightarrow> note_error + writes" where
  "rewrite_metadata_seek_positions header start info_file_position tags_file_position =
     and_then (find_seek_head header start) (\<lambda>(seek_head_start, seek_head, void).
       if info_file_position < start then Inl Bad_Info_Position
       else if tags_file_position < start then Inl Bad_Tags_Position
       else
         and_then (new_seek_payload header seek_head (of_nat (info_file_position - start)) (of_nat (tags_file_position - start)))
           (fill_seek_head header seek_head_start seek_head void))"

section \<open>Appending the metadata\<close>

text \<open>Where the payload of the segment starts, its size, and the place and width of that size.\<close>

definition find_segment :: "bytes \<Rightarrow> note_error + nat \<times> u64 \<times> nat \<times> bool" where
  "find_segment file =
     (if length file < 12 then Inl Not_Webm
      else let header = take (1024 * 1024) file in
        case find_window SEGMENT_ID header of
          None \<Rightarrow> Inl No_Segment
        | Some p \<Rightarrow>
            let size_pos = p + length SEGMENT_ID in
            and_then (decode_ebml_size (drop size_pos header)) (\<lambda>(segment_size, size_width, unknown).
              if length file < size_pos + size_width then Inl Bad_Segment
              else Inr (size_pos, segment_size, size_width, unknown)))"

definition resize_segment :: "nat \<Rightarrow> u64 \<Rightarrow> nat \<Rightarrow> bool \<Rightarrow> nat \<Rightarrow> note_error + writes" where
  "resize_segment size_pos segment_size size_width unknown final_len =
     (let actual = final_len - (size_pos + size_width) in
      if unknown \<or> unat segment_size = actual then Inr []
      else and_then (encode_ebml_size (of_nat actual) (Some size_width)) (\<lambda>sz. Inr [(size_pos, sz)]))"

definition append_plan :: "bytes \<Rightarrow> bytes \<Rightarrow> bytes \<Rightarrow> writes \<times> note_error option" where
  "append_plan file title comment =
     (let header = take (1024 * 1024) file in
      case and_then (build_webm_tags title comment) (\<lambda>tags.
             and_then (find_segment file) (\<lambda>(size_pos, segment_size, size_width, unknown).
             and_then (build_webm_info_with_title header (size_pos + size_width) title) (\<lambda>info.
             Inr (info, tags, size_pos, segment_size, size_width, unknown)))) of
        Inl e \<Rightarrow> ([], Some e)
      | Inr (info, tags, size_pos, segment_size, size_width, unknown) \<Rightarrow>
          let n = length (info @ tags);
              already = n \<le> length file \<and> drop (length file - n) file = info @ tags;
              info_position = (if already then length file - n else length file);
              appended = (if already then [] else [(length file, info @ tags)]);
              final_len = (if already then length file else length file + n)
          in case rewrite_metadata_seek_positions header (size_pos + size_width) info_position (info_position + length info) of
               Inl e \<Rightarrow> (appended, Some e)
             | Inr ws \<Rightarrow>
                 (case resize_segment size_pos segment_size size_width unknown final_len of
                    Inl e \<Rightarrow> (appended @ ws, Some e)
                  | Inr ws' \<Rightarrow> (appended @ ws @ ws', None)))"

definition write_at :: "nat \<times> bytes \<Rightarrow> bytes \<Rightarrow> bytes" where
  "write_at w file = take (fst w) file @ snd w @ drop (fst w + length (snd w)) file"

text \<open>A fault of the file system: the file cannot be opened, or the \<open>k\<close>-th write stops after \<open>m\<close> bytes.\<close>

datatype io_fault = No_Fault | Open_Fails | Write_Fails nat nat

definition append_webm_metadata :: "io_fault \<Rightarrow> bytes \<Rightarrow> bytes \<Rightarrow> bytes \<Rightarrow> note_error option \<times> bytes" where
  "append_webm_metadata fault title comment file =
     (case append_plan file title comment of
        (ws, err) \<Rightarrow>
          (case fault of
             Open_Fails \<Rightarrow> (Some (case build_webm_tags title comment of Inl e \<Rightarrow> e | Inr _ \<Rightarrow> Io_Failed), file)
           | No_Fault \<Rightarrow> (err, fold write_at ws file)
           | Write_Fails k m \<Rightarrow>
               if k < length ws
               then (Some Io_Failed, write_at (fst (ws ! k), take m (snd (ws ! k))) (fold write_at (take k ws) file))
               else (err, fold write_at ws file)))"

section \<open>Saving the notes of a session\<close>

definition lower :: "char \<Rightarrow> char" where
  "lower c = (let n = char_code c in if 65 \<le> n \<and> n \<le> 90 then char_of (n + 32) else c)"

definition is_webm_or_mkv :: "string option \<Rightarrow> bool" where
  "is_webm_or_mkv extension =
     (let e = List.map lower (case extension of Some e \<Rightarrow> e | None \<Rightarrow> []) in e = ''webm'' \<or> e = ''mkv'')"

text \<open>One attempt after another, with the fault each of them meets; the last error counts.\<close>

fun metadata_attempts :: "io_fault list \<Rightarrow> bytes \<Rightarrow> bytes \<Rightarrow> bytes \<Rightarrow> note_error + unit \<Rightarrow> (note_error + unit) \<times> bytes" where
  "metadata_attempts [] title comment file last_error = (last_error, file)"
| "metadata_attempts (fault # faults) title comment file last_error =
     (case append_webm_metadata fault title comment file of
        (None, file) \<Rightarrow> (Inr (), file)
      | (Some e, file) \<Rightarrow> metadata_attempts faults title comment file (Inl e))"

definition set_video_metadata_with_retry :: "(nat \<Rightarrow> io_fault) \<Rightarrow> string option \<Rightarrow> bytes \<Rightarrow> bytes \<Rightarrow> bytes \<Rightarrow> (note_error + bool) \<times> bytes" where
  "set_video_metadata_with_retry faults extension title comment file =
     (if \<not> is_webm_or_mkv extension then (Inr False, file)
      else case metadata_attempts (List.map faults [0..<METADATA_RETRY_COUNT]) title comment file (Inl Io_Failed) of
             (Inl e, file) \<Rightarrow> (Inl e, file)
           | (Inr (), file) \<Rightarrow> (Inr True, file))"

text \<open>The sizes that are seen one after the other, \<open>None\<close> if the path is not a file.\<close>

fun stable_checks :: "u64 option list \<Rightarrow> u64 option \<Rightarrow> nat \<Rightarrow> bool" where
  "stable_checks [] previous n = False"
| "stable_checks (None # seen) previous n = stable_checks seen None 0"
| "stable_checks (Some size_now # seen) previous n =
     (if previous = Some size_now \<and> size_now > 0
      then if 2 \<le> n + 1 then True else stable_checks seen previous (n + 1)
      else stable_checks seen (Some size_now) 0)"

definition wait_until_file_is_stable :: "(nat \<Rightarrow> u64 option) \<Rightarrow> bool" where
  "wait_until_file_is_stable seen = stable_checks (List.map seen [0..<METADATA_RETRY_COUNT]) None 0"

text \<open>A title as its characters.\<close>

definition contains_korean :: "nat list \<Rightarrow> bool" where
  "contains_korean cs = list_ex (\<lambda>c.
     0x1100 \<le> c \<and> c \<le> 0x11FF \<or> 0x3130 \<le> c \<and> c \<le> 0x318F \<or> 0xA960 \<le> c \<and> c \<le> 0xA97F
     \<or> 0xAC00 \<le> c \<and> c \<le> 0xD7AF \<or> 0xD7B0 \<le> c \<and> c \<le> 0xD7FF) cs"

definition utf8_char :: "nat \<Rightarrow> bytes" where
  "utf8_char c =
     (if c < 0x80 then [of_nat c]
      else if c < 0x800 then [of_nat (0xC0 + c div 0x40), of_nat (0x80 + c mod 0x40)]
      else if c < 0x10000 then [of_nat (0xE0 + c div 0x1000), of_nat (0x80 + c div 0x40 mod 0x40), of_nat (0x80 + c mod 0x40)]
      else [of_nat (0xF0 + c div 0x40000), of_nat (0x80 + c div 0x1000 mod 0x40), of_nat (0x80 + c div 0x40 mod 0x40),
            of_nat (0x80 + c mod 0x40)])"

definition as_bytes :: "nat list \<Rightarrow> bytes" where
  "as_bytes cs = concat (List.map utf8_char cs)"

record upload_file =
  uf_path :: string
  uf_connection :: string
  uf_ticket :: string

record note_context =
  nc_title :: "nat list"
  nc_comment :: "nat list"

text \<open>What a file meets: whether it is there, the sizes that are seen, its extension and bytes, the faults of its
  attempts, whether its note can be written, and whether the server takes it.\<close>

record note_world =
  nw_is_file :: bool
  nw_sizes :: "nat \<Rightarrow> u64 option"
  nw_extension :: "string option"
  nw_content :: bytes
  nw_faults :: "nat \<Rightarrow> io_fault"
  nw_note_ok :: bool
  nw_uploaded :: bool
  nw_receipt_ok :: bool

datatype note_failure =
    Title_Not_Korean | No_Files | Too_Short | Disappeared string | Not_Ready string | Not_Embedded string note_error
  | Note_Not_Saved string | Not_Uploaded string

text \<open>What is done: the bytes a recording has afterwards, a note beside it (with whether the metadata is in the
  recording), an upload with the ticket of its connection, the receipt added to the note.\<close>

datatype note_effect = Recorded string bytes | Note_Saved string bool | Upload string string string | Receipt_Saved string

definition save_note :: "note_context \<Rightarrow> note_world \<Rightarrow> upload_file \<Rightarrow> note_failure list \<times> note_effect list" where
  "save_note ctx w f =
     (let path = uf_path f in
      if \<not> nw_is_file w then ([Disappeared path], [])
      else if \<not> wait_until_file_is_stable (nw_sizes w) then ([Not_Ready path], [])
      else case set_video_metadata_with_retry (nw_faults w) (nw_extension w) (as_bytes (nc_title ctx)) (as_bytes (nc_comment ctx))
                  (nw_content w) of
        (result, content) \<Rightarrow>
          let embedded = (case result of Inr b \<Rightarrow> b | Inl e \<Rightarrow> False);
              errors = (case result of Inr b \<Rightarrow> [] | Inl e \<Rightarrow> [Not_Embedded path e]);
              done_first = [Recorded path content]
          in if \<not> nw_note_ok w then (errors @ [Note_Not_Saved path], done_first)
             else if \<not> embedded \<and> is_webm_or_mkv (nw_extension w) then (errors, done_first @ [Note_Saved path embedded])
             else (errors @ (if nw_uploaded w then [] else [Not_Uploaded path]),
                   done_first @ [Note_Saved path embedded, Upload path (uf_connection f) (uf_ticket f)]
                     @ (if nw_uploaded w \<and> nw_receipt_ok w then [Receipt_Saved path] else [])))"

fun save_notes :: "note_context \<Rightarrow> (upload_file \<times> note_world) list \<Rightarrow> note_failure list \<times> note_effect list" where
  "save_notes ctx [] = ([], [])"
| "save_notes ctx ((f, w) # fs) =
     (case save_note ctx w f of (errors, effects) \<Rightarrow>
        case save_notes ctx fs of (errors', effects') \<Rightarrow> (errors @ errors', effects @ effects'))"

text \<open>The answer: the errors and the files; every file of the session is in it, since each of them is pushed once.\<close>

definition save_recording_notes :: "note_context \<Rightarrow> (upload_file \<times> note_world) list
    \<Rightarrow> (note_failure list \<times> upload_file list) \<times> note_effect list" where
  "save_recording_notes ctx fs =
     (if \<not> contains_korean (nc_title ctx) then (([Title_Not_Korean], List.map fst fs), [])
      else if fs = [] then (([No_Files], []), [])
      else case save_notes ctx fs of
             (errors, effects) \<Rightarrow>
               ((if fs = [] \<and> errors = [] then errors @ [Too_Short] else errors, List.map fst fs), effects))"

section \<open>The recording itself stays\<close>

lemma length_write_at: "fst w \<le> length file \<Longrightarrow> length file \<le> length (write_at w file)"
  by (simp add: write_at_def)

lemma nth_write_at:
  assumes "fst w \<le> length file" "i < length file" "i < fst w \<or> fst w + length (snd w) \<le> i"
  shows "write_at w file ! i = file ! i"
  using assms by (auto simp: write_at_def nth_append min_def)

text \<open>A write is harmless to the first \<open>n\<close> bytes outside of \<open>area\<close>.\<close>

definition confined :: "nat \<Rightarrow> (nat \<Rightarrow> bool) \<Rightarrow> nat \<times> bytes \<Rightarrow> bool" where
  "confined n area w \<longleftrightarrow> fst w \<le> n \<and> (\<forall>i < n. fst w \<le> i \<longrightarrow> i < fst w + length (snd w) \<longrightarrow> area i)"

lemma confined_write:
  assumes "confined n area w" "n \<le> length file" "i < n" "\<not> area i"
  shows "write_at w file ! i = file ! i" "n \<le> length (write_at w file)"
proof -
  have f: "fst w \<le> length file" "i < fst w \<or> fst w + length (snd w) \<le> i" using assms by (auto simp: confined_def not_le)
  show "write_at w file ! i = file ! i" using assms(2,3) f by (intro nth_write_at) auto
  show "n \<le> length (write_at w file)" using length_write_at [OF f(1)] assms(2) by linarith
qed

lemma confined_writes:
  "list_all (confined n area) ws \<Longrightarrow> n \<le> length bs \<Longrightarrow> i < n \<Longrightarrow> \<not> area i
   \<Longrightarrow> fold write_at ws bs ! i = bs ! i \<and> n \<le> length (fold write_at ws bs)"
  by (induction ws arbitrary: bs) (auto simp: confined_write)

lemma confined_part: "confined n area w \<Longrightarrow> confined n area (fst w, take m (snd w))"
  by (auto simp: confined_def)

text \<open>What an attempt may overwrite: the size of the segment, and the seek head with the padding behind it.\<close>

definition index_area :: "bytes \<Rightarrow> nat \<Rightarrow> bool" where
  "index_area content i =
     (case find_segment content of
        Inl e \<Rightarrow> False
      | Inr (size_pos, segment_size, size_width, unknown) \<Rightarrow>
          size_pos \<le> i \<and> i < size_pos + size_width
          \<or> (case find_seek_head (take (1024 * 1024) content) (size_pos + size_width) of
               Inl e \<Rightarrow> False
             | Inr (seek_head_start, seek_head, void) \<Rightarrow> seek_head_start + length SEEK_HEAD_ID \<le> i \<and> i < el_end void))"

lemma parse_element_parts:
  assumes "parse_ebml_element bs start = Inr (Some el)"
  obtains sz width where "decode_ebml_size (drop (start + length (el_id el)) bs) = Inr (sz, width, False)"
    "el_payload_start el = start + length (el_id el) + width"
proof -
  let ?l = "leading_zeros (bs ! start) + 1"
  have i: "el_id el = byte_slice start (start + ?l) bs" and b: "start + ?l < length bs"
    and d: "\<exists>sz width. decode_ebml_size (drop (start + ?l) bs) = Inr (sz, width, False) \<and> el_payload_start el = start + ?l + width"
    using assms by (auto simp: parse_ebml_element_def Let_def and_then_Inr split: if_splits prod.splits)
  have "length (el_id el) = ?l" using b by (simp add: i byte_slice_def)
  then show ?thesis using d that by auto
qed

lemma find_seek_head_parts:
  assumes "find_seek_head header start = Inr (shs, sh, void)"
  shows "parse_ebml_element header shs = Inr (Some sh) \<and> parse_ebml_element header (el_end sh) = Inr (Some void)
    \<and> el_id sh = SEEK_HEAD_ID \<and> start \<le> shs"
proof -
  from assms obtain rel where w: "find_window SEEK_HEAD_ID (drop start header) = Some rel" and l: "\<not> length header \<le> start"
    by (cases "find_window SEEK_HEAD_ID (drop start header)") (auto simp: find_seek_head_def split: if_splits)
  from assms w l obtain sh' where p: "parse_ebml_element header (start + rel) = Inr (Some sh')"
    by (auto simp: find_seek_head_def Let_def and_then_def split: sum.splits option.splits)
  from assms w l p obtain v where v: "parse_ebml_element header (el_end sh') = Inr (Some v)"
    by (auto simp: find_seek_head_def and_then_def split: sum.splits option.splits)
  show ?thesis using assms w l p v by (auto simp: find_seek_head_def split: if_splits)
qed

lemma encode_size_length: "encode_ebml_size v (Some w) = Inr bs \<Longrightarrow> length bs = w"
  by (erule encode_size_Inr) auto

lemma fill_confined:
  assumes f: "find_seek_head header start = Inr (shs, sh, void)" and w: "fill_seek_head header shs sh void payload = Inr ws"
    and n: "length header \<le> n"
  shows "list_all (confined n (\<lambda>i. shs + length SEEK_HEAD_ID \<le> i \<and> i < el_end void)) ws"
proof -
  have parts: "parse_ebml_element header shs = Inr (Some sh)" "parse_ebml_element header (el_end sh) = Inr (Some void)"
    "el_id sh = SEEK_HEAD_ID"
    using find_seek_head_parts [OF f] by simp_all
  have p: "shs < el_payload_start sh" "el_payload_start sh \<le> el_payload_end sh" "el_payload_end sh = el_end sh"
    "el_end sh < el_end void" "el_end void \<le> length header"
    using parse_progress [OF parts(1)] parse_progress [OF parts(2)] by auto
  obtain sz width where d: "decode_ebml_size (drop (shs + length SEEK_HEAD_ID) header) = Inr (sz, width, False)"
    and st: "el_payload_start sh = shs + length SEEK_HEAD_ID + width"
    using parse_element_parts [OF parts(1)] unfolding parts(3) by blast
  define room where "room = (el_payload_end sh - el_payload_start sh) + (el_end void - el_end sh)"
  obtain remainder encoded where e: "length payload \<le> room" "build_ebml_void (room - length payload) = Inr remainder"
    "encode_ebml_size (of_nat (length payload)) (Some width) = Inr encoded"
    and ws: "ws = [(el_payload_start sh, payload), (el_payload_start sh + length payload, remainder), (shs + length SEEK_HEAD_ID, encoded)]"
    using w d by (auto simp: fill_seek_head_def room_def [symmetric] Let_def and_then_Inr split: if_splits)
  have l: "length remainder = room - length payload" "length encoded = width"
    using build_void_length [OF e(2)] encode_size_length [OF e(3)] by simp_all
  have room: "el_payload_start sh + room = el_end void" using p by (simp add: room_def)
  show ?thesis using p l st room e(1) n by (auto simp: ws confined_def)
qed

lemma rewrite_confined:
  assumes "rewrite_metadata_seek_positions header start ip tp = Inr ws" "length header \<le> n"
  shows "\<exists>shs sh void. find_seek_head header start = Inr (shs, sh, void)
    \<and> list_all (confined n (\<lambda>i. shs + length SEEK_HEAD_ID \<le> i \<and> i < el_end void)) ws"
  using assms fill_confined [OF _ _ assms(2)]
  by (auto simp: rewrite_metadata_seek_positions_def and_then_Inr split: if_splits)

lemma confined_mono: "list_all (confined n area) ws \<Longrightarrow> (\<And>i. area i \<Longrightarrow> area' i) \<Longrightarrow> list_all (confined n area') ws"
  by (auto simp: list_all_iff confined_def)

lemma resize_confined:
  assumes "find_segment content = Inr (p, sz, w, u)" "resize_segment p sz w u final_len = Inr ws"
  shows "list_all (confined (length content) (\<lambda>i. p \<le> i \<and> i < p + w)) ws"
  using assms encode_size_length
  by (auto simp: resize_segment_def find_segment_def Let_def and_then_Inr confined_def split: if_splits option.splits)

lemma append_plan_confined:
  assumes "append_plan content title comment = (ws, err)"
  shows "list_all (confined (length content) (index_area content)) ws"
proof -
  have app: "confined (length content) a (length content, d)" for a d by (simp add: confined_def)
  let ?header = "take (1024 * 1024) content"
  have hl: "length ?header \<le> length content" by simp
  have seek: "list_all (confined (length content) (index_area content)) ws1"
    if "find_segment content = Inr (p, sz, w, u)" "rewrite_metadata_seek_positions ?header (p + w) ip tp = Inr ws1" for p sz w u ip tp ws1
    using rewrite_confined [OF that(2) hl] that(1) by (auto simp: index_area_def elim: confined_mono)
  have size: "list_all (confined (length content) (index_area content)) ws2"
    if "find_segment content = Inr (p, sz, w, u)" "resize_segment p sz w u n = Inr ws2" for p sz w u n ws2
    using resize_confined [OF that] that(1) by (auto simp: index_area_def elim: confined_mono)
  show ?thesis
  proof (cases "and_then (build_webm_tags title comment) (\<lambda>tags.
             and_then (find_segment content) (\<lambda>(size_pos, segment_size, size_width, unknown).
             and_then (build_webm_info_with_title ?header (size_pos + size_width) title) (\<lambda>info.
             Inr (info, tags, size_pos, segment_size, size_width, unknown))))")
    case (Inl e)
    then show ?thesis using assms by (simp add: append_plan_def Let_def)
  next
    case (Inr v)
    obtain info tags p sz w u where v: "v = (info, tags, p, sz, w, u)" by (cases v) auto
    have fs: "find_segment content = Inr (p, sz, w, u)" using Inr by (auto simp: v and_then_Inr)
    define already where "already = (length (info @ tags) \<le> length content \<and> drop (length content - length (info @ tags)) content = info @ tags)"
    define ip where "ip = (if already then length content - length (info @ tags) else length content)"
    define appended where "appended = (if already then [] else [(length content, info @ tags)])"
    define fin where "fin = (if already then length content else length content + length (info @ tags))"
    have a: "list_all (confined (length content) (index_area content)) appended" by (simp add: appended_def app)
    have plan: "append_plan content title comment =
      (case rewrite_metadata_seek_positions ?header (p + w) ip (ip + length info) of
         Inl e \<Rightarrow> (appended, Some e)
       | Inr ws \<Rightarrow> (case resize_segment p sz w u fin of Inl e \<Rightarrow> (appended @ ws, Some e) | Inr ws' \<Rightarrow> (appended @ ws @ ws', None)))"
      unfolding append_plan_def Let_def Inr v already_def ip_def appended_def fin_def by simp
    show ?thesis
    proof (cases "rewrite_metadata_seek_positions ?header (p + w) ip (ip + length info)")
      case (Inl e)
      then show ?thesis using assms a by (simp add: plan)
    next
      case (Inr ws1)
      then show ?thesis using assms a seek [OF fs Inr] size [OF fs] by (auto simp: plan split: sum.splits)
    qed
  qed
qed

lemma append_keeps:
  assumes "append_webm_metadata fault title comment content = (r, content')" "i < length content" "\<not> index_area content i"
  shows "content' ! i = content ! i \<and> length content \<le> length content'"
proof -
  obtain ws err where p: "append_plan content title comment = (ws, err)" by fastforce
  note c = append_plan_confined [OF p]
  have all: "fold write_at ws content ! i = content ! i \<and> length content \<le> length (fold write_at ws content)"
    by (rule confined_writes [OF c _ assms(2,3)]) simp
  show ?thesis
  proof (cases "\<exists>k m. fault = Write_Fails k m \<and> k < length ws")
    case True
    then obtain k m where f: "fault = Write_Fails k m" "k < length ws" by blast
    have "list_all (confined (length content) (index_area content)) (take k ws @ [(fst (ws ! k), take m (snd (ws ! k)))])"
      using c f(2) confined_part by (auto simp: list_all_iff dest: in_set_takeD)
    from confined_writes [OF this _ assms(2,3)] show ?thesis using assms(1) f by (auto simp: append_webm_metadata_def p)
  next
    case False
    then show ?thesis using assms(1) all by (auto simp: append_webm_metadata_def p split: io_fault.splits if_splits)
  qed
qed

lemma confined_length:
  "list_all (confined n area) ws \<Longrightarrow> n \<le> length bs \<Longrightarrow> n \<le> length (fold write_at ws bs)"
proof (induction ws arbitrary: bs)
  case (Cons w ws)
  have "fst w \<le> length bs" using Cons.prems by (simp add: confined_def)
  then have "n \<le> length (write_at w bs)" using length_write_at [of w bs] Cons.prems(2) by linarith
  then show ?case using Cons by simp
qed simp

lemma append_grows:
  assumes "append_webm_metadata fault title comment content = (r, content')"
  shows "length content \<le> length content'"
proof -
  obtain ws err where p: "append_plan content title comment = (ws, err)" by fastforce
  note c = append_plan_confined [OF p]
  have "length content \<le> length (fold write_at (take k ws @ [(fst (ws ! k), take m (snd (ws ! k)))]) content)" if "k < length ws" for k m
    using c that confined_part by (intro confined_length [of _ "index_area content"]) (auto simp: list_all_iff dest: in_set_takeD)
  then show ?thesis using assms confined_length [OF c]
    by (auto simp: append_webm_metadata_def p split: io_fault.splits if_splits)
qed


section \<open>What a successful attempt leaves\<close>

lemma write_at_append: "a + length d \<le> length xs \<Longrightarrow> write_at (a, d) (xs @ ys) = write_at (a, d) xs @ ys"
  by (simp add: write_at_def)

lemma write_at_length: "a + length d \<le> length xs \<Longrightarrow> length (write_at (a, d) xs) = length xs"
  by (simp add: write_at_def)

lemma write_at_end: "write_at (length xs, d) xs = xs @ d"
  by (simp add: write_at_def)

lemma write_at_part: "length d = length d' \<Longrightarrow> write_at (length xs, d) (xs @ d' @ ys) = xs @ d @ ys"
  by (simp add: write_at_def)

lemma decode_prefix:
  assumes "decode_ebml_size bs = Inr (v, w, u)"
  shows "decode_ebml_size (take w bs @ rest) = Inr (v, w, u)" "1 \<le> w" "w \<le> length bs"
  using assms by (auto simp: decode_ebml_size_def Let_def min_def split: list.splits if_splits)

lemma drop_slice: "b \<le> c \<Longrightarrow> drop b bs = byte_slice b c bs @ drop c bs"
  unfolding byte_slice_def by (metis append_take_drop_id drop_drop le_add_diff_inverse2)

lemma split_slices:
  assumes "a \<le> b" "b \<le> c" "c \<le> d"
  shows "bs = take a bs @ byte_slice a b bs @ byte_slice b c bs @ byte_slice c d bs @ drop d bs"
  unfolding drop_slice [OF assms(3), symmetric] drop_slice [OF assms(2), symmetric] drop_slice [OF assms(1), symmetric] by simp

lemma three_writes:
  assumes "length c = length c'" "length d = length x + length y"
  shows "fold write_at [(length a + length b + length c, x), (length a + length b + length c + length x, y), (length a + length b, c')]
    (a @ b @ c @ d @ z) = a @ b @ c' @ x @ y @ z"
proof -
  obtain d1 d2 where "d = d1 @ d2" "length d1 = length x" "length d2 = length y"
    using assms(2) append_take_drop_id [of "length x" d] by (metis add_diff_cancel_left' length_append length_drop min.absorb2 length_take le_add1)
  then show ?thesis using assms(1) by (simp add: write_at_def)
qed

lemma seek_head_filled:
  assumes f: "find_seek_head (take n content) start = Inr (shs, sh, void)"
    and w: "fill_seek_head (take n content) shs sh void payload = Inr ws"
  shows "\<exists>width sz remainder. encode_ebml_size (of_nat (length payload)) (Some width) = Inr sz
    \<and> build_ebml_void (el_end void - (shs + length SEEK_HEAD_ID + width + length payload)) = Inr remainder
    \<and> shs + length SEEK_HEAD_ID + width + length payload \<le> el_end void
    \<and> el_end void \<le> length content \<and> list_all (\<lambda>w. fst w + length (snd w) \<le> length content) ws
    \<and> fold write_at ws content = take shs content @ SEEK_HEAD_ID @ sz @ payload @ remainder @ drop (el_end void) content"
proof -
  let ?header = "take n content" and ?k = "length SEEK_HEAD_ID"
  have parts: "parse_ebml_element ?header shs = Inr (Some sh)" "parse_ebml_element ?header (el_end sh) = Inr (Some void)"
    "el_id sh = SEEK_HEAD_ID"
    using find_seek_head_parts [OF f] by simp_all
  have p: "shs < el_payload_start sh" "el_payload_start sh \<le> el_payload_end sh" "el_payload_end sh = el_end sh"
    "el_end sh < el_end void" "el_end void \<le> length ?header"
    using parse_progress [OF parts(1)] parse_progress [OF parts(2)] by auto
  obtain s0 width where d: "decode_ebml_size (drop (shs + ?k) ?header) = Inr (s0, width, False)"
    and st: "el_payload_start sh = shs + ?k + width"
    using parse_element_parts [OF parts(1)] unfolding parts(3) by blast
  define room where "room = (el_payload_end sh - el_payload_start sh) + (el_end void - el_end sh)"
  obtain remainder encoded where e: "length payload \<le> room" "build_ebml_void (room - length payload) = Inr remainder"
    "encode_ebml_size (of_nat (length payload)) (Some width) = Inr encoded"
    and ws: "ws = [(el_payload_start sh, payload), (el_payload_start sh + length payload, remainder), (shs + ?k, encoded)]"
    using w d by (auto simp: fill_seek_head_def room_def [symmetric] Let_def and_then_Inr split: if_splits)
  have l: "length remainder = room - length payload" "length encoded = width"
    using build_void_length [OF e(2)] encode_size_length [OF e(3)] by simp_all
  have room: "el_payload_start sh + room = el_end void" using p by (simp add: room_def)
  have id: "byte_slice shs (shs + ?k) content = SEEK_HEAD_ID"
  proof -
    have "el_id sh = byte_slice shs (shs + length (el_id sh)) ?header" "shs + length (el_id sh) \<le> length ?header"
      using parts(1) by (auto simp: parse_ebml_element_def Let_def and_then_Inr byte_slice_def split: if_splits prod.splits)
    then show ?thesis unfolding parts(3) by (simp add: byte_slice_def drop_take min_def split: if_splits)
  qed
  have lens: "el_end void \<le> length content" using p(5) by simp
  let ?a = "take shs content" and ?c = "byte_slice (shs + ?k) (el_payload_start sh) content"
  let ?d = "byte_slice (el_payload_start sh) (el_end void) content" and ?z = "drop (el_end void) content"
  have "content = ?a @ byte_slice shs (shs + ?k) content @ ?c @ ?d @ ?z"
    by (rule split_slices) (use p st in simp_all)
  then have parts_of: "content = ?a @ SEEK_HEAD_ID @ ?c @ ?d @ ?z" unfolding id .
  have len: "length ?a = shs" "length ?c = width" "length ?d = room"
    using p st lens room by (simp_all add: byte_slice_def)
  have ws': "ws = [(length ?a + ?k + length ?c, payload), (length ?a + ?k + length ?c + length payload, remainder), (length ?a + ?k, encoded)]"
    by (simp only: len) (simp add: ws st)
  have "fold write_at ws (?a @ SEEK_HEAD_ID @ ?c @ ?d @ ?z) = ?a @ SEEK_HEAD_ID @ encoded @ payload @ remainder @ ?z"
    unfolding ws'
  proof (rule three_writes)
    show "length ?c = length encoded" unfolding len l ..
    show "length ?d = length payload + length remainder" unfolding len l using e(1) by simp
  qed
  then have "fold write_at ws content = ?a @ SEEK_HEAD_ID @ encoded @ payload @ remainder @ ?z"
    by (rule trans [OF arg_cong [OF parts_of]])
  moreover have "room - length payload = el_end void - (shs + ?k + width + length payload)" using room st by simp
  moreover have "list_all (\<lambda>w. fst w + length (snd w) \<le> length content) ws"
    using l st room e(1) lens by (simp add: ws)
  moreover have "shs + ?k + width + length payload \<le> el_end void" using room st e(1) by simp
  ultimately show ?thesis using e(2,3) lens
    by (intro exI [of _ width] exI [of _ encoded] exI [of _ remainder]) simp
qed

lemma info_built:
  "build_webm_info_with_title header start title = Inr info \<Longrightarrow>
   \<exists>kept t. build_ebml_element TITLE_ID title = Inr t \<and> build_ebml_element INFO_ID (kept @ t) = Inr info"
  by (auto simp: build_webm_info_with_title_def and_then_Inr split: option.splits) blast

lemma tags_built: "build_webm_tags title comment = Inr tags \<Longrightarrow> \<exists>tag. build_ebml_element TAGS_ID tag = Inr tags"
  by (auto simp: build_webm_tags_def and_then_Inr TAGS_ID_def)

lemma ids: "ebml_id SEEK_HEAD_ID" "ebml_id INFO_ID" "ebml_id TAGS_ID" "ebml_id TITLE_ID"
  by (simp_all add: ebml_id_def SEEK_HEAD_ID_def INFO_ID_def TAGS_ID_def TITLE_ID_def leading_zeros_def)

lemma resize_forms:
  assumes "find_segment content = Inr (p, sz, w, u)" "resize_segment p sz w u n = Inr rs"
  shows "p + w \<le> length content \<and> (rs = [] \<and> (u \<or> unat sz = n - (p + w))
    \<or> (\<exists>s. rs = [(p, s)] \<and> encode_ebml_size (of_nat (n - (p + w))) (Some w) = Inr s \<and> length s = w))"
  using assms encode_size_length
  by (auto simp: find_segment_def resize_segment_def Let_def and_then_Inr split: if_splits option.splits)

lemma seek_fill_length:
  assumes "find_seek_head (take n content) start = Inr (shs, sh, void)" "fill_seek_head (take n content) shs sh void payload = Inr ws"
  shows "length (fold write_at ws content) = length content"
  using seek_head_filled [OF assms] by (auto dest!: build_void_length encode_size_length)

lemma resize_length:
  assumes "find_segment content = Inr (p, sz, w, u)" "resize_segment p sz w u n = Inr rs" "length content \<le> length bs"
  shows "length (fold write_at rs bs) = length bs"
  using resize_forms [OF assms(1,2)] assms(3) by (auto simp: write_at_length)

text \<open>A growing, successful attempt, taken apart.\<close>

lemma append_grown:
  assumes a: "append_webm_metadata No_Fault title comment content = (None, content')" and grown: "length content < length content'"
  obtains p sz w u info tags shs sh void payload ws rs where
    "find_segment content = Inr (p, sz, w, u)" "build_webm_tags title comment = Inr tags"
    "build_webm_info_with_title (take (1024 * 1024) content) (p + w) title = Inr info"
    "find_seek_head (take (1024 * 1024) content) (p + w) = Inr (shs, sh, void)"
    "new_seek_payload (take (1024 * 1024) content) sh (of_nat (length content - (p + w))) (of_nat (length content + length info - (p + w))) = Inr payload"
    "fill_seek_head (take (1024 * 1024) content) shs sh void payload = Inr ws"
    "resize_segment p sz w u (length content + length (info @ tags)) = Inr rs"
    "content' = fold write_at (ws @ rs) (content @ info @ tags)"
proof -
  let ?header = "take (1024 * 1024) content"
  obtain wss where plan: "append_plan content title comment = (wss, None)" and c': "content' = fold write_at wss content"
    using a by (cases "append_plan content title comment") (auto simp: append_webm_metadata_def)
  let ?r = "and_then (build_webm_tags title comment) (\<lambda>tags.
             and_then (find_segment content) (\<lambda>(size_pos, segment_size, size_width, unknown).
             and_then (build_webm_info_with_title ?header (size_pos + size_width) title) (\<lambda>info.
             Inr (info, tags, size_pos, segment_size, size_width, unknown))))"
  obtain v where v: "?r = Inr v" using plan by (cases ?r) (auto simp: append_plan_def Let_def)
  obtain info tags p sz w u where vv: "v = (info, tags, p, sz, w, u)" by (cases v) auto
  have b: "find_segment content = Inr (p, sz, w, u)" "build_webm_tags title comment = Inr tags"
    "build_webm_info_with_title ?header (p + w) title = Inr info"
    using v by (auto simp: vv and_then_Inr)
  define already where "already = (length (info @ tags) \<le> length content \<and> drop (length content - length (info @ tags)) content = info @ tags)"
  define ip where "ip = (if already then length content - length (info @ tags) else length content)"
  define appended where "appended = (if already then [] else [(length content, info @ tags)])"
  define fin where "fin = (if already then length content else length content + length (info @ tags))"
  have "append_plan content title comment =
    (case rewrite_metadata_seek_positions ?header (p + w) ip (ip + length info) of
       Inl e \<Rightarrow> (appended, Some e)
     | Inr ws \<Rightarrow> (case resize_segment p sz w u fin of Inl e \<Rightarrow> (appended @ ws, Some e) | Inr ws' \<Rightarrow> (appended @ ws @ ws', None)))"
    unfolding append_plan_def Let_def v vv already_def ip_def appended_def fin_def by simp
  then obtain ws rs where ws: "rewrite_metadata_seek_positions ?header (p + w) ip (ip + length info) = Inr ws"
    and rs: "resize_segment p sz w u fin = Inr rs" and all: "wss = appended @ ws @ rs"
    using plan by (auto split: sum.splits)
  obtain shs sh void payload where sk: "find_seek_head ?header (p + w) = Inr (shs, sh, void)"
    "new_seek_payload ?header sh (of_nat (ip - (p + w))) (of_nat (ip + length info - (p + w))) = Inr payload"
    "fill_seek_head ?header shs sh void payload = Inr ws"
    using ws by (auto simp: rewrite_metadata_seek_positions_def and_then_Inr split: if_splits)
  have "\<not> already"
  proof
    assume al: "already"
    have "length (fold write_at (ws @ rs) content) = length content"
      using resize_length [OF b(1) rs, of "fold write_at ws content"] seek_fill_length [OF sk(1,3)] by simp
    then show False using grown c' al by (simp add: all appended_def)
  qed
  then show ?thesis using that [OF b sk(1)] sk(2,3) rs c' by (simp add: ip_def fin_def all appended_def write_at_end)
qed

lemma fold_write_append:
  "list_all (\<lambda>w. fst w + length (snd w) \<le> length xs) ws \<Longrightarrow> fold write_at ws (xs @ ys) = fold write_at ws xs @ ys"
proof (induction ws arbitrary: xs)
  case (Cons w ws)
  have w: "write_at w (xs @ ys) = write_at w xs @ ys" using Cons.prems write_at_append [of "fst w" "snd w"] by simp
  have "length (write_at w xs) = length xs" using Cons.prems write_at_length [of "fst w" "snd w"] by simp
  then show ?case using Cons.IH [of "write_at w xs"] Cons.prems by (simp add: w)
qed simp

text \<open>The front of the file after the attempt: the size of the segment is rewritten or left, before the seek head.\<close>

lemma front_rewritten:
  assumes fs: "find_segment content = Inr (p, sz, w, u)" and rs: "resize_segment p sz w u n = Inr rs"
    and sk: "p + w \<le> shs" "shs \<le> length content"
  shows "\<exists>front. length front = shs \<and> fold write_at rs (take shs content @ rest) = front @ rest
    \<and> (u \<or> (\<exists>v. decode_ebml_size (drop p front @ rest) = Inr (v, w, False) \<and> v = of_nat (n - (p + w))))"
proof -
  have d: "\<exists>unk. decode_ebml_size (drop p (take (1024 * 1024) content)) = Inr (sz, w, u)"
    using fs by (auto simp: find_segment_def Let_def and_then_Inr split: if_splits option.splits)
  from resize_forms [OF fs rs] consider (same) "rs = []" "u \<or> unat sz = n - (p + w)"
    | (new) s where "rs = [(p, s)]" "encode_ebml_size (of_nat (n - (p + w))) (Some w) = Inr s" "length s = w" by blast
  then show ?thesis
  proof cases
    case same
    have "decode_ebml_size (take w (drop p (take (1024 * 1024) content)) @ r) = Inr (sz, w, u)"
      "w \<le> length (drop p (take (1024 * 1024) content))" for r
      using decode_prefix [of "drop p (take (1024 * 1024) content)" sz w u] d by auto
    moreover have "take w (drop p (take (1024 * 1024) content)) = take w (drop p (take shs content))"
      if "w \<le> length (drop p (take (1024 * 1024) content))"
      using that sk by (auto simp: drop_take min_def split: if_splits)
    ultimately have "decode_ebml_size (take w (drop p (take shs content)) @ drop w (drop p (take shs content)) @ rest) = Inr (sz, w, u)"
      by metis
    then have "decode_ebml_size (drop p (take shs content) @ rest) = Inr (sz, w, u)"
      by (simp only: append_assoc [symmetric] append_take_drop_id)
    moreover have "u \<or> sz = of_nat (n - (p + w))" using same(2) by (metis of_nat_unat ucast_id)
    ultimately show ?thesis using same(1) sk(2) by (intro exI [of _ "take shs content"]) auto
  next
    case new
    define front where "front = take p (take shs content) @ s @ drop (p + w) (take shs content)"
    have "fold write_at rs (take shs content @ rest) = front @ rest"
      using sk by (simp add: new write_at_def front_def)
    moreover have "length front = shs" "drop p front = s @ drop (p + w) (take shs content)"
      using sk new(3) by (simp_all add: front_def)
    ultimately show ?thesis using ebml_size_roundtrip [OF new(2)] new(3) by (intro exI [of _ front]) simp
  qed
qed

definition metadata_at :: "nat \<Rightarrow> bytes \<Rightarrow> bytes \<Rightarrow> bytes \<Rightarrow> bool" where
  "metadata_at pos title comment content \<longleftrightarrow>
     (\<exists>info tags kept t info_el tags_el.
        drop pos content = info @ tags \<and> build_webm_tags title comment = Inr tags \<and> build_ebml_element TITLE_ID title = Inr t
        \<and> parse_ebml_element content pos = Inr (Some info_el) \<and> el_id info_el = INFO_ID
        \<and> byte_slice (el_payload_start info_el) (el_payload_end info_el) content = kept @ t
        \<and> parse_ebml_element content (el_end info_el) = Inr (Some tags_el) \<and> el_id tags_el = TAGS_ID
        \<and> el_end tags_el = length content)"

lemma appended_metadata:
  assumes i: "build_webm_info_with_title header start title = Inr info" and t: "build_webm_tags title comment = Inr tags"
    and len: "length (front @ info @ tags) < 2 ^ 64"
  shows "metadata_at (length front) title comment (front @ info @ tags)"
proof -
  obtain kept te where te: "build_ebml_element TITLE_ID title = Inr te" and k: "build_ebml_element INFO_ID (kept @ te) = Inr info"
    using info_built [OF i] by blast
  obtain tag where tag: "build_ebml_element TAGS_ID tag = Inr tags" using tags_built [OF t] by blast
  obtain el where el: "parse_ebml_element (front @ info @ tags) (length front) = Inr (Some el)" "el_id el = INFO_ID"
    "byte_slice (el_payload_start el) (el_payload_end el) (front @ info @ tags) = kept @ te" "el_end el = length front + length info"
    using parse_built [OF ids(2) k, of front tags] len by auto
  obtain el' where el': "parse_ebml_element (front @ info @ tags) (length front + length info) = Inr (Some el')" "el_id el' = TAGS_ID"
    "el_end el' = length (front @ info @ tags)"
    using parse_built [OF ids(3) tag, of "front @ info" "[]"] len by auto
  show ?thesis unfolding metadata_at_def
    using te t el el' by (intro exI [of _ info] exI [of _ tags] exI [of _ kept] exI [of _ te] exI [of _ el] exI [of _ el']) simp
qed

text \<open>The index is right: the seek head is where it was and has the new entries, and the segment ends with the file.\<close>

definition index_at :: "bytes \<Rightarrow> nat \<Rightarrow> nat \<Rightarrow> bytes \<Rightarrow> bool" where
  "index_at before info_position tags_position content \<longleftrightarrow>
     (\<exists>p sz w u shs sh void payload el.
        find_segment before = Inr (p, sz, w, u) \<and> find_seek_head (take (1024 * 1024) before) (p + w) = Inr (shs, sh, void)
        \<and> new_seek_payload (take (1024 * 1024) before) sh (of_nat (info_position - (p + w))) (of_nat (tags_position - (p + w))) = Inr payload
        \<and> parse_ebml_element content shs = Inr (Some el) \<and> el_id el = SEEK_HEAD_ID
        \<and> byte_slice (el_payload_start el) (el_payload_end el) content = payload
        \<and> (el_end el = el_end void
            \<or> (\<exists>v. parse_ebml_element content (el_end el) = Inr (Some v) \<and> el_id v = [0xEC] \<and> el_end v = el_end void))
        \<and> (u \<or> decode_ebml_size (drop p content) = Inr (of_nat (length content - (p + w)), w, False)))"

lemma new_index:
  assumes sz: "encode_ebml_size (of_nat (length payload)) (Some width) = Inr s" and f: "length front = shs"
    and v: "build_ebml_void (stop - (shs + length SEEK_HEAD_ID + width + length payload)) = Inr remainder"
    and le: "shs + length SEEK_HEAD_ID + width + length payload \<le> stop"
    and len: "length (front @ SEEK_HEAD_ID @ s @ payload @ remainder @ rest) < 2 ^ 64"
  defines "content \<equiv> front @ SEEK_HEAD_ID @ s @ payload @ remainder @ rest"
  shows "\<exists>el. parse_ebml_element content shs = Inr (Some el) \<and> el_id el = SEEK_HEAD_ID
    \<and> byte_slice (el_payload_start el) (el_payload_end el) content = payload
    \<and> (el_end el = stop \<or> (\<exists>v. parse_ebml_element content (el_end el) = Inr (Some v) \<and> el_id v = [0xEC] \<and> el_end v = stop))"
proof -
  let ?k = "length SEEK_HEAD_ID"
  have l: "length s = width" using encode_size_length [OF sz] .
  have p: "parse_ebml_element content shs = Inr (Some \<lparr>el_id = SEEK_HEAD_ID, el_payload_start = shs + ?k + width,
      el_payload_end = shs + ?k + width + length payload, el_end = shs + ?k + width + length payload\<rparr>)"
    using parse_element [OF ids(1) sz, of front "remainder @ rest"] len f l by (simp add: content_def)
  have sl: "byte_slice (shs + ?k + width) (shs + ?k + width + length payload) content = payload"
    using f l by (simp add: byte_slice_def content_def)
  have "shs + ?k + width + length payload = stop
    \<or> (\<exists>v. parse_ebml_element content (shs + ?k + width + length payload) = Inr (Some v) \<and> el_id v = [0xEC] \<and> el_end v = stop)"
  proof (cases "shs + ?k + width + length payload = stop")
    case False
    then have "stop - (shs + ?k + width + length payload) \<noteq> 0" using le by simp
    from parse_void [OF v this, of "front @ SEEK_HEAD_ID @ s @ payload" rest] show ?thesis
      using len f l le by (simp add: content_def add.assoc)
  qed simp
  then show ?thesis using p sl by auto
qed

text \<open>The file after a growing, successful attempt, in its parts.\<close>

lemma append_shape:
  assumes a: "append_webm_metadata No_Fault title comment content = (None, content')" and grown: "length content < length content'"
  obtains p sz w u info tags shs sh void payload width s remainder front rest where
    "find_segment content = Inr (p, sz, w, u)" "build_webm_tags title comment = Inr tags"
    "build_webm_info_with_title (take (1024 * 1024) content) (p + w) title = Inr info"
    "find_seek_head (take (1024 * 1024) content) (p + w) = Inr (shs, sh, void)"
    "new_seek_payload (take (1024 * 1024) content) sh (of_nat (length content - (p + w))) (of_nat (length content + length info - (p + w))) = Inr payload"
    "encode_ebml_size (of_nat (length payload)) (Some width) = Inr s"
    "build_ebml_void (el_end void - (shs + length SEEK_HEAD_ID + width + length payload)) = Inr remainder"
    "shs + length SEEK_HEAD_ID + width + length payload \<le> el_end void" "length front = shs"
    "content' = front @ SEEK_HEAD_ID @ s @ payload @ remainder @ rest @ info @ tags"
    "length content' = length content + length (info @ tags)"
    "u \<or> decode_ebml_size (drop p content') = Inr (of_nat (length content' - (p + w)), w, False)"
proof -
  obtain p sz w u info tags shs sh void payload ws rs where
    g: "find_segment content = Inr (p, sz, w, u)" "build_webm_tags title comment = Inr tags"
    "build_webm_info_with_title (take (1024 * 1024) content) (p + w) title = Inr info"
    "find_seek_head (take (1024 * 1024) content) (p + w) = Inr (shs, sh, void)"
    "new_seek_payload (take (1024 * 1024) content) sh (of_nat (length content - (p + w))) (of_nat (length content + length info - (p + w))) = Inr payload"
    "fill_seek_head (take (1024 * 1024) content) shs sh void payload = Inr ws"
    "resize_segment p sz w u (length content + length (info @ tags)) = Inr rs"
    and c': "content' = fold write_at (ws @ rs) (content @ info @ tags)"
    using append_grown [OF a grown] .
  obtain width s remainder where f: "encode_ebml_size (of_nat (length payload)) (Some width) = Inr s"
    "build_ebml_void (el_end void - (shs + length SEEK_HEAD_ID + width + length payload)) = Inr remainder"
    "shs + length SEEK_HEAD_ID + width + length payload \<le> el_end void" "el_end void \<le> length content"
    and within: "list_all (\<lambda>w. fst w + length (snd w) \<le> length content) ws"
    and c1: "fold write_at ws content = take shs content @ SEEK_HEAD_ID @ s @ payload @ remainder @ drop (el_end void) content"
    using seek_head_filled [OF g(4,6)] by blast
  have shs: "p + w \<le> shs" "shs \<le> length content" using find_seek_head_parts [OF g(4)] f by auto
  define tail where "tail = SEEK_HEAD_ID @ s @ payload @ remainder @ drop (el_end void) content @ info @ tags"
  obtain front where front: "length front = shs" "fold write_at rs (take shs content @ tail) = front @ tail"
    and dec: "u \<or> (\<exists>v. decode_ebml_size (drop p front @ tail) = Inr (v, w, False) \<and> v = of_nat (length content + length (info @ tags) - (p + w)))"
    using front_rewritten [OF g(1,7) shs] by metis
  have shape: "content' = front @ tail"
    using fold_write_append [OF within, of "info @ tags"] front(2) by (simp add: c' c1 tail_def)
  have l: "length content' = length content + length (info @ tags)"
    using f build_void_length [OF f(2)] encode_size_length [OF f(1)] front(1) by (simp add: shape tail_def)
  have "u \<or> decode_ebml_size (drop p content') = Inr (of_nat (length content' - (p + w)), w, False)"
    using dec front(1) shs(1) unfolding l by (auto simp: shape)
  from that [OF g(1-5) f(1-3) front(1) _ l this] show ?thesis by (simp add: shape tail_def)
qed


section \<open>Uploads and errors\<close>

lemma metadata_result:
  "fst (set_video_metadata_with_retry faults ext title comment content) = Inr b \<Longrightarrow> b = is_webm_or_mkv ext"
proof -
  obtain r content' where a: "metadata_attempts (List.map faults [0..<METADATA_RETRY_COUNT]) title comment content (Inl Io_Failed) = (r, content')"
    by fastforce
  show "fst (set_video_metadata_with_retry faults ext title comment content) = Inr b \<Longrightarrow> b = is_webm_or_mkv ext"
    by (cases r) (simp_all add: set_video_metadata_with_retry_def a split: if_splits unit.split_asm)
qed

text \<open>An upload of a recording: its note has just been saved, and a WebM or Matroska file has its metadata.\<close>

definition documented :: "upload_file \<Rightarrow> note_world \<Rightarrow> note_effect list \<Rightarrow> string \<Rightarrow> string \<Rightarrow> string \<Rightarrow> bool" where
  "documented f w earlier path connection ticket \<longleftrightarrow>
     path = uf_path f \<and> connection = uf_connection f \<and> ticket = uf_ticket f
     \<and> (\<exists>before embedded. earlier = before @ [Note_Saved path embedded] \<and> (is_webm_or_mkv (nw_extension w) \<longrightarrow> embedded))"

lemma save_note_effects:
  "\<exists>content embedded r. (is_webm_or_mkv (nw_extension w) \<longrightarrow> embedded) \<and> (r = [] \<or> r = [Receipt_Saved (uf_path f)])
      \<and> snd (save_note ctx w f) = [Recorded (uf_path f) content, Note_Saved (uf_path f) embedded]
          @ Upload (uf_path f) (uf_connection f) (uf_ticket f) # r
    \<or> snd (save_note ctx w f) = [] \<or> snd (save_note ctx w f) = [Recorded (uf_path f) content]
    \<or> snd (save_note ctx w f) = [Recorded (uf_path f) content, Note_Saved (uf_path f) embedded]"
proof -
  obtain result content where r: "set_video_metadata_with_retry (nw_faults w) (nw_extension w) (as_bytes (nc_title ctx))
      (as_bytes (nc_comment ctx)) (nw_content w) = (result, content)" by fastforce
  let ?emb = "case result of Inr b \<Rightarrow> b | Inl e \<Rightarrow> False"
  let ?r = "if nw_uploaded w \<and> nw_receipt_ok w then [Receipt_Saved (uf_path f)] else []"
  consider "snd (save_note ctx w f) = []" | "snd (save_note ctx w f) = [Recorded (uf_path f) content]"
    | "snd (save_note ctx w f) = [Recorded (uf_path f) content, Note_Saved (uf_path f) ?emb]"
    | "is_webm_or_mkv (nw_extension w) \<longrightarrow> ?emb" "snd (save_note ctx w f) = [Recorded (uf_path f) content, Note_Saved (uf_path f) ?emb]
          @ Upload (uf_path f) (uf_connection f) (uf_ticket f) # ?r"
    by (cases "nw_is_file w"; cases "wait_until_file_is_stable (nw_sizes w)"; cases "nw_note_ok w";
        cases "?emb"; cases "is_webm_or_mkv (nw_extension w)") (simp_all add: save_note_def Let_def r)
  moreover have "?r = [] \<or> ?r = [Receipt_Saved (uf_path f)]" by simp
  ultimately show ?thesis by cases blast+
qed

lemma save_note_upload:
  assumes "snd (save_note ctx w f) = earlier @ Upload path connection ticket # later"
  shows "documented f w earlier path connection ticket"
proof -
  from save_note_effects [of w f ctx] assms obtain content embedded r
    where e: "is_webm_or_mkv (nw_extension w) \<longrightarrow> embedded" "r = [] \<or> r = [Receipt_Saved (uf_path f)]"
      "[Recorded (uf_path f) content, Note_Saved (uf_path f) embedded] @ Upload (uf_path f) (uf_connection f) (uf_ticket f) # r
        = earlier @ Upload path connection ticket # later"
    by (auto simp: append_eq_Cons_conv Cons_eq_append_conv)
  then have "earlier = [Recorded (uf_path f) content, Note_Saved (uf_path f) embedded]"
    "Upload (uf_path f) (uf_connection f) (uf_ticket f) = Upload path connection ticket"
    by (auto simp: append_eq_Cons_conv Cons_eq_append_conv)
  then show ?thesis using e(1) by (simp add: documented_def) 
qed

lemma save_notes_effects:
  "snd (save_notes ctx fs) = concat (List.map (\<lambda>(f, w). snd (save_note ctx w f)) fs)"
  by (induction fs) (auto split: prod.splits)

lemma save_notes_errors:
  "fst (save_notes ctx fs) = concat (List.map (\<lambda>(f, w). fst (save_note ctx w f)) fs)"
  by (induction fs) (auto split: prod.splits)

lemma concat_split:
  "concat xss = as @ x # bs \<Longrightarrow> \<exists>ys zs. ys @ x # zs \<in> set xss \<and> (\<exists>pre. as = pre @ ys)"
proof (induction xss arbitrary: as)
  case (Cons xs xss)
  have "xs @ concat xss = as @ x # bs" using Cons.prems by simp
  then consider us where "xs = as @ x # us" | us where "as = xs @ us" "concat xss = us @ x # bs"
    by (auto simp: append_eq_append_conv2 append_eq_Cons_conv)
  then show ?case
  proof cases
    case 1
    then show ?thesis by (intro exI [of _ as] exI [of _ us]) simp
  next
    case 2
    from Cons.IH [OF 2(2)] obtain ys zs pre where "ys @ x # zs \<in> set xss" "us = pre @ ys" by blast
    then show ?thesis using 2(1) by (intro exI [of _ ys] exI [of _ zs]) simp
  qed
qed simp


text \<open>What a file needs to be saved without an error.\<close>

definition accepted :: "note_context \<Rightarrow> note_world \<Rightarrow> bool" where
  "accepted ctx w \<longleftrightarrow>
     nw_is_file w \<and> wait_until_file_is_stable (nw_sizes w)
     \<and> fst (set_video_metadata_with_retry (nw_faults w) (nw_extension w) (as_bytes (nc_title ctx)) (as_bytes (nc_comment ctx))
            (nw_content w)) = Inr (is_webm_or_mkv (nw_extension w))
     \<and> nw_note_ok w \<and> nw_uploaded w"

lemma save_note_errors: "fst (save_note ctx w f) = [] \<longleftrightarrow> accepted ctx w"
  using metadata_result [of "nw_faults w" "nw_extension w" "as_bytes (nc_title ctx)" "as_bytes (nc_comment ctx)" "nw_content w"]
  by (auto simp: save_note_def accepted_def Let_def split: prod.splits sum.splits)

lemma accepted_upload: "accepted ctx w \<Longrightarrow> Upload (uf_path f) (uf_connection f) (uf_ticket f) \<in> set (snd (save_note ctx w f))"
  by (auto simp: save_note_def accepted_def Let_def split: prod.splits)

text \<open>The report is honest: the answer has every file of the session in order, and it has no error exactly if the title
  is in Korean, there are files, and each of them was there, settled, got its metadata if it can hold it, had
  its note saved and was taken by the server; each of them was uploaded then.\<close>

theorem report_honest:
  "case save_recording_notes ctx fs of ((errors, files), effects) \<Rightarrow>
     files = List.map fst fs
     \<and> (errors = [] \<longleftrightarrow> contains_korean (nc_title ctx) \<and> fs \<noteq> [] \<and> list_all (\<lambda>(f, w). accepted ctx w) fs)
     \<and> (errors \<noteq> [] \<or> list_all (\<lambda>(f, w). Upload (uf_path f) (uf_connection f) (uf_ticket f) \<in> set effects) fs)"
proof (cases "contains_korean (nc_title ctx) \<and> fs \<noteq> []")
  case True
  have e: "fst (save_notes ctx fs) = [] \<longleftrightarrow> list_all (\<lambda>(f, w). accepted ctx w) fs"
    by (auto simp: save_notes_errors list_all_iff save_note_errors)
  have "list_all (\<lambda>(f, w). accepted ctx w) fs \<Longrightarrow>
      list_all (\<lambda>(f, w). Upload (uf_path f) (uf_connection f) (uf_ticket f) \<in> set (snd (save_notes ctx fs))) fs"
    using accepted_upload by (fastforce simp: save_notes_effects list_all_iff)
  then show ?thesis using True e by (auto simp: save_recording_notes_def split: prod.splits)
qed (auto simp: save_recording_notes_def)

section \<open>An example\<close>

lemma small_size:
  assumes "n < 127"
  shows "encode_ebml_size (of_nat n) (Some 1) = Inr [of_nat (n + 128)]" "encode_ebml_size (of_nat n) None = Inr [of_nat (n + 128)]"
proof -
  have u: "unat (of_nat n :: u64) = n" using assms by (simp add: unat_of_nat)
  have lt: "(of_nat n :: u64) < unknown_size 1"
    using assms unknown_size_nat [of 1] u by (simp add: word_less_nat_alt)
  have b: "(of_nat n :: u8) OR push_bit 7 1 = of_nat (n + 128)"
  proof -
    have "unat (of_nat n OR push_bit 7 1 :: u8) = n + 2 ^ 7" using assms by (intro first_byte_or) simp_all
    then show ?thesis using assms by (simp add: word_unat_eq_iff unat_of_nat del: of_nat_add)
  qed
  have d: "drop 7 (to_be_bytes (of_nat n)) = [of_nat n]"
  proof -
    have "drop (8 - 1) (be_digits 8 n) = be_digits 1 n" by (rule drop_be_digits) simp
    then show ?thesis by (simp add: to_be_bytes_def u)
  qed
  show s: "encode_ebml_size (of_nat n) (Some 1) = Inr [of_nat (n + 128)]"
    using lt b by (simp add: encode_ebml_size_def Let_def d not_le del: of_nat_add push_bit_of_1)
  have "[1..<9] = 1 # [2..<9]" by (simp add: upt_rec)
  then show "encode_ebml_size (of_nat n) None = Inr [of_nat (n + 128)]"
    using s lt by (simp add: encode_ebml_size_def)
qed

lemma small_element: "length p < 127 \<Longrightarrow> build_ebml_element i p = Inr (i @ of_nat (length p + 128) # p)"
  by (simp add: build_ebml_element_def small_size(2) del: of_nat_add)

lemma small_uint: "0 < n \<Longrightarrow> n < 256 \<Longrightarrow> encode_ebml_uint (of_nat n) = [of_nat n]"
proof -
  assume n: "0 < n" "n < 256"
  have z: "be_digits k 0 = replicate k 0" for k by (induction k) (simp_all add: replicate_append_same)
  have "be_digits (Suc 7) n = replicate 7 0 @ [of_nat n]" using n by (simp only: be_digits.simps) (simp add: z)
  then have "be_digits 8 n = replicate 7 0 @ [of_nat n]" by simp
  moreover have "(of_nat n :: u8) \<noteq> 0" using n by (simp add: word_unat_eq_iff unat_of_nat)
  moreover have "takeWhile (\<lambda>b. b = 0) (replicate 7 0 @ [x]) = replicate 7 0" if "x \<noteq> 0" for x :: u8
    using that by (subst takeWhile_append2) auto
  ultimately show ?thesis using n
    by (simp add: encode_ebml_uint_def to_be_bytes_def unat_of_nat Let_def)
qed

lemma id_lengths [simp]:
  "length SEGMENT_ID = 4" "length SEEK_HEAD_ID = 4" "length INFO_ID = 4" "length TAGS_ID = 4" "length SEEK_ID = 2"
  "length SEEK_TARGET_ID = 2" "length SEEK_POSITION_ID = 2" "length TITLE_ID = 2" "length TARGETS_ID = 2"
  by (simp_all add: SEGMENT_ID_def SEEK_HEAD_ID_def INFO_ID_def TAGS_ID_def SEEK_ID_def SEEK_TARGET_ID_def SEEK_POSITION_ID_def
      TITLE_ID_def TARGETS_ID_def)

definition toy_webm :: bytes where
  "toy_webm = SEGMENT_ID @ [0xFF] @ SEEK_HEAD_ID @ [0x80] @ [0xEC] @ [0xA8] @ replicate 40 0 @ INFO_ID @ [0x80]"

lemma toy_webm_length: "length toy_webm = 57"
  by (simp add: toy_webm_def)

lemma toy_header: "take (1024 * 1024) toy_webm = toy_webm"
  by (rule take_all) (simp add: toy_webm_length)

lemma toy_segment: "\<exists>sz. find_segment toy_webm = Inr (4, sz, 1, True)"
  unfolding find_segment_def toy_header toy_webm_length Let_def
  by (simp add: toy_webm_def SEGMENT_ID_def decode_ebml_size_def leading_zeros_def size_mask_def unknown_size_def)

lemma toy_parse:
  "parse_ebml_element toy_webm 5 = Inr (Some \<lparr>el_id = SEEK_HEAD_ID, el_payload_start = 10, el_payload_end = 10, el_end = 10\<rparr>)"
  "parse_ebml_element toy_webm 10 = Inr (Some \<lparr>el_id = [0xEC], el_payload_start = 12, el_payload_end = 52, el_end = 52\<rparr>)"
  "parse_ebml_element toy_webm 52 = Inr (Some \<lparr>el_id = INFO_ID, el_payload_start = 57, el_payload_end = 57, el_end = 57\<rparr>)"
proof -
  have ec: "ebml_id [0xEC]" by (simp add: ebml_id_def leading_zeros_def)
  have s: "encode_ebml_size (of_nat (length ([] :: bytes))) (Some 1) = Inr [0x80]" "encode_ebml_size (of_nat (length (replicate 40 0 :: bytes))) (Some 1) = Inr [0xA8]"
    using small_size(1) [of 0] small_size(1) [of 40] by simp_all
  show "parse_ebml_element toy_webm 5 = Inr (Some \<lparr>el_id = SEEK_HEAD_ID, el_payload_start = 10, el_payload_end = 10, el_end = 10\<rparr>)"
    using parse_element [OF ids(1) s(1), of "SEGMENT_ID @ [0xFF]" "[0xEC] @ [0xA8] @ replicate 40 0 @ INFO_ID @ [0x80]"]
    by (simp add: toy_webm_def)
  show "parse_ebml_element toy_webm 10 = Inr (Some \<lparr>el_id = [0xEC], el_payload_start = 12, el_payload_end = 52, el_end = 52\<rparr>)"
    using parse_element [OF ec s(2), of "SEGMENT_ID @ [0xFF] @ SEEK_HEAD_ID @ [0x80]" "INFO_ID @ [0x80]"]
    by (simp add: toy_webm_def)
  show "parse_ebml_element toy_webm 52 = Inr (Some \<lparr>el_id = INFO_ID, el_payload_start = 57, el_payload_end = 57, el_end = 57\<rparr>)"
    using parse_element [OF ids(2) s(1), of "SEGMENT_ID @ [0xFF] @ SEEK_HEAD_ID @ [0x80] @ [0xEC] @ [0xA8] @ replicate 40 0" "[]"]
    by (simp add: toy_webm_def)
qed

lemma toy_info:
  "build_webm_info_with_title toy_webm 5 [0xEA] = Inr (INFO_ID @ [0x84] @ TITLE_ID @ [0x81, 0xEA])"
proof -
  have ne: "SEEK_HEAD_ID \<noteq> INFO_ID" "[0xEC] \<noteq> INFO_ID" by (simp_all add: SEEK_HEAD_ID_def INFO_ID_def)
  have "find_info toy_webm 5 = Inr (Some \<lparr>el_id = INFO_ID, el_payload_start = 57, el_payload_end = 57, el_end = 57\<rparr>)"
    using ne by (simp add: find_info.simps [of _ 5] find_info.simps [of _ 10] find_info.simps [of _ 52] toy_parse toy_webm_length)
  then show ?thesis
    using small_element [of "[0xEA]" TITLE_ID] small_element [of "TITLE_ID @ [0x81, 0xEA]" INFO_ID]
    by (simp add: build_webm_info_with_title_def kept_children.simps)
qed

lemma toy_seek_entries:
  "build_seek_entry INFO_ID 52 = Inr (SEEK_ID @ [0x8B] @ SEEK_TARGET_ID @ [0x84] @ INFO_ID @ SEEK_POSITION_ID @ [0x81, 52])"
  "build_seek_entry TAGS_ID 61 = Inr (SEEK_ID @ [0x8B] @ SEEK_TARGET_ID @ [0x84] @ TAGS_ID @ SEEK_POSITION_ID @ [0x81, 61])"
  using small_uint [of 52] small_uint [of 61]
  by (simp_all add: build_seek_entry_def small_element)

lemma toy_tags: "\<exists>tags. build_webm_tags [0xEA] [0x42] = Inr tags \<and> tags \<noteq> []"
proof -
  have n: "length (to_bytes ''TITLE'') = 5" "length (to_bytes ''COMMENT'') = 7" by simp_all
  show ?thesis by (simp add: build_webm_tags_def build_simple_tag_def small_element n del: length_to_bytes)
qed

lemma toy_head:
  "find_seek_head toy_webm 5 = Inr (5, \<lparr>el_id = SEEK_HEAD_ID, el_payload_start = 10, el_payload_end = 10, el_end = 10\<rparr>,
     \<lparr>el_id = [0xEC], el_payload_start = 12, el_payload_end = 52, el_end = 52\<rparr>)"
proof -
  have "find_window SEEK_HEAD_ID (drop 5 toy_webm) = Some 0" by (simp add: toy_webm_def SEGMENT_ID_def SEEK_HEAD_ID_def)
  then show ?thesis by (simp add: find_seek_head_def toy_webm_length toy_parse)
qed

lemma toy_rewrite:
  "\<exists>ws. rewrite_metadata_seek_positions toy_webm 5 57 66 = Inr ws \<and> list_all (\<lambda>w. fst w + length (snd w) \<le> 57) ws"
proof -
  have e: "seek_entries toy_webm 10 10 52 61 = Inr (False, False, [])" by (simp add: seek_entries.simps)
  have entries: "length (SEEK_ID @ [0x8B] @ SEEK_TARGET_ID @ [0x84] @ i @ SEEK_POSITION_ID @ [0x81, x]) = 14" if "length i = 4" for i x
    using that by (simp add: SEEK_ID_def SEEK_TARGET_ID_def SEEK_POSITION_ID_def)
  have p: "\<exists>payload. new_seek_payload toy_webm \<lparr>el_id = SEEK_HEAD_ID, el_payload_start = 10, el_payload_end = 10, el_end = 10\<rparr> 52 61
      = Inr payload \<and> length payload = 28"
    using entries [of INFO_ID 52] entries [of TAGS_ID 61] by (simp add: new_seek_payload_def e toy_seek_entries INFO_ID_def [THEN arg_cong, of length] TAGS_ID_def [THEN arg_cong, of length])
  have d: "decode_ebml_size (drop 9 toy_webm) = Inr (0, 1, False)"
    by (simp add: toy_webm_def SEGMENT_ID_def SEEK_HEAD_ID_def decode_ebml_size_def leading_zeros_def size_mask_def unknown_size_def)
  have k: "length SEEK_HEAD_ID = 4" by (simp add: SEEK_HEAD_ID_def)
  obtain r where r: "build_ebml_void 14 = Inr r" using build_void_exists [of 14] by auto
  have s: "encode_ebml_size 28 (Some 1) = Inr [0x9C]" using small_size(1) [of 28] by simp
  from p obtain payload where "new_seek_payload toy_webm \<lparr>el_id = SEEK_HEAD_ID, el_payload_start = 10, el_payload_end = 10, el_end = 10\<rparr> 52 61
      = Inr payload" "length payload = 28" by blast
  then show ?thesis
    by (simp add: rewrite_metadata_seek_positions_def toy_head fill_seek_head_def d r s [unfolded One_nat_def] build_void_length [OF r] k)
qed

lemma toy_tags_length: "\<exists>tags. build_webm_tags [0xEA] [0x42] = Inr tags \<and> length tags = 43"
proof -
  have n: "length (to_bytes ''TITLE'') = 5" "length (to_bytes ''COMMENT'') = 7" by simp_all
  show ?thesis by (simp add: build_webm_tags_def build_simple_tag_def small_element n TARGETS_ID_def del: length_to_bytes)
qed

lemma toy_plan:
  "\<exists>ws tags. append_plan toy_webm [0xEA] [0x42]
      = ((57, (INFO_ID @ [0x84] @ TITLE_ID @ [0x81, 0xEA]) @ tags) # ws, None) \<and> length tags = 43
      \<and> list_all (\<lambda>w. fst w + length (snd w) \<le> 57) ws"
proof -
  obtain tags where t: "build_webm_tags [0xEA] [0x42] = Inr tags" "length tags = 43" using toy_tags_length by blast
  obtain sz where s: "find_segment toy_webm = Inr (4, sz, 1, True)" using toy_segment by blast
  obtain ws where w: "rewrite_metadata_seek_positions toy_webm 5 57 66 = Inr ws" "list_all (\<lambda>w. fst w + length (snd w) \<le> 57) ws"
    using toy_rewrite by blast
  define info where "info = INFO_ID @ [0x84] @ TITLE_ID @ [0x81, 0xEA]"
  have l: "length info = 9" by (simp add: info_def INFO_ID_def TITLE_ID_def)
  have "hd (drop 5 toy_webm) \<noteq> hd (info @ tags)" by (simp add: toy_webm_def SEGMENT_ID_def SEEK_HEAD_ID_def info_def INFO_ID_def)
  then have n: "drop 5 toy_webm \<noteq> info @ tags" by metis
  have "append_plan toy_webm [0xEA] [0x42] = ((57, info @ tags) # ws, None)"
    unfolding append_plan_def Let_def toy_header
    by (simp add: t s toy_info [folded info_def] l n w toy_webm_length resize_segment_def)
  then show ?thesis using t w(2) by (auto simp: info_def)
qed

lemma fold_write_length:
  "list_all (\<lambda>w. fst w + length (snd w) \<le> length bs) ws \<Longrightarrow> length (fold write_at ws bs) = length bs"
proof (induction ws arbitrary: bs)
  case (Cons w ws)
  have "length (write_at w bs) = length bs" using Cons.prems write_at_length [of "fst w" "snd w"] by simp
  then show ?case using Cons.IH [of "write_at w bs"] Cons.prems by simp
qed simp

lemma toy_append:
  "\<exists>content'. append_webm_metadata No_Fault [0xEA] [0x42] toy_webm = (None, content') \<and> length content' = 109"
proof -
  obtain ws tags where p: "append_plan toy_webm [0xEA] [0x42]
      = ((57, (INFO_ID @ [0x84] @ TITLE_ID @ [0x81, 0xEA]) @ tags) # ws, None)" "length tags = 43"
    "list_all (\<lambda>w. fst w + length (snd w) \<le> 57) ws"
    using toy_plan by (elim exE conjE) (rule that)
  let ?grown = "write_at (57, (INFO_ID @ [0x84] @ TITLE_ID @ [0x81, 0xEA]) @ tags) toy_webm"
  have "length (write_at (57, x) toy_webm) = 57 + length x" for x
    using write_at_end [of toy_webm x] by (simp add: toy_webm_length)
  then have g: "length ?grown = 109" using p(2) by (simp add: INFO_ID_def TITLE_ID_def)
  have "list_all (\<lambda>w. fst w + length (snd w) \<le> length ?grown) ws" unfolding g using p(3) by (auto simp: list_all_iff)
  from fold_write_length [OF this] have "length (fold write_at ws ?grown) = 109" unfolding g .
  then show ?thesis by (simp add: append_webm_metadata_def p(1))
qed


text \<open>A session with one recording that is no WebM file, and whose note is saved.\<close>

definition mp4_file :: upload_file where
  "mp4_file = \<lparr>uf_path = ''a.mp4'', uf_connection = ''c'', uf_ticket = ''t''\<rparr>"

definition mp4_world :: note_world where
  "mp4_world = \<lparr>nw_is_file = True, nw_sizes = (\<lambda>_. Some 9), nw_extension = Some ''mp4'', nw_content = [1, 2],
     nw_faults = (\<lambda>_. No_Fault), nw_note_ok = True, nw_uploaded = True, nw_receipt_ok = False\<rparr>"

definition korean_note :: note_context where
  "korean_note = \<lparr>nc_title = [0xAC00], nc_comment = []\<rparr>"

lemma mp4_answer:
  "save_recording_notes korean_note [(mp4_file, mp4_world)]
   = (([], [mp4_file]), [Recorded ''a.mp4'' [1, 2], Note_Saved ''a.mp4'' False, Upload ''a.mp4'' ''c'' ''t''])"
proof -
  have "wait_until_file_is_stable (\<lambda>_. Some 9)" by (simp add: wait_until_file_is_stable_def METADATA_RETRY_COUNT_def upt_rec)
  moreover have "\<not> is_webm_or_mkv (Some ''mp4'')" by (simp add: is_webm_or_mkv_def lower_def Let_def char_code_def)
  moreover have "contains_korean [0xAC00]" by (simp add: contains_korean_def)
  ultimately show ?thesis
    by (simp add: save_recording_notes_def save_note_def Let_def set_video_metadata_with_retry_def mp4_file_def mp4_world_def
      korean_note_def)
qed

lemma mp4_saved:
  "snd (save_recording_notes korean_note [(mp4_file, mp4_world)])
   = [Recorded ''a.mp4'' [1, 2], Note_Saved ''a.mp4'' False] @ Upload ''a.mp4'' ''c'' ''t'' # []"
  by (simp add: mp4_answer)

lemma report_honest_witness:
  "accepted korean_note mp4_world
    \<and> Upload ''a.mp4'' ''c'' ''t'' \<in> set (snd (save_recording_notes korean_note [(mp4_file, mp4_world)]))"
  using report_honest [of "[(mp4_file, mp4_world)]" korean_note] unfolding mp4_answer
  by (simp add: mp4_file_def)


end
