(* ===== verification/Float32.thy ===== *)
theory Float32
  imports MDesk_Prelude "HOL-Library.Log_Nat"
begin

text \<open>
  The type \<open>f32\<close> of Rust as the code uses it: a number is the rational it stands for, and the result of an
  operation is the exact result rounded to 24 bits (\<open>f32\<close>), to the even neighbour on a tie.  Negative numbers,
  infinities and \<open>NaN\<close> do not occur in the models that import this theory: their operands are not negative and
  stay far below \<open>2 ^ 128\<close>, and no divisor is zero.
\<close>

section \<open>Rounding\<close>

definition f32_exponent :: "rat \<Rightarrow> int" where
  "f32_exponent x =
     (case quotient_of x of (n, d) \<Rightarrow>
        let k = bitlen n - bitlen d in if 2 powi k \<le> x then k else k - 1)"

definition round_even :: "rat \<Rightarrow> int" where
  "round_even x =
     (let n = \<lfloor>x\<rfloor>; rest = x - of_int n in
      if rest < 1 / 2 then n else if 1 / 2 < rest then n + 1 else if even n then n else n + 1)"

definition f32_ulp :: "rat \<Rightarrow> rat" where
  "f32_ulp x = 2 powi (max (f32_exponent x) (- 126) - 23)"

definition f32 :: "rat \<Rightarrow> rat" where
  "f32 x = (if x \<le> 0 then 0 else of_int (round_even (x / f32_ulp x)) * f32_ulp x)"

text \<open>\<open>as u32\<close> cuts the fraction off and saturates; \<open>as f32\<close> rounds.\<close>

definition f32_to_u32 :: "rat \<Rightarrow> u32" where
  "f32_to_u32 x = of_nat (min (2 ^ 32 - 1) (nat \<lfloor>x\<rfloor>))"

definition u32_to_f32 :: "u32 \<Rightarrow> rat" where
  "u32_to_f32 w = f32 (of_nat (unat w))"

definition ceil_to_u32 :: "rat \<Rightarrow> u32" where
  "ceil_to_u32 x = of_nat (min (2 ^ 32 - 1) (nat \<lceil>x\<rceil>))"

text \<open>\<open>f32::clamp\<close> and \<open>Ord::clamp\<close> abort when the bounds are crossed.\<close>

definition clamped :: "'a :: linorder \<Rightarrow> 'a \<Rightarrow> 'a \<Rightarrow> 'a option" where
  "clamped lo hi x = (if hi < lo then None else Some (if x < lo then lo else if hi < x then hi else x))"

section \<open>Accuracy\<close>

lemma quotient_bounds:
  assumes "0 < x" "quotient_of x = (n, d)"
  shows "0 < n" "0 < d" "x = of_int n / of_int d"
proof -
  show d: "0 < d" using quotient_of_denom_pos [OF assms(2)] .
  show x: "x = of_int n / of_int d" using quotient_of_div [OF assms(2)] .
  show "0 < n" using assms(1) d unfolding x by (simp add: zero_less_divide_iff)
qed

lemma bitlen_powers:
  assumes "0 < n"
  shows "2 powi (bitlen n - 1) \<le> (of_int n :: rat)" "(of_int n :: rat) < 2 powi bitlen n"
proof -
  have b: "2 ^ nat (bitlen n - 1) \<le> n" "n < 2 ^ nat (bitlen n)" using bitlen_bounds [OF assms] by auto
  have p: "0 < bitlen n" using assms bitlen_nonneg [of n] bitlen_eq_zero_iff [of n] by linarith
  have "(of_int (2 ^ nat (bitlen n - 1)) :: rat) \<le> of_int n" using b(1) by (simp only: of_int_le_iff)
  then show "2 powi (bitlen n - 1) \<le> (of_int n :: rat)" using p by (simp add: power_int_def)
  have "(of_int n :: rat) < of_int (2 ^ nat (bitlen n))" using b(2) by (simp only: of_int_less_iff)
  then show "(of_int n :: rat) < 2 powi bitlen n" using p by (simp add: power_int_def)
qed

lemma powi_positive: "0 < (2 :: rat) powi k"
  by simp

lemma exponent_bounds:
  assumes "0 < x"
  shows "2 powi f32_exponent x \<le> x" "x < 2 powi (f32_exponent x + 1)"
proof -
  obtain n d where q: "quotient_of x = (n, d)" by (cases "quotient_of x")
  note nd = quotient_bounds [OF assms q]
  define k where "k = bitlen n - bitlen d"
  have dp: "0 < (of_int d :: rat)" using nd(2) by simp
  have "2 powi (k - 1) * of_int d \<le> (2 powi (k - 1) * 2 powi bitlen d :: rat)"
    using bitlen_powers(2) [OF nd(2)] by (intro mult_left_mono) simp_all
  also have "\<dots> = 2 powi (bitlen n - 1)" by (simp add: k_def power_int_add [symmetric])
  also have "\<dots> \<le> of_int n" using bitlen_powers(1) [OF nd(1)] .
  finally have lo: "2 powi (k - 1) \<le> x" using dp by (simp add: nd(3) pos_le_divide_eq)
  have "(of_int n :: rat) < 2 powi bitlen n" using bitlen_powers(2) [OF nd(1)] .
  also have "\<dots> = 2 powi (k + 1) * 2 powi (bitlen d - 1)" by (simp add: k_def power_int_add [symmetric])
  also have "\<dots> \<le> 2 powi (k + 1) * of_int d"
    using bitlen_powers(1) [OF nd(2)] by (intro mult_left_mono) simp_all
  finally have hi: "x < 2 powi (k + 1)" using dp by (simp add: nd(3) pos_divide_less_eq)
  have e: "f32_exponent x = (if 2 powi k \<le> x then k else k - 1)" by (simp add: f32_exponent_def q k_def Let_def)
  show "2 powi f32_exponent x \<le> x" "x < 2 powi (f32_exponent x + 1)" using lo hi by (auto simp: e)
qed

lemma powi_le: "(2 :: rat) powi a \<le> 2 powi b \<longleftrightarrow> a \<le> b"
  using power_int_increasing [of a b "2 :: rat"] power_int_strict_increasing [of b a "2 :: rat"] by (cases "a \<le> b") auto

lemma powi_less: "(2 :: rat) powi a < 2 powi b \<longleftrightarrow> a < b"
  using powi_le [of b a] by (simp add: not_le [symmetric])

lemma round_even_error: "\<bar>of_int (round_even x) - x\<bar> \<le> 1 / 2"
proof -
  have "of_int \<lfloor>x\<rfloor> \<le> x" "x < of_int \<lfloor>x\<rfloor> + 1" by linarith+
  then show ?thesis by (simp add: round_even_def Let_def abs_le_iff)
qed

lemma round_even_int: "round_even (of_int n) = n"
  by (simp add: round_even_def)

lemma round_even_le: "x \<le> of_int n \<Longrightarrow> round_even x \<le> n"
proof -
  assume x: "x \<le> of_int n"
  have "of_int (round_even x) \<le> x + 1 / 2" using round_even_error [of x] by linarith
  also have "\<dots> < of_int (n + 1)" using x by simp
  finally show ?thesis unfolding of_int_less_iff by simp
qed

lemma round_even_nonneg: "0 \<le> x \<Longrightarrow> 0 \<le> round_even x"
proof -
  assume x: "0 \<le> x"
  have "of_int (- 1) < x - 1 / 2" using x by simp
  also have "\<dots> \<le> of_int (round_even x)" using round_even_error [of x] by linarith
  finally show ?thesis unfolding of_int_less_iff by simp
qed

lemma scaled_int: "0 \<le> k \<Longrightarrow> \<exists>i :: int. of_int m * 2 powi k = (of_int i :: rat)"
  by (intro exI [of _ "m * 2 ^ nat k"]) (simp add: power_int_def)

text \<open>Numbers with at most 24 bits are kept.\<close>

lemma f32_exact:
  assumes "0 < m" "m \<le> 2 ^ 24" "- 149 \<le> j"
  shows "f32 (of_int m * 2 powi j) = of_int m * 2 powi j"
proof -
  let ?x = "of_int m * 2 powi j :: rat"
  define e where "e = max (f32_exponent ?x) (- 126) - 23"
  have pos: "0 < ?x" using assms(1) by simp
  have "m = 2 ^ 24 \<or> m < 2 ^ 24" using assms(2) by linarith
  then have "\<exists>k :: int. ?x / 2 powi e = of_int k"
  proof
    assume m: "m = 2 ^ 24"
    have x: "?x = 2 powi (j + 24)" unfolding m by (simp add: power_int_add)
    have "f32_exponent ?x \<le> j + 24"
      using exponent_bounds(1) [OF pos] unfolding x powi_le .
    then have "0 \<le> j + 24 - e" using assms(3) by (simp add: e_def)
    from scaled_int [OF this, of 1] show ?thesis unfolding x by (simp add: power_int_diff)
  next
    assume m: "m < 2 ^ 24"
    have "(of_int m :: rat) < of_int (2 ^ 24)" using m by (simp only: of_int_less_iff)
    then have "?x < 2 ^ 24 * 2 powi j" by simp
    also have "\<dots> = 2 powi (j + 24)" by (simp add: power_int_add)
    finally have "2 powi f32_exponent ?x < (2 powi (j + 24) :: rat)" using exponent_bounds(1) [OF pos] by (rule order.strict_trans1 [rotated])
    then have "0 \<le> j - e" using assms(3) unfolding powi_less by (simp add: e_def)
    from scaled_int [OF this, of m] show ?thesis by (simp add: power_int_diff)
  qed
  then obtain k :: int where k: "?x / 2 powi e = of_int k" by blast
  show ?thesis using pos by (simp add: f32_def f32_ulp_def e_def [symmetric] k round_even_int) (simp flip: k)
qed

lemma f32_form:
  assumes "0 < x"
  shows "\<exists>m j. f32 x = of_int m * 2 powi j \<and> 0 \<le> m \<and> m \<le> 2 ^ 24 \<and> - 149 \<le> j"
proof -
  define e where "e = max (f32_exponent x) (- 126) - 23"
  have "x < 2 powi (f32_exponent x + 1)" using exponent_bounds(2) [OF assms] .
  also have "\<dots> \<le> 2 powi (e + 24)" unfolding powi_le by (simp add: e_def)
  also have "\<dots> = 2 ^ 24 * 2 powi e" by (simp add: power_int_add)
  finally have "x / 2 powi e \<le> of_int (2 ^ 24)" by (simp add: pos_divide_le_eq)
  then have "round_even (x / 2 powi e) \<le> 2 ^ 24" by (rule round_even_le)
  moreover have "0 \<le> round_even (x / 2 powi e)" using assms by (intro round_even_nonneg) simp
  ultimately show ?thesis using assms
    by (intro exI [of _ "round_even (x / 2 powi e)"] exI [of _ e]) (simp add: f32_def f32_ulp_def e_def)
qed

lemma f32_idem [simp]: "f32 (f32 x) = f32 x"
proof (cases "0 < x")
  case True
  then obtain m j where f: "f32 x = of_int m * 2 powi j" "0 \<le> m" "m \<le> 2 ^ 24" "- 149 \<le> j"
    using f32_form by blast
  show ?thesis
  proof (cases "m = 0")
    case False
    then show ?thesis using f f32_exact [of m j] by simp
  next
    case True
    then have "f32 x = 0" by (simp add: f(1))
    then show ?thesis by (simp add: f32_def)
  qed
qed (simp add: f32_def)

lemma f32_nat: "n \<le> 2 ^ 24 \<Longrightarrow> f32 (of_nat n) = of_nat n"
proof (cases "n = 0")
  case False
  assume "n \<le> 2 ^ 24"
  then have "int n \<le> 2 ^ 24" by (metis of_nat_le_iff of_nat_numeral of_nat_power)
  then show ?thesis using False f32_exact [of "int n" 0] by simp
qed (simp add: f32_def)

lemma f32_half: "n \<le> 2 ^ 24 \<Longrightarrow> f32 (1 / 2 * of_nat n) = 1 / 2 * of_nat n"
proof (cases "n = 0")
  case False
  assume "n \<le> 2 ^ 24"
  then have "int n \<le> 2 ^ 24" by (metis of_nat_le_iff of_nat_numeral of_nat_power)
  then show ?thesis using False f32_exact [of "int n" "- 1"] by (simp add: power_int_minus field_simps)
qed (simp add: f32_def)

text \<open>The relative error is at most \<open>2 ^ -24\<close>.\<close>

lemma f32_error:
  assumes "2 powi (- 126) \<le> x"
  shows "\<bar>f32 x - x\<bar> \<le> x / 2 ^ 24"
proof -
  have pos: "0 < x" using assms powi_positive [of "- 126"] by linarith
  have "2 powi (- 126) < (2 powi (f32_exponent x + 1) :: rat)" using assms exponent_bounds(2) [OF pos] by (rule order.strict_trans1)
  then have "f32_ulp x = 2 powi (f32_exponent x - 23)" unfolding powi_less by (simp add: f32_ulp_def max_def)
  then have u: "f32_ulp x * 2 ^ 23 = 2 powi f32_exponent x" by (simp add: power_int_diff)
  have up: "0 < f32_ulp x" by (simp add: f32_ulp_def)
  have "f32 x - x = (of_int (round_even (x / f32_ulp x)) - x / f32_ulp x) * f32_ulp x"
    using pos up by (simp add: f32_def algebra_simps)
  then have "\<bar>f32 x - x\<bar> = \<bar>of_int (round_even (x / f32_ulp x)) - x / f32_ulp x\<bar> * f32_ulp x"
    using up by (simp add: abs_mult)
  also have "\<dots> \<le> 1 / 2 * f32_ulp x"
    using round_even_error up by (intro mult_right_mono) simp_all
  also have "\<dots> = 2 powi f32_exponent x / 2 ^ 24" by (simp flip: u)
  also have "\<dots> \<le> x / 2 ^ 24" using exponent_bounds(1) [OF pos] by (intro divide_right_mono) simp_all
  finally show ?thesis .
qed

lemma f32_le: "2 powi (- 126) \<le> x \<Longrightarrow> f32 x \<le> x * (1 + 1 / 2 ^ 24)"
  using f32_error [of x] abs_le_D1 [of "f32 x - x" "x / 2 ^ 24"] by (simp add: distrib_left)

lemma f32_nonneg: "0 \<le> f32 x"
proof (cases "0 < x")
  case True
  then show ?thesis using f32_form by fastforce
qed (simp add: f32_def)

lemma clamped_Some: "clamped lo hi x = Some y \<Longrightarrow> lo \<le> y \<and> y \<le> hi"
  by (auto simp: clamped_def split: if_splits)

lemma clamped_ok: "lo \<le> hi \<Longrightarrow> clamped lo hi x = Some (max lo (min hi x))"
  by (auto simp: clamped_def max_def min_def)

end
