(* ===== verification/Video_QoS.thy ===== *)
theory Video_QoS
  imports Float32
begin

text \<open>
  Quality of the video service (\<open>src/server/video_qos.rs\<close>, with \<open>Quality\<close> of \<open>libs/scrap/src/common/codec.rs\<close> and
  \<open>check_qos\<close> of \<open>src/server/video_service.rs\<close>): the frame rate and the bitrate ratio all viewers share, as they follow
  the wishes of the users and the delay of their networks.

  \<open>video_qos\<close> is the struct \<open>VideoQoS\<close>.  An \<open>Instant\<close> is a number of milliseconds, the current one an argument; the
  option \<open>enable-abr\<close> is read where the code reads it.  \<open>clamp\<close> aborts when its bounds are crossed, so an operation
  that clamps gives an option.
\<close>

definition FPS :: u32 where "FPS = 30"
definition MIN_FPS :: u32 where "MIN_FPS = 1"
definition MAX_FPS :: u32 where "MAX_FPS = 120"
definition INIT_FPS :: u32 where "INIT_FPS = 15"
definition BR_MAX :: rat where "BR_MAX = 40"
definition BR_MIN :: rat where "BR_MIN = f32 (2 / 10)"
definition BR_MIN_HIGH_RESOLUTION :: rat where "BR_MIN_HIGH_RESOLUTION = f32 (1 / 10)"
definition MAX_BR_MULTIPLE :: rat where "MAX_BR_MULTIPLE = 1"
definition BR_BEST :: rat where "BR_BEST = f32 (15 / 10)"
definition BR_BALANCED :: rat where "BR_BALANCED = f32 (67 / 100)"
definition BR_SPEED :: rat where "BR_SPEED = f32 (5 / 10)"
definition HISTORY_DELAY_LEN :: nat where "HISTORY_DELAY_LEN = 2"
definition ADJUST_RATIO_INTERVAL :: nat where "ADJUST_RATIO_INTERVAL = 3"
definition DYNAMIC_SCREEN_THRESHOLD :: nat where "DYNAMIC_SCREEN_THRESHOLD = 2"
definition DELAY_THRESHOLD_150MS :: u32 where "DELAY_THRESHOLD_150MS = 150"
definition WINDOW_SAMPLES :: nat where "WINDOW_SAMPLES = 60"
definition MIN_SAMPLES :: nat where "MIN_SAMPLES = 10"
definition ALPHA :: rat where "ALPHA = 5 / 10"

section \<open>Round trips\<close>

record rtt_calculator =
  min_rtt :: "u32 option"
  window_min_rtt :: "u32 option"
  smoothed_rtt :: "u32 option"
  samples :: "u32 list"

definition rtt_update :: "u32 \<Rightarrow> rtt_calculator \<Rightarrow> rtt_calculator" where
  "rtt_update delay r =
     (let m = (case min_rtt r of Some m \<Rightarrow> if delay < m then delay else m | None \<Rightarrow> delay);
          window = (if WINDOW_SAMPLES \<le> length (samples r) then tl (samples r) else samples r) @ [delay];
          wmin = Min (set window)
      in r\<lparr>min_rtt := Some m, samples := window, window_min_rtt := Some wmin,
           smoothed_rtt :=
             (if WINDOW_SAMPLES \<le> length window
              then Some (f32_to_u32 (f32 (f32 (f32 (1 - ALPHA) * u32_to_f32 m) + f32 (ALPHA * u32_to_f32 wmin))))
              else smoothed_rtt r)\<rparr>)"

definition get_rtt :: "rtt_calculator \<Rightarrow> u32 option" where
  "get_rtt r =
     (case smoothed_rtt r of
        Some rtt \<Rightarrow> Some rtt
      | None \<Rightarrow> if MIN_SAMPLES \<le> length (samples r) then min_rtt r else None)"

record user_delay =
  response_delayed :: bool
  delay_history :: "u32 list"
  delay_fps :: "u32 option"
  rtt_calc :: rtt_calculator
  quick_increase_fps_count :: u64
  increase_fps_count :: u64

definition user_delay_default :: user_delay where
  "user_delay_default =
     \<lparr>response_delayed = False, delay_history = [], delay_fps = None,
      rtt_calc = \<lparr>min_rtt = None, window_min_rtt = None, smoothed_rtt = None, samples = []\<rparr>,
      quick_increase_fps_count = 0, increase_fps_count = 0\<rparr>"

definition add_delay :: "u32 \<Rightarrow> user_delay \<Rightarrow> user_delay" where
  "add_delay delay d =
     d\<lparr>rtt_calc := rtt_update delay (rtt_calc d),
       delay_history := (if HISTORY_DELAY_LEN < length (delay_history d) then tl (delay_history d) else delay_history d) @ [delay]\<rparr>"

definition avg_delay :: "user_delay \<Rightarrow> u32" where
  "avg_delay d =
     (if delay_history d = [] then DELAY_THRESHOLD_150MS
      else let avg = sum_list (delay_history d) div of_nat (length (delay_history d)) in
        case get_rtt (rtt_calc d) of
          Some rtt \<Rightarrow> if rtt < avg then avg - rtt else avg
        | None \<Rightarrow> avg)"

section \<open>State\<close>

datatype quality = Best | Balanced | Low | Custom rat

definition quality_ratio :: "quality \<Rightarrow> rat" where
  "quality_ratio q = (case q of Best \<Rightarrow> BR_BEST | Balanced \<Rightarrow> BR_BALANCED | Low \<Rightarrow> BR_SPEED | Custom v \<Rightarrow> v)"

definition is_custom :: "quality \<Rightarrow> bool" where
  "is_custom q = (case q of Custom v \<Rightarrow> True | _ \<Rightarrow> False)"

record user_data =
  auto_adjust_fps :: "u32 option"
  custom_fps :: "u32 option"
  ud_quality :: "(int \<times> quality) option"
  ud_delay :: user_delay
  ud_record :: bool

definition user_data_default :: user_data where
  "user_data_default =
     \<lparr>auto_adjust_fps = None, custom_fps = None, ud_quality = None, ud_delay = user_delay_default, ud_record = False\<rparr>"

record display_data =
  send_counter :: u64
  support_changing_quality :: bool

record video_qos =
  q_fps :: u32
  q_ratio :: rat
  q_users :: "(i32, user_data) hmap"
  q_displays :: "(string, display_data) hmap"
  bitrate_store :: u32
  adjust_ratio_instant :: nat
  abr_config :: bool
  new_user_instant :: nat

definition video_qos_default :: "nat \<Rightarrow> video_qos" where
  "video_qos_default now =
     \<lparr>q_fps = FPS, q_ratio = BR_BALANCED, q_users = [], q_displays = [], bitrate_store = 0,
      adjust_ratio_instant = now, abr_config = True, new_user_instant = now\<rparr>"

text \<open>\<open>get_mut\<close>: a value is changed in its place.\<close>

definition hm_change :: "'k \<Rightarrow> ('v \<Rightarrow> 'v) \<Rightarrow> ('k, 'v) hmap \<Rightarrow> ('k, 'v) hmap" where
  "hm_change k f m = List.map (\<lambda>(k', v). (k', if k' = k then f v else v)) m"

definition elapsed_secs :: "nat \<Rightarrow> nat \<Rightarrow> nat" where
  "elapsed_secs now since = (now - since) div 1000"

section \<open>Reading\<close>

definition qos_fps :: "video_qos \<Rightarrow> u32" where
  "qos_fps q = (if MIN_FPS \<le> q_fps q \<and> q_fps q \<le> MAX_FPS then q_fps q else FPS)"

text \<open>Seconds per frame; the code rounds them to nanoseconds.\<close>

definition spf :: "video_qos \<Rightarrow> rat" where
  "spf q = f32 (1 / u32_to_f32 (qos_fps q))"

definition qos_ratio :: "video_qos \<Rightarrow> rat \<times> video_qos" where
  "qos_ratio q =
     (let q = (if q_ratio q < BR_MIN_HIGH_RESOLUTION \<or> BR_MAX < q_ratio q then q\<lparr>q_ratio := BR_BALANCED\<rparr> else q)
      in (q_ratio q, q))"

definition qos_record :: "video_qos \<Rightarrow> bool" where
  "qos_record q = list_ex (\<lambda>(i, u). ud_record u) (q_users q)"

definition in_vbr_state :: "video_qos \<Rightarrow> bool" where
  "in_vbr_state q = (abr_config q \<and> list_all (\<lambda>(n, d). support_changing_quality d) (q_displays q))"

definition user_fps :: "user_data \<Rightarrow> u32" where
  "user_fps u =
     (let fps = (case custom_fps u of Some f \<Rightarrow> f | None \<Rightarrow> FPS) in
      case auto_adjust_fps u of
        Some a \<Rightarrow> if fps = 0 \<or> a < fps then a else fps
      | None \<Rightarrow> fps)"

text \<open>The bounds of this clamp are constants, in order.\<close>

definition highest_fps :: "video_qos \<Rightarrow> u32" where
  "highest_fps q =
     (let rates = filter (\<lambda>f. MIN_FPS \<le> f) (List.map (\<lambda>(i, u). user_fps u) (q_users q))
      in max MIN_FPS (min MAX_FPS (if rates = [] then FPS else Min (set rates))))"

text \<open>\<open>max_by\<close> takes the last of several greatest elements.\<close>

definition latest_quality :: "video_qos \<Rightarrow> quality" where
  "latest_quality q =
     (case fold (\<lambda>(i, u) best.
              case (ud_quality u, best) of
                (None, _) \<Rightarrow> best
              | (Some (t, k), None) \<Rightarrow> Some (t, k)
              | (Some (t, k), Some (t', k')) \<Rightarrow> if t < t' then best else Some (t, k))
            (q_users q) None of
        None \<Rightarrow> Balanced
      | Some (t, k) \<Rightarrow> k)"

section \<open>Adjusting\<close>

definition adjust_fps :: "nat \<Rightarrow> video_qos \<Rightarrow> video_qos option" where
  "adjust_fps now q =
     (let rates = List.map (\<lambda>(i, u). case delay_fps (ud_delay u) of Some f \<Rightarrow> f | None \<Rightarrow> INIT_FPS) (q_users q);
          fps = (if rates = [] then INIT_FPS else Min (set rates));
          fps = (if list_ex (\<lambda>(i, u). response_delayed (ud_delay u)) (q_users q) \<and> MIN_FPS + 1 < fps then MIN_FPS + 1 else fps);
          fps = (if elapsed_secs now (new_user_instant q) < 1 \<and> INIT_FPS < fps then INIT_FPS else fps)
      in map_option (\<lambda>f. q\<lparr>q_fps := f\<rparr>) (clamped MIN_FPS (highest_fps q) fps))"

text \<open>The lower end of the ratio for the quality that is wanted.\<close>

definition min_ratio :: "quality \<Rightarrow> rat \<Rightarrow> u32 \<Rightarrow> rat" where
  "min_ratio target_quality current_ratio current_bitrate =
     (let ratio_1mbps = (if 0 < current_bitrate
            then Some (max (f32 (f32 (current_ratio * 1000) / u32_to_f32 current_bitrate)) BR_MIN_HIGH_RESOLUTION) else None);
          lowered = (\<lambda>m. case ratio_1mbps of Some r \<Rightarrow> if r < m then r else m | None \<Rightarrow> m)
      in case target_quality of
           Best \<Rightarrow> max (lowered (f32 (BR_BEST / f32 (25 / 10)))) BR_MIN
         | Balanced \<Rightarrow> max (lowered (min (f32 (BR_BALANCED / 2)) (f32 (4 / 10)))) BR_MIN_HIGH_RESOLUTION
         | Low \<Rightarrow> BR_MIN_HIGH_RESOLUTION
         | Custom v \<Rightarrow> BR_MIN_HIGH_RESOLUTION)"

definition wanted_ratio :: "u32 \<Rightarrow> bool \<Rightarrow> rat \<Rightarrow> u32 \<Rightarrow> rat" where
  "wanted_ratio max_delay dynamic_screen current_ratio current_bitrate =
     (let v = (if max_delay < 50 then if dynamic_screen then f32 (current_ratio * f32 (115 / 100)) else current_ratio
               else if max_delay < 100 then if dynamic_screen then f32 (current_ratio * f32 (11 / 10)) else current_ratio
               else if max_delay < DELAY_THRESHOLD_150MS then if dynamic_screen then f32 (current_ratio * f32 (105 / 100)) else current_ratio
               else if max_delay < 200 then f32 (current_ratio * f32 (95 / 100))
               else if max_delay < 300 then f32 (current_ratio * f32 (9 / 10))
               else if max_delay < 500 then f32 (current_ratio * f32 (85 / 100))
               else f32 (current_ratio * f32 (8 / 10)));
          add_150kbps = f32 (f32 (u32_to_f32 (current_bitrate + 150) * current_ratio) / u32_to_f32 current_bitrate)
      in if 0 < current_bitrate \<and> add_150kbps < v \<and> current_ratio < add_150kbps \<and> BR_SPEED \<le> current_ratio
         then add_150kbps else v)"

definition adjust_ratio :: "nat \<Rightarrow> bool \<Rightarrow> video_qos \<Rightarrow> video_qos option" where
  "adjust_ratio now dynamic_screen q =
     (if \<not> in_vbr_state q \<or> q_users q = [] then Some q
      else let max_delay = Max (set (List.map (\<lambda>(i, u). avg_delay (ud_delay u)) (q_users q)));
               target_quality = latest_quality q;
               v = wanted_ratio max_delay dynamic_screen (q_ratio q) (bitrate_store q)
           in map_option (\<lambda>r. q\<lparr>q_ratio := r, adjust_ratio_instant := now\<rparr>)
                (clamped (min_ratio target_quality (q_ratio q) (bitrate_store q))
                   (f32 (quality_ratio target_quality * MAX_BR_MULTIPLE)) v))"

section \<open>Operations\<close>

definition on_connection_open :: "nat \<Rightarrow> bool \<Rightarrow> i32 \<Rightarrow> video_qos \<Rightarrow> video_qos" where
  "on_connection_open now enable_abr i q =
     q\<lparr>q_users := hm_put i user_data_default (q_users q), abr_config := enable_abr, new_user_instant := now\<rparr>"

definition on_connection_close :: "nat \<Rightarrow> i32 \<Rightarrow> video_qos \<Rightarrow> video_qos" where
  "on_connection_close now i q =
     (let q = q\<lparr>q_users := hm_del i (q_users q)\<rparr> in if q_users q = [] then video_qos_default now else q)"

definition user_custom_fps :: "i32 \<Rightarrow> u32 \<Rightarrow> video_qos \<Rightarrow> video_qos" where
  "user_custom_fps i fps q =
     (if fps < MIN_FPS \<or> MAX_FPS < fps then q else q\<lparr>q_users := hm_change i (\<lambda>u. u\<lparr>custom_fps := Some fps\<rparr>) (q_users q)\<rparr>)"

definition user_auto_adjust_fps :: "i32 \<Rightarrow> u32 \<Rightarrow> video_qos \<Rightarrow> video_qos" where
  "user_auto_adjust_fps i fps q =
     (if fps < MIN_FPS \<or> MAX_FPS < fps then q else q\<lparr>q_users := hm_change i (\<lambda>u. u\<lparr>auto_adjust_fps := Some fps\<rparr>) (q_users q)\<rparr>)"

text \<open>The values of \<open>ImageQuality\<close>: low 2, balanced 3, best 4.  \<open>>>\<close> keeps the sign, the mask drops it.\<close>

definition convert_quality :: "i32 \<Rightarrow> quality" where
  "convert_quality v =
     (if v = 3 then Balanced else if v = 2 then Low else if v = 4 then Best
      else Custom (max BR_MIN (min BR_MAX (f32 (u32_to_f32 ((signed_drop_bit 8 v AND 0xFFF) * 2) / 100)))))"

definition user_image_quality :: "int \<Rightarrow> i32 \<Rightarrow> i32 \<Rightarrow> video_qos \<Rightarrow> video_qos" where
  "user_image_quality time i v q =
     (if hm_get (q_users q) i = None then q
      else let q = q\<lparr>q_users := hm_change i (\<lambda>u. u\<lparr>ud_quality := Some (time, convert_quality v)\<rparr>) (q_users q)\<rparr>
           in q\<lparr>q_ratio := quality_ratio (latest_quality q)\<rparr>)"

definition user_record :: "i32 \<Rightarrow> bool \<Rightarrow> video_qos \<Rightarrow> video_qos" where
  "user_record i v q = q\<lparr>q_users := hm_change i (\<lambda>u. u\<lparr>ud_record := v\<rparr>) (q_users q)\<rparr>"

text \<open>The frame rate for a delay, and the counter of good samples.\<close>

definition rate_for_delay :: "u32 \<Rightarrow> u32 \<Rightarrow> u32 \<Rightarrow> u32 \<Rightarrow> u32 \<Rightarrow> u64 \<Rightarrow> u32 \<times> u64" where
  "rate_for_delay min_fps normal_fps fps old_avg avg quick =
     (let slow_start = (if fps < normal_fps then 1 else 0);
          divide_fps = ceil_to_u32 (f32 (u32_to_f32 fps / f32 (u32_to_f32 avg / u32_to_f32 DELAY_THRESHOLD_150MS)));
          dividend_ms = DELAY_THRESHOLD_150MS * min_fps
      in if avg < 50
         then let quick = quick + 1 in
           if 3 \<le> quick then (max min_fps (fps + 5), 0) else (max min_fps (fps + slow_start), quick)
         else if avg < 100 then (max min_fps (fps + (if avg < old_avg then slow_start else 0)), quick)
         else if avg < DELAY_THRESHOLD_150MS then (max min_fps fps, quick)
         else if avg < 200 then (max min_fps divide_fps, quick)
         else if avg < 300 then (min min_fps divide_fps, quick)
         else if avg < 600 then (dividend_ms div avg, quick)
         else (min (dividend_ms div avg) divide_fps, quick))"

definition rate_bounds :: "rat \<Rightarrow> u32 \<times> u32" where
  "rate_bounds target_ratio = (if BR_BEST \<le> target_ratio then (8, 16) else if BR_BALANCED \<le> target_ratio then (10, 20) else (12, 24))"

text \<open>What a delay does to the data of its user, given the frame rate of all and the highest they may have.\<close>

definition delayed_user :: "rat \<Rightarrow> u32 \<Rightarrow> u32 \<Rightarrow> u32 \<Rightarrow> user_delay \<Rightarrow> user_delay option" where
  "delayed_user target_ratio highest fps delay d0 =
     (case rate_bounds target_ratio of (min_fps, normal_fps) \<Rightarrow>
        let d = add_delay (max 10 delay) d0; avg = max 10 (avg_delay d) in
        case rate_for_delay min_fps normal_fps fps (avg_delay d0) avg (quick_increase_fps_count d) of
          (fps, quick) \<Rightarrow>
            let inc = (if avg < DELAY_THRESHOLD_150MS then increase_fps_count d + 1 else 0);
                fps = (if 3 \<le> inc then fps + 1 else fps);
                inc = (if 3 \<le> inc then 0 else inc);
                quick = (if 50 < avg then 0 else quick)
            in map_option (\<lambda>f. d\<lparr>quick_increase_fps_count := quick, increase_fps_count := inc, delay_fps := Some f\<rparr>)
                 (clamped MIN_FPS highest fps))"

definition user_network_delay :: "nat \<Rightarrow> i32 \<Rightarrow> u32 \<Rightarrow> video_qos \<Rightarrow> video_qos option" where
  "user_network_delay now i delay q =
     (case hm_get (q_users q) i of
        None \<Rightarrow> adjust_fps now q
      | Some u \<Rightarrow>
          Option.bind (delayed_user (quality_ratio (latest_quality q)) (highest_fps q) (q_fps q) delay (ud_delay u)) (\<lambda>d.
          Option.bind (adjust_fps now (q\<lparr>q_users := hm_change i (\<lambda>u. u\<lparr>ud_delay := d\<rparr>) (q_users q)\<rparr>)) (\<lambda>q.
            if delay_fps (ud_delay u) = None then adjust_ratio now False q else Some q)))"

definition user_delay_response_elapsed :: "nat \<Rightarrow> i32 \<Rightarrow> u128 \<Rightarrow> video_qos \<Rightarrow> video_qos option" where
  "user_delay_response_elapsed now i elapsed q =
     (if hm_get (q_users q) i = None then Some q
      else let late = 2000 < elapsed;
               q = q\<lparr>q_users := hm_change i (\<lambda>u.
                      let d = (ud_delay u)\<lparr>response_delayed := late\<rparr>
                      in u\<lparr>ud_delay := (if late then add_delay (ucast elapsed) d else d)\<rparr>) (q_users q)\<rparr>
           in if late then adjust_fps now q else Some q)"

definition new_display :: "string \<Rightarrow> video_qos \<Rightarrow> video_qos" where
  "new_display name q = q\<lparr>q_displays := hm_put name \<lparr>send_counter = 0, support_changing_quality = False\<rparr> (q_displays q)\<rparr>"

definition remove_display :: "string \<Rightarrow> video_qos \<Rightarrow> video_qos" where
  "remove_display name q = q\<lparr>q_displays := hm_del name (q_displays q)\<rparr>"

definition set_support_changing_quality :: "string \<Rightarrow> bool \<Rightarrow> video_qos \<Rightarrow> video_qos" where
  "set_support_changing_quality name support q =
     q\<lparr>q_displays := hm_change name (\<lambda>d. d\<lparr>support_changing_quality := support\<rparr>) (q_displays q)\<rparr>"

definition store_bitrate :: "u32 \<Rightarrow> video_qos \<Rightarrow> video_qos" where
  "store_bitrate b q = q\<lparr>bitrate_store := b\<rparr>"

definition update_display_data :: "nat \<Rightarrow> string \<Rightarrow> u64 \<Rightarrow> video_qos \<Rightarrow> video_qos option" where
  "update_display_data now name sent q0 =
     Option.bind (adjust_fps now (q0\<lparr>q_displays := hm_change name (\<lambda>d. d\<lparr>send_counter := send_counter d + sent\<rparr>) (q_displays q0)\<rparr>)) (\<lambda>q.
       if in_vbr_state q
       then if ADJUST_RATIO_INTERVAL \<le> elapsed_secs now (adjust_ratio_instant q)
            then let dynamic_screen = list_ex (\<lambda>(n, d). of_nat (ADJUST_RATIO_INTERVAL * DYNAMIC_SCREEN_THRESHOLD) \<le> send_counter d) (q_displays q)
                 in adjust_ratio now dynamic_screen (q\<lparr>q_displays := List.map (\<lambda>(n, d). (n, d\<lparr>send_counter := 0\<rparr>)) (q_displays q)\<rparr>)
            else Some q
       else Some (q\<lparr>q_ratio := quality_ratio (latest_quality q)\<rparr>))"

text \<open>What the loop of the video service keeps between two frames, and \<open>check_qos\<close> before each of them: the new bitrate is
  what the encoder answers after \<open>set_quality\<close>; the answer says whether the service restarts (\<open>SWITCH\<close>) and which
  quality the encoder was given.\<close>

record qos_loop =
  lp_ratio :: rat
  lp_spf :: rat
  lp_client_record :: bool
  lp_send_counter :: u64
  lp_second :: nat

definition check_qos :: "nat \<Rightarrow> bool \<Rightarrow> u32 \<Rightarrow> string \<Rightarrow> qos_loop \<Rightarrow> video_qos
    \<Rightarrow> ((bool \<times> rat option) \<times> qos_loop \<times> video_qos) option" where
  "check_qos now changeable new_bitrate name lp q0 =
     (case qos_ratio q0 of
        (r, q) \<Rightarrow>
          let changed = (lp_ratio lp \<noteq> r);
              lp = lp\<lparr>lp_spf := spf q0, lp_ratio := r\<rparr>;
              given = (if changed \<and> changeable then Some r else None);
              q = (if changed \<and> changeable then store_bitrate new_bitrate q else q)
          in if changed \<and> \<not> changeable \<and> \<not> in_vbr_state q \<and> \<not> is_custom (latest_quality q) then Some ((True, given), lp, q)
             else if lp_client_record lp \<noteq> qos_record q then Some ((True, given), lp, q)
             else if 1000 < now - lp_second lp
                  then map_option (\<lambda>q. ((False, given), lp\<lparr>lp_second := now, lp_send_counter := 0\<rparr>, q))
                         (update_display_data now name (lp_send_counter lp) q)
                  else Some ((False, given), lp, q))"

section \<open>Runs\<close>

datatype qos_event =
    Connection_Open bool i32 | Connection_Close i32 | Custom_Fps i32 u32 | Auto_Adjust_Fps i32 u32
  | Image_Quality int i32 i32 | User_Record i32 bool | Network_Delay i32 u32 | Response_Elapsed i32 u128
  | New_Display string | Remove_Display string | Set_Support string bool | Store_Bitrate u32
  | Check_Qos bool u32 string qos_loop | Read_Ratio

definition qos_step :: "nat \<Rightarrow> qos_event \<Rightarrow> video_qos \<Rightarrow> video_qos option" where
  "qos_step now e q =
     (case e of
        Connection_Open abr i \<Rightarrow> Some (on_connection_open now abr i q)
      | Connection_Close i \<Rightarrow> Some (on_connection_close now i q)
      | Custom_Fps i f \<Rightarrow> Some (user_custom_fps i f q)
      | Auto_Adjust_Fps i f \<Rightarrow> Some (user_auto_adjust_fps i f q)
      | Image_Quality t i v \<Rightarrow> Some (user_image_quality t i v q)
      | User_Record i b \<Rightarrow> Some (user_record i b q)
      | Network_Delay i d \<Rightarrow> user_network_delay now i d q
      | Response_Elapsed i t \<Rightarrow> user_delay_response_elapsed now i t q
      | New_Display n \<Rightarrow> Some (new_display n q)
      | Remove_Display n \<Rightarrow> Some (remove_display n q)
      | Set_Support n b \<Rightarrow> Some (set_support_changing_quality n b q)
      | Store_Bitrate b \<Rightarrow> Some (store_bitrate b q)
      | Check_Qos c b n lp \<Rightarrow> map_option (\<lambda>(_, _, q). q) (check_qos now c b n lp q)
      | Read_Ratio \<Rightarrow> Some (snd (qos_ratio q)))"

fun qos_run :: "(nat \<times> qos_event) list \<Rightarrow> video_qos \<Rightarrow> video_qos option" where
  "qos_run [] q = Some q"
| "qos_run ((now, e) # es) q = Option.bind (qos_step now e q) (qos_run es)"

section \<open>The invariant\<close>

lemma ratio_values:
  "f32 (1 / 10) = 13421773 / 134217728" "f32 (1 / 5) = 13421773 / 67108864" "f32 (3 / 2) = 3 / 2"
  "f32 (67 / 100) = 11240735 / 16777216" "f32 (1 / 2) = 1 / 2" "f32 (2 / 5) = 13421773 / 33554432" "f32 (5 / 2) = 5 / 2"
  "f32 (3 / 5) = 10066330 / 16777216" "f32 (11240735 / 33554432) = 11240735 / 33554432" "f32 (19 / 20) = 15938355 / 16777216"
  by code_simp+

lemmas ratio_defs = BR_MAX_def BR_MIN_def BR_MIN_HIGH_RESOLUTION_def BR_BEST_def BR_BALANCED_def BR_SPEED_def ratio_values

definition quality_ok :: "quality \<Rightarrow> bool" where
  "quality_ok k = (case k of Custom v \<Rightarrow> BR_MIN \<le> v \<and> v \<le> BR_MAX \<and> f32 v = v | _ \<Rightarrow> True)"

definition fps_ok :: "u32 \<Rightarrow> bool" where
  "fps_ok f \<longleftrightarrow> MIN_FPS \<le> f \<and> f \<le> MAX_FPS"

definition user_ok :: "user_data \<Rightarrow> bool" where
  "user_ok u \<longleftrightarrow>
     pred_option fps_ok (custom_fps u) \<and> pred_option fps_ok (auto_adjust_fps u) \<and> pred_option (\<lambda>(t, k). quality_ok k) (ud_quality u)
     \<and> pred_option fps_ok (delay_fps (ud_delay u)) \<and> length (delay_history (ud_delay u)) \<le> HISTORY_DELAY_LEN + 1
     \<and> length (samples (rtt_calc (ud_delay u))) \<le> WINDOW_SAMPLES"

definition qos_ok :: "video_qos \<Rightarrow> bool" where
  "qos_ok q \<longleftrightarrow> fps_ok (q_fps q) \<and> BR_MIN_HIGH_RESOLUTION \<le> q_ratio q \<and> q_ratio q \<le> BR_MAX \<and> list_all (\<lambda>(i, u). user_ok u) (q_users q)"

lemma highest_fps_ok: "fps_ok (highest_fps q)"
  by (auto simp: highest_fps_def fps_ok_def MIN_FPS_def MAX_FPS_def Let_def max_def min_def)

lemma quality_ratio_ok:
  "quality_ok k \<Longrightarrow> BR_MIN \<le> quality_ratio k \<and> quality_ratio k \<le> BR_MAX \<and> f32 (quality_ratio k * MAX_BR_MULTIPLE) = quality_ratio k"
  by (cases k) (simp_all add: quality_ok_def quality_ratio_def ratio_defs MAX_BR_MULTIPLE_def, code_simp+)

lemma convert_quality_ok: "quality_ok (convert_quality v)"
proof -
  have m: "BR_MIN \<le> BR_MAX" "f32 BR_MAX = BR_MAX" "f32 BR_MIN = BR_MIN" by code_simp+
  have "BR_MIN \<le> max BR_MIN (min BR_MAX x) \<and> max BR_MIN (min BR_MAX x) \<le> BR_MAX \<and> f32 (max BR_MIN (min BR_MAX x)) = max BR_MIN (min BR_MAX x)"
    if "f32 x = x" for x using that m by (auto simp: max_def min_def)
  then show ?thesis using m by (simp add: convert_quality_def quality_ok_def)
qed

lemma clamped_fps: "clamped MIN_FPS (highest_fps q) f = Some (max MIN_FPS (min (highest_fps q) f))"
  using highest_fps_ok [of q] by (intro clamped_ok) (simp add: fps_ok_def)

lemma clamp_fps_ok: "fps_ok (max MIN_FPS (min (highest_fps q) f))" "max MIN_FPS (min (highest_fps q) f) \<le> highest_fps q"
  using highest_fps_ok [of q] by (auto simp: fps_ok_def max_def min_def)

lemma adjust_fps_Some:
  "\<exists>f. adjust_fps now q = Some (q\<lparr>q_fps := f\<rparr>) \<and> fps_ok f \<and> f \<le> highest_fps q"
  unfolding adjust_fps_def Let_def clamped_fps option.map using clamp_fps_ok by blast

lemma min_ratio_bounds:
  assumes "quality_ok k"
  shows "BR_MIN_HIGH_RESOLUTION \<le> min_ratio k r b \<and> min_ratio k r b \<le> quality_ratio k"
proof -
  have low: "(if y < m then y else m) \<le> m" "BR_MIN_HIGH_RESOLUTION \<le> (if y < m then y else m)"
    if "BR_MIN_HIGH_RESOLUTION \<le> y" "BR_MIN_HIGH_RESOLUTION \<le> m" for y m :: rat using that by auto
  show ?thesis
  proof (cases k)
    case (Custom v)
    then show ?thesis using assms by (simp add: quality_ok_def min_ratio_def quality_ratio_def ratio_defs Let_def)
  qed (auto simp: min_ratio_def quality_ratio_def ratio_defs Let_def max_def min_def)
qed

lemma latest_quality_ok:
  assumes "list_all (\<lambda>(i, u). user_ok u) (q_users q)"
  shows "quality_ok (latest_quality q)"
proof -
  define step :: "i32 \<times> user_data \<Rightarrow> (int \<times> quality) option \<Rightarrow> (int \<times> quality) option" where
    "step = (\<lambda>(i, u) best. case (ud_quality u, best) of
                (None, _) \<Rightarrow> best
              | (Some (t, k), None) \<Rightarrow> Some (t, k)
              | (Some (t, k), Some (t', k')) \<Rightarrow> if t < t' then best else Some (t, k))"
  have st: "pred_option (\<lambda>(t, k). quality_ok k) (step (i, u) best)"
    if "user_ok u" "pred_option (\<lambda>(t, k). quality_ok k) best" for i u best
    using that by (auto simp: step_def user_ok_def split: option.splits)
  have "list_all (\<lambda>(i, u). user_ok u) us \<Longrightarrow> pred_option (\<lambda>(t, k). quality_ok k) best
    \<Longrightarrow> pred_option (\<lambda>(t, k). quality_ok k) (fold step us best)" for us best
    by (induction us arbitrary: best) (auto intro!: st)
  from this [OF assms, of None] show ?thesis
    by (auto simp: latest_quality_def step_def quality_ok_def [of Balanced] split: option.splits)
qed

lemma adjust_ratio_Some:
  assumes "qos_ok q"
  shows "\<exists>r t. adjust_ratio now dyn q = Some (q\<lparr>q_ratio := r, adjust_ratio_instant := t\<rparr>)
    \<and> BR_MIN_HIGH_RESOLUTION \<le> r \<and> r \<le> BR_MAX"
proof -
  have k: "quality_ok (latest_quality q)" using assms by (intro latest_quality_ok) (simp add: qos_ok_def)
  let ?m = "min_ratio (latest_quality q) (q_ratio q) (bitrate_store q)" and ?t = "quality_ratio (latest_quality q)"
  have b: "BR_MIN_HIGH_RESOLUTION \<le> ?m" "?m \<le> ?t" "?t \<le> BR_MAX" "f32 (?t * MAX_BR_MULTIPLE) = ?t"
    using min_ratio_bounds [OF k] quality_ratio_ok [OF k] by simp_all
  have c: "clamped ?m ?t v = Some (max ?m (min ?t v))" for v using b(2) by (rule clamped_ok)
  have "BR_MIN_HIGH_RESOLUTION \<le> max ?m (min ?t v)" "max ?m (min ?t v) \<le> BR_MAX" for v
    using b by (auto simp: max_def min_def)
  moreover have "\<exists>r t. q = q\<lparr>q_ratio := r, adjust_ratio_instant := t\<rparr> \<and> BR_MIN_HIGH_RESOLUTION \<le> r \<and> r \<le> BR_MAX"
    using assms by (intro exI [of _ "q_ratio q"] exI [of _ "adjust_ratio_instant q"]) (simp add: qos_ok_def)
  ultimately show ?thesis by (cases "\<not> in_vbr_state q \<or> q_users q = []") (auto simp: adjust_ratio_def Let_def b(4) c)
qed

lemma qos_okI:
  "fps_ok (q_fps q) \<Longrightarrow> BR_MIN_HIGH_RESOLUTION \<le> q_ratio q \<Longrightarrow> q_ratio q \<le> BR_MAX \<Longrightarrow> list_all (\<lambda>(i, u). user_ok u) (q_users q)
   \<Longrightarrow> qos_ok q"
  by (simp add: qos_ok_def)

lemma users_change:
  "list_all (\<lambda>(i, u). user_ok u) us \<Longrightarrow> (\<And>u. user_ok u \<Longrightarrow> user_ok (f u)) \<Longrightarrow> list_all (\<lambda>(i, u). user_ok u) (hm_change i f us)"
  by (auto simp: hm_change_def list_all_iff)

lemma qos_ok_users:
  "qos_ok q \<Longrightarrow> (\<And>u. user_ok u \<Longrightarrow> user_ok (f u)) \<Longrightarrow> qos_ok (q\<lparr>q_users := hm_change i f (q_users q)\<rparr>)"
  using users_change [of "q_users q" f i] by (simp add: qos_ok_def)

lemma user_found: "list_all (\<lambda>(i, u). user_ok u) us \<Longrightarrow> hm_get us i = Some u \<Longrightarrow> user_ok u"
  by (auto simp: hm_get_def list_all_iff dest!: map_of_SomeD)

lemma quality_ratio_bounds: "quality_ok k \<Longrightarrow> BR_MIN_HIGH_RESOLUTION \<le> quality_ratio k \<and> quality_ratio k \<le> BR_MAX"
  using min_ratio_bounds [of k] quality_ratio_ok [of k] by fastforce

lemma add_delay_lengths:
  "length (delay_history d) \<le> HISTORY_DELAY_LEN + 1 \<Longrightarrow> length (delay_history (add_delay x d)) \<le> HISTORY_DELAY_LEN + 1"
  "length (samples (rtt_calc d)) \<le> WINDOW_SAMPLES \<Longrightarrow> length (samples (rtt_calc (add_delay x d))) \<le> WINDOW_SAMPLES"
  by (auto simp: add_delay_def rtt_update_def Let_def HISTORY_DELAY_LEN_def WINDOW_SAMPLES_def)

lemma delayed_user_Some:
  "\<exists>quick inc f. delayed_user t (highest_fps q) fps delay d
     = Some ((add_delay (max 10 delay) d)\<lparr>quick_increase_fps_count := quick, increase_fps_count := inc, delay_fps := Some f\<rparr>)
   \<and> fps_ok f \<and> f \<le> highest_fps q"
proof -
  obtain min_fps normal_fps where b: "rate_bounds t = (min_fps, normal_fps)" by (cases "rate_bounds t")
  let ?d = "add_delay (max 10 delay) d"
  obtain f quick where r: "rate_for_delay min_fps normal_fps fps (avg_delay d) (max 10 (avg_delay ?d)) (quick_increase_fps_count ?d) = (f, quick)"
    by fastforce
  show ?thesis unfolding delayed_user_def b Let_def prod.case r clamped_fps option.map using clamp_fps_ok by blast
qed

lemma network_delay_ok:
  assumes "qos_ok q"
  shows "\<exists>q'. user_network_delay now i delay q = Some q' \<and> qos_ok q'"
proof (cases "hm_get (q_users q) i")
  case None
  from adjust_fps_Some [of now q] obtain f where "adjust_fps now q = Some (q\<lparr>q_fps := f\<rparr>)" "fps_ok f" by blast
  then show ?thesis using assms by (simp add: user_network_delay_def None qos_ok_def)
next
  case (Some u)
  have us: "list_all (\<lambda>(i, u). user_ok u) (q_users q)" using assms by (simp add: qos_ok_def)
  note u = user_found [OF us Some]
  obtain d where d: "delayed_user (quality_ratio (latest_quality q)) (highest_fps q) (q_fps q) delay (ud_delay u) = Some d"
    "pred_option fps_ok (delay_fps d)" "length (delay_history d) \<le> HISTORY_DELAY_LEN + 1" "length (samples (rtt_calc d)) \<le> WINDOW_SAMPLES"
    using delayed_user_Some [of "quality_ratio (latest_quality q)" q "q_fps q" delay "ud_delay u"] add_delay_lengths [of "ud_delay u"] u
    unfolding user_ok_def by fastforce
  define q1 where "q1 = q\<lparr>q_users := hm_change i (\<lambda>u. u\<lparr>ud_delay := d\<rparr>) (q_users q)\<rparr>"
  have q1: "qos_ok q1" using assms d users_change [OF us, of "\<lambda>u. u\<lparr>ud_delay := d\<rparr>" i] by (simp add: q1_def qos_ok_def user_ok_def)
  obtain f where f: "adjust_fps now q1 = Some (q1\<lparr>q_fps := f\<rparr>)" "fps_ok f" using adjust_fps_Some by blast
  have q2: "qos_ok (q1\<lparr>q_fps := f\<rparr>)" using q1 f(2) by (simp add: qos_ok_def)
  from adjust_ratio_Some [OF q2, of now False] obtain r t where
    "adjust_ratio now False (q1\<lparr>q_fps := f\<rparr>) = Some (q1\<lparr>q_fps := f, q_ratio := r, adjust_ratio_instant := t\<rparr>)"
    "BR_MIN_HIGH_RESOLUTION \<le> r" "r \<le> BR_MAX" by auto
  then show ?thesis using q2 by (auto simp: user_network_delay_def Some d(1) q1_def [symmetric] f(1) qos_ok_def)
qed

lemma response_elapsed_ok:
  assumes "qos_ok q"
  shows "\<exists>q'. user_delay_response_elapsed now i t q = Some q' \<and> qos_ok q'"
proof -
  have us: "list_all (\<lambda>(i, u). user_ok u) (q_users q)" using assms by (simp add: qos_ok_def)
  define q1 where "q1 = q\<lparr>q_users := hm_change i (\<lambda>u.
    let d = (ud_delay u)\<lparr>response_delayed := 2000 < t\<rparr> in u\<lparr>ud_delay := (if 2000 < t then add_delay (ucast t) d else d)\<rparr>) (q_users q)\<rparr>"
  have fps: "delay_fps (add_delay x d) = delay_fps d" for x d by (simp add: add_delay_def)
  have "user_ok (u\<lparr>ud_delay := (if late then add_delay (ucast t) (ud_delay u\<lparr>response_delayed := late\<rparr>)
      else ud_delay u\<lparr>response_delayed := late\<rparr>)\<rparr>)" if "user_ok u" for u late
    using that add_delay_lengths [of "ud_delay u\<lparr>response_delayed := late\<rparr>" "ucast t"] by (cases late) (simp_all add: user_ok_def fps)
  then have "qos_ok q1" unfolding q1_def using assms by (simp add: qos_ok_def Let_def users_change [OF us])
  moreover obtain f where "adjust_fps now q1 = Some (q1\<lparr>q_fps := f\<rparr>)" "fps_ok f" using adjust_fps_Some by blast
  moreover have "user_delay_response_elapsed now i t q
      = (if hm_get (q_users q) i = None then Some q else if 2000 < t then adjust_fps now q1 else Some q1)"
    by (simp only: user_delay_response_elapsed_def Let_def q1_def)
  ultimately show ?thesis using assms by (simp add: qos_ok_def [of "q1\<lparr>q_fps := _\<rparr>"]) (simp add: qos_ok_def)
qed

lemma update_display_ok:
  assumes "qos_ok q"
  shows "\<exists>q'. update_display_data now n sent q = Some q' \<and> qos_ok q'"
proof -
  define q1 where "q1 = q\<lparr>q_displays := hm_change n (\<lambda>d. d\<lparr>send_counter := send_counter d + sent\<rparr>) (q_displays q)\<rparr>"
  obtain f where f: "adjust_fps now q1 = Some (q1\<lparr>q_fps := f\<rparr>)" "fps_ok f" using adjust_fps_Some by blast
  define q2 where "q2 = q1\<lparr>q_fps := f\<rparr>"
  have q2: "qos_ok q2" using assms f(2) by (simp add: q2_def q1_def qos_ok_def)
  have "qos_ok (q2\<lparr>q_displays := ds\<rparr>)" for ds using q2 by (simp add: qos_ok_def)
  then have a: "\<exists>q'. adjust_ratio now dyn (q2\<lparr>q_displays := ds\<rparr>) = Some q' \<and> qos_ok q'" for dyn ds
    using adjust_ratio_Some [of "q2\<lparr>q_displays := ds\<rparr>" now dyn] by (auto simp: qos_ok_def)
  have "quality_ok (latest_quality q2)" using q2 by (intro latest_quality_ok) (simp add: qos_ok_def)
  from quality_ratio_bounds [OF this] have b: "qos_ok (q2\<lparr>q_ratio := quality_ratio (latest_quality q2)\<rparr>)"
    using q2 by (simp add: qos_ok_def)
  show ?thesis unfolding update_display_data_def q1_def [symmetric] f(1) bind.simps q2_def [symmetric] Let_def
    using a b q2 by auto
qed

lemma ratio_read: "qos_ok q \<Longrightarrow> qos_ratio q = (q_ratio q, q)"
  by (simp add: qos_ratio_def qos_ok_def)

lemma fps_read: "qos_ok q \<Longrightarrow> qos_fps q = q_fps q"
  by (simp add: qos_fps_def qos_ok_def fps_ok_def)

lemma check_qos_ok:
  assumes "qos_ok q"
  shows "\<exists>r lp' q'. check_qos now c b n lp q = Some (r, lp', q') \<and> qos_ok q'"
proof -
  have s: "qos_ok (store_bitrate b q)" using assms by (simp add: store_bitrate_def qos_ok_def)
  show ?thesis
    using update_display_ok [OF assms, of now n "lp_send_counter lp"] update_display_ok [OF s, of now n "lp_send_counter lp"] assms s
    by (auto simp: check_qos_def ratio_read Let_def)
qed

lemma image_quality_ok: "qos_ok q \<Longrightarrow> qos_ok (user_image_quality t i v q)"
proof -
  assume q: "qos_ok q"
  then have us: "list_all (\<lambda>(i, u). user_ok u) (q_users q)" by (simp add: qos_ok_def)
  define q1 where "q1 = q\<lparr>q_users := hm_change i (\<lambda>u. u\<lparr>ud_quality := Some (t, convert_quality v)\<rparr>) (q_users q)\<rparr>"
  have "list_all (\<lambda>(i, u). user_ok u) (q_users q1)"
    using convert_quality_ok by (simp add: q1_def) (rule users_change [OF us], simp add: user_ok_def)
  moreover from this have "quality_ok (latest_quality q1)" by (rule latest_quality_ok)
  ultimately show ?thesis
    using q quality_ratio_bounds by (simp add: user_image_quality_def Let_def q1_def [symmetric]) (simp add: qos_ok_def q1_def)
qed

lemma default_ok: "qos_ok (video_qos_default now)"
  by (simp add: qos_ok_def video_qos_default_def fps_ok_def FPS_def MIN_FPS_def MAX_FPS_def ratio_defs)

lemma qos_step_ok:
  assumes q: "qos_ok q"
  shows "\<exists>q'. qos_step now e q = Some q' \<and> qos_ok q'"
proof (cases e)
  case (Connection_Open abr i)
  have "user_ok user_data_default" by (simp add: user_ok_def user_data_default_def user_delay_default_def)
  then show ?thesis using q by (auto simp: qos_step_def Connection_Open on_connection_open_def qos_ok_def hm_put_def hm_del_def list_all_iff)
next
  case (Connection_Close i)
  then show ?thesis using q default_ok
    by (auto simp: qos_step_def on_connection_close_def qos_ok_def hm_del_def list_all_iff Let_def)
next
  case (Custom_Fps i f)
  then show ?thesis using q qos_ok_users [OF q, of "\<lambda>u. u\<lparr>custom_fps := Some f\<rparr>" i]
    by (auto simp: qos_step_def user_custom_fps_def user_ok_def fps_ok_def not_less)
next
  case (Auto_Adjust_Fps i f)
  then show ?thesis using q qos_ok_users [OF q, of "\<lambda>u. u\<lparr>auto_adjust_fps := Some f\<rparr>" i]
    by (auto simp: qos_step_def user_auto_adjust_fps_def user_ok_def fps_ok_def not_less)
next
  case (User_Record i b)
  then show ?thesis using q qos_ok_users [OF q, of "\<lambda>u. u\<lparr>ud_record := b\<rparr>" i]
    by (auto simp: qos_step_def user_record_def user_ok_def)
next
  case (Check_Qos c b n lp)
  then show ?thesis using check_qos_ok [OF q, of now c b n lp] by (auto simp: qos_step_def)
qed (use q network_delay_ok [OF q] response_elapsed_ok [OF q] image_quality_ok [OF q] in
  \<open>auto simp: qos_step_def ratio_read new_display_def remove_display_def set_support_changing_quality_def store_bitrate_def qos_ok_def\<close>)

lemma qos_run_ok: "qos_ok q \<Longrightarrow> \<exists>q'. qos_run es q = Some q' \<and> qos_ok q'"
proof (induction es arbitrary: q)
  case (Cons p es)
  obtain now e where p: "p = (now, e)" by (cases p)
  from qos_step_ok [OF Cons.prems] obtain q1 where "qos_step now e q = Some q1" "qos_ok q1" by blast
  then show ?case using Cons.IH p by simp
qed simp

text \<open>C32 Whatever users, displays and networks do, and in whatever order, no clamp ever aborts, the frame rate stays between 1
  and 120, the ratio between that of the smallest and of the largest bitrate, so that the fallbacks of \<open>fps\<close> and
  \<open>ratio\<close> are never taken, and the histories of a user stay short.\<close>

theorem qos_stays_valid:
  "case qos_run es (video_qos_default start) of
     None \<Rightarrow> False
   | Some q \<Rightarrow>
       MIN_FPS \<le> q_fps q \<and> q_fps q \<le> MAX_FPS \<and> qos_fps q = q_fps q
       \<and> BR_MIN_HIGH_RESOLUTION \<le> q_ratio q \<and> q_ratio q \<le> BR_MAX \<and> qos_ratio q = (q_ratio q, q)
       \<and> list_all (\<lambda>(i, u). length (delay_history (ud_delay u)) \<le> 3 \<and> length (samples (rtt_calc (ud_delay u))) \<le> 60) (q_users q)"
proof -
  obtain q where q: "qos_run es (video_qos_default start) = Some q" "qos_ok q" using qos_run_ok [OF default_ok] by blast
  then show ?thesis using ratio_read [OF q(2)] fps_read [OF q(2)]
    by (auto simp: qos_ok_def fps_ok_def list_all_iff user_ok_def HISTORY_DELAY_LEN_def WINDOW_SAMPLES_def)
qed

section \<open>The slowest user sets the pace\<close>

text \<open>The frame rate suits every user: it is within what each of them asked for and what the network of each of them allows,
  at most 2 if an answer is overdue, and at most 15 in the first second of a user.\<close>

definition rate_fits :: "nat \<Rightarrow> video_qos \<Rightarrow> bool" where
  "rate_fits now q \<longleftrightarrow>
     list_all (\<lambda>(i, u). q_fps q \<le> user_fps u
       \<and> q_fps q \<le> (case delay_fps (ud_delay u) of Some f \<Rightarrow> f | None \<Rightarrow> INIT_FPS)
       \<and> (if response_delayed (ud_delay u) then q_fps q \<le> 2 else True)) (q_users q)
     \<and> (if elapsed_secs now (new_user_instant q) < 1 then q_fps q \<le> INIT_FPS else True)"

lemma Min_rates: "(i, u) \<in> set us \<Longrightarrow> P (g u) \<Longrightarrow> Min (set (filter P (List.map (\<lambda>(i, u). g u) us))) \<le> (g u :: 'a :: linorder)"
  by (rule Min_le) force+

lemma highest_fps_le:
  assumes "(i, u) \<in> set (q_users q)" "user_ok u"
  shows "highest_fps q \<le> user_fps u"
proof -
  have u: "MIN_FPS \<le> user_fps u"
    using assms(2) by (auto simp: user_fps_def user_ok_def fps_ok_def Let_def FPS_def MIN_FPS_def split: option.splits)
  have "filter (\<lambda>f. MIN_FPS \<le> f) (List.map (\<lambda>(i, u). user_fps u) (q_users q)) \<noteq> []"
    using assms(1) u by (force simp: filter_empty_conv)
  moreover have "Min (set (filter (\<lambda>f. MIN_FPS \<le> f) (List.map (\<lambda>(i, u). user_fps u) (q_users q)))) \<le> user_fps u"
    using assms(1) u by (rule Min_rates)
  ultimately show ?thesis using u unfolding highest_fps_def Let_def by (simp add: min.coboundedI2 del: set_filter)
qed

lemma adjusted_fits:
  assumes a: "adjust_fps now q = Some q'" and ok: "qos_ok q"
  shows "rate_fits now q'"
proof -
  let ?rates = "List.map (\<lambda>(i, u). case delay_fps (ud_delay u) of Some f \<Rightarrow> f | None \<Rightarrow> INIT_FPS) (q_users q)"
  define f0 where "f0 = (if ?rates = [] then INIT_FPS else Min (set ?rates))"
  define f1 where "f1 = (if list_ex (\<lambda>(i, u). response_delayed (ud_delay u)) (q_users q) \<and> MIN_FPS + 1 < f0 then MIN_FPS + 1 else f0)"
  define f2 where "f2 = (if elapsed_secs now (new_user_instant q) < 1 \<and> INIT_FPS < f1 then INIT_FPS else f1)"
  have q': "q' = q\<lparr>q_fps := max MIN_FPS (min (highest_fps q) f2)\<rparr>"
    using a unfolding adjust_fps_def Let_def f0_def [symmetric] f1_def [symmetric] f2_def [symmetric] clamped_fps by simp
  have c: "MIN_FPS \<le> highest_fps q" using highest_fps_ok [of q] by (simp add: fps_ok_def)
  have le: "q_fps q' \<le> m" if "f2 \<le> m" "MIN_FPS \<le> m" for m using that by (simp add: q' min.coboundedI2)
  have h: "q_fps q' \<le> highest_fps q" using c by (simp add: q')
  have f10: "f1 \<le> f0" "f2 \<le> f1" by (simp add: f1_def less_imp_le) (simp add: f2_def less_imp_le)
  have "q_fps q' \<le> user_fps u \<and> q_fps q' \<le> (case delay_fps (ud_delay u) of Some f \<Rightarrow> f | None \<Rightarrow> INIT_FPS)
      \<and> (response_delayed (ud_delay u) \<longrightarrow> q_fps q' \<le> 2)" if u: "(i, u) \<in> set (q_users q)" for i u
  proof -
    have k: "user_ok u" using ok u by (auto simp: qos_ok_def list_all_iff)
    have "q_fps q' \<le> user_fps u" using h highest_fps_le [OF u k] by (rule order.trans)
    moreover have "f0 \<le> (case delay_fps (ud_delay u) of Some f \<Rightarrow> f | None \<Rightarrow> INIT_FPS)"
      using u by (auto simp: f0_def intro!: Min_le)
    then have "q_fps q' \<le> (case delay_fps (ud_delay u) of Some f \<Rightarrow> f | None \<Rightarrow> INIT_FPS)"
      using f10 k by (intro le) (auto simp: user_ok_def fps_ok_def INIT_FPS_def MIN_FPS_def split: option.splits)
    moreover have "q_fps q' \<le> 2" if "response_delayed (ud_delay u)"
    proof (rule le)
      have "list_ex (\<lambda>(i, u). response_delayed (ud_delay u)) (q_users q)" using u that by (force simp: list_ex_iff)
      then have "f1 \<le> 2" by (auto simp: f1_def MIN_FPS_def not_less)
      then show "f2 \<le> 2" using f10(2) by simp
    qed (simp add: MIN_FPS_def)
    ultimately show ?thesis by simp
  qed
  moreover have "q_fps q' \<le> INIT_FPS" if "elapsed_secs now (new_user_instant q) < 1"
    using that by (intro le) (auto simp: f2_def INIT_FPS_def MIN_FPS_def)
  ultimately show ?thesis by (auto simp: rate_fits_def list_all_iff q')
qed

lemma fits_cong: "q_fps q' = q_fps q \<Longrightarrow> q_users q' = q_users q \<Longrightarrow> new_user_instant q' = new_user_instant q
    \<Longrightarrow> rate_fits now q \<Longrightarrow> rate_fits now q'"
  unfolding rate_fits_def by (simp only: simp_thms) (erule conjunct2)

lemma adjust_ratio_keeps:
  "adjust_ratio now dyn q = Some q' \<Longrightarrow> q_fps q' = q_fps q \<and> q_users q' = q_users q \<and> new_user_instant q' = new_user_instant q"
  by (auto simp: adjust_ratio_def Let_def split: if_splits)

lemma network_delay_steps:
  assumes "user_network_delay now i delay q = Some q'" "hm_get (q_users q) i = Some u" "qos_ok q"
  obtains d q2 where
    "delayed_user (quality_ratio (latest_quality q)) (highest_fps q) (q_fps q) delay (ud_delay u) = Some d"
    "qos_ok (q\<lparr>q_users := hm_change i (\<lambda>u. u\<lparr>ud_delay := d\<rparr>) (q_users q)\<rparr>)"
    "adjust_fps now (q\<lparr>q_users := hm_change i (\<lambda>u. u\<lparr>ud_delay := d\<rparr>) (q_users q)\<rparr>) = Some q2"
    "q_fps q' = q_fps q2" "q_users q' = q_users q2" "new_user_instant q' = new_user_instant q2"
proof -
  let ?del = "delayed_user (quality_ratio (latest_quality q)) (highest_fps q) (q_fps q) delay (ud_delay u)"
  obtain d where d: "?del = Some d" "pred_option fps_ok (delay_fps d)" "length (delay_history d) \<le> HISTORY_DELAY_LEN + 1"
    "length (samples (rtt_calc d)) \<le> WINDOW_SAMPLES"
    using delayed_user_Some [of "quality_ratio (latest_quality q)" q "q_fps q" delay "ud_delay u"] add_delay_lengths [of "ud_delay u"]
      user_found [OF _ assms(2)] assms(3) unfolding user_ok_def qos_ok_def by fastforce
  let ?q1 = "q\<lparr>q_users := hm_change i (\<lambda>u. u\<lparr>ud_delay := d\<rparr>) (q_users q)\<rparr>"
  have q1: "qos_ok ?q1" using d by (intro qos_ok_users [OF assms(3)]) (simp add: user_ok_def)
  obtain f where f: "adjust_fps now ?q1 = Some (?q1\<lparr>q_fps := f\<rparr>)" using adjust_fps_Some by blast
  have r: "(if delay_fps (ud_delay u) = None then adjust_ratio now False (?q1\<lparr>q_fps := f\<rparr>) else Some (?q1\<lparr>q_fps := f\<rparr>)) = Some q'"
    using assms(1) unfolding user_network_delay_def assms(2) option.case d(1) bind.simps f .
  have "q_fps q' = q_fps (?q1\<lparr>q_fps := f\<rparr>) \<and> q_users q' = q_users (?q1\<lparr>q_fps := f\<rparr>) \<and> new_user_instant q' = new_user_instant (?q1\<lparr>q_fps := f\<rparr>)"
    using r by (cases "delay_fps (ud_delay u)") (auto dest!: adjust_ratio_keeps)
  then show ?thesis using that [OF d(1) q1 f] by blast
qed

lemma network_delay_fits:
  assumes "user_network_delay now i delay q = Some q'" "qos_ok q"
  shows "rate_fits now q'"
proof (cases "hm_get (q_users q) i")
  case None
  then show ?thesis using assms adjusted_fits by (simp add: user_network_delay_def)
next
  case (Some u)
  obtain d q2 where "qos_ok (q\<lparr>q_users := hm_change i (\<lambda>u. u\<lparr>ud_delay := d\<rparr>) (q_users q)\<rparr>)"
    "adjust_fps now (q\<lparr>q_users := hm_change i (\<lambda>u. u\<lparr>ud_delay := d\<rparr>) (q_users q)\<rparr>) = Some q2"
    "q_fps q' = q_fps q2" "q_users q' = q_users q2" "new_user_instant q' = new_user_instant q2"
    using assms(1) Some assms(2) by (rule network_delay_steps)
  then show ?thesis using adjusted_fits fits_cong by blast
qed

lemma update_display_fits:
  assumes "update_display_data now n sent q = Some q'" "qos_ok q"
  shows "rate_fits now q'"
proof -
  define q1 where "q1 = q\<lparr>q_displays := hm_change n (\<lambda>d. d\<lparr>send_counter := send_counter d + sent\<rparr>) (q_displays q)\<rparr>"
  have q1: "qos_ok q1" using assms(2) by (simp add: q1_def qos_ok_def)
  obtain q2 where a: "adjust_fps now q1 = Some q2" using adjust_fps_Some by blast
  have "q_fps q' = q_fps q2 \<and> q_users q' = q_users q2 \<and> new_user_instant q' = new_user_instant q2"
    using assms(1) unfolding update_display_data_def q1_def [symmetric] a bind.simps
    by (auto simp: Let_def split: if_splits dest!: adjust_ratio_keeps)
  then show ?thesis using adjusted_fits [OF a q1] fits_cong by blast
qed

text \<open>C37 Nobody is sent more frames than they can take: after any run of the program, once a delay has been measured or a
  display has reported, the frame rate is within what every user asked for and what the network of every user
  allows, at most 2 while an answer is overdue, and at most 15 in the first second after a user came.\<close>

theorem frames_suit_everybody:
  assumes "qos_run es (video_qos_default start) = Some q"
    and "user_network_delay now i delay q = Some q' \<or> update_display_data now n sent q = Some q'"
  shows "rate_fits now q'"
proof -
  have "qos_ok q" using qos_run_ok [OF default_ok, of es start] assms(1) by auto
  then show ?thesis using assms(2) network_delay_fits update_display_fits by blast
qed

lemma rate_for_delay_bound:
  assumes "200 \<le> avg"
  shows "fst (rate_for_delay (fst (rate_bounds t)) (snd (rate_bounds t)) fps old avg quick)
    \<le> (if 600 \<le> avg then 3 else if 300 \<le> avg then 6 else 12)"
proof -
  define m where "m = fst (rate_bounds t)"
  have m: "m = 8 \<or> m = 10 \<or> m = 12" by (auto simp: m_def rate_bounds_def)
  have n: "\<not> avg < 50" "\<not> avg < 100" "\<not> avg < DELAY_THRESHOLD_150MS" "\<not> avg < 200"
    using assms unfolding DELAY_THRESHOLD_150MS_def word_le_nat_alt word_less_nat_alt by simp_all
  have dv: "DELAY_THRESHOLD_150MS * m div avg \<le> (if 600 \<le> avg then 3 else 6)" if "300 \<le> avg"
  proof -
    have "unat (DELAY_THRESHOLD_150MS * m) \<le> 1800" using m by (auto simp: DELAY_THRESHOLD_150MS_def)
    then have "unat (DELAY_THRESHOLD_150MS * m div avg) \<le> 1800 div unat avg" by (simp add: unat_div div_le_mono)
    moreover have "1800 div unat avg \<le> 1800 div 300" using that by (intro div_le_mono2) (auto simp: word_le_nat_alt)
    moreover have "1800 div unat avg \<le> 1800 div 600" if "600 \<le> avg" using that by (intro div_le_mono2) (auto simp: word_le_nat_alt)
    ultimately show ?thesis by (auto simp: word_le_nat_alt)
  qed
  have "600 \<le> avg \<Longrightarrow> 300 \<le> avg" unfolding word_le_nat_alt by simp
  then consider "\<not> 300 \<le> avg" "\<not> 600 \<le> avg" | "300 \<le> avg" "\<not> 600 \<le> avg" | "300 \<le> avg" "600 \<le> avg" by blast
  then show ?thesis
  proof cases
    case 1
    have "m \<le> 12" using m by auto
    moreover have "avg < 300" using 1 by (simp only: not_le)
    ultimately show ?thesis using n 1 by (simp add: rate_for_delay_def Let_def m_def [symmetric] min.coboundedI1 del: not_le)
  next
    case 2
    moreover have "avg < 600" using 2 by (simp only: not_le)
    ultimately show ?thesis using n dv by (simp add: rate_for_delay_def Let_def m_def [symmetric] leD del: not_le)
  next
    case 3
    then show ?thesis using n dv by (simp add: rate_for_delay_def Let_def m_def [symmetric] leD min.coboundedI1)
  qed
qed

lemma delayed_user_rate:
  assumes d: "delayed_user t highest fps delay d0 = Some d" and slow: "200 \<le> avg_delay (add_delay (max 10 delay) d0)"
  shows "\<exists>f. delay_fps d = Some f \<and> f \<le> (if 600 \<le> avg_delay (add_delay (max 10 delay) d0) then 3
    else if 300 \<le> avg_delay (add_delay (max 10 delay) d0) then 6 else 12)"
proof -
  let ?d = "add_delay (max 10 delay) d0"
  have a: "max 10 (avg_delay ?d) = avg_delay ?d" using slow by (intro max_absorb2) (simp add: word_le_nat_alt)
  have n: "\<not> avg_delay ?d < DELAY_THRESHOLD_150MS" using slow by (simp add: DELAY_THRESHOLD_150MS_def word_le_nat_alt word_less_nat_alt)
  obtain f quick where r: "rate_for_delay (fst (rate_bounds t)) (snd (rate_bounds t)) fps (avg_delay d0) (avg_delay ?d)
      (quick_increase_fps_count ?d) = (f, quick)" by fastforce
  have f: "f \<le> (if 600 \<le> avg_delay ?d then 3 else if 300 \<le> avg_delay ?d then 6 else 12)"
    using rate_for_delay_bound [OF slow, of t fps "avg_delay d0" "quick_increase_fps_count ?d"] r by simp
  have "map_option delay_fps (delayed_user t highest fps delay d0) = map_option Some (clamped MIN_FPS highest f)"
    unfolding delayed_user_def Let_def case_prod_beta a r using n by (simp add: option.map_comp comp_def)
  moreover have "f' \<le> m" if "clamped MIN_FPS highest f = Some f'" "f \<le> m" "MIN_FPS \<le> m" for f' m
    using that by (auto simp: clamped_def split: if_splits)
  moreover have "MIN_FPS \<le> (if 600 \<le> avg_delay ?d then 3 else if 300 \<le> avg_delay ?d then 6 else (12 :: u32))" by (simp add: MIN_FPS_def)
  ultimately show ?thesis using d f by (cases "clamped MIN_FPS highest f") auto
qed

text \<open>C39 A slow link slows everybody down at once: when the delay of one user, less the round trip, reaches 200 ms on average, all
  users get at most 12 frames a second, at 300 ms at most 6, at 600 ms at most 3.\<close>

theorem slow_link_slows_frames:
  assumes run: "qos_run es (video_qos_default start) = Some q" and step: "user_network_delay now i delay q = Some q'"
    and u: "hm_get (q_users q) i = Some u" and slow: "200 \<le> avg_delay (add_delay (max 10 delay) (ud_delay u))"
  shows "q_fps q' \<le> (if 600 \<le> avg_delay (add_delay (max 10 delay) (ud_delay u)) then 3
    else if 300 \<le> avg_delay (add_delay (max 10 delay) (ud_delay u)) then 6 else 12)"
proof -
  have ok: "qos_ok q" using qos_run_ok [OF default_ok, of es start] run by auto
  obtain d q2 where d: "delayed_user (quality_ratio (latest_quality q)) (highest_fps q) (q_fps q) delay (ud_delay u) = Some d"
    and "adjust_fps now (q\<lparr>q_users := hm_change i (\<lambda>u. u\<lparr>ud_delay := d\<rparr>) (q_users q)\<rparr>) = Some q2" and us: "q_users q' = q_users q2"
    using network_delay_steps [OF step u ok] by metis
  then have us': "q_users q' = hm_change i (\<lambda>u. u\<lparr>ud_delay := d\<rparr>) (q_users q)"
    using adjust_fps_Some [of now "q\<lparr>q_users := hm_change i (\<lambda>u. u\<lparr>ud_delay := d\<rparr>) (q_users q)\<rparr>"] by auto
  have "(i, u) \<in> set (q_users q)" using u by (simp add: hm_get_def map_of_SomeD)
  then have m: "(i, u\<lparr>ud_delay := d\<rparr>) \<in> set (q_users q')" unfolding us' hm_change_def by force
  obtain f where f: "delay_fps d = Some f" "f \<le> (if 600 \<le> avg_delay (add_delay (max 10 delay) (ud_delay u)) then 3
    else if 300 \<le> avg_delay (add_delay (max 10 delay) (ud_delay u)) then 6 else 12)" using delayed_user_rate [OF d slow] by blast
  have "q_fps q' \<le> f" using network_delay_fits [OF step ok] m f(1) by (fastforce simp: rate_fits_def list_all_iff)
  then show ?thesis using f(2) by (rule order.trans)
qed

section \<open>Steady links\<close>

text \<open>What equal delays leave behind.\<close>

definition steady :: "u32 \<Rightarrow> nat \<Rightarrow> user_delay" where
  "steady d n = fold add_delay (replicate n d) user_delay_default"

lemma steady_Suc: "steady d (Suc n) = add_delay d (steady d n)"
  by (simp add: steady_def flip: replicate_append_same)

lemma smoothed_steady:
  assumes "d < 2 ^ 24"
  shows "f32_to_u32 (f32 (f32 (f32 (1 - ALPHA) * u32_to_f32 d) + f32 (ALPHA * u32_to_f32 d))) = d"
proof -
  have n: "unat d \<le> 2 ^ 24" using assms by (simp add: word_less_nat_alt)
  have c: "u32_to_f32 d = of_nat (unat d)" using f32_nat [OF n] by (simp only: u32_to_f32_def)
  have h: "f32 (1 - ALPHA) = 1 / 2" "ALPHA = 1 / 2" "f32 (1 - 1 / 2) = 1 / 2" by (simp_all add: ALPHA_def ratio_values)
  have "1 / 2 * of_nat (unat d) + 1 / 2 * of_nat (unat d) = (of_nat (unat d) :: rat)" by (simp only: field_simps)
  then have e: "f32 (f32 (f32 (1 - ALPHA) * u32_to_f32 d) + f32 (ALPHA * u32_to_f32 d)) = of_nat (unat d)"
    by (simp only: c h f32_half [OF n] f32_nat [OF n])
  have m: "min (2 ^ 32 - 1) (unat d) = unat d" using n by simp
  show ?thesis unfolding f32_to_u32_def e floor_of_nat nat_int m by simp
qed

lemma replicate_last: "replicate k d @ [d] = replicate (Suc k) d"
  by (simp add: replicate_append_same)

lemma steady_state:
  assumes "d < 2 ^ 24"
  shows "delay_history (steady d n) = replicate (min n 3) d \<and> samples (rtt_calc (steady d n)) = replicate (min n 60) d
    \<and> min_rtt (rtt_calc (steady d n)) = (if n = 0 then None else Some d)
    \<and> (smoothed_rtt (rtt_calc (steady d n)) = (if n < 60 then None else Some d))"
proof (induction n)
  case 0
  then show ?case by (simp add: steady_def user_delay_default_def)
next
  case (Suc n)
  have h: "(if HISTORY_DELAY_LEN < length (replicate (min n 3) d) then tl (replicate (min n 3) d) else replicate (min n 3) d) @ [d]
      = replicate (min (Suc n) 3) d"
    by (auto simp: HISTORY_DELAY_LEN_def min_def replicate_last tl_replicate simp flip: replicate_Suc)
  have w: "(if WINDOW_SAMPLES \<le> length (replicate (min n 60) d) then tl (replicate (min n 60) d) else replicate (min n 60) d) @ [d]
      = replicate (min (Suc n) 60) d"
    by (auto simp: WINDOW_SAMPLES_def min_def replicate_last tl_replicate simp flip: replicate_Suc)
  have l: "WINDOW_SAMPLES \<le> length (replicate (min (Suc n) 60) d) \<longleftrightarrow> \<not> Suc n < 60" by (auto simp: WINDOW_SAMPLES_def)
  have m: "Min (set (replicate (min (Suc n) 60) d)) = d" by (simp add: set_replicate_conv_if)
  define s where "s = steady d n"
  have ih: "delay_history s = replicate (min n 3) d" "samples (rtt_calc s) = replicate (min n 60) d"
    "min_rtt (rtt_calc s) = (if n = 0 then None else Some d)" "smoothed_rtt (rtt_calc s) = (if n < 60 then None else Some d)"
    using Suc by (simp_all add: s_def)
  have "delay_history (add_delay d s) = replicate (min (Suc n) 3) d"
  proof -
    have "delay_history (add_delay d s)
        = (if HISTORY_DELAY_LEN < length (delay_history s) then tl (delay_history s) else delay_history s) @ [d]"
      by (simp add: add_delay_def)
    then show ?thesis unfolding ih h .
  qed
  moreover have c: "(case min_rtt (rtt_calc s) of Some m \<Rightarrow> if d < m then d else m | None \<Rightarrow> d) = d" by (simp add: ih)
  have "rtt_update d (rtt_calc s) = (rtt_calc s)\<lparr>min_rtt := Some d, samples := replicate (min (Suc n) 60) d, window_min_rtt := Some d,
      smoothed_rtt := (if n < 59 then smoothed_rtt (rtt_calc s) else Some d)\<rparr>"
    unfolding rtt_update_def Let_def ih(2) w m l c smoothed_steady [OF assms] by simp
  ultimately show ?case unfolding steady_Suc s_def [symmetric] by (simp add: add_delay_def ih(4))
qed

lemma thrice_div: "3 * unat d + k < 2 ^ 32 \<Longrightarrow> k div 3 = j \<Longrightarrow> (d + (d + (d + of_nat k))) div 3 = d + of_nat j" for d :: u32
proof -
  assume k: "3 * unat d + k < 2 ^ 32" and j: "k div 3 = j"
  have "d + (d + (d + of_nat k)) = of_nat (3 * unat d + k)" by (simp add: algebra_simps)
  then have "unat (d + (d + (d + of_nat k))) = 3 * unat d + k" using k by (simp only: unat_of_nat) simp
  then have "unat ((d + (d + (d + of_nat k))) div 3) = unat d + j" by (simp add: unat_div j [symmetric])
  moreover have "unat (d + of_nat j) = unat d + j"
  proof -
    have "d + of_nat j = of_nat (unat d + j)" by simp
    moreover have "unat d + j < 2 ^ 32" using k j div_le_dividend [of k 3] by linarith
    ultimately show ?thesis by (simp only: unat_of_nat) simp
  qed
  ultimately show ?thesis by (simp add: word_unat_eq_iff)
qed

text \<open>C40 The delay less the round trip is not what a steady link gets: after ten or more equal delays the round trip is known to
  be that delay, and yet the link counts with the whole of it, since nothing is taken off when both are equal; one
  delay that is 3 ms longer, and it counts with 1 ms.\<close>

theorem steady_link_counts_whole_delay:
  assumes n: "10 \<le> n" and d: "d < 2 ^ 24"
  shows "get_rtt (rtt_calc (steady d n)) = Some d \<and> avg_delay (steady d n) = d
    \<and> avg_delay (add_delay (d + 3) (steady d n)) = 1"
proof -
  note st = steady_state [OF d, of n]
  have u: "3 * unat d + 3 < 2 ^ 32" using d by (simp add: word_less_nat_alt)
  have rtt: "get_rtt (rtt_calc (steady d n)) = Some d" using st n by (auto simp: get_rtt_def MIN_SAMPLES_def)
  have hist: "delay_history (steady d n) = [d, d, d]" using st n by (simp add: numeral_3_eq_3 min_def)
  have a: "avg_delay (steady d n) = d"
    using thrice_div [of d 0 0] u by (simp add: avg_delay_def hist rtt Let_def add.assoc)
  define e where "e = add_delay (d + 3) (steady d n)"
  have less: "d < d + 3"
  proof -
    have "d + 3 = of_nat (unat d + 3)" by simp
    then have "unat (d + 3) = unat d + 3" using u by (simp only: unat_of_nat) simp
    then show ?thesis by (simp add: word_less_nat_alt)
  qed
  have k: "1 < min n 60" using n by simp
  have m: "Min (set ((if WINDOW_SAMPLES \<le> min n 60 then replicate (min n 60 - 1) d else replicate (min n 60) d) @ [d + 3])) = d"
    using less k by (auto simp: set_replicate_conv_if min_def)
  have sm: "smoothed_rtt (rtt_calc e) = None \<or> smoothed_rtt (rtt_calc e) = Some d" "min_rtt (rtt_calc e) = Some d"
    "MIN_SAMPLES \<le> length (samples (rtt_calc e))"
    using st n m less smoothed_steady [OF d]
    by (auto simp: e_def add_delay_def rtt_update_def Let_def MIN_SAMPLES_def WINDOW_SAMPLES_def tl_replicate)
  have "get_rtt (rtt_calc e) = Some d" using sm by (auto simp: get_rtt_def)
  moreover have "delay_history e = [d, d, d + 3]" by (simp add: e_def add_delay_def hist HISTORY_DELAY_LEN_def)
  moreover have "(d + (d + (d + 3))) div 3 = d + 1" using thrice_div [of d 3 1] u by simp
  moreover have "d < d + 1"
  proof -
    have "d + 1 = of_nat (unat d + 1)" by simp
    then have "unat (d + 1) = unat d + 1" using u by (simp only: unat_of_nat) simp
    then show ?thesis by (simp add: word_less_nat_alt)
  qed
  ultimately have "avg_delay e = 1" by (simp add: avg_delay_def Let_def)
  then show ?thesis using rtt a by (simp add: e_def)
qed

lemma steady_link_counts_whole_delay_witness:
  "get_rtt (rtt_calc (steady 300 10)) = Some 300 \<and> avg_delay (steady 300 10) = 300
    \<and> avg_delay (add_delay (300 + 3) (steady 300 10)) = 1"
  by (rule steady_link_counts_whole_delay) simp_all

section \<open>The quality yields\<close>

lemma slower_factors:
  "1 / 2 \<le> f32 (95 / 100) \<and> f32 (95 / 100) \<le> 951 / 1000" "1 / 2 \<le> f32 (9 / 10) \<and> f32 (9 / 10) \<le> 951 / 1000"
  "1 / 2 \<le> f32 (85 / 100) \<and> f32 (85 / 100) \<le> 951 / 1000" "1 / 2 \<le> f32 (8 / 10) \<and> f32 (8 / 10) \<le> 951 / 1000"
  by code_simp+

lemma slower_product:
  assumes r: "BR_MIN_HIGH_RESOLUTION \<le> r" and c: "1 / 2 \<le> c \<and> c \<le> 951 / 1000"
  shows "f32 (r * c) \<le> 24 / 25 * r"
proof -
  have r10: "1 / 100 \<le> r" using r by (simp add: ratio_defs)
  have "1 / 100 * (1 / 2) \<le> r * c" using r10 c by (intro mult_mono) auto
  moreover have "2 powi (- 126) \<le> (1 / 100 * (1 / 2) :: rat)" by (simp add: power_int_minus)
  ultimately have "f32 (r * c) \<le> r * c * (1 + 1 / 2 ^ 24)" by (intro f32_le) linarith
  also have "\<dots> \<le> r * (951 / 1000) * (1 + 1 / 2 ^ 24)" using r10 c by (intro mult_right_mono mult_left_mono) auto
  also have "\<dots> \<le> 24 / 25 * r" using r10 by simp
  finally show ?thesis .
qed

lemma wanted_lower:
  assumes "150 \<le> delay" and r: "BR_MIN_HIGH_RESOLUTION \<le> r"
  shows "wanted_ratio delay dyn r b \<le> 24 / 25 * r"
proof -
  define v where "v = (if delay < 200 then f32 (r * f32 (95 / 100)) else if delay < 300 then f32 (r * f32 (9 / 10))
    else if delay < 500 then f32 (r * f32 (85 / 100)) else f32 (r * f32 (8 / 10)))"
  have n: "\<not> delay < 50" "\<not> delay < 100" "\<not> delay < DELAY_THRESHOLD_150MS"
    using assms(1) unfolding DELAY_THRESHOLD_150MS_def word_le_nat_alt word_less_nat_alt by simp_all
  have v: "v \<le> 24 / 25 * r"
    using slower_product [OF r slower_factors(1)] slower_product [OF r slower_factors(2)] slower_product [OF r slower_factors(3)]
      slower_product [OF r slower_factors(4)] unfolding v_def
    by (cases "delay < 200"; cases "delay < 300"; cases "delay < 500") (simp_all only: if_True if_False)
  have "0 \<le> r" using r by (simp add: ratio_defs)
  then have "v \<le> r" using v by linarith
  then have "\<not> (0 < b \<and> a < v \<and> r < a \<and> BR_SPEED \<le> r)" for a by linarith
  then have "wanted_ratio delay dyn r b = v" unfolding wanted_ratio_def Let_def by (simp only: n if_False v_def [symmetric])
  then show ?thesis using v by simp
qed

text \<open>On a bad network the quality yields: when the delay of some user, less the round trip, is 150 ms or more on average,
  an adjustment lowers the ratio by at least 4 in 100, or to the lower end for the quality that is wanted; and no
  adjustment ever raises it above that quality.\<close>

theorem bad_network_lowers_quality:
  assumes run: "qos_run es (video_qos_default start) = Some q" and a: "adjust_ratio now dyn q = Some q'" and vbr: "in_vbr_state q"
    and bad: "list_ex (\<lambda>(i, u). 150 \<le> avg_delay (ud_delay u)) (q_users q)"
  shows "q_ratio q' \<le> max (min_ratio (latest_quality q) (q_ratio q) (bitrate_store q)) (24 / 25 * q_ratio q)
    \<and> q_ratio q' \<le> quality_ratio (latest_quality q)"
proof -
  have ok: "qos_ok q" using qos_run_ok [OF default_ok, of es start] run by auto
  have k: "quality_ok (latest_quality q)" using ok by (intro latest_quality_ok) (simp add: qos_ok_def)
  let ?m = "min_ratio (latest_quality q) (q_ratio q) (bitrate_store q)" and ?t = "quality_ratio (latest_quality q)"
  let ?delay = "Max (set (List.map (\<lambda>(i, u). avg_delay (ud_delay u)) (q_users q)))"
  let ?v = "wanted_ratio ?delay dyn (q_ratio q) (bitrate_store q)"
  have mt: "?m \<le> ?t" "f32 (?t * MAX_BR_MULTIPLE) = ?t" using min_ratio_bounds [OF k] quality_ratio_ok [OF k] by simp_all
  have ne: "q_users q \<noteq> []" using bad by auto
  obtain i u where u: "(i, u) \<in> set (q_users q)" "150 \<le> avg_delay (ud_delay u)" using bad by (auto simp: list_ex_iff)
  have "avg_delay (ud_delay u) \<le> ?delay" using u(1) by (intro Max_ge) force+
  then have "150 \<le> ?delay" using u(2) by (rule order.trans [rotated])
  then have v: "?v \<le> 24 / 25 * q_ratio q" using ok by (intro wanted_lower) (simp_all add: qos_ok_def)
  have "q_ratio q' = max ?m (min ?t ?v)"
    using a vbr ne unfolding adjust_ratio_def Let_def mt(2) clamped_ok [OF mt(1)] by auto
  then show ?thesis using v mt(1) by (auto simp: max_def min_def)
qed

section \<open>A viewer\<close>

definition viewer :: video_qos where
  "viewer = on_connection_open 0 True 1 (video_qos_default 0)"

lemma viewer_run: "qos_run [(0, Connection_Open True 1)] (video_qos_default 0) = Some viewer"
  by (simp add: qos_step_def viewer_def)

lemma viewer_ok: "qos_ok viewer"
  using qos_run_ok [OF default_ok, of "[(0, Connection_Open True 1)]" 0] viewer_run by auto

lemma viewer_user: "q_users viewer = [(1, user_data_default)]"
  by (simp add: viewer_def on_connection_open_def video_qos_default_def hm_put_def hm_del_def)

lemma frames_suit_everybody_witness: "\<exists>q'. user_network_delay 5000 1 20 viewer = Some q' \<and> rate_fits 5000 q'"
  using network_delay_ok [OF viewer_ok, of 5000 1 20] frames_suit_everybody [OF viewer_run, of 5000 1 20] by blast

lemma slow_link_slows_frames_witness: "\<exists>q'. user_network_delay 5000 1 700 viewer = Some q' \<and> q_fps q' \<le> 3"
proof -
  obtain q' where q': "user_network_delay 5000 1 700 viewer = Some q'" using network_delay_ok [OF viewer_ok] by blast
  have u: "hm_get (q_users viewer) 1 = Some user_data_default" by (simp add: viewer_user hm_get_def)
  have a: "avg_delay (add_delay (max 10 700) (ud_delay user_data_default)) = 700"
    by (simp add: avg_delay_def add_delay_def rtt_update_def get_rtt_def user_data_default_def user_delay_default_def
      HISTORY_DELAY_LEN_def WINDOW_SAMPLES_def MIN_SAMPLES_def Let_def)
  have "200 \<le> avg_delay (add_delay (max 10 700) (ud_delay user_data_default))" unfolding a by simp
  from slow_link_slows_frames [OF viewer_run q' u this] have "q_fps q' \<le> 3" unfolding a by simp
  then show ?thesis using q' by blast
qed

lemma bad_network_lowers_quality_witness:
  "\<exists>q'. adjust_ratio 5000 False viewer = Some q' \<and> q_ratio q' \<le> quality_ratio (latest_quality viewer)"
proof -
  obtain q' where q': "adjust_ratio 5000 False viewer = Some q'" using adjust_ratio_Some [OF viewer_ok] by blast
  have "in_vbr_state viewer" by (simp add: in_vbr_state_def viewer_def on_connection_open_def video_qos_default_def)
  moreover have "list_ex (\<lambda>(i, u). 150 \<le> avg_delay (ud_delay u)) (q_users viewer)"
    by (simp add: viewer_user user_data_default_def user_delay_default_def avg_delay_def DELAY_THRESHOLD_150MS_def)
  ultimately show ?thesis using bad_network_lowers_quality [OF viewer_run q'] q' by blast
qed

end
